(* ===== verification/Prelude.thy ===== *)
theory Prelude
  imports Complex_Main "HOL-Library.Word" "HOL-Library.Monad_Syntax" "HOL-Library.Multiset"
begin

text \<open>
  The shared prelude of the development: the collections of simplification rules the component
  theories fill, the names of the machine types of the LP64 Linux build that is modelled, and the
  generic facts on lists, maps, options and words that several components use.

  The convention on failure used everywhere below: a C operation that would dereference a null or
  a freed pointer, index an array out of its bounds, or call \<open>abort\<close>, is a partial operation of
  the option monad and returns \<open>None\<close> there.  A theorem that a result is \<open>Some\<close> therefore says
  that no such fault happens.
\<close>

section \<open>Collections\<close>

named_theorems frame_simps \<open>operations that leave a part of the state alone\<close>
named_theorems queue_simps \<open>effect of the queue operations on the abstract queue\<close>

section \<open>Machine types\<close>

type_synonym u8  = "8 word"
type_synonym u16 = "16 word"
type_synonym u32 = "32 word"
type_synonym u64 = "64 word"

text \<open>An address of a C object; \<open>None\<close> is the null pointer.\<close>

type_synonym addr = nat
type_synonym ptr = "addr option"

section \<open>Options\<close>

lemma bind_eq_SomeI:
  "m = Some x \<Longrightarrow> f x = Some y \<Longrightarrow> Option.bind m f = Some y"
  by simp

section \<open>Lists\<close>

lemma nth_list_update_if:
  "i < length xs \<Longrightarrow> xs[i := x] ! j = (if j = i then x else xs ! j)"
  by (simp add: nth_list_update)

lemma set_concat_nth:
  "x \<in> set (concat xss) \<longleftrightarrow> (\<exists>i < length xss. x \<in> set (xss ! i))"
  by (force simp: in_set_conv_nth)

lemma nth_in_concat: "i < length xss \<Longrightarrow> x \<in> set (xss ! i) \<Longrightarrow> x \<in> set (concat xss)"
  by (auto simp: set_concat_nth)

text \<open>Replacing one row of a table of lists, as a statement on the multiset of all entries.\<close>

lemma mset_concat_update:
  "i < length xss \<Longrightarrow>
   mset (concat (xss[i := ys])) + mset (xss ! i) = mset (concat xss) + mset ys"
proof (induction xss arbitrary: i)
  case Nil
  then show ?case by simp
next
  case (Cons xs xss)
  show ?case
  proof (cases i)
    case 0
    then show ?thesis by simp
  next
    case (Suc j)
    then have "mset (concat (xss[j := ys])) + mset (xss ! j) = mset (concat xss) + mset ys"
      using Cons by simp
    then show ?thesis using Suc by simp
  qed
qed

lemma length_concat_update:
  assumes "i < length xss"
  shows "length (concat (xss[i := ys])) + length (xss ! i) = length (concat xss) + length ys"
  using arg_cong [OF mset_concat_update [OF assms, of ys], of size] by simp

lemma distinct_mset_iff: "mset xs = mset ys \<Longrightarrow> distinct xs \<longleftrightarrow> distinct ys"
  by (metis mset_eq_imp_distinct_iff)

lemma distinct_concat_row: "distinct (concat xss) \<Longrightarrow> i < length xss \<Longrightarrow> distinct (xss ! i)"
  by (auto simp: distinct_concat_iff)

lemma distinct_concat_disjoint:
  "distinct (concat xss) \<Longrightarrow> i < length xss \<Longrightarrow> j < length xss \<Longrightarrow> i \<noteq> j \<Longrightarrow>
   x \<in> set (xss ! i) \<Longrightarrow> x \<notin> set (xss ! j)"
proof (induction xss arbitrary: i j)
  case Nil
  then show ?case by simp
next
  case (Cons xs xss)
  then have "set xs \<inter> set (concat xss) = {}" "distinct (concat xss)" by auto
  note split = this
  show ?case
  proof (cases i)
    case 0
    then obtain j' where "j = Suc j'" using Cons.prems(4) by (cases j) auto
    with Cons.prems 0 nth_in_concat [of j' xss x] split(1) show ?thesis
      by (auto simp del: set_concat)
  next
    case (Suc i')
    show ?thesis
    proof (cases j)
      case 0
      with Cons.prems Suc nth_in_concat [of i' xss x] split(1) show ?thesis
        by (auto simp del: set_concat)
    next
      case (Suc j')
      with \<open>i = Suc i'\<close> Cons.prems show ?thesis
        using Cons.IH [OF split(2), of i' j'] by simp
    qed
  qed
qed

section \<open>Words\<close>

lemma word_of_nat_Suc: "(of_nat (Suc n) :: 'a::len word) = of_nat n + 1"
  by simp

section \<open>Transition systems\<close>

text \<open>
  The contract of an inductive invariant: it holds in the start states and every step keeps it.
  Then it holds in every state that can be reached.
\<close>

locale trans_sys =
  fixes start :: "'s \<Rightarrow> bool"
    and step :: "'s \<Rightarrow> 's \<Rightarrow> bool"
    and inv :: "'s \<Rightarrow> bool"
  assumes start_inv: "start s \<Longrightarrow> inv s"
    and step_inv: "step s s' \<Longrightarrow> inv s \<Longrightarrow> inv s'"
begin

lemma reach_inv:
  assumes "start s" "step\<^sup>*\<^sup>* s s'"
  shows "inv s'"
  using assms(2)
proof (induction rule: rtranclp_induct)
  case base
  show ?case using assms(1) by (rule start_inv)
next
  case (step s' s'')
  then show ?case by (blast intro: step_inv)
qed

end

end
