(* ===== verification/Request.thy ===== *)
theory Request
  imports Prelude
begin

text \<open>
  The data model of a request: the \<open>eio_req\<close> structure of \<open>libeio/eio.h\<close>, its type, priority and
  flag constants, the working-directory handles and directory entries it refers to, and the heap
  of live requests.  A request is identified by its address; the heap maps an address to the
  structure while it is allocated, and to \<open>None\<close> before \<open>calloc\<close> and after \<open>free\<close>.
\<close>

section \<open>Request types\<close>

text \<open>
  The anonymous enumeration of request types.  \<open>type_code\<close> gives the integer a constant has; the
  private \<open>ETP_TYPE_QUIT\<close> is defined as -1 in \<open>eio.c\<close>.
\<close>

datatype eio_type =
    EIO_CUSTOM
  | EIO_WD_OPEN | EIO_WD_CLOSE
  | EIO_CLOSE | EIO_DUP2
  | EIO_SEEK | EIO_READ | EIO_WRITE | EIO_FCNTL | EIO_IOCTL
  | EIO_READAHEAD | EIO_SENDFILE
  | EIO_FSTAT | EIO_FSTATVFS
  | EIO_FTRUNCATE | EIO_FUTIME | EIO_FCHMOD | EIO_FCHOWN
  | EIO_SYNC | EIO_FSYNC | EIO_FDATASYNC | EIO_SYNCFS
  | EIO_MSYNC | EIO_MTOUCH | EIO_SYNC_FILE_RANGE | EIO_FALLOCATE
  | EIO_MLOCK | EIO_MLOCKALL
  | EIO_GROUP | EIO_NOP
  | EIO_BUSY
  | EIO_REALPATH
  | EIO_READDIR
  | EIO_OPEN
  | EIO_STAT | EIO_LSTAT | EIO_STATVFS
  | EIO_TRUNCATE
  | EIO_UTIME
  | EIO_CHMOD
  | EIO_CHOWN
  | EIO_UNLINK | EIO_RMDIR | EIO_MKDIR | EIO_RENAME
  | EIO_MKNOD
  | EIO_LINK | EIO_SYMLINK | EIO_READLINK
  | EIO_SLURP
  | ETP_TYPE_QUIT

fun type_code :: "eio_type \<Rightarrow> int" where
  "type_code EIO_CUSTOM = 0"
| "type_code EIO_WD_OPEN = 1" | "type_code EIO_WD_CLOSE = 2"
| "type_code EIO_CLOSE = 3" | "type_code EIO_DUP2 = 4"
| "type_code EIO_SEEK = 5" | "type_code EIO_READ = 6" | "type_code EIO_WRITE = 7"
| "type_code EIO_FCNTL = 8" | "type_code EIO_IOCTL = 9"
| "type_code EIO_READAHEAD = 10" | "type_code EIO_SENDFILE = 11"
| "type_code EIO_FSTAT = 12" | "type_code EIO_FSTATVFS = 13"
| "type_code EIO_FTRUNCATE = 14" | "type_code EIO_FUTIME = 15"
| "type_code EIO_FCHMOD = 16" | "type_code EIO_FCHOWN = 17"
| "type_code EIO_SYNC = 18" | "type_code EIO_FSYNC = 19"
| "type_code EIO_FDATASYNC = 20" | "type_code EIO_SYNCFS = 21"
| "type_code EIO_MSYNC = 22" | "type_code EIO_MTOUCH = 23"
| "type_code EIO_SYNC_FILE_RANGE = 24" | "type_code EIO_FALLOCATE = 25"
| "type_code EIO_MLOCK = 26" | "type_code EIO_MLOCKALL = 27"
| "type_code EIO_GROUP = 28" | "type_code EIO_NOP = 29"
| "type_code EIO_BUSY = 30"
| "type_code EIO_REALPATH = 31" | "type_code EIO_READDIR = 32"
| "type_code EIO_OPEN = 33"
| "type_code EIO_STAT = 34" | "type_code EIO_LSTAT = 35" | "type_code EIO_STATVFS = 36"
| "type_code EIO_TRUNCATE = 37" | "type_code EIO_UTIME = 38"
| "type_code EIO_CHMOD = 39" | "type_code EIO_CHOWN = 40"
| "type_code EIO_UNLINK = 41" | "type_code EIO_RMDIR = 42"
| "type_code EIO_MKDIR = 43" | "type_code EIO_RENAME = 44"
| "type_code EIO_MKNOD = 45"
| "type_code EIO_LINK = 46" | "type_code EIO_SYMLINK = 47" | "type_code EIO_READLINK = 48"
| "type_code EIO_SLURP = 49"
| "type_code ETP_TYPE_QUIT = -1"

section \<open>Priorities and flags\<close>

definition EIO_PRI_MIN :: int where "EIO_PRI_MIN = -4"
definition EIO_PRI_MAX :: int where "EIO_PRI_MAX = 4"
definition EIO_PRI_DEFAULT :: int where "EIO_PRI_DEFAULT = 0"

definition ETP_NUM_PRI :: nat where
  "ETP_NUM_PRI = nat (EIO_PRI_MAX - EIO_PRI_MIN + 1)"

lemma ETP_NUM_PRI_eq [simp]: "ETP_NUM_PRI = 9"
  by (simp add: ETP_NUM_PRI_def EIO_PRI_MIN_def EIO_PRI_MAX_def)

definition EIO_FLAG_PTR1_FREE :: u8 where "EIO_FLAG_PTR1_FREE = 0x01"
definition EIO_FLAG_PTR2_FREE :: u8 where "EIO_FLAG_PTR2_FREE = 0x02"
definition ETP_FLAG_GROUPADD :: u8 where "ETP_FLAG_GROUPADD = 0x04"
definition ETP_FLAG_DELAYED :: u8 where "ETP_FLAG_DELAYED = 0x08"

section \<open>Objects a request points to\<close>

text \<open>\<open>struct eio_dirent\<close>; \<open>de_score\<close> is the C \<open>signed char\<close>, always small and non-negative here.\<close>

record eio_dirent =
  de_nameofs :: int
  de_namelen :: u16
  de_type    :: u8
  de_score   :: int
  de_inode   :: u64

text \<open>\<open>struct eio_pwd\<close>, and the handles to it: the two special values and a pointer.\<close>

record eio_pwd =
  pwd_fd  :: int
  pwd_str :: string

datatype eio_wd = EIO_CWD | EIO_INVALID_WD | WD (the_pwd: eio_pwd)

text \<open>
  What \<open>ptr1\<close> and \<open>ptr2\<close> may point to: nothing, a byte buffer or C string, an array of directory
  entries, a buffer the kernel fills and that is not looked into, or an object of the user of the
  library, known by its address.
\<close>

datatype eio_mem =
    MNull
  | MBytes string
  | MDents "eio_dirent list"
  | MOpaque nat
  | MUser nat

section \<open>Function pointers\<close>

text \<open>
  The callbacks of a request.  The extension installs \<open>php_eio_res_cb\<close>, \<open>php_eio_res_cb_custom\<close>,
  \<open>php_eio_custom_execute\<close> and \<open>php_eio_req_destroy_hook\<close>; the library itself \<open>eio_api_destroy\<close>.
\<close>

datatype finish_fn = F_php_eio_res_cb | F_php_eio_res_cb_custom | F_other nat
datatype destroy_fn = D_eio_api_destroy | D_php_eio_req_destroy_hook | D_other nat
datatype feed_fn = E_php_eio_custom_execute | E_other nat

section \<open>The request structure and the heap of requests\<close>

record eio_req =
  rq_next :: ptr
  rq_wd :: eio_wd
  rq_result :: int
  rq_offs :: int
  rq_size :: u64
  rq_ptr1 :: eio_mem
  rq_ptr2 :: eio_mem
  rq_nv1 :: rat
  rq_nv2 :: rat
  rq_int1 :: int
  rq_int2 :: int
  rq_int3 :: int
  rq_wd3 :: eio_wd
  rq_errorno :: int
  rq_flags :: u8
  rq_type :: eio_type
  rq_pri :: u8
  rq_cancelled :: bool
  rq_data :: ptr
  rq_finish :: "finish_fn option"
  rq_destroy :: "destroy_fn option"
  rq_feed :: "feed_fn option"
  rq_grp :: ptr
  rq_grp_prev :: ptr
  rq_grp_next :: ptr
  rq_grp_first :: ptr

type_synonym req_heap = "addr \<Rightarrow> eio_req option"

text \<open>What \<open>calloc (1, sizeof (eio_req))\<close> returns: every member zero.\<close>

definition calloc_req :: eio_req where
  "calloc_req = \<lparr>
     rq_next = None, rq_wd = EIO_CWD, rq_result = 0, rq_offs = 0, rq_size = 0,
     rq_ptr1 = MNull, rq_ptr2 = MNull, rq_nv1 = 0, rq_nv2 = 0,
     rq_int1 = 0, rq_int2 = 0, rq_int3 = 0, rq_wd3 = EIO_CWD, rq_errorno = 0,
     rq_flags = 0, rq_type = EIO_CUSTOM, rq_pri = 0, rq_cancelled = False,
     rq_data = None, rq_finish = None, rq_destroy = None, rq_feed = None,
     rq_grp = None, rq_grp_prev = None, rq_grp_next = None, rq_grp_first = None \<rparr>"

text \<open>
  Assignment to a member of the request at an address, \<open>p->m = v\<close>: a fault when the address is not
  allocated.
\<close>

definition upd_req :: "req_heap \<Rightarrow> addr \<Rightarrow> (eio_req \<Rightarrow> eio_req) \<Rightarrow> req_heap option" where
  "upd_req h a f = (case h a of None \<Rightarrow> None | Some r \<Rightarrow> Some (h(a \<mapsto> f r)))"

lemma upd_req_Some: "h a = Some r \<Longrightarrow> upd_req h a f = Some (h(a \<mapsto> f r))"
  by (simp add: upd_req_def)

lemma upd_req_eq_Some:
  "upd_req h a f = Some h' \<longleftrightarrow> (\<exists>r. h a = Some r \<and> h' = h(a \<mapsto> f r))"
  by (auto simp: upd_req_def split: option.splits)

lemma dom_upd_req: "upd_req h a f = Some h' \<Longrightarrow> dom h' = dom h"
  by (auto simp: upd_req_eq_Some split: if_splits)

end
