(* ===== verification/Reqq.thy ===== *)
theory Reqq
  imports Request
begin

text \<open>
  The request queue \<open>etp_reqq\<close> of \<open>libeio/etp.c\<close>: one singly linked FIFO per priority, threaded
  through the \<open>next\<close> members of the queued requests, with start and end pointers per priority and
  a total count.  The operations \<open>reqq_init\<close>, \<open>reqq_push\<close> and \<open>reqq_shift\<close> work on the heap of
  requests exactly as the C does; \<open>reqq_abs\<close> relates a queue in the heap to a table of lists, and
  the locale \<open>prio_fifo\<close> states the contract the thread pool uses.
\<close>

section \<open>The queue in the heap\<close>

record etp_reqq =
  qs :: "ptr list"
  qe :: "ptr list"
  q_size :: int

definition reqq_init :: "etp_reqq \<Rightarrow> etp_reqq" where
  "reqq_init q = q\<lparr>qs := replicate ETP_NUM_PRI None, qe := replicate ETP_NUM_PRI None, q_size := 0\<rparr>"

text \<open>
  \<open>int pri = req->pri\<close> sign-extends the priority byte; an index outside of the arrays is a fault.
  The result is the old size, the value of \<open>q->size++\<close>.
\<close>

definition reqq_push :: "req_heap \<Rightarrow> etp_reqq \<Rightarrow> addr \<Rightarrow> (int \<times> req_heap \<times> etp_reqq) option" where
  "reqq_push h q req = do {
     r \<leftarrow> h req;
     let pri = sint (rq_pri r);
     let h = h(req \<mapsto> r\<lparr>rq_next := None\<rparr>);
     if 0 \<le> pri \<and> pri < int ETP_NUM_PRI then
       (case qe q ! nat pri of
          Some e \<Rightarrow> do {
            h \<leftarrow> upd_req h e (\<lambda>x. x\<lparr>rq_next := Some req\<rparr>);
            Some (q_size q, h,
                  q\<lparr>qe := (qe q)[nat pri := Some req], q_size := q_size q + 1\<rparr>) }
        | None \<Rightarrow>
            Some (q_size q, h,
                  q\<lparr>qs := (qs q)[nat pri := Some req], qe := (qe q)[nat pri := Some req],
                    q_size := q_size q + 1\<rparr>))
     else None }"

text \<open>
  The loop \<open>for (pri = ETP_NUM_PRI; pri--; )\<close> of \<open>reqq_shift\<close>; running out of priorities is the
  \<open>abort ()\<close> after it.
\<close>

fun reqq_shift_loop :: "req_heap \<Rightarrow> etp_reqq \<Rightarrow> nat \<Rightarrow> (addr \<times> etp_reqq) option" where
  "reqq_shift_loop h q 0 = None"
| "reqq_shift_loop h q (Suc pri) =
     (case qs q ! pri of
        None \<Rightarrow> reqq_shift_loop h q pri
      | Some req \<Rightarrow>
          (case h req of
             None \<Rightarrow> None
           | Some r \<Rightarrow>
               Some (req,
                 (if rq_next r = None
                  then q\<lparr>qs := (qs q)[pri := rq_next r], qe := (qe q)[pri := None]\<rparr>
                  else q\<lparr>qs := (qs q)[pri := rq_next r]\<rparr>))))"

definition reqq_shift :: "req_heap \<Rightarrow> etp_reqq \<Rightarrow> (ptr \<times> etp_reqq) option" where
  "reqq_shift h q =
     (if q_size q = 0 then Some (None, q)
      else (case reqq_shift_loop h (q\<lparr>q_size := q_size q - 1\<rparr>) ETP_NUM_PRI of
              None \<Rightarrow> None
            | Some (req, q') \<Rightarrow> Some (Some req, q')))"

section \<open>The abstract queue: a table of lists, one per priority\<close>

definition pq_push :: "'a list list \<Rightarrow> nat \<Rightarrow> 'a \<Rightarrow> 'a list list" where
  "pq_push ls p x = ls[p := ls ! p @ [x]]"

fun pq_scan :: "'a list list \<Rightarrow> nat \<Rightarrow> ('a \<times> 'a list list) option" where
  "pq_scan ls 0 = None"
| "pq_scan ls (Suc p) =
     (case ls ! p of [] \<Rightarrow> pq_scan ls p | x # xs \<Rightarrow> Some (x, ls[p := xs]))"

definition pq_pop :: "'a list list \<Rightarrow> ('a \<times> 'a list list) option" where
  "pq_pop ls = pq_scan ls (length ls)"

lemma length_pq_push [simp]: "length (pq_push ls p x) = length ls"
  by (simp add: pq_push_def)

lemma pq_scan_None: "pq_scan ls n = None \<longleftrightarrow> (\<forall>p < n. ls ! p = [])"
  by (induction n) (auto simp: less_Suc_eq split: list.splits)

lemma pq_scan_Some:
  "pq_scan ls n = Some (x, ls') \<longleftrightarrow>
   (\<exists>p xs. p < n \<and> ls ! p = x # xs \<and> (\<forall>q. p < q \<and> q < n \<longrightarrow> ls ! q = []) \<and> ls' = ls[p := xs])"
proof (induction n)
  case 0
  then show ?case by simp
next
  case (Suc n)
  show ?case
  proof (cases "ls ! n")
    case Nil
    then show ?thesis
      by (simp add: Suc) (metis less_Suc_eq list.distinct(1))
  next
    case (Cons y ys)
    show ?thesis
    proof
      assume "pq_scan ls (Suc n) = Some (x, ls')"
      with Cons have "ls ! n = x # ys" "ls' = ls[n := ys]" by auto
      then show "\<exists>p xs. p < Suc n \<and> ls ! p = x # xs \<and>
          (\<forall>q. p < q \<and> q < Suc n \<longrightarrow> ls ! q = []) \<and> ls' = ls[p := xs]"
        by (intro exI [of _ n] exI [of _ ys]) auto
    next
      assume "\<exists>p xs. p < Suc n \<and> ls ! p = x # xs \<and>
          (\<forall>q. p < q \<and> q < Suc n \<longrightarrow> ls ! q = []) \<and> ls' = ls[p := xs]"
      then obtain p xs where p: "p < Suc n" "ls ! p = x # xs" "ls' = ls[p := xs]"
        and above: "\<forall>q. p < q \<and> q < Suc n \<longrightarrow> ls ! q = []" by blast
      with Cons have "p = n" by (metis less_Suc_eq lessI list.distinct(1))
      with p Cons show "pq_scan ls (Suc n) = Some (x, ls')" by simp
    qed
  qed
qed

lemma pq_pop_None: "pq_pop ls = None \<longleftrightarrow> concat ls = []"
  by (simp add: pq_pop_def pq_scan_None all_set_conv_all_nth)

lemma pq_pop_Some:
  "pq_pop ls = Some (x, ls') \<longleftrightarrow>
   (\<exists>p xs. p < length ls \<and> ls ! p = x # xs \<and> (\<forall>q. p < q \<and> q < length ls \<longrightarrow> ls ! q = [])
           \<and> ls' = ls[p := xs])"
  by (simp add: pq_pop_def pq_scan_Some)

lemma pq_pop_length: "pq_pop ls = Some (x, ls') \<Longrightarrow> length ls' = length ls"
  by (auto simp: pq_pop_Some)

lemma mset_pq_push:
  "p < length ls \<Longrightarrow> mset (concat (pq_push ls p x)) = add_mset x (mset (concat ls))"
  using mset_concat_update [of p ls "ls ! p @ [x]"] by (simp add: pq_push_def)

lemma mset_pq_pop:
  assumes "pq_pop ls = Some (x, ls')"
  shows "mset (concat ls) = add_mset x (mset (concat ls'))"
proof -
  from assms obtain p xs where "p < length ls" "ls ! p = x # xs" "ls' = ls[p := xs]"
    by (auto simp: pq_pop_Some)
  with mset_concat_update [of p ls xs] show ?thesis by simp
qed

lemma set_pq_push:
  "p < length ls \<Longrightarrow> set (concat (pq_push ls p x)) = insert x (set (concat ls))"
  using arg_cong [OF mset_pq_push, of p ls set_mset x] by simp

lemma set_pq_pop:
  "pq_pop ls = Some (x, ls') \<Longrightarrow> set (concat ls) = insert x (set (concat ls'))"
  using arg_cong [OF mset_pq_pop, of ls x ls' set_mset] by simp

lemma length_concat_pq_push:
  "p < length ls \<Longrightarrow> length (concat (pq_push ls p x)) = Suc (length (concat ls))"
  using arg_cong [OF mset_pq_push, of p ls size x] by simp

lemma length_concat_pq_pop:
  "pq_pop ls = Some (x, ls') \<Longrightarrow> length (concat ls) = Suc (length (concat ls'))"
  using arg_cong [OF mset_pq_pop, of ls x ls' size] by simp

lemma distinct_pq_push:
  "p < length ls \<Longrightarrow>
   distinct (concat (pq_push ls p x)) \<longleftrightarrow> distinct (concat ls) \<and> x \<notin> set (concat ls)"
  using distinct_mset_iff [of "concat (pq_push ls p x)" "x # concat ls"]
  by (auto simp: mset_pq_push)

lemma distinct_pq_pop:
  assumes "pq_pop ls = Some (x, ls')"
  shows "distinct (concat ls) \<longleftrightarrow> distinct (concat ls') \<and> x \<notin> set (concat ls')"
  using distinct_mset_iff [of "concat ls" "x # concat ls'"] mset_pq_pop [OF assms] by auto

section \<open>Linked lists in the heap\<close>

text \<open>\<open>chain h p xs e\<close>: from \<open>p\<close> the \<open>next\<close> members lead through \<open>xs\<close> to null, and \<open>e\<close> is the last.\<close>

fun chain :: "req_heap \<Rightarrow> ptr \<Rightarrow> addr list \<Rightarrow> bool" where
  "chain h p [] \<longleftrightarrow> p = None"
| "chain h p (x # xs) \<longleftrightarrow> p = Some x \<and> (\<exists>r. h x = Some r \<and> chain h (rq_next r) xs)"

definition lastp :: "'a list \<Rightarrow> 'a option" where
  "lastp xs = (if xs = [] then None else Some (last xs))"

lemma lastp_simps [simp]:
  "lastp [] = None" "lastp (xs @ [x]) = Some x" "lastp xs = None \<longleftrightarrow> xs = []"
  by (simp_all add: lastp_def)

lemma lastp_Cons: "lastp (x # xs) = (if xs = [] then Some x else lastp xs)"
  by (simp add: lastp_def)

lemma lastp_eq_Some: "lastp xs = Some e \<longleftrightarrow> (\<exists>ys. xs = ys @ [e])"
  by (cases xs rule: rev_cases) auto

lemma chain_None [simp]: "chain h None xs \<longleftrightarrow> xs = []"
  by (cases xs) auto

lemma chain_Nil_iff: "chain h p xs \<Longrightarrow> (p = None) = (xs = [])"
  by (cases xs) auto

lemma chain_frame [frame_simps]:
  "x \<notin> set xs \<Longrightarrow> chain (h(x := v)) p xs \<longleftrightarrow> chain h p xs"
  by (induction xs arbitrary: p) auto

lemma chain_same_next:
  "h x = Some r \<Longrightarrow> rq_next r' = rq_next r \<Longrightarrow> chain (h(x \<mapsto> r')) p xs \<longleftrightarrow> chain h p xs"
  by (induction xs arbitrary: p) auto

lemma chain_dom: "chain h p xs \<Longrightarrow> x \<in> set xs \<Longrightarrow> x \<in> dom h"
  by (induction xs arbitrary: p) auto

lemma chain_append_single:
  assumes "chain h p (xs @ [e])" "h e = Some re" "x \<notin> set (xs @ [e])" "h x = Some rx"
    "rq_next rx = None" "distinct (xs @ [e])"
  shows "chain (h(e \<mapsto> re\<lparr>rq_next := Some x\<rparr>)) p (xs @ [e, x])"
  using assms
proof (induction xs arbitrary: p)
  case Nil
  then show ?case by auto
next
  case (Cons y ys)
  then show ?case by auto
qed

section \<open>The abstraction relation\<close>

definition reqq_abs :: "req_heap \<Rightarrow> etp_reqq \<Rightarrow> addr list list \<Rightarrow> bool" where
  "reqq_abs h q ls \<longleftrightarrow>
     length (qs q) = ETP_NUM_PRI \<and> length (qe q) = ETP_NUM_PRI \<and> length ls = ETP_NUM_PRI \<and>
     (\<forall>p < ETP_NUM_PRI. chain h (qs q ! p) (ls ! p) \<and> qe q ! p = lastp (ls ! p)) \<and>
     distinct (concat ls) \<and> q_size q = int (length (concat ls))"

lemma reqq_absD:
  assumes "reqq_abs h q ls"
  shows "length (qs q) = 9" "length (qe q) = 9" "length ls = 9"
    "\<And>p. p < 9 \<Longrightarrow> chain h (qs q ! p) (ls ! p)" "\<And>p. p < 9 \<Longrightarrow> qe q ! p = lastp (ls ! p)"
    "distinct (concat ls)" "q_size q = int (length (concat ls))"
  using assms by (auto simp: reqq_abs_def)

lemma reqq_abs_init: "reqq_abs h (reqq_init q) (replicate 9 [])"
  by (simp add: reqq_abs_def reqq_init_def nth_replicate concat_replicate_trivial)

lemma reqq_abs_dom: "reqq_abs h q ls \<Longrightarrow> set (concat ls) \<subseteq> dom h"
  by (force simp: reqq_abs_def in_set_conv_nth dest: chain_dom)

lemma reqq_abs_frame [frame_simps]:
  assumes "x \<notin> set (concat ls)"
  shows "reqq_abs (h(x := v)) q ls \<longleftrightarrow> reqq_abs h q ls"
proof -
  have "\<And>p. length ls = 9 \<Longrightarrow> p < 9 \<Longrightarrow> x \<notin> set (ls ! p)"
    using assms by (auto simp: set_concat_nth)
  then show ?thesis
    by (auto simp: reqq_abs_def chain_frame)
qed

lemma reqq_abs_same_next:
  "h x = Some r \<Longrightarrow> rq_next r' = rq_next r \<Longrightarrow> reqq_abs (h(x \<mapsto> r')) q ls \<longleftrightarrow> reqq_abs h q ls"
  by (simp add: reqq_abs_def chain_same_next)


lemma chain_agree: "\<forall>x \<in> set xs. h' x = h x \<Longrightarrow> chain h' p xs \<longleftrightarrow> chain h p xs"
  by (induction xs arbitrary: p) auto

lemma reqq_abs_agree:
  "\<forall>x \<in> set (concat ls). h' x = h x \<Longrightarrow> reqq_abs h' q ls \<longleftrightarrow> reqq_abs h q ls"
proof -
  assume a: "\<forall>x \<in> set (concat ls). h' x = h x"
  then have "\<And>p ptr. p < length ls \<Longrightarrow> chain h' ptr (ls ! p) \<longleftrightarrow> chain h ptr (ls ! p)"
    by (intro chain_agree) (auto simp: set_concat_nth)
  then show ?thesis by (auto simp: reqq_abs_def)
qed

text \<open>Two heaps that differ in the \<open>next\<close> members only.\<close>

definition same_but_next :: "req_heap \<Rightarrow> req_heap \<Rightarrow> bool" where
  "same_but_next h h' \<longleftrightarrow>
     (\<forall>x. map_option (rq_next_update (\<lambda>_. None)) (h' x) =
          map_option (rq_next_update (\<lambda>_. None)) (h x))"

lemma same_but_next_refl [simp]: "same_but_next h h"
  by (simp add: same_but_next_def)

lemma same_but_next_trans: "same_but_next h h' \<Longrightarrow> same_but_next h' h'' \<Longrightarrow> same_but_next h h''"
  by (simp add: same_but_next_def)

lemma same_but_next_upd:
  "h a = Some r \<Longrightarrow> same_but_next h (h(a \<mapsto> r\<lparr>rq_next := v\<rparr>))"
  by (simp add: same_but_next_def)

lemma same_but_nextD:
  assumes "same_but_next h h'" "h x = Some r"
  obtains n where "h' x = Some (r\<lparr>rq_next := n\<rparr>)"
proof -
  from assms have "map_option (rq_next_update (\<lambda>_. None)) (h' x) = Some (r\<lparr>rq_next := None\<rparr>)"
    by (simp add: same_but_next_def)
  then obtain r' where r': "h' x = Some r'" "r'\<lparr>rq_next := None\<rparr> = r\<lparr>rq_next := None\<rparr>"
    by (cases "h' x") auto
  then have "r' = r\<lparr>rq_next := rq_next r'\<rparr>"
    by (cases r; cases r') simp
  with r'(1) that show ?thesis by metis
qed

lemma same_but_next_dom: "same_but_next h h' \<Longrightarrow> dom h' = dom h"
proof -
  assume "same_but_next h h'"
  then have "\<And>x. (h' x = None) = (h x = None)"
    unfolding same_but_next_def by (metis map_option_is_None)
  then show ?thesis by (auto simp: dom_def)
qed

section \<open>The operations refine the abstract queue\<close>

lemma pq_push_nth:
  "p < length ls \<Longrightarrow> pq_push ls p x ! i = (if i = p then ls ! p @ [x] else ls ! i)"
  by (simp add: pq_push_def nth_list_update)

lemma reqq_push_refines:
  assumes abs: "reqq_abs h q ls" and r: "h a = Some r" and fresh: "a \<notin> set (concat ls)"
    and pri: "sint (rq_pri r) = int p" and p: "p < ETP_NUM_PRI"
  shows "\<exists>h' q'. reqq_push h q a = Some (int (length (concat ls)), h', q') \<and>
      reqq_abs h' q' (pq_push ls p a) \<and> same_but_next h h' \<and>
      (\<forall>x. x \<notin> insert a (set (concat ls)) \<longrightarrow> h' x = h x)"
proof -
  note D = reqq_absD [OF abs]
  let ?h0 = "h(a \<mapsto> r\<lparr>rq_next := None\<rparr>)"
  have p9: "p < 9" and pl: "p < length ls" using p D(3) by auto
  have fresh_row: "a \<notin> set (ls ! i)" if "i < 9" for i
    using fresh that D(3) by (auto simp: set_concat_nth)
  have abs0: "reqq_abs ?h0 q ls"
    using abs fresh by (simp add: reqq_abs_frame)
  note D0 = reqq_absD [OF abs0]
  have dist: "distinct (concat (pq_push ls p a))"
    using D(6) fresh pl by (simp add: distinct_pq_push del: distinct_concat_iff)
  have len: "length (concat (pq_push ls p a)) = Suc (length (concat ls))"
    using pl by (simp add: length_concat_pq_push del: length_concat)
  show ?thesis
  proof (cases "ls ! p" rule: rev_cases)
    case Nil
    let ?q = "q\<lparr>qs := (qs q)[p := Some a], qe := (qe q)[p := Some a], q_size := q_size q + 1\<rparr>"
    have "qe q ! p = None" using D(5) [OF p9] Nil by simp
    then have push: "reqq_push h q a = Some (q_size q, ?h0, ?q)"
      using r pri p9 by (simp add: reqq_push_def Let_def)
    have "reqq_abs ?h0 ?q (pq_push ls p a)"
      unfolding reqq_abs_def
      using D D0(4) dist len pl Nil fresh_row
      by (auto simp: pq_push_nth nth_list_update simp del: length_concat distinct_concat_iff)
    moreover have "same_but_next h ?h0" using r by (rule same_but_next_upd)
    ultimately show ?thesis using push D(7) by auto
  next
    case (snoc ys e)
    have e_in: "e \<in> set (concat ls)" using snoc nth_in_concat [OF pl, of e] by simp
    then have ea: "e \<noteq> a" using fresh by auto
    from e_in reqq_abs_dom [OF abs] obtain re where re: "h e = Some re" by auto
    let ?h1 = "?h0(e \<mapsto> re\<lparr>rq_next := Some a\<rparr>)"
    let ?q = "q\<lparr>qe := (qe q)[p := Some a], q_size := q_size q + 1\<rparr>"
    have "qe q ! p = Some e" using D(5) [OF p9] snoc by simp
    then have push: "reqq_push h q a = Some (q_size q, ?h1, ?q)"
      using r pri p9 re ea by (simp add: reqq_push_def Let_def upd_req_def)
    have e_row: "e \<notin> set (ls ! i)" if "i < 9" "i \<noteq> p" for i
      using distinct_concat_disjoint [OF D(6), of p i e] that pl D(3) snoc by simp
    have row_dist: "distinct (ys @ [e])"
      using distinct_concat_row [OF D(6) pl] snoc by simp
    have "chain ?h0 (qs q ! p) (ys @ [e])" using D0(4) [OF p9] snoc by simp
    then have row: "chain ?h1 (qs q ! p) (ys @ [e, a])"
      by (rule chain_append_single) (use re ea row_dist fresh_row [OF p9] snoc in auto)
    have other: "chain ?h1 (qs q ! i) (ls ! i)" if "i < 9" "i \<noteq> p" for i
      using D0(4) [OF that(1)] e_row [OF that] by (simp add: chain_frame)
    have "reqq_abs ?h1 ?q (pq_push ls p a)"
      unfolding reqq_abs_def
      using D dist len pl snoc row other
      by (auto simp: pq_push_nth nth_list_update simp del: length_concat distinct_concat_iff)
    moreover have "same_but_next h ?h1"
      by (rule same_but_next_trans [OF same_but_next_upd [where h = h and a = a]])
        (use r re ea in \<open>auto intro!: same_but_next_upd\<close>)
    moreover have "\<forall>x. x \<notin> insert a (set (concat ls)) \<longrightarrow> ?h1 x = h x"
      using e_in by auto
    moreover have "reqq_push h q a = Some (int (length (concat ls)), ?h1, ?q)"
      using push D(7) by simp
    ultimately show ?thesis by (intro exI [of _ ?h1] exI [of _ ?q] conjI)
  qed
qed


lemma reqq_shift_loop_hit:
  assumes "\<And>p. p < 9 \<Longrightarrow> chain h (qs q ! p) (ls ! p)" "p < n" "n \<le> 9"
    "ls ! p = x # xs" "\<forall>i. p < i \<and> i < n \<longrightarrow> ls ! i = []" "h x = Some r"
  shows "reqq_shift_loop h q n =
    Some (x, if rq_next r = None
             then q\<lparr>qs := (qs q)[p := rq_next r], qe := (qe q)[p := None]\<rparr>
             else q\<lparr>qs := (qs q)[p := rq_next r]\<rparr>)"
  using assms(2-)
proof (induction n)
  case 0
  then show ?case by simp
next
  case (Suc n)
  have row: "chain h (qs q ! n) (ls ! n)" using assms(1) Suc.prems(2) by simp
  show ?case
  proof (cases "p = n")
    case True
    with row Suc.prems have "qs q ! n = Some x" by simp
    with True Suc.prems show ?thesis by simp
  next
    case False
    then have "p < n" using Suc.prems(1) by simp
    with row Suc.prems have "qs q ! n = None" by (simp add: chain_Nil_iff)
    with False Suc show ?thesis by simp
  qed
qed

lemma reqq_shift_empty:
  "reqq_abs h q ls \<Longrightarrow> pq_pop ls = None \<Longrightarrow> reqq_shift h q = Some (None, q)"
  by (simp add: reqq_abs_def pq_pop_None reqq_shift_def)

lemma reqq_shift_refines:
  assumes abs: "reqq_abs h q ls" and pop: "pq_pop ls = Some (x, ls')"
  shows "\<exists>q'. reqq_shift h q = Some (Some x, q') \<and> reqq_abs h q' ls'"
proof -
  note D = reqq_absD [OF abs]
  from pop D(3) obtain p xs where p: "p < 9" "ls ! p = x # xs" "ls' = ls[p := xs]"
    and above: "\<forall>i. p < i \<and> i < 9 \<longrightarrow> ls ! i = []"
    by (auto simp: pq_pop_Some)
  have row: "chain h (qs q ! p) (x # xs)" using D(4) [OF p(1)] p(2) by simp
  then obtain r where r: "h x = Some r" "chain h (rq_next r) xs" by auto
  let ?q = "q\<lparr>q_size := q_size q - 1\<rparr>"
  define q' where "q' = (if rq_next r = None
      then ?q\<lparr>qs := (qs ?q)[p := rq_next r], qe := (qe ?q)[p := None]\<rparr>
      else ?q\<lparr>qs := (qs ?q)[p := rq_next r]\<rparr>)"
  have loop: "reqq_shift_loop h ?q 9 = Some (x, q')"
    unfolding q'_def
    by (rule reqq_shift_loop_hit [where ls = ls]) (use D(4) p above r in auto)
  have len: "length (concat ls) = Suc (length (concat ls'))"
    using pop by (rule length_concat_pq_pop)
  have "reqq_shift h q = Some (Some x, q')"
    using loop len D(7) by (simp add: reqq_shift_def del: length_concat)
  moreover have "reqq_abs h q' ls'"
  proof -
    have nx: "rq_next r = None \<longleftrightarrow> xs = []" using r(2) by (rule chain_Nil_iff)
    have last: "lastp (x # xs) = (if xs = [] then Some x else lastp xs)" by (rule lastp_Cons)
    have dist: "distinct (concat ls')" using D(6) distinct_pq_pop [OF pop] by blast
    have fields: "length (qs q') = 9" "length (qe q') = 9" "q_size q' = q_size q - 1"
      "qs q' = (qs q)[p := rq_next r]"
      "qe q' = (if xs = [] then (qe q)[p := None] else qe q)"
      using D by (auto simp: q'_def nx)
    show ?thesis
      unfolding reqq_abs_def
      using fields D len p r last dist
      by (auto simp: nth_list_update simp del: length_concat distinct_concat_iff)
  qed
  ultimately show ?thesis by blast
qed

section \<open>Filling and draining a queue\<close>

text \<open>
  Pushing a list of elements one after the other, and shifting at most \<open>n\<close> times, for any pair of
  operations; the abstract effect is a stable sort by descending priority.
\<close>

fun push_all :: "('s \<Rightarrow> 'a \<Rightarrow> (int \<times> 's) option) \<Rightarrow> 's \<Rightarrow> 'a list \<Rightarrow> 's option" where
  "push_all push s [] = Some s"
| "push_all push s (x # xs) =
     (case push s x of None \<Rightarrow> None | Some (_, s') \<Rightarrow> push_all push s' xs)"

fun drain :: "('s \<Rightarrow> ('a option \<times> 's) option) \<Rightarrow> nat \<Rightarrow> 's \<Rightarrow> 'a list option" where
  "drain shift 0 s = Some []"
| "drain shift (Suc n) s =
     (case shift s of
        None \<Rightarrow> None
      | Some (None, s') \<Rightarrow> Some []
      | Some (Some x, s') \<Rightarrow> map_option ((#) x) (drain shift n s'))"

lemma pq_pop_concat_rev:
  assumes "pq_pop ls = Some (x, ls')"
  shows "concat (rev ls) = x # concat (rev ls')"
proof -
  from assms obtain p xs where p: "p < length ls" "ls ! p = x # xs" "ls' = ls[p := xs]"
    and above: "\<forall>q. p < q \<and> q < length ls \<longrightarrow> ls ! q = []"
    by (auto simp: pq_pop_Some)
  have tail: "concat (rev (drop (Suc p) ls)) = []"
    using above by (auto simp: in_set_conv_nth)
  have "concat (rev (take p ls @ ls ! p # drop (Suc p) ls)) =
      concat (rev (drop (Suc p) ls)) @ ls ! p @ concat (rev (take p ls))"
    by simp
  then have "concat (rev ls) = concat (rev (drop (Suc p) ls)) @ ls ! p @ concat (rev (take p ls))"
    by (simp only: id_take_nth_drop [OF p(1), symmetric])
  moreover have "ls' = take p ls @ xs # drop (Suc p) ls"
    using p(1,3) by (simp add: upd_conv_take_nth_drop)
  ultimately show ?thesis using tail p(2) by simp
qed

text \<open>The table with row \<open>p\<close> holding the elements of priority \<open>p\<close>, in order.\<close>

definition by_prio :: "('a \<Rightarrow> nat) \<Rightarrow> nat \<Rightarrow> 'a list \<Rightarrow> 'a list list" where
  "by_prio f n xs = map (\<lambda>p. filter (\<lambda>x. f x = p) xs) [0..<n]"

lemma by_prio_Suc: "concat (rev (by_prio f (Suc n) xs)) =
    filter (\<lambda>x. f x = n) xs @ concat (rev (by_prio f n xs))"
  by (simp add: by_prio_def)

lemma by_prio_filter:
  "filter (\<lambda>x. f x = k) (concat (rev (by_prio f n xs))) =
   (if k < n then filter (\<lambda>x. f x = k) xs else [])"
proof (induction n)
  case 0
  then show ?case by (simp add: by_prio_def)
next
  case (Suc n)
  have "filter (\<lambda>x. f x = k) (filter (\<lambda>x. f x = n) xs) =
      (if k = n then filter (\<lambda>x. f x = k) xs else [])"
    by (auto simp: filter_empty_conv)
  with Suc show ?case by (auto simp: by_prio_Suc)
qed

lemma by_prio_mset: "mset (concat (rev (by_prio f n xs))) = mset (filter (\<lambda>x. f x < n) xs)"
proof (induction n)
  case 0
  then show ?case by (simp add: by_prio_def)
next
  case (Suc n)
  have "mset (filter (\<lambda>x. f x < Suc n) xs) =
      mset (filter (\<lambda>x. f x = n) xs) + mset (filter (\<lambda>x. f x < n) xs)"
    by (induction xs) auto
  with Suc show ?case by (simp add: by_prio_Suc)
qed

lemma by_prio_sorted: "sorted (map (\<lambda>x. - int (f x)) (concat (rev (by_prio f n xs))))"
proof (induction n)
  case 0
  then show ?case by (simp add: by_prio_def)
next
  case (Suc n)
  have "f x < n" if "x \<in> set (concat (rev (by_prio f n xs)))" for x
    using that by (auto simp: by_prio_def)
  then have below: "\<forall>x \<in> set (concat (rev (by_prio f n xs))). - int n \<le> - int (f x)"
    by (simp add: less_imp_le)
  have "sorted (map (\<lambda>x. - int (f x)) (filter (\<lambda>x. f x = n) xs))"
    by (induction xs) auto
  with Suc below show ?case
    by (auto simp: by_prio_Suc sorted_append simp del: set_concat)
qed

lemma by_prio_sort_key:
  assumes "\<forall>x \<in> set xs. f x < n"
  shows "concat (rev (by_prio f n xs)) = sort_key (\<lambda>x. - int (f x)) xs"
proof (rule properties_for_sort_key [symmetric])
  from assms have "filter (\<lambda>x. f x < n) xs = xs" by (simp add: filter_id_conv)
  then show m: "mset (concat (rev (by_prio f n xs))) = mset xs" by (simp add: by_prio_mset)
  fix k assume "k \<in> set (concat (rev (by_prio f n xs)))"
  then have "f k < n" using assms mset_eq_setD [OF m] by auto
  moreover have "(\<lambda>x. - int (f k) = - int (f x)) = (\<lambda>x. f x = f k)" by auto
  ultimately show "filter (\<lambda>x. - int (f k) = - int (f x)) (concat (rev (by_prio f n xs))) =
      filter (\<lambda>x. - int (f k) = - int (f x)) xs"
    by (simp add: by_prio_filter)
next
  show "sorted (map (\<lambda>x. - int (f x)) (concat (rev (by_prio f n xs))))" by (rule by_prio_sorted)
qed

section \<open>The contract of a priority queue\<close>

text \<open>
  What the thread pool relies on, for any state type \<open>'s\<close> holding the queue: \<open>rel s ls\<close> says which
  table of lists the state represents, and \<open>ready s x p\<close> that \<open>x\<close> may be pushed at priority \<open>p\<close>.
\<close>

locale prio_fifo =
  fixes push :: "'s \<Rightarrow> 'a \<Rightarrow> (int \<times> 's) option"
    and shift :: "'s \<Rightarrow> ('a option \<times> 's) option"
    and rel :: "'s \<Rightarrow> 'a list list \<Rightarrow> bool"
    and ready :: "'s \<Rightarrow> 'a \<Rightarrow> nat \<Rightarrow> bool"
  assumes push_law:
      "rel s ls \<Longrightarrow> ready s x p \<Longrightarrow> x \<notin> set (concat ls) \<Longrightarrow>
       \<exists>s'. push s x = Some (int (length (concat ls)), s') \<and> rel s' (pq_push ls p x)
            \<and> (\<forall>y k. ready s y k \<longrightarrow> ready s' y k)"
    and shift_empty_law: "rel s ls \<Longrightarrow> pq_pop ls = None \<Longrightarrow> shift s = Some (None, s)"
    and shift_law:
      "rel s ls \<Longrightarrow> pq_pop ls = Some (x, ls') \<Longrightarrow>
       \<exists>s'. shift s = Some (Some x, s') \<and> rel s' ls'"
    and ready_bound: "rel s ls \<Longrightarrow> ready s x p \<Longrightarrow> p < length ls"
begin

lemma push_all_rows:
  assumes "rel s ls" "distinct xs" "set xs \<inter> set (concat ls) = {}"
    "\<forall>x \<in> set xs. ready s x (f x)"
  shows "\<exists>s' ls'. push_all push s xs = Some s' \<and> rel s' ls' \<and> length ls' = length ls \<and>
           (\<forall>p < length ls. ls' ! p = ls ! p @ filter (\<lambda>x. f x = p) xs)"
  using assms
proof (induction xs arbitrary: s ls)
  case Nil
  then show ?case by auto
next
  case (Cons x xs)
  have x: "ready s x (f x)" "x \<notin> set (concat ls)" using Cons.prems by auto
  then have pl: "f x < length ls" using Cons.prems(1) ready_bound by blast
  from push_law [OF Cons.prems(1) x] obtain s1 where
    s1: "push s x = Some (int (length (concat ls)), s1)" "rel s1 (pq_push ls (f x) x)"
      "\<forall>y k. ready s y k \<longrightarrow> ready s1 y k" by blast
  have "set xs \<inter> set (concat (pq_push ls (f x) x)) = {}"
    using Cons.prems(2,3) pl by (simp add: set_pq_push del: set_concat)
  moreover have "\<forall>y \<in> set xs. ready s1 y (f y)" using Cons.prems(4) s1(3) by auto
  ultimately obtain s' ls' where "push_all push s1 xs = Some s'" "rel s' ls'"
    "length ls' = length ls"
    "\<forall>p < length ls. ls' ! p = pq_push ls (f x) x ! p @ filter (\<lambda>x. f x = p) xs"
    using Cons.IH [OF s1(2)] Cons.prems(2) by auto
  with s1(1) pl show ?case
    by (intro exI [of _ s'] exI [of _ ls']) (auto simp: pq_push_nth)
qed

lemma drain_rows:
  "rel s ls \<Longrightarrow> drain shift n s = Some (take n (concat (rev ls)))"
proof (induction n arbitrary: s ls)
  case 0
  then show ?case by simp
next
  case (Suc n)
  show ?case
  proof (cases "pq_pop ls")
    case None
    then have "concat ls = []" by (simp add: pq_pop_None)
    then have "concat (rev ls) = []" by simp
    with shift_empty_law [OF Suc.prems None] show ?thesis by simp
  next
    case (Some a)
    then obtain x ls' where pop: "pq_pop ls = Some (x, ls')" by (cases a) auto
    from shift_law [OF Suc.prems this] obtain s' where
      "shift s = Some (Some x, s')" "rel s' ls'" by blast
    with Suc.IH [of s' ls'] pq_pop_concat_rev [OF pop] show ?thesis by simp
  qed
qed

text \<open>Fill an empty queue, then drain it: a stable sort, highest priority first.\<close>

lemma fill_drain_sorts:
  assumes "rel s (replicate n [])" "distinct xs" "\<forall>x \<in> set xs. ready s x (f x)"
  shows "Option.bind (push_all push s xs) (drain shift (length xs)) =
         Some (sort_key (\<lambda>x. - int (f x)) xs)"
proof -
  have bound: "\<forall>x \<in> set xs. f x < n"
    using assms(1,3) ready_bound by fastforce
  from push_all_rows [OF assms(1,2) _ assms(3)] obtain s' ls' where
    s': "push_all push s xs = Some s'" "rel s' ls'" and
    len: "length ls' = n" "\<forall>p < n. ls' ! p = replicate n [] ! p @ filter (\<lambda>x. f x = p) xs"
    by auto
  then have "ls' = by_prio f n xs" by (auto simp: by_prio_def intro: nth_equalityI)
  with bound have "concat (rev ls') = sort_key (\<lambda>x. - int (f x)) xs"
    by (simp add: by_prio_sort_key)
  with s' show ?thesis by (simp add: drain_rows)
qed

end

section \<open>The heap queue provides the contract\<close>

definition push_st :: "req_heap \<times> etp_reqq \<Rightarrow> addr \<Rightarrow> (int \<times> req_heap \<times> etp_reqq) option" where
  "push_st s a = reqq_push (fst s) (snd s) a"

definition shift_st :: "req_heap \<times> etp_reqq \<Rightarrow> (ptr \<times> req_heap \<times> etp_reqq) option" where
  "shift_st s = map_option (\<lambda>(x, q). (x, fst s, q)) (reqq_shift (fst s) (snd s))"

definition req_ready :: "req_heap \<times> etp_reqq \<Rightarrow> addr \<Rightarrow> nat \<Rightarrow> bool" where
  "req_ready s a p \<longleftrightarrow> p < ETP_NUM_PRI \<and> (\<exists>r. fst s a = Some r \<and> sint (rq_pri r) = int p)"

interpretation rq: prio_fifo push_st shift_st "\<lambda>s. reqq_abs (fst s) (snd s)" req_ready
proof
  fix s :: "req_heap \<times> etp_reqq" and ls x p
  assume a: "reqq_abs (fst s) (snd s) ls" "req_ready s x p" "x \<notin> set (concat ls)"
  then obtain r where "fst s x = Some r" "sint (rq_pri r) = int p" "p < ETP_NUM_PRI"
    by (auto simp: req_ready_def)
  from reqq_push_refines [OF a(1) this(1) a(3) this(2,3)] obtain h' q' where
    hq: "reqq_push (fst s) (snd s) x = Some (int (length (concat ls)), h', q')"
      "reqq_abs h' q' (pq_push ls p x)" "same_but_next (fst s) h'" by blast
  have "req_ready s y k \<Longrightarrow> req_ready (h', q') y k" for y k
    using hq(3) by (auto simp: req_ready_def elim: same_but_nextD)
  with hq show "\<exists>s'. push_st s x = Some (int (length (concat ls)), s') \<and>
      reqq_abs (fst s') (snd s') (pq_push ls p x) \<and>
      (\<forall>y k. req_ready s y k \<longrightarrow> req_ready s' y k)"
    by (intro exI [of _ "(h', q')"]) (simp add: push_st_def)
next
  fix s :: "req_heap \<times> etp_reqq" and ls
  assume "reqq_abs (fst s) (snd s) ls" "pq_pop ls = None"
  then show "shift_st s = Some (None, s)"
    by (simp add: shift_st_def reqq_shift_empty)
next
  fix s :: "req_heap \<times> etp_reqq" and ls x ls'
  assume "reqq_abs (fst s) (snd s) ls" "pq_pop ls = Some (x, ls')"
  from reqq_shift_refines [OF this]
  show "\<exists>s'. shift_st s = Some (Some x, s') \<and> reqq_abs (fst s') (snd s') ls'"
    by (auto simp: shift_st_def)
next
  fix s :: "req_heap \<times> etp_reqq" and ls x p
  assume "reqq_abs (fst s) (snd s) ls" "req_ready s x p"
  then show "p < length ls" by (simp add: req_ready_def reqq_abs_def)
qed

section \<open>Properties\<close>

text \<open>
  C40: The request queue is a stable priority queue.  Pushing any distinct live requests whose
  priority bytes are legal indices into a freshly initialised queue never faults, and shifting as
  many times returns exactly these requests, sorted by descending priority, with requests of equal
  priority in the order they were pushed.
\<close>

theorem reqq_stable_priority_order:
  assumes "distinct xs"
    and "\<forall>x \<in> set xs. \<exists>r. h x = Some r \<and> sint (rq_pri r) = int (f x) \<and> f x < ETP_NUM_PRI"
  shows "Option.bind (push_all push_st (h, reqq_init q) xs) (drain shift_st (length xs)) =
         Some (sort_key (\<lambda>x. - int (f x)) xs)"
proof (rule rq.fill_drain_sorts)
  show "reqq_abs (fst (h, reqq_init q)) (snd (h, reqq_init q)) (replicate 9 [])"
    by (simp add: reqq_abs_init)
  show "\<forall>x \<in> set xs. req_ready (h, reqq_init q) x (f x)"
    using assms(2) by (force simp: req_ready_def)
qed (rule assms(1))

theorem reqq_stable_priority_order_witness:
  "\<exists>h q. Option.bind (push_all push_st (h, reqq_init q) [1, 2, 3])
            (drain shift_st (length [1::addr, 2, 3])) = Some [2, 1, 3]"
proof -
  define h :: req_heap where
    "h = [1 \<mapsto> calloc_req\<lparr>rq_pri := 4\<rparr>, 2 \<mapsto> calloc_req\<lparr>rq_pri := 8\<rparr>, 3 \<mapsto> calloc_req\<lparr>rq_pri := 4\<rparr>]"
  define f :: "addr \<Rightarrow> nat" where "f = (\<lambda>x. if x = 2 then 8 else 4)"
  have "\<forall>x \<in> set [1, 2, 3]. \<exists>r. h x = Some r \<and> sint (rq_pri r) = int (f x) \<and> f x < ETP_NUM_PRI"
    by (simp add: h_def f_def)
  then have "Option.bind (push_all push_st (h, reqq_init q) [1, 2, 3])
      (drain shift_st (length [1::addr, 2, 3])) = Some (sort_key (\<lambda>x. - int (f x)) [1, 2, 3])" for q
    by (intro reqq_stable_priority_order) simp_all
  moreover have "sort_key (\<lambda>x. - int (f x)) [1, 2, 3] = [2, 1, 3]" by (simp add: f_def)
  ultimately show ?thesis by metis
qed

end
