(* ===== verification/Workers.thy ===== *)
theory Workers
  imports Prelude
begin

text \<open>
  The worker structures of \<open>libeio/etp.c\<close>: the per-thread temporary buffer \<open>etp_tmpbuf\<close>, and the
  circular doubly linked list of workers anchored at \<open>pool->wrk_first\<close>, which \<open>etp_start_thread\<close>
  extends and \<open>etp_worker_free\<close> shrinks.  The anchor is the worker at address 0.
\<close>

section \<open>Temporary buffers\<close>

record etp_tmpbuf =
  tb_ptr :: ptr
  tb_len :: int

text \<open>\<open>fresh\<close> is the address \<open>malloc\<close> returns, null when it fails.\<close>

definition etp_tmpbuf_get :: "etp_tmpbuf \<Rightarrow> int \<Rightarrow> ptr \<Rightarrow> ptr \<times> etp_tmpbuf" where
  "etp_tmpbuf_get buf len fresh =
     (let buf = (if tb_len buf < len then buf\<lparr>tb_ptr := fresh, tb_len := len\<rparr> else buf)
      in (tb_ptr buf, buf))"

lemma etp_tmpbuf_get_big_enough: "len \<le> tb_len (snd (etp_tmpbuf_get buf len fresh))"
  by (simp add: etp_tmpbuf_get_def Let_def)

lemma etp_tmpbuf_get_never_shrinks: "tb_len buf \<le> tb_len (snd (etp_tmpbuf_get buf len fresh))"
  by (simp add: etp_tmpbuf_get_def Let_def)

section \<open>The ring of workers\<close>

record etp_worker =
  wk_prev :: ptr
  wk_next :: ptr
  wk_tmpbuf :: etp_tmpbuf

type_synonym wrk_heap = "addr \<Rightarrow> etp_worker option"

definition calloc_worker :: etp_worker where
  "calloc_worker = \<lparr>wk_prev = None, wk_next = None, wk_tmpbuf = \<lparr>tb_ptr = None, tb_len = 0\<rparr>\<rparr>"

definition wrk_first :: addr where "wrk_first = 0"

definition upd_wrk :: "wrk_heap \<Rightarrow> addr \<Rightarrow> (etp_worker \<Rightarrow> etp_worker) \<Rightarrow> wrk_heap option" where
  "upd_wrk h a f = (case h a of None \<Rightarrow> None | Some w \<Rightarrow> Some (h(a \<mapsto> f w)))"

text \<open>The initialisation in \<open>etp_init\<close>: the anchor is its own neighbour.\<close>

definition ring_init :: wrk_heap where
  "ring_init = [wrk_first \<mapsto> calloc_worker\<lparr>wk_next := Some wrk_first, wk_prev := Some wrk_first\<rparr>]"

text \<open>The linking part of \<open>etp_start_thread\<close>: \<open>wrk\<close> becomes the first worker.\<close>

definition ring_link :: "wrk_heap \<Rightarrow> addr \<Rightarrow> wrk_heap option" where
  "ring_link h wrk = do {
     h \<leftarrow> upd_wrk h wrk (\<lambda>w. w\<lparr>wk_prev := Some wrk_first\<rparr>);
     f \<leftarrow> h wrk_first;
     h \<leftarrow> upd_wrk h wrk (\<lambda>w. w\<lparr>wk_next := wk_next f\<rparr>);
     f \<leftarrow> h wrk_first;
     nx \<leftarrow> wk_next f;
     h \<leftarrow> upd_wrk h nx (\<lambda>w. w\<lparr>wk_prev := Some wrk\<rparr>);
     upd_wrk h wrk_first (\<lambda>w. w\<lparr>wk_next := Some wrk\<rparr>) }"

text \<open>\<open>etp_worker_free\<close>: unlink the worker and free it (its buffer with it).\<close>

definition etp_worker_free :: "wrk_heap \<Rightarrow> addr \<Rightarrow> wrk_heap option" where
  "etp_worker_free h wrk = do {
     w \<leftarrow> h wrk;
     nx \<leftarrow> wk_next w;
     h \<leftarrow> upd_wrk h nx (\<lambda>x. x\<lparr>wk_prev := wk_prev w\<rparr>);
     w \<leftarrow> h wrk;
     pv \<leftarrow> wk_prev w;
     h \<leftarrow> upd_wrk h pv (\<lambda>x. x\<lparr>wk_next := wk_next w\<rparr>);
     Some (h(wrk := None)) }"

section \<open>The ring invariant\<close>

definition nxt :: "wrk_heap \<Rightarrow> addr \<Rightarrow> ptr" where "nxt h a = Option.bind (h a) wk_next"
definition prv :: "wrk_heap \<Rightarrow> addr \<Rightarrow> ptr" where "prv h a = Option.bind (h a) wk_prev"

text \<open>
  \<open>dll h p xs e\<close>: from \<open>p\<close> the \<open>next\<close> members lead through \<open>xs\<close> to \<open>e\<close>, and each \<open>prev\<close> member
  points back.  \<open>ring\<close> is such a segment from the anchor to itself that holds every worker.
\<close>

fun dll :: "wrk_heap \<Rightarrow> addr \<Rightarrow> addr list \<Rightarrow> addr \<Rightarrow> bool" where
  "dll h p [] e \<longleftrightarrow> nxt h p = Some e \<and> prv h e = Some p"
| "dll h p (x # xs) e \<longleftrightarrow> nxt h p = Some x \<and> prv h x = Some p \<and> dll h x xs e"

definition ring :: "wrk_heap \<Rightarrow> addr list \<Rightarrow> bool" where
  "ring h ws \<longleftrightarrow> distinct (wrk_first # ws) \<and> dom h = set (wrk_first # ws) \<and>
                  dll h wrk_first ws wrk_first"

lemma ring_ring_init: "ring ring_init []"
  by (simp add: ring_def ring_init_def nxt_def prv_def)

lemma dll_append: "dll h p (xs @ y # ys) e \<longleftrightarrow> dll h p xs y \<and> dll h y ys e"
  by (induction xs arbitrary: p) auto

lemma dll_frame:
  "\<forall>a \<in> set (p # xs). nxt h' a = nxt h a \<Longrightarrow> \<forall>a \<in> set (xs @ [e]). prv h' a = prv h a \<Longrightarrow>
   dll h' p xs e \<longleftrightarrow> dll h p xs e"
  by (induction xs arbitrary: p) auto

lemma dll_first: "dll h p xs e \<Longrightarrow> nxt h p = Some (hd (xs @ [e]))"
  by (cases xs) auto

lemma dll_last: "dll h p xs e \<Longrightarrow> prv h e = Some (last (p # xs))"
  by (induction xs arbitrary: p) auto

text \<open>Bypassing the node between two segments.\<close>

lemma dll_join:
  assumes "dll h p xs e" "dll h e ys f" "distinct (p # xs @ ys)" "f \<notin> set (xs @ ys)"
    and "nxt h' (last (p # xs)) = Some (hd (ys @ [f]))" "prv h' (hd (ys @ [f])) = Some (last (p # xs))"
    and "\<And>a. a \<in> set (p # xs @ ys) \<Longrightarrow> a \<noteq> last (p # xs) \<Longrightarrow> nxt h' a = nxt h a"
    and "\<And>a. a \<in> set (xs @ ys @ [f]) \<Longrightarrow> a \<noteq> hd (ys @ [f]) \<Longrightarrow> prv h' a = prv h a"
  shows "dll h' p (xs @ ys) f"
  using assms
proof (induction xs arbitrary: p)
  case Nil
  show ?case
  proof (cases ys)
    case Nil
    with Nil.prems show ?thesis by simp
  next
    case (Cons y zs)
    have "dll h' y zs f \<longleftrightarrow> dll h y zs f"
      using Nil.prems(3,4,7,8) Cons by (intro dll_frame) auto
    with Nil.prems Cons show ?thesis by simp
  qed
next
  case (Cons x xs)
  have last: "last (p # x # xs) = last (x # xs)" by simp
  have px: "p \<noteq> last (x # xs)" using Cons.prems(3) by (metis UnI1 distinct.simps(2) last_in_set list.distinct(1) set_append append_Cons)
  have xh: "x \<noteq> hd (ys @ [f])" using Cons.prems(3,4) by (cases ys) auto
  have "dll h' x (xs @ ys) f"
  proof (rule Cons.IH)
    show "dll h x xs e" using Cons.prems(1) by simp
    show "prv h' (hd (ys @ [f])) = Some (last (x # xs))" using Cons.prems(6) last by simp
    show "nxt h' (last (x # xs)) = Some (hd (ys @ [f]))" using Cons.prems(5) last by simp
  qed (use Cons.prems last in auto)
  moreover have "nxt h' p = Some x" using Cons.prems(1,7) px last by auto
  moreover have "prv h' x = Some p" using Cons.prems(1,8) xh by auto
  ultimately show ?case by simp
qed

lemma upd_wrk_Some: "h a = Some w \<Longrightarrow> upd_wrk h a f = Some (h(a \<mapsto> f w))"
  by (simp add: upd_wrk_def)

text \<open>Linking a fresh worker puts it in front.\<close>

lemma ring_link_ring:
  assumes r: "ring h ws" and fresh: "h w = None"
  shows "\<exists>h'. ring_link (h(w \<mapsto> calloc_worker)) w = Some h' \<and> ring h' (w # ws)"
proof -
  have "w \<notin> dom h" using fresh by auto
  then have w: "w \<noteq> wrk_first" "w \<notin> set ws" using r by (auto simp: ring_def simp del: domIff)
  have d: "distinct (wrk_first # ws)" "dll h wrk_first ws wrk_first"
    and dm: "dom h = set (wrk_first # ws)" using r by (auto simp: ring_def)
  define n where "n = hd (ws @ [wrk_first])"
  obtain f where f: "h wrk_first = Some f" using dm by (auto simp: dom_def)
  have fn: "wk_next f = Some n" using dll_first [OF d(2)] f by (simp add: nxt_def n_def)
  have n_in: "n \<in> set (wrk_first # ws)" by (cases ws) (auto simp: n_def)
  then obtain m where m: "h n = Some m" using dm by blast
  have nw: "n \<noteq> w" using n_in w by auto
  let ?h1 = "h(w \<mapsto> calloc_worker\<lparr>wk_prev := Some wrk_first, wk_next := Some n\<rparr>)"
  let ?h2 = "?h1(n \<mapsto> m\<lparr>wk_prev := Some w\<rparr>)"
  define g where "g = (if n = wrk_first then m\<lparr>wk_prev := Some w\<rparr> else f)"
  let ?h3 = "?h2(wrk_first \<mapsto> g\<lparr>wk_next := Some w\<rparr>)"
  have link: "ring_link (h(w \<mapsto> calloc_worker)) w = Some ?h3"
    using f fn m nw w unfolding ring_link_def g_def
    by (auto simp: upd_wrk_def)
  have "dll ?h3 w ws wrk_first"
  proof (cases ws)
    case Nil
    with w nw m f show ?thesis by (simp add: n_def g_def nxt_def prv_def)
  next
    case (Cons y ys)
    then have ny: "n = y" by (simp add: n_def)
    have "dll ?h3 y ys wrk_first \<longleftrightarrow> dll h y ys wrk_first"
    proof (rule dll_frame)
      show "\<forall>a \<in> set (y # ys). nxt ?h3 a = nxt h a"
        using Cons w d(1) ny m by (auto simp: nxt_def)
      show "\<forall>a \<in> set (ys @ [wrk_first]). prv ?h3 a = prv h a"
        using Cons w d(1) ny m f by (auto simp: prv_def g_def)
    qed
    with Cons d w ny m show ?thesis by (auto simp: nxt_def prv_def)
  qed
  moreover have "nxt ?h3 wrk_first = Some w" "prv ?h3 w = Some wrk_first"
    using w nw by (auto simp: nxt_def prv_def)
  moreover have "dom ?h3 = set (wrk_first # w # ws)"
    using dm n_in by auto
  ultimately have "ring ?h3 (w # ws)"
    using d(1) w by (simp add: ring_def)
  with link show ?thesis by blast
qed

text \<open>Freeing a worker of the ring takes it out.\<close>

lemma etp_worker_free_ring:
  assumes r: "ring h (xs @ w # ys)"
  shows "\<exists>h'. etp_worker_free h w = Some h' \<and> ring h' (xs @ ys)"
proof -
  have d: "distinct (wrk_first # xs @ w # ys)" and dm: "dom h = set (wrk_first # xs @ w # ys)"
    and seg: "dll h wrk_first xs w" "dll h w ys wrk_first"
    using r by (auto simp: ring_def dll_append)
  define n where "n = hd (ys @ [wrk_first])"
  define p where "p = last (wrk_first # xs)"
  obtain v where v: "h w = Some v" using dm by (auto simp: dom_def)
  have vn: "wk_next v = Some n" using dll_first [OF seg(2)] v by (simp add: nxt_def n_def)
  have vp: "wk_prev v = Some p" using dll_last [OF seg(1)] v by (simp add: prv_def p_def)
  have n_in: "n \<in> set (wrk_first # ys)" by (cases ys) (auto simp: n_def)
  have p_in: "p \<in> set (wrk_first # xs)" unfolding p_def by (rule last_in_set) simp
  have nw: "n \<noteq> w" "p \<noteq> w" using n_in p_in d by auto
  obtain m where m: "h n = Some m" using n_in dm by fastforce
  obtain k where k: "h p = Some k" using p_in dm by fastforce
  let ?h1 = "h(n \<mapsto> m\<lparr>wk_prev := Some p\<rparr>)"
  define k' where "k' = (if p = n then m\<lparr>wk_prev := Some p\<rparr> else k)"
  let ?h2 = "(?h1(p \<mapsto> k'\<lparr>wk_next := Some n\<rparr>))(w := None)"
  have free: "etp_worker_free h w = Some ?h2"
    using v vn vp m k nw unfolding etp_worker_free_def k'_def by (simp add: upd_wrk_def)
  have nxt2: "nxt ?h2 a = (if a = p then Some n else nxt h a)" if "a \<noteq> w" for a
    using that m nw by (auto simp: nxt_def k'_def)
  have prv2: "prv ?h2 a = (if a = n then Some p else prv h a)" if "a \<noteq> w" for a
    using that m k nw by (auto simp: prv_def k'_def)
  have "dll ?h2 wrk_first (xs @ ys) wrk_first"
  proof (rule dll_join [OF seg])
    show "nxt ?h2 (last (wrk_first # xs)) = Some (hd (ys @ [wrk_first]))"
      using nxt2 [OF nw(2)] by (simp add: p_def n_def)
    show "prv ?h2 (hd (ys @ [wrk_first])) = Some (last (wrk_first # xs))"
      using prv2 [OF nw(1)] by (simp add: p_def n_def)
    fix a
    show "nxt ?h2 a = nxt h a" if "a \<in> set (wrk_first # xs @ ys)" "a \<noteq> last (wrk_first # xs)"
    proof -
      have "a \<noteq> w" using that d by auto
      then show ?thesis using nxt2 that(2) by (simp add: p_def)
    qed
    show "prv ?h2 a = prv h a" if "a \<in> set (xs @ ys @ [wrk_first])" "a \<noteq> hd (ys @ [wrk_first])"
    proof -
      have "a \<noteq> w" using that d by auto
      then show ?thesis using prv2 that(2) by (simp add: n_def)
    qed
  qed (use d in auto)
  moreover have "dom ?h2 = set (wrk_first # xs @ ys)"
    using dm n_in p_in d by auto
  ultimately have "ring ?h2 (xs @ ys)" using d by (auto simp: ring_def)
  with free show ?thesis by blast
qed

end
