(* ===== verification/Pool.thy ===== *)
theory Pool
  imports Reqq Workers
begin

text \<open>
  The thread pool \<open>etp_pool\<close> of \<open>libeio/etp.c\<close>: its state, and its operations cut at the lock
  boundaries, so that the same definitions serve the sequential functions of this theory and the
  interleaved system of \<open>PoolSystem\<close>.  The record holds the members of the C structure together with
  the memory they point into (\<open>p_heap\<close> for requests, \<open>p_wrk\<close> for workers), the part of the process
  the callbacks act on (\<open>p_io\<close>), and \<open>errno\<close>.  The operations that call out take the callee as an
  argument: \<open>want\<close> and \<open>done\<close> are the poll callbacks of the pool, \<open>spawn\<close> tells where \<open>calloc\<close> puts a
  new worker and whether \<open>pthread_create\<close> succeeds, \<open>alloc\<close> where \<open>calloc\<close> puts a new request.
  Mutexes and condition variables have no state of their own here: a definition that the C runs with
  a lock held is one atomic step of the system.
\<close>

section \<open>State\<close>

record 'io etp_pool =
  p_heap :: req_heap
  p_wrk :: wrk_heap
  p_io :: 'io
  p_errno :: int
  req_queue :: etp_reqq
  res_queue :: etp_reqq
  started :: u32
  idle :: u32
  wanted :: u32
  max_poll_time :: u32
  max_poll_reqs :: u32
  nreqs :: u32
  nready :: u32
  npending :: u32
  max_idle :: u32
  idle_timeout :: u32

definition EAGAIN :: int where "EAGAIN = 11"

text \<open>The static \<open>eio_pool\<close> before its initialisation: all members zero.\<close>

definition eio_pool_bss :: "'io \<Rightarrow> 'io etp_pool" where
  "eio_pool_bss io = \<lparr>
     p_heap = Map.empty, p_wrk = Map.empty, p_io = io, p_errno = 0,
     req_queue = \<lparr>qs = replicate ETP_NUM_PRI None, qe = replicate ETP_NUM_PRI None, q_size = 0\<rparr>,
     res_queue = \<lparr>qs = replicate ETP_NUM_PRI None, qe = replicate ETP_NUM_PRI None, q_size = 0\<rparr>,
     started = 0, idle = 0, wanted = 0, max_poll_time = 0, max_poll_reqs = 0,
     nreqs = 0, nready = 0, npending = 0, max_idle = 0, idle_timeout = 0\<rparr>"

definition etp_init :: "'io etp_pool \<Rightarrow> 'io etp_pool" where
  "etp_init pool = pool\<lparr>
     req_queue := reqq_init (req_queue pool), res_queue := reqq_init (res_queue pool),
     p_wrk := ring_init,
     started := 0, idle := 0, nreqs := 0, nready := 0, npending := 0, wanted := 4,
     max_idle := 4, idle_timeout := 10\<rparr>"

section \<open>Counters and settings\<close>

definition etp_nreqs :: "'io etp_pool \<Rightarrow> u32" where "etp_nreqs pool = nreqs pool"
definition etp_nready :: "'io etp_pool \<Rightarrow> u32" where "etp_nready pool = nready pool"
definition etp_npending :: "'io etp_pool \<Rightarrow> u32" where "etp_npending pool = npending pool"
definition etp_nthreads :: "'io etp_pool \<Rightarrow> u32" where "etp_nthreads pool = started pool"

definition ETP_TICKS :: int where "ETP_TICKS = (1000000 + 1023) div 2 ^ 10"

lemma ETP_TICKS_eq: "ETP_TICKS = 977"
  by (simp add: ETP_TICKS_def)

text \<open>The conversion of a \<open>double\<close> to an integer type drops the fraction.\<close>

definition trunc_rat :: "rat \<Rightarrow> int" where
  "trunc_rat x = (if 0 \<le> x then \<lfloor>x\<rfloor> else \<lceil>x\<rceil>)"

definition etp_set_max_poll_time :: "'io etp_pool \<Rightarrow> rat \<Rightarrow> 'io etp_pool" where
  "etp_set_max_poll_time pool seconds =
     pool\<lparr>max_poll_time := word_of_int (trunc_rat (seconds * of_int ETP_TICKS))\<rparr>"

definition etp_set_max_poll_reqs :: "'io etp_pool \<Rightarrow> u32 \<Rightarrow> 'io etp_pool" where
  "etp_set_max_poll_reqs pool maxreqs = pool\<lparr>max_poll_reqs := maxreqs\<rparr>"

definition etp_set_max_idle :: "'io etp_pool \<Rightarrow> u32 \<Rightarrow> 'io etp_pool" where
  "etp_set_max_idle pool threads = pool\<lparr>max_idle := threads\<rparr>"

definition etp_set_idle_timeout :: "'io etp_pool \<Rightarrow> u32 \<Rightarrow> 'io etp_pool" where
  "etp_set_idle_timeout pool seconds = pool\<lparr>idle_timeout := seconds\<rparr>"

definition etp_set_min_parallel :: "'io etp_pool \<Rightarrow> u32 \<Rightarrow> 'io etp_pool" where
  "etp_set_min_parallel pool threads =
     (if wanted pool < threads then pool\<lparr>wanted := threads\<rparr> else pool)"

section \<open>Time differences\<close>

record timeval =
  tv_sec :: int
  tv_usec :: int

text \<open>\<open>>> 10\<close> on a signed difference is an arithmetic shift: division that rounds down.\<close>

definition etp_tvdiff :: "timeval \<Rightarrow> timeval \<Rightarrow> int" where
  "etp_tvdiff tv1 tv2 =
     (tv_sec tv2 - tv_sec tv1) * ETP_TICKS + (tv_usec tv2 - tv_usec tv1) div 2 ^ 10"

section \<open>Starting and ending threads\<close>

definition etp_start_thread :: "('io etp_pool \<Rightarrow> addr \<times> bool) \<Rightarrow> 'io etp_pool \<Rightarrow> 'io etp_pool option" where
  "etp_start_thread spawn pool =
     (let (wrk, created) = spawn pool in
      if created then do {
        ring \<leftarrow> ring_link ((p_wrk pool)(wrk \<mapsto> calloc_worker)) wrk;
        Some (pool\<lparr>p_wrk := ring, started := started pool + 1\<rparr>) }
      else Some pool)"

definition etp_maybe_start_thread ::
    "('io etp_pool \<Rightarrow> addr \<times> bool) \<Rightarrow> 'io etp_pool \<Rightarrow> 'io etp_pool option" where
  "etp_maybe_start_thread spawn pool =
     (if wanted pool \<le> etp_nthreads pool then Some pool
      else if 0 \<le> sint (etp_nthreads pool) + sint (etp_npending pool) - sint (etp_nreqs pool)
      then Some pool
      else etp_start_thread spawn pool)"

text \<open>
  \<open>etp_end_thread\<close> in its two critical sections: the quit request is queued under the request lock,
  the count of threads drops under the worker lock.
\<close>

definition etp_end_thread_push :: "(req_heap \<Rightarrow> addr) \<Rightarrow> 'io etp_pool \<Rightarrow> 'io etp_pool option" where
  "etp_end_thread_push alloc pool = do {
     let req = alloc (p_heap pool);
     let h = (p_heap pool)(req \<mapsto> calloc_req\<lparr>rq_type := ETP_TYPE_QUIT,
                                rq_pri := word_of_int (EIO_PRI_MAX - EIO_PRI_MIN)\<rparr>);
     (_, h, q) \<leftarrow> reqq_push h (req_queue pool) req;
     Some (pool\<lparr>p_heap := h, req_queue := q\<rparr>) }"

definition etp_end_thread_dec :: "'io etp_pool \<Rightarrow> 'io etp_pool" where
  "etp_end_thread_dec pool = pool\<lparr>started := started pool - 1\<rparr>"

definition etp_end_thread :: "(req_heap \<Rightarrow> addr) \<Rightarrow> 'io etp_pool \<Rightarrow> 'io etp_pool option" where
  "etp_end_thread alloc pool = map_option etp_end_thread_dec (etp_end_thread_push alloc pool)"

lemma etp_end_thread_counts:
  "etp_end_thread alloc pool = Some pool' \<Longrightarrow>
   started pool' = started pool - 1 \<and> wanted pool' = wanted pool"
  by (auto simp: etp_end_thread_def etp_end_thread_push_def etp_end_thread_dec_def Let_def
      split: bind_splits)

text \<open>The loop \<open>while (pool->started > pool->wanted) etp_end_thread (pool)\<close>.\<close>

function etp_end_surplus :: "(req_heap \<Rightarrow> addr) \<Rightarrow> 'io etp_pool \<Rightarrow> 'io etp_pool option" where
  "etp_end_surplus alloc pool =
     (if wanted pool < started pool then
        (case etp_end_thread alloc pool of
           None \<Rightarrow> None
         | Some pool \<Rightarrow> etp_end_surplus alloc pool)
      else Some pool)"
  by pat_completeness auto
termination
proof (relation "measure (\<lambda>(alloc, pool). unat (started pool))")
  fix alloc :: "req_heap \<Rightarrow> addr" and pool pool' :: "'a etp_pool"
  assume "wanted pool < started pool" "etp_end_thread alloc pool = Some pool'"
  moreover from this(1) have "started pool \<noteq> 0"
    by (metis word_not_simps(1))
  ultimately show "((alloc, pool'), alloc, pool) \<in> measure (\<lambda>(alloc, pool). unat (started pool))"
    using etp_end_thread_counts [of alloc pool pool'] measure_unat [of "started pool"] by auto
qed simp

declare etp_end_surplus.simps [simp del]

definition etp_set_max_parallel ::
    "(req_heap \<Rightarrow> addr) \<Rightarrow> 'io etp_pool \<Rightarrow> u32 \<Rightarrow> 'io etp_pool option" where
  "etp_set_max_parallel alloc pool threads =
     etp_end_surplus alloc
       (if threads < wanted pool then pool\<lparr>wanted := threads\<rparr> else pool)"

section \<open>Submitting\<close>

text \<open>
  The adjustment of the priority in \<open>etp_submit\<close>: \<open>req->pri\<close> is a \<open>signed char\<close>, so the subtraction of
  the (negative) minimum wraps around at 8 bits before the range is enforced.
\<close>

definition submit_pri :: "u8 \<Rightarrow> u8" where
  "submit_pri pri =
     (let pri = pri - word_of_int EIO_PRI_MIN;
          pri = (if sint pri < EIO_PRI_MIN - EIO_PRI_MIN
                 then word_of_int (EIO_PRI_MIN - EIO_PRI_MIN) else pri)
      in if sint pri > EIO_PRI_MAX - EIO_PRI_MIN
         then word_of_int (EIO_PRI_MAX - EIO_PRI_MIN) else pri)"

definition etp_submit_prep :: "'io etp_pool \<Rightarrow> addr \<Rightarrow> 'io etp_pool option" where
  "etp_submit_prep pool req = do {
     h \<leftarrow> upd_req (p_heap pool) req (\<lambda>r. r\<lparr>rq_pri := submit_pri (rq_pri r)\<rparr>);
     Some (pool\<lparr>p_heap := h\<rparr>) }"

text \<open>The section under the request lock for a group: only the count.\<close>

definition etp_submit_grp_req :: "'io etp_pool \<Rightarrow> 'io etp_pool" where
  "etp_submit_grp_req pool = pool\<lparr>nreqs := nreqs pool + 1\<rparr>"

text \<open>
  The section under the result lock, the same code in \<open>etp_submit\<close> (for a group) and at the end of a
  round of \<open>etp_proc\<close>: the poll callback is called when the queue was empty before.
\<close>

definition push_result :: "('io \<Rightarrow> 'io) \<Rightarrow> 'io etp_pool \<Rightarrow> addr \<Rightarrow> 'io etp_pool option" where
  "push_result want pool req = do {
     let pool = pool\<lparr>npending := npending pool + 1\<rparr>;
     (n, h, q) \<leftarrow> reqq_push (p_heap pool) (res_queue pool) req;
     let pool = pool\<lparr>p_heap := h, res_queue := q\<rparr>;
     Some (if n = 0 then pool\<lparr>p_io := want (p_io pool)\<rparr> else pool) }"

definition etp_submit_req :: "'io etp_pool \<Rightarrow> addr \<Rightarrow> 'io etp_pool option" where
  "etp_submit_req pool req = do {
     let pool = pool\<lparr>nreqs := nreqs pool + 1, nready := nready pool + 1\<rparr>;
     (_, h, q) \<leftarrow> reqq_push (p_heap pool) (req_queue pool) req;
     Some (pool\<lparr>p_heap := h, req_queue := q\<rparr>) }"

definition etp_submit ::
    "('io \<Rightarrow> 'io) \<Rightarrow> ('io etp_pool \<Rightarrow> addr \<times> bool) \<Rightarrow> 'io etp_pool \<Rightarrow> addr \<Rightarrow> 'io etp_pool option" where
  "etp_submit want spawn pool req = do {
     pool \<leftarrow> etp_submit_prep pool req;
     r \<leftarrow> p_heap pool req;
     if rq_type r = EIO_GROUP then push_result want (etp_submit_grp_req pool) req
     else do {
       pool \<leftarrow> etp_submit_req pool req;
       etp_maybe_start_thread spawn pool } }"

section \<open>Polling\<close>

text \<open>Taking one result, under the result lock; then the count, under the request lock.\<close>

definition poll_shift :: "('io \<Rightarrow> 'io) \<Rightarrow> 'io etp_pool \<Rightarrow> (ptr \<times> 'io etp_pool) option" where
  "poll_shift done pool = do {
     (req, q) \<leftarrow> reqq_shift (p_heap pool) (res_queue pool);
     let pool = pool\<lparr>res_queue := q\<rparr>;
     (case req of
        None \<Rightarrow> Some (None, pool)
      | Some r \<Rightarrow>
          (let pool = pool\<lparr>npending := npending pool - 1\<rparr>
           in Some (Some r,
                (if q_size (res_queue pool) = 0 then pool\<lparr>p_io := done (p_io pool)\<rparr> else pool)))) }"

definition poll_account :: "'io etp_pool \<Rightarrow> 'io etp_pool" where
  "poll_account pool = pool\<lparr>nreqs := nreqs pool - 1\<rparr>"

text \<open>A group that still has members is only marked; everything else is finished.\<close>

definition poll_handle ::
    "(addr \<Rightarrow> 'io etp_pool \<Rightarrow> (int \<times> 'io etp_pool) option) \<Rightarrow> addr \<Rightarrow> 'io etp_pool \<Rightarrow>
     (int option \<times> 'io etp_pool) option" where
  "poll_handle finish req pool = do {
     r \<leftarrow> p_heap pool req;
     if rq_type r = EIO_GROUP \<and> rq_size r \<noteq> 0 then do {
       h \<leftarrow> upd_req (p_heap pool) req
              (\<lambda>r. r\<lparr>rq_flags := or (rq_flags r) ETP_FLAG_DELAYED\<rparr>);
       Some (None, pool\<lparr>p_heap := h\<rparr>) }
     else map_option (\<lambda>(res, pool). (Some res, pool)) (finish req pool) }"

text \<open>
  The loop of \<open>etp_poll\<close>.  \<open>now i\<close> is the time \<open>gettimeofday\<close> returns after the \<open>i\<close>-th handled
  request (\<open>now 0\<close> before the loop).  The comparison with \<open>maxtime\<close> is one of unsigned integers.  The
  result \<open>None\<close> also stands for a loop that did not end within the fuel.
\<close>

fun etp_poll_loop ::
    "('io \<Rightarrow> 'io) \<Rightarrow> ('io etp_pool \<Rightarrow> addr \<times> bool) \<Rightarrow>
     (addr \<Rightarrow> 'io etp_pool \<Rightarrow> (int \<times> 'io etp_pool) option) \<Rightarrow> (nat \<Rightarrow> timeval) \<Rightarrow>
     nat \<Rightarrow> nat \<Rightarrow> u32 \<Rightarrow> u32 \<Rightarrow> 'io etp_pool \<Rightarrow> (int \<times> 'io etp_pool) option" where
  "etp_poll_loop done spawn finish now 0 i maxreqs maxtime pool = None"
| "etp_poll_loop done spawn finish now (Suc fuel) i maxreqs maxtime pool = do {
     pool \<leftarrow> etp_maybe_start_thread spawn pool;
     (req, pool) \<leftarrow> poll_shift done pool;
     (case req of
        None \<Rightarrow> Some (0, pool)
      | Some req \<Rightarrow> do {
          (res, pool) \<leftarrow> poll_handle finish req (poll_account pool);
          (case res of
             None \<Rightarrow> etp_poll_loop done spawn finish now fuel i maxreqs maxtime pool
           | Some res \<Rightarrow>
               if res \<noteq> 0 then Some (res, pool)
               else if maxreqs \<noteq> 0 \<and> maxreqs - 1 = 0 then Some (-1, pool\<lparr>p_errno := EAGAIN\<rparr>)
               else (let maxreqs = (if maxreqs \<noteq> 0 then maxreqs - 1 else maxreqs) in
                 if maxtime \<noteq> 0 \<and> maxtime \<le> word_of_int (etp_tvdiff (now 0) (now (Suc i)))
                 then Some (-1, pool\<lparr>p_errno := EAGAIN\<rparr>)
                 else etp_poll_loop done spawn finish now fuel (Suc i) maxreqs maxtime pool)) }) }"

definition etp_poll ::
    "('io \<Rightarrow> 'io) \<Rightarrow> ('io etp_pool \<Rightarrow> addr \<times> bool) \<Rightarrow>
     (addr \<Rightarrow> 'io etp_pool \<Rightarrow> (int \<times> 'io etp_pool) option) \<Rightarrow> (nat \<Rightarrow> timeval) \<Rightarrow>
     nat \<Rightarrow> 'io etp_pool \<Rightarrow> (int \<times> 'io etp_pool) option" where
  "etp_poll done spawn finish now fuel pool =
     etp_poll_loop done spawn finish now fuel 0 (max_poll_reqs pool) (max_poll_time pool) pool"


section \<open>Ownership\<close>

text \<open>The table of a queue is read as the list of its entries, never row by row.\<close>

declare set_concat [simp del] length_concat [simp del] concat_eq_Nil_conv [simp del]

text \<open>
  \<open>owns p rq rs held\<close>: the two queues of the pool represent the tables \<open>rq\<close> and \<open>rs\<close>, \<open>held\<close> are the
  requests some thread works on, no request is in two places, and all of them are live with a
  priority that indexes the queues.
\<close>

definition pri_ok :: "req_heap \<Rightarrow> addr \<Rightarrow> bool" where
  "pri_ok h a \<longleftrightarrow> (\<exists>r. h a = Some r \<and> 0 \<le> sint (rq_pri r) \<and> sint (rq_pri r) < int ETP_NUM_PRI)"

definition owns :: "'io etp_pool \<Rightarrow> addr list list \<Rightarrow> addr list list \<Rightarrow> addr list \<Rightarrow> bool" where
  "owns p rq rs held \<longleftrightarrow>
     reqq_abs (p_heap p) (req_queue p) rq \<and> reqq_abs (p_heap p) (res_queue p) rs \<and>
     distinct (concat rq @ concat rs @ held) \<and>
     (\<forall>a \<in> set (concat rq @ concat rs @ held). pri_ok (p_heap p) a)"

definition pri_of :: "req_heap \<Rightarrow> addr \<Rightarrow> nat" where
  "pri_of h a = (case h a of None \<Rightarrow> 0 | Some r \<Rightarrow> nat (sint (rq_pri r)))"

lemma pri_okE:
  assumes "pri_ok h a"
  obtains r where "h a = Some r" "sint (rq_pri r) = int (pri_of h a)" "pri_of h a < ETP_NUM_PRI"
  using assms by (auto simp: pri_ok_def pri_of_def)

lemma pri_ok_same_but_next: "same_but_next h h' \<Longrightarrow> pri_ok h a \<Longrightarrow> pri_ok h' a"
  by (auto simp: pri_ok_def elim: same_but_nextD)

lemma owns_init: "owns (etp_init p) (replicate 9 []) (replicate 9 []) []"
  by (simp add: owns_def etp_init_def reqq_abs_init concat_replicate_trivial)

lemma owns_cong:
  "p_heap p' = p_heap p \<Longrightarrow> req_queue p' = req_queue p \<Longrightarrow> res_queue p' = res_queue p \<Longrightarrow>
   owns p' rq rs held \<longleftrightarrow> owns p rq rs held"
  by (simp add: owns_def)

lemma owns_perm: "mset held = mset held' \<Longrightarrow> owns p rq rs held \<longleftrightarrow> owns p rq rs held'"
  using distinct_mset_iff [of "concat rq @ concat rs @ held" "concat rq @ concat rs @ held'"]
  by (auto simp: owns_def dest: mset_eq_setD)

lemma owns_live: "owns p rq rs held \<Longrightarrow> a \<in> set (concat rq @ concat rs @ held) \<Longrightarrow> \<exists>r. p_heap p a = Some r"
  by (auto simp: owns_def pri_ok_def)

text \<open>The three queue movements a pool makes, each with the ownership it leaves.\<close>

lemma push_result_owns:
  assumes o: "owns p rq rs (a # held)"
  shows "\<exists>h' q'. push_result want p a =
      Some (p\<lparr>p_heap := h', res_queue := q', npending := npending p + 1,
               p_io := (if concat rs = [] then want (p_io p) else p_io p)\<rparr>) \<and>
      owns (p\<lparr>p_heap := h', res_queue := q'\<rparr>) rq (pq_push rs (pri_of (p_heap p) a) a) held \<and>
      same_but_next (p_heap p) h'"
proof -
  let ?k = "pri_of (p_heap p) a"
  have abs: "reqq_abs (p_heap p) (req_queue p) rq" "reqq_abs (p_heap p) (res_queue p) rs"
    and d: "distinct (concat rq @ concat rs @ a # held)"
    and ok: "\<forall>x \<in> set (concat rq @ concat rs @ a # held). pri_ok (p_heap p) x"
    using o by (auto simp: owns_def)
  from ok have "pri_ok (p_heap p) a" by simp
  then obtain r where r: "p_heap p a = Some r" "sint (rq_pri r) = int ?k" "?k < ETP_NUM_PRI"
    by (rule pri_okE)
  have fresh: "a \<notin> set (concat rs)" using d by auto
  have kl: "?k < length rs" using r(3) reqq_absD(3) [OF abs(2)] by simp
  from reqq_push_refines [OF abs(2) r(1) fresh r(2,3)] obtain h' q' where
    push: "reqq_push (p_heap p) (res_queue p) a = Some (int (length (concat rs)), h', q')"
    and abs': "reqq_abs h' q' (pq_push rs ?k a)" and sbn: "same_but_next (p_heap p) h'"
    and same: "\<forall>x. x \<notin> insert a (set (concat rs)) \<longrightarrow> h' x = p_heap p x" by blast
  have "push_result want p a = Some (p\<lparr>p_heap := h', res_queue := q', npending := npending p + 1,
      p_io := (if concat rs = [] then want (p_io p) else p_io p)\<rparr>)"
    using push by (simp add: push_result_def Let_def del: length_concat concat_eq_Nil_conv)
  moreover have "owns (p\<lparr>p_heap := h', res_queue := q'\<rparr>) rq (pq_push rs ?k a) held"
  proof -
    have "reqq_abs h' (req_queue p) rq"
      using abs(1) same d by (subst reqq_abs_agree [where h = "p_heap p"]) auto
    moreover have "distinct (concat rq @ concat (pq_push rs ?k a) @ held)"
      using d kl by (simp add: distinct_pq_push set_pq_push del: distinct_concat_iff)
    moreover have "\<forall>x \<in> set (concat rq @ concat (pq_push rs ?k a) @ held). pri_ok h' x"
      using ok kl pri_ok_same_but_next [OF sbn] by (auto simp: set_pq_push simp del: set_concat)
    ultimately show ?thesis using abs' by (simp add: owns_def)
  qed
  ultimately show ?thesis using sbn by blast
qed


lemma push_request_owns:
  assumes o: "owns p rq rs (a # held)"
  shows "\<exists>h' q' n. reqq_push (p_heap p) (req_queue p) a = Some (n, h', q') \<and>
      owns (p\<lparr>p_heap := h', req_queue := q'\<rparr>) (pq_push rq (pri_of (p_heap p) a) a) rs held \<and>
      same_but_next (p_heap p) h'"
proof -
  let ?k = "pri_of (p_heap p) a"
  have abs: "reqq_abs (p_heap p) (req_queue p) rq" "reqq_abs (p_heap p) (res_queue p) rs"
    and d: "distinct (concat rq @ concat rs @ a # held)"
    and ok: "\<forall>x \<in> set (concat rq @ concat rs @ a # held). pri_ok (p_heap p) x"
    using o by (auto simp: owns_def)
  from ok have "pri_ok (p_heap p) a" by simp
  then obtain r where r: "p_heap p a = Some r" "sint (rq_pri r) = int ?k" "?k < ETP_NUM_PRI"
    by (rule pri_okE)
  have fresh: "a \<notin> set (concat rq)" using d by auto
  have kl: "?k < length rq" using r(3) reqq_absD(3) [OF abs(1)] by simp
  from reqq_push_refines [OF abs(1) r(1) fresh r(2,3)] obtain h' q' where
    push: "reqq_push (p_heap p) (req_queue p) a = Some (int (length (concat rq)), h', q')"
    and abs': "reqq_abs h' q' (pq_push rq ?k a)" and sbn: "same_but_next (p_heap p) h'"
    and same: "\<forall>x. x \<notin> insert a (set (concat rq)) \<longrightarrow> h' x = p_heap p x" by blast
  have "reqq_abs h' (res_queue p) rs"
    using abs(2) same d by (subst reqq_abs_agree [where h = "p_heap p"]) auto
  moreover have "distinct (concat (pq_push rq ?k a) @ concat rs @ held)"
    using d kl by (simp add: distinct_pq_push set_pq_push del: distinct_concat_iff)
  moreover have "\<forall>x \<in> set (concat (pq_push rq ?k a) @ concat rs @ held). pri_ok h' x"
    using ok kl pri_ok_same_but_next [OF sbn] by (auto simp: set_pq_push)
  ultimately show ?thesis using abs' push sbn by (auto simp: owns_def)
qed

lemma shift_request_owns:
  assumes o: "owns p rq rs held" and pop: "pq_pop rq = Some (a, rq')"
  shows "\<exists>q'. reqq_shift (p_heap p) (req_queue p) = Some (Some a, q') \<and>
      owns (p\<lparr>req_queue := q'\<rparr>) rq' rs (a # held)"
proof -
  from o have "reqq_abs (p_heap p) (req_queue p) rq" by (simp add: owns_def)
  from reqq_shift_refines [OF this pop] obtain q' where
    "reqq_shift (p_heap p) (req_queue p) = Some (Some a, q')" "reqq_abs (p_heap p) q' rq'" by blast
  moreover have "distinct (concat rq' @ concat rs @ a # held)"
    using o distinct_pq_pop [OF pop] set_pq_pop [OF pop]
    by (auto simp: owns_def simp del: distinct_concat_iff)
  moreover have "\<forall>x \<in> set (concat rq' @ concat rs @ a # held). pri_ok (p_heap p) x"
    using o set_pq_pop [OF pop] by (auto simp: owns_def)
  ultimately show ?thesis using o by (auto simp: owns_def)
qed

lemma shift_request_empty:
  "owns p rq rs held \<Longrightarrow> pq_pop rq = None \<Longrightarrow>
   reqq_shift (p_heap p) (req_queue p) = Some (None, req_queue p)"
  by (auto simp: owns_def intro: reqq_shift_empty)

lemma poll_shift_owns:
  assumes o: "owns p rq rs held" and pop: "pq_pop rs = Some (a, rs')"
  shows "\<exists>q'. poll_shift done p =
      Some (Some a, p\<lparr>res_queue := q', npending := npending p - 1,
        p_io := (if concat rs' = [] then done (p_io p) else p_io p)\<rparr>) \<and>
      owns (p\<lparr>res_queue := q'\<rparr>) rq rs' (a # held)"
proof -
  from o have "reqq_abs (p_heap p) (res_queue p) rs" by (simp add: owns_def)
  from reqq_shift_refines [OF this pop] obtain q' where
    q': "reqq_shift (p_heap p) (res_queue p) = Some (Some a, q')" "reqq_abs (p_heap p) q' rs'" by blast
  have "q_size q' = 0 \<longleftrightarrow> concat rs' = []" using reqq_absD(7) [OF q'(2)] by simp
  with q'(1) have "poll_shift done p =
      Some (Some a, p\<lparr>res_queue := q', npending := npending p - 1,
        p_io := (if concat rs' = [] then done (p_io p) else p_io p)\<rparr>)"
    by (simp add: poll_shift_def Let_def)
  moreover have "distinct (concat rq @ concat rs' @ a # held)"
    using o distinct_pq_pop [OF pop] set_pq_pop [OF pop]
    by (auto simp: owns_def simp del: distinct_concat_iff)
  moreover have "\<forall>x \<in> set (concat rq @ concat rs' @ a # held). pri_ok (p_heap p) x"
    using o set_pq_pop [OF pop] by (auto simp: owns_def)
  ultimately show ?thesis using o q'(2) by (auto simp: owns_def)
qed

lemma poll_shift_empty:
  "owns p rq rs held \<Longrightarrow> pq_pop rs = None \<Longrightarrow> poll_shift done p = Some (None, p)"
  by (auto simp: owns_def poll_shift_def dest: reqq_shift_empty)


section \<open>Priorities\<close>

lemma sint_add_four:
  "sint (p - word_of_int EIO_PRI_MIN :: u8) = (if sint p \<le> 123 then sint p + 4 else sint p - 252)"
proof -
  have b: "-128 \<le> sint p" "sint p < 128"
    using sint_greater_eq [of p] sint_less [of p] by simp_all
  have "p - word_of_int EIO_PRI_MIN = p + 4" by (simp add: EIO_PRI_MIN_def)
  then have "sint (p - word_of_int EIO_PRI_MIN) = sint (p + 4)" by (simp only:)
  also have "\<dots> = signed_take_bit 7 (sint p + 4)" by (simp add: sint_word_ariths)
  also have "\<dots> = (sint p + 4 + 128) mod 256 - 128"
    by (simp add: signed_take_bit_eq_take_bit_shift take_bit_eq_mod)
  finally have "sint (p - word_of_int EIO_PRI_MIN) = (sint p + 4 + 128) mod 256 - 128" .
  moreover have "(sint p + 4 + 128) mod 256 = sint p + 132" if "sint p \<le> 123"
    using b that by simp
  moreover have "(sint p + 4 + 128) mod 256 = sint p - 124" if "\<not> sint p \<le> 123"
    using b that minus_mod_self2 [of "132 + sint p" 256] by (simp add: add.commute)
  ultimately show ?thesis by simp
qed

text \<open>
  What \<open>etp_submit\<close> makes of any priority byte.  The result is always a legal queue index from 0
  to 8.  Up to 123 it is the requested priority shifted by 4 and clamped to that range; the four
  largest priorities 124 to 127, however, wrap around in the signed byte and end up at 0, the
  \<^emph>\<open>lowest\<close> priority, instead of being clamped to the highest.
\<close>

theorem submit_pri_value:
  "sint (submit_pri pri) = (if sint pri \<le> 123 then max 0 (min 8 (sint pri + 4)) else 0)"
proof -
  have "sint pri < 128" using sint_less [of pri] by simp
  then show ?thesis
    using sint_add_four [of pri]
    by (auto simp: submit_pri_def Let_def EIO_PRI_MAX_def EIO_PRI_MIN_def)
qed

lemma submit_pri_bounds: "0 \<le> sint (submit_pri pri)" "sint (submit_pri pri) < int ETP_NUM_PRI"
  by (auto simp: submit_pri_value min_def max_def)


section \<open>Ending surplus threads\<close>

text \<open>The address \<open>calloc\<close> returns is not in use; only finitely many objects ever are.\<close>

definition fresh_alloc :: "(req_heap \<Rightarrow> addr) \<Rightarrow> bool" where
  "fresh_alloc alloc \<longleftrightarrow> (\<forall>h. finite (dom h) \<longrightarrow> h (alloc h) = None)"

definition next_addr :: "req_heap \<Rightarrow> addr" where
  "next_addr h = Suc (Max (insert 0 (dom h)))"

lemma fresh_alloc_next_addr: "fresh_alloc next_addr"
proof -
  have "Suc (Max (insert 0 A)) \<notin> A" if "finite A" for A :: "nat set"
  proof
    assume "Suc (Max (insert 0 A)) \<in> A"
    then have "Suc (Max (insert 0 A)) \<le> Max (insert 0 A)"
      using that by (intro Max_ge) auto
    then show False by simp
  qed
  then show ?thesis unfolding fresh_alloc_def next_addr_def by (metis domIff)
qed

text \<open>One quit request: queued at the highest priority, without touching the counts of requests.\<close>

definition is_quit :: "req_heap \<Rightarrow> addr \<Rightarrow> bool" where
  "is_quit h a \<longleftrightarrow> (\<exists>r. h a = Some r \<and> rq_type r = ETP_TYPE_QUIT)"

lemma is_quit_same_but_next: "same_but_next h h' \<Longrightarrow> is_quit h' a \<longleftrightarrow> is_quit h a"
proof -
  assume s: "same_but_next h h'"
  show ?thesis
  proof (cases "h a")
    case None
    then have "h' a = None" using same_but_next_dom [OF s] by blast
    with None show ?thesis by (simp add: is_quit_def)
  next
    case (Some r)
    then obtain n where "h' a = Some (r\<lparr>rq_next := n\<rparr>)" using s by (auto elim: same_but_nextD)
    with Some show ?thesis by (simp add: is_quit_def)
  qed
qed

lemma end_thread_push_owns:
  assumes o: "owns p rq rs held" and fresh: "p_heap p (alloc (p_heap p)) = None"
  shows "\<exists>h' q'. etp_end_thread_push alloc p = Some (p\<lparr>p_heap := h', req_queue := q'\<rparr>) \<and>
      owns (p\<lparr>p_heap := h', req_queue := q'\<rparr>) (pq_push rq 8 (alloc (p_heap p))) rs held \<and>
      is_quit h' (alloc (p_heap p)) \<and> dom h' = insert (alloc (p_heap p)) (dom (p_heap p)) \<and>
      (\<forall>x. x \<noteq> alloc (p_heap p) \<longrightarrow> (is_quit h' x \<longleftrightarrow> is_quit (p_heap p) x))"
proof -
  let ?a = "alloc (p_heap p)"
  let ?r = "calloc_req\<lparr>rq_type := ETP_TYPE_QUIT, rq_pri := word_of_int (EIO_PRI_MAX - EIO_PRI_MIN)\<rparr>"
  let ?h = "(p_heap p)(?a \<mapsto> ?r)"
  have na: "?a \<notin> set (concat rq @ concat rs @ held)"
    using owns_live [OF o] fresh by force
  have pri: "pri_of ?h ?a = 8" by (simp add: pri_of_def EIO_PRI_MAX_def EIO_PRI_MIN_def)
  have "owns (p\<lparr>p_heap := ?h\<rparr>) rq rs (?a # held)"
  proof -
    have "pri_ok ?h ?a" by (simp add: pri_ok_def EIO_PRI_MAX_def EIO_PRI_MIN_def)
    moreover have "pri_ok ?h x" if "x \<in> set (concat rq @ concat rs @ held)" for x
      using that o na by (auto simp: owns_def pri_ok_def)
    ultimately show ?thesis
      using o na by (auto simp: owns_def reqq_abs_frame)
  qed
  from push_request_owns [OF this] pri obtain h' q' n where
    push: "reqq_push ?h (req_queue p) ?a = Some (n, h', q')"
      "owns (p\<lparr>p_heap := h', req_queue := q'\<rparr>) (pq_push rq 8 ?a) rs held" "same_but_next ?h h'"
    by auto
  then have "etp_end_thread_push alloc p = Some (p\<lparr>p_heap := h', req_queue := q'\<rparr>)"
    by (simp add: etp_end_thread_push_def Let_def)
  moreover have "is_quit h' ?a"
    using is_quit_same_but_next [OF push(3), of ?a] by (simp add: is_quit_def)
  moreover have "dom h' = insert ?a (dom (p_heap p))"
    using same_but_next_dom [OF push(3)] by simp
  moreover have "is_quit h' x \<longleftrightarrow> is_quit (p_heap p) x" if "x \<noteq> ?a" for x
    using that is_quit_same_but_next [OF push(3), of x] by (simp add: is_quit_def)
  ultimately show ?thesis using push(2) by blast
qed


lemma end_surplus_owns:
  assumes "fresh_alloc alloc" "owns p rq rs held" "finite (dom (p_heap p))"
  shows "\<exists>h' q' qs. etp_end_surplus alloc p =
        Some (p\<lparr>p_heap := h', req_queue := q', started := min (started p) (wanted p)\<rparr>) \<and>
      owns (p\<lparr>p_heap := h', req_queue := q'\<rparr>) (rq[8 := rq ! 8 @ qs]) rs held \<and>
      length qs = unat (started p) - unat (wanted p) \<and>
      (\<forall>a \<in> set qs. is_quit h' a) \<and> dom h' = dom (p_heap p) \<union> set qs \<and>
      (\<forall>a \<in> dom (p_heap p). is_quit h' a \<longleftrightarrow> is_quit (p_heap p) a)"
  using assms
proof (induction "unat (started p) - unat (wanted p)" arbitrary: p rq)
  case 0
  then have "\<not> wanted p < started p" by (simp add: word_less_nat_alt)
  then have "etp_end_surplus alloc p =
      Some (p\<lparr>p_heap := p_heap p, req_queue := req_queue p, started := min (started p) (wanted p)\<rparr>)"
    by (subst etp_end_surplus.simps) (auto simp: min_def)
  moreover have "owns (p\<lparr>p_heap := p_heap p, req_queue := req_queue p\<rparr>) (rq[8 := rq ! 8 @ []]) rs held"
    using 0 by (simp add: owns_def)
  ultimately show ?case using 0 by (intro exI [of _ "p_heap p"] exI [of _ "req_queue p"] exI [of _ "[]"]) auto
next
  case (Suc d)
  let ?a = "alloc (p_heap p)"
  have lt: "wanted p < started p" using Suc.hyps(2) by (simp add: word_less_nat_alt)
  have fresh: "p_heap p ?a = None" using Suc.prems by (simp add: fresh_alloc_def)
  from end_thread_push_owns [of p rq rs held alloc, OF Suc.prems(2) fresh] obtain h1 q1 where
    push: "etp_end_thread_push alloc p = Some (p\<lparr>p_heap := h1, req_queue := q1\<rparr>)"
    "owns (p\<lparr>p_heap := h1, req_queue := q1\<rparr>) (pq_push rq 8 ?a) rs held"
    "is_quit h1 ?a" "dom h1 = insert ?a (dom (p_heap p))"
    "\<forall>x. x \<noteq> ?a \<longrightarrow> is_quit h1 x \<longleftrightarrow> is_quit (p_heap p) x" by blast
  define p1 where "p1 = p\<lparr>p_heap := h1, req_queue := q1, started := started p - 1\<rparr>"
  have p1: "etp_end_thread alloc p = Some p1"
    using push(1) by (simp add: etp_end_thread_def etp_end_thread_dec_def p1_def)
  have "started p \<noteq> 0" using lt by (metis word_not_simps(1))
  then have un: "unat (started p1) = unat (started p) - 1"
    by (simp add: p1_def unat_minus_one)
  have "owns p1 (pq_push rq 8 ?a) rs held"
    using push(2) by (simp add: owns_def p1_def)
  moreover have "d = unat (started p1) - unat (wanted p1)"
    using Suc.hyps(2) un by (simp add: p1_def)
  moreover have "finite (dom (p_heap p1))" using push(4) Suc.prems(3) by (simp add: p1_def)
  ultimately obtain h' q' qs where IH:
    "etp_end_surplus alloc p1 =
       Some (p1\<lparr>p_heap := h', req_queue := q', started := min (started p1) (wanted p1)\<rparr>)"
    "owns (p1\<lparr>p_heap := h', req_queue := q'\<rparr>) ((pq_push rq 8 ?a)[8 := pq_push rq 8 ?a ! 8 @ qs]) rs held"
    "length qs = unat (started p1) - unat (wanted p1)"
    "\<forall>a \<in> set qs. is_quit h' a" "dom h' = dom (p_heap p1) \<union> set qs"
    "\<forall>a \<in> dom (p_heap p1). is_quit h' a \<longleftrightarrow> is_quit (p_heap p1) a"
    using Suc.hyps(1) [of p1 "pq_push rq 8 ?a"] Suc.prems(1) by blast
  have len: "8 < length rq" using Suc.prems(2) by (simp add: owns_def reqq_abs_def)
  have rows: "(pq_push rq 8 ?a)[8 := pq_push rq 8 ?a ! 8 @ qs] = rq[8 := rq ! 8 @ ?a # qs]"
    using len by (simp add: pq_push_def)
  have mins: "min (started p1) (wanted p1) = min (started p) (wanted p)"
  proof -
    have "wanted p1 \<le> started p1"
      using lt un by (simp add: p1_def word_le_nat_alt word_less_nat_alt)
    with lt show ?thesis by (simp add: min_absorb2 p1_def)
  qed
  have "etp_end_surplus alloc p =
      Some (p\<lparr>p_heap := h', req_queue := q', started := min (started p) (wanted p)\<rparr>)"
    using IH(1) p1 lt mins by (simp add: etp_end_surplus.simps [of alloc p] p1_def)
  moreover have "owns (p\<lparr>p_heap := h', req_queue := q'\<rparr>) (rq[8 := rq ! 8 @ ?a # qs]) rs held"
    using IH(2) rows by (simp add: owns_def p1_def)
  moreover have "length (?a # qs) = unat (started p) - unat (wanted p)"
    using IH(3) un Suc.hyps(2) by (simp add: p1_def)
  moreover have "\<forall>a \<in> set (?a # qs). is_quit h' a"
    using IH(4,6) push(3,4) by (simp add: p1_def)
  moreover have "dom h' = dom (p_heap p) \<union> set (?a # qs)" using IH(5) push(4) by (auto simp: p1_def)
  moreover have "\<forall>a \<in> dom (p_heap p). is_quit h' a \<longleftrightarrow> is_quit (p_heap p) a"
  proof
    fix x assume x: "x \<in> dom (p_heap p)"
    then have "x \<noteq> ?a" using fresh by auto
    with x push(4,5) IH(6) show "is_quit h' x \<longleftrightarrow> is_quit (p_heap p) x" by (simp add: p1_def)
  qed
  ultimately show ?case by blast
qed

text \<open>
  \<open>etp_set_max_parallel\<close> ends, without a fault, with at most \<open>threads\<close> wanted and with no more
  threads counted as started than wanted.  For every thread above that limit it has queued exactly
  one quit request, behind the other requests of the highest priority; all requests that were in
  the pool stay where they were, and the counts of requests do not change.
\<close>

theorem etp_set_max_parallel_quits:
  assumes "fresh_alloc alloc" "owns p rq rs held" "finite (dom (p_heap p))"
  shows "\<exists>p' qs. etp_set_max_parallel alloc p threads = Some p' \<and>
      wanted p' = min (wanted p) threads \<and> started p' = min (started p) (wanted p') \<and>
      owns p' (rq[8 := rq ! 8 @ qs]) rs held \<and>
      length qs = unat (started p) - unat (wanted p') \<and> (\<forall>a \<in> set qs. is_quit (p_heap p') a) \<and>
      nreqs p' = nreqs p \<and> nready p' = nready p \<and> npending p' = npending p"
proof -
  define p1 where "p1 = (if threads < wanted p then p\<lparr>wanted := threads\<rparr> else p)"
  have eq: "p_heap p1 = p_heap p" "started p1 = started p" "wanted p1 = min (wanted p) threads"
    "nreqs p1 = nreqs p" "nready p1 = nready p" "npending p1 = npending p"
    by (auto simp: p1_def min_def)
  have "owns p1 rq rs held" using assms(2) by (auto simp: p1_def owns_def)
  then obtain h' q' qs where *: "etp_end_surplus alloc p1 =
        Some (p1\<lparr>p_heap := h', req_queue := q', started := min (started p1) (wanted p1)\<rparr>)"
      "owns (p1\<lparr>p_heap := h', req_queue := q'\<rparr>) (rq[8 := rq ! 8 @ qs]) rs held"
      "length qs = unat (started p1) - unat (wanted p1)" "\<forall>a \<in> set qs. is_quit h' a"
    using end_surplus_owns [OF assms(1), of p1 rq rs held] assms(3) eq(1) by auto
  let ?p = "p1\<lparr>p_heap := h', req_queue := q', started := min (started p1) (wanted p1)\<rparr>"
  have "etp_set_max_parallel alloc p threads = Some ?p"
    using *(1) by (simp add: etp_set_max_parallel_def p1_def)
  moreover have "owns ?p (rq[8 := rq ! 8 @ qs]) rs held" using *(2) by (simp add: owns_def)
  ultimately show ?thesis using * eq by (intro exI [of _ ?p] exI [of _ qs]) simp
qed


theorem etp_set_max_parallel_quits_witness:
  "\<exists>p' qs. etp_set_max_parallel next_addr ((etp_init (eio_pool_bss ()))\<lparr>started := 3\<rparr>) 1 = Some p' \<and>
     started p' = 1 \<and> length qs = 2 \<and> (\<forall>a \<in> set qs. is_quit (p_heap p') a)"
proof -
  let ?p = "(etp_init (eio_pool_bss ()))\<lparr>started := 3\<rparr>"
  have o: "owns ?p (replicate 9 []) (replicate 9 []) []"
    using owns_init by (subst owns_cong [where p = "etp_init (eio_pool_bss ())"]) auto
  have f: "finite (dom (p_heap ?p))" by (simp add: etp_init_def eio_pool_bss_def)
  have w: "min (wanted ?p) 1 = 1" "min (started ?p) 1 = 1"
    by (simp_all add: etp_init_def min_def word_le_nat_alt)
  show ?thesis
    using etp_set_max_parallel_quits [OF fresh_alloc_next_addr o f, of 1] w by auto
qed


section \<open>One call of \<open>etp_poll\<close>\<close>

text \<open>A new worker is never put at an address of the ring.\<close>

definition spawn_ok :: "('io etp_pool \<Rightarrow> addr \<times> bool) \<Rightarrow> bool" where
  "spawn_ok spawn \<longleftrightarrow> (\<forall>p ws. ring (p_wrk p) ws \<longrightarrow> p_wrk p (fst (spawn p)) = None)"

definition ring_ok :: "'io etp_pool \<Rightarrow> bool" where
  "ring_ok p \<longleftrightarrow> (\<exists>ws. ring (p_wrk p) ws)"

text \<open>
  Finishing a request that neither submits nor finishes others: it succeeds, gives back the
  request, and leaves queues, ring and counts as they were.
\<close>

definition quiet_finish :: "(addr \<Rightarrow> 'io etp_pool \<Rightarrow> (int \<times> 'io etp_pool) option) \<Rightarrow> bool" where
  "quiet_finish finish \<longleftrightarrow>
     (\<forall>p rq rs a held. owns p rq rs (a # held) \<and> ring_ok p \<longrightarrow>
        (\<exists>p'. finish a p = Some (0, p') \<and> owns p' rq rs held \<and> ring_ok p' \<and>
              nreqs p' = nreqs p \<and> npending p' = npending p))"

lemma maybe_start_ok:
  assumes "spawn_ok spawn" "ring_ok p"
  shows "\<exists>w st. etp_maybe_start_thread spawn p = Some (p\<lparr>p_wrk := w, started := st\<rparr>) \<and>
           ring_ok (p\<lparr>p_wrk := w, started := st\<rparr>)"
proof -
  from assms(2) obtain ws where r: "ring (p_wrk p) ws" by (auto simp: ring_ok_def)
  obtain wrk created where sp: "spawn p = (wrk, created)" by (cases "spawn p")
  have same: "p\<lparr>p_wrk := p_wrk p, started := started p\<rparr> = p" by simp
  have "p_wrk p wrk = None" using assms(1) r sp by (force simp: spawn_ok_def)
  from ring_link_ring [OF r this] obtain h' where
    h': "ring_link ((p_wrk p)(wrk \<mapsto> calloc_worker)) wrk = Some h'" "ring h' (wrk # ws)" by blast
  then have start: "etp_start_thread spawn p =
      Some (if created then p\<lparr>p_wrk := h', started := started p + 1\<rparr> else p)"
    using sp by (simp add: etp_start_thread_def)
  show ?thesis
  proof (cases "etp_maybe_start_thread spawn p = Some p")
    case True
    with same assms(2) show ?thesis by (intro exI [of _ "p_wrk p"] exI [of _ "started p"]) simp
  next
    case False
    then have "etp_maybe_start_thread spawn p = etp_start_thread spawn p"
      by (auto simp: etp_maybe_start_thread_def split: if_splits)
    with False start h'(2) show ?thesis
      by (intro exI [of _ h'] exI [of _ "started p + 1"]) (auto simp: ring_ok_def split: if_splits)
  qed
qed

lemma poll_handle_ok:
  assumes "quiet_finish finish" "owns p rq rs (a # held)" "ring_ok p"
  shows "\<exists>res p'. poll_handle finish a p = Some (res, p') \<and> (res = None \<or> res = Some 0) \<and>
      owns p' rq rs held \<and> ring_ok p' \<and> nreqs p' = nreqs p \<and> npending p' = npending p"
proof -
  from owns_live [OF assms(2), of a] obtain r where r: "p_heap p a = Some r" by auto
  show ?thesis
  proof (cases "rq_type r = EIO_GROUP \<and> rq_size r \<noteq> 0")
    case True
    let ?h = "(p_heap p)(a \<mapsto> r\<lparr>rq_flags := or (rq_flags r) ETP_FLAG_DELAYED\<rparr>)"
    have "owns (p\<lparr>p_heap := ?h\<rparr>) rq rs held"
      using assms(2) r by (auto simp: owns_def pri_ok_def reqq_abs_frame)
    moreover have "poll_handle finish a p = Some (None, p\<lparr>p_heap := ?h\<rparr>)"
      using True r by (simp add: poll_handle_def upd_req_def)
    ultimately show ?thesis using assms(3) by (auto simp: ring_ok_def)
  next
    case False
    then have "poll_handle finish a p = map_option (\<lambda>(res, pool). (Some res, pool)) (finish a p)"
      using r by (auto simp: poll_handle_def)
    with assms show ?thesis unfolding quiet_finish_def by force
  qed
qed

lemma poll_loop_ok:
  assumes "quiet_finish finish" "spawn_ok spawn"
  shows "owns p rq rs held \<Longrightarrow> ring_ok p \<Longrightarrow> length (concat rs) < fuel \<Longrightarrow>
    \<exists>res p' rs'. etp_poll_loop done spawn finish now fuel i maxreqs maxtime p = Some (res, p') \<and>
      owns p' rq rs' held \<and> ring_ok p' \<and> length (concat rs') \<le> length (concat rs) \<and>
      nreqs p' = nreqs p - of_nat (length (concat rs) - length (concat rs')) \<and>
      npending p' = npending p - of_nat (length (concat rs) - length (concat rs')) \<and>
      (res = 0 \<and> concat rs' = [] \<or>
       res = -1 \<and> p_errno p' = EAGAIN \<and> (maxreqs \<noteq> 0 \<or> maxtime \<noteq> 0))"
proof (induction fuel arbitrary: p rs i maxreqs)
  case 0
  then show ?case by simp
next
  case (Suc fuel)
  from maybe_start_ok [OF assms(2) Suc.prems(2)] obtain w st where
    st: "etp_maybe_start_thread spawn p = Some (p\<lparr>p_wrk := w, started := st\<rparr>)"
      "ring_ok (p\<lparr>p_wrk := w, started := st\<rparr>)" by blast
  define p1 where "p1 = p\<lparr>p_wrk := w, started := st\<rparr>"
  have o1: "owns p1 rq rs held" using Suc.prems(1) by (simp add: owns_def p1_def)
  have c1: "nreqs p1 = nreqs p" "npending p1 = npending p" "ring_ok p1"
    using st(2) by (simp_all add: p1_def)
  have sp1: "etp_maybe_start_thread spawn p = Some p1" using st(1) by (simp add: p1_def)
  show ?case
  proof (cases "pq_pop rs")
    case None
    then have "concat rs = []" by (simp add: pq_pop_None)
    with poll_shift_empty [OF o1 None] sp1 o1 c1 show ?thesis
      by (intro exI [of _ 0] exI [of _ p1] exI [of _ rs]) simp
  next
    case (Some x)
    then obtain a rs1 where pop: "pq_pop rs = Some (a, rs1)" by (cases x) auto
    have len: "length (concat rs) = Suc (length (concat rs1))"
      using pop by (rule length_concat_pq_pop)
    from poll_shift_owns [OF o1 pop] obtain p2 where
      p2: "poll_shift done p1 = Some (Some a, p2)" "owns p2 rq rs1 (a # held)"
        "npending p2 = npending p1 - 1" "nreqs p2 = nreqs p1" "ring_ok p2"
      using c1(3) by (fastforce simp: owns_def ring_ok_def)
    have "owns (poll_account p2) rq rs1 (a # held)" "ring_ok (poll_account p2)"
      using p2(2,5) by (simp_all add: owns_def poll_account_def ring_ok_def)
    from poll_handle_ok [OF assms(1) this] obtain r p3 where
      p3: "poll_handle finish a (poll_account p2) = Some (r, p3)" "r = None \<or> r = Some 0"
        "owns p3 rq rs1 held" "ring_ok p3" "nreqs p3 = nreqs p - 1" "npending p3 = npending p - 1"
      using p2(3,4) c1 by (auto simp: poll_account_def)
    have step: "n - 1 - of_nat (length (concat rs1) - k) = n - of_nat (length (concat rs) - k)"
      if "k \<le> length (concat rs1)" for n :: u32 and k
      using that len by (simp add: Suc_diff_le algebra_simps)
    have IH: "\<exists>res p' rs'. etp_poll_loop done spawn finish now fuel j mr maxtime p3 = Some (res, p') \<and>
      owns p' rq rs' held \<and> ring_ok p' \<and> length (concat rs') \<le> length (concat rs) \<and>
      nreqs p' = nreqs p - of_nat (length (concat rs) - length (concat rs')) \<and>
      npending p' = npending p - of_nat (length (concat rs) - length (concat rs')) \<and>
      (res = 0 \<and> concat rs' = [] \<or>
       res = -1 \<and> p_errno p' = EAGAIN \<and> (maxreqs \<noteq> 0 \<or> maxtime \<noteq> 0))"
      if "mr \<noteq> 0 \<longrightarrow> maxreqs \<noteq> 0" for j mr
      using Suc.IH [OF p3(3,4), of j mr] Suc.prems(3) len that p3(5,6) step
      by (fastforce simp del: length_concat)
    have stop: "\<exists>res p' rs'. Some (-1, p3\<lparr>p_errno := EAGAIN\<rparr>) = Some (res, p') \<and>
      owns p' rq rs' held \<and> ring_ok p' \<and> length (concat rs') \<le> length (concat rs) \<and>
      nreqs p' = nreqs p - of_nat (length (concat rs) - length (concat rs')) \<and>
      npending p' = npending p - of_nat (length (concat rs) - length (concat rs')) \<and>
      (res = 0 \<and> concat rs' = [] \<or>
       res = -1 \<and> p_errno p' = EAGAIN \<and> (maxreqs \<noteq> 0 \<or> maxtime \<noteq> 0))"
      if "maxreqs \<noteq> 0 \<or> maxtime \<noteq> 0"
      using that p3 len
      by (intro exI [of _ "-1"] exI [of _ "p3\<lparr>p_errno := EAGAIN\<rparr>"] exI [of _ rs1])
        (simp add: owns_def ring_ok_def)
    show ?thesis
      using sp1 p2(1) p3(1,2) IH stop by (auto simp: Let_def)
  qed
qed

text \<open>
  One call of \<open>etp_poll\<close> with callbacks that submit nothing.  With more fuel than there are results
  it returns, without a fault; it only takes results off the queue, and lowers both the number of
  requests and the number of pending results by one for each.  Either it returns 0 and has emptied
  the queue, or one of the two limits was set and it returns -1 with \<open>EAGAIN\<close>.
\<close>

theorem etp_poll_outcome:
  assumes "quiet_finish finish" "spawn_ok spawn" "owns p rq rs held" "ring_ok p"
    and "length (concat rs) < fuel"
  shows "\<exists>res p' rs'. etp_poll done spawn finish now fuel p = Some (res, p') \<and>
      owns p' rq rs' held \<and> length (concat rs') \<le> length (concat rs) \<and>
      nreqs p' = nreqs p - of_nat (length (concat rs) - length (concat rs')) \<and>
      npending p' = npending p - of_nat (length (concat rs) - length (concat rs')) \<and>
      (res = 0 \<and> concat rs' = [] \<or>
       res = -1 \<and> p_errno p' = EAGAIN \<and> (max_poll_reqs p \<noteq> 0 \<or> max_poll_time p \<noteq> 0))"
  unfolding etp_poll_def using poll_loop_ok [OF assms] by blast


definition next_wrk :: "'io etp_pool \<Rightarrow> addr \<times> bool" where
  "next_wrk p = (Suc (Max (insert 0 (dom (p_wrk p)))), True)"

lemma spawn_ok_next_wrk: "spawn_ok next_wrk"
  unfolding spawn_ok_def
proof (intro allI impI)
  fix p :: "'a etp_pool" and ws
  assume "ring (p_wrk p) ws"
  then have fin: "finite (dom (p_wrk p))" by (simp add: ring_def)
  have "Suc (Max (insert 0 (dom (p_wrk p)))) \<notin> dom (p_wrk p)"
  proof
    assume "Suc (Max (insert 0 (dom (p_wrk p)))) \<in> dom (p_wrk p)"
    then have "Suc (Max (insert 0 (dom (p_wrk p)))) \<le> Max (insert 0 (dom (p_wrk p)))"
      using fin by (intro Max_ge) auto
    then show False by simp
  qed
  then show "p_wrk p (fst (next_wrk p)) = None" by (metis domIff fst_conv next_wrk_def)
qed

lemma replicate_9: "replicate 9 x = [x, x, x, x, x, x, x, x, x]"
  by (simp add: numeral_eq_Suc)

theorem etp_poll_outcome_witness:
  "\<exists>p p'. push_result id ((etp_init (eio_pool_bss ()))\<lparr>p_heap := [5 \<mapsto> calloc_req]\<rparr>) 5 = Some p \<and>
     q_size (res_queue p) = 1 \<and>
     etp_poll id next_wrk (\<lambda>a p. Some (0, p)) (\<lambda>_. \<lparr>tv_sec = 0, tv_usec = 0\<rparr>) 2 p = Some (0, p')"
proof -
  let ?ini = "(etp_init (eio_pool_bss ()))\<lparr>p_heap := [5 \<mapsto> calloc_req]\<rparr>"
  have "owns ?ini (replicate 9 []) (replicate 9 []) [5]"
    by (simp add: owns_def etp_init_def reqq_abs_init concat_replicate_trivial pri_ok_def calloc_req_def)
  from push_result_owns [OF this, of id] obtain h' q' where
    push: "push_result id ?ini 5 = Some (?ini\<lparr>p_heap := h', res_queue := q', npending := npending ?ini + 1,
        p_io := (if concat (replicate 9 []) = ([] :: addr list) then id (p_io ?ini) else p_io ?ini)\<rparr>)"
      and o: "owns (?ini\<lparr>p_heap := h', res_queue := q'\<rparr>) (replicate 9 [])
                (pq_push (replicate 9 []) (pri_of (p_heap ?ini) 5) 5) []"
    by blast
  let ?p = "?ini\<lparr>p_heap := h', res_queue := q', npending := npending ?ini + 1,
        p_io := (if concat (replicate 9 []) = ([] :: addr list) then id (p_io ?ini) else p_io ?ini)\<rparr>"
  let ?rs = "pq_push (replicate 9 []) (pri_of (p_heap ?ini) 5) (5::addr)"
  have rs: "concat ?rs = [5]"
    by (simp add: pq_push_def pri_of_def calloc_req_def replicate_9 concat_replicate_trivial)
  have o': "owns ?p (replicate 9 []) ?rs []" using o by (simp add: owns_def)
  have "quiet_finish (\<lambda>a (p :: unit etp_pool). Some (0, p))"
    by (auto simp: quiet_finish_def owns_def)
  moreover have "ring_ok ?p" using ring_ring_init by (auto simp: ring_ok_def etp_init_def)
  ultimately obtain res p' where
    "etp_poll id next_wrk (\<lambda>a p. Some (0, p)) (\<lambda>_. \<lparr>tv_sec = 0, tv_usec = 0\<rparr>) 2 ?p = Some (res, p')"
    "res = 0 \<or> max_poll_reqs ?p \<noteq> 0 \<or> max_poll_time ?p \<noteq> 0"
    using etp_poll_outcome [OF _ spawn_ok_next_wrk o', of "\<lambda>a p. Some (0, p)" 2 id
        "\<lambda>_. \<lparr>tv_sec = 0, tv_usec = 0\<rparr>"] rs by auto
  moreover have "max_poll_reqs ?p = 0" "max_poll_time ?p = 0"
    by (simp_all add: etp_init_def eio_pool_bss_def)
  moreover have "q_size (res_queue ?p) = 1"
    using o rs by (simp add: owns_def reqq_abs_def)
  ultimately show ?thesis using push by auto
qed

end
