(* ===== verification/PoolSystem.thy ===== *)
theory PoolSystem
  imports Pool
begin

text \<open>
  The thread pool as a concurrent system.  The body \<open>etp_proc\<close> of a worker thread of \<open>libeio/etp.c\<close> is
  cut into the sections it runs under one lock, and interleaved with the sections of \<open>etp_submit\<close>,
  \<open>etp_poll\<close>, \<open>etp_start_thread\<close> and \<open>etp_end_thread\<close> that the one thread using the pool runs, in every
  order.  The program counters name the points between two sections.  The condition variable is
  modelled with its waiters: a signal marks one of them, if there is one, and a waiter may also wake
  up on its own.  The theorems hold in every reachable state: no fault and no deadlock of a section,
  no request lost, duplicated or seen by two owners, exact counters, the poll signal raised exactly
  when results wait, and no queued request left while all workers sleep.
\<close>

section \<open>Program counters and states\<close>

text \<open>The values of \<open>ts.tv_sec\<close> that the code tells apart: 0, a deadline from \<open>time (0)\<close>, and 1.\<close>

datatype ts_sec = TsZero | TsDeadline | TsOne

datatype wpc =
    W_Loop ts_sec
  | W_Wait bool ts_sec bool
  | W_Got addr
  | W_Res addr
  | W_TimedOut
  | W_Quit ptr

datatype mpc =
    M_Idle
  | M_Submit addr
  | M_SubmitGrp addr
  | M_PushGrp addr
  | M_Decide
  | M_Start
  | M_Polled addr
  | M_EndDec

text \<open>
  Besides the pool, its threads and the point the client has reached, the state records what the
  theorems speak of: the submitted and the delivered requests, the quit requests that are still
  allocated, and how many of those workers have taken.
\<close>

record 'io sys =
  pool :: "'io etp_pool"
  thr :: "(addr \<times> wpc) list"
  cl :: mpc
  submitted :: "addr multiset"
  delivered :: "addr multiset"
  quits :: "addr set"
  taken :: nat

fun worker_held :: "wpc \<Rightarrow> addr list" where
  "worker_held (W_Got r) = [r]"
| "worker_held (W_Res r) = [r]"
| "worker_held (W_Quit (Some r)) = [r]"
| "worker_held _ = []"

fun client_held :: "mpc \<Rightarrow> addr list" where
  "client_held (M_Submit r) = [r]"
| "client_held (M_SubmitGrp r) = [r]"
| "client_held (M_PushGrp r) = [r]"
| "client_held (M_Polled r) = [r]"
| "client_held _ = []"

definition workers_held :: "(addr \<times> wpc) list \<Rightarrow> addr list" where
  "workers_held ts = concat (map (worker_held \<circ> snd) ts)"

definition holds :: "'io sys \<Rightarrow> addr list" where
  "holds s = client_held (cl s) @ workers_held (thr s)"

text \<open>The pool has a request in its hands when it is in a queue or some thread works on it.\<close>

definition in_hands :: "'io sys \<Rightarrow> addr \<Rightarrow> bool" where
  "in_hands s a \<longleftrightarrow>
     (\<exists>rq rs. owns (pool s) rq rs (holds s) \<and> a \<in> set (concat rq @ concat rs @ holds s))"

section \<open>Signals\<close>

fun asleep :: "wpc \<Rightarrow> bool" where
  "asleep (W_Wait _ _ signalled) \<longleftrightarrow> \<not> signalled"
| "asleep _ \<longleftrightarrow> False"

text \<open>\<open>X_COND_SIGNAL\<close>: one of the sleeping workers is marked; nothing happens when there is none.\<close>

inductive cond_signal :: "(addr \<times> wpc) list \<Rightarrow> (addr \<times> wpc) list \<Rightarrow> bool" where
  none: "\<forall>x \<in> set ts. \<not> asleep (snd x) \<Longrightarrow> cond_signal ts ts"
| one: "cond_signal (xs @ (w, W_Wait timed t False) # ys) (xs @ (w, W_Wait timed t True) # ys)"

section \<open>Sections of a worker\<close>

text \<open>
  \<open>worker_step want w pc p pc' p'\<close>: the worker with structure \<open>w\<close> runs its next section.  \<open>W_Loop\<close> is
  the head of the inner loop, with the request lock taken.
\<close>

inductive worker_step ::
    "('io \<Rightarrow> 'io) \<Rightarrow> wpc \<Rightarrow> 'io etp_pool \<Rightarrow> wpc \<Rightarrow> 'io etp_pool \<Rightarrow> bool" for want_poll where
  take: "reqq_shift (p_heap p) (req_queue p) = Some (Some r, q) \<Longrightarrow>
     worker_step want_poll (W_Loop t) p (W_Got r) (p\<lparr>req_queue := q, nready := nready p - 1\<rparr>)"
| give_up: "reqq_shift (p_heap p) (req_queue p) = Some (None, q) \<Longrightarrow>
     worker_step want_poll (W_Loop TsOne) p W_TimedOut (p\<lparr>req_queue := q\<rparr>)"
| wait: "reqq_shift (p_heap p) (req_queue p) = Some (None, q) \<Longrightarrow> t \<noteq> TsOne \<Longrightarrow>
     idle p + 1 \<le> max_idle p \<Longrightarrow>
     worker_step want_poll (W_Loop t) p (W_Wait False t False) (p\<lparr>req_queue := q, idle := idle p + 1\<rparr>)"
| timedwait: "reqq_shift (p_heap p) (req_queue p) = Some (None, q) \<Longrightarrow> t \<noteq> TsOne \<Longrightarrow>
     \<not> idle p + 1 \<le> max_idle p \<Longrightarrow>
     worker_step want_poll (W_Loop t) p (W_Wait True TsDeadline False)
       (p\<lparr>req_queue := q, idle := idle p + 1\<rparr>)"
| wake: "worker_step want_poll (W_Wait timed t sg) p (W_Loop t) (p\<lparr>idle := idle p - 1\<rparr>)"
| timeout: "worker_step want_poll (W_Wait True t sg) p (W_Loop TsOne) (p\<lparr>idle := idle p - 1\<rparr>)"
| leave: "worker_step want_poll W_TimedOut p (W_Quit None) (p\<lparr>started := started p - 1\<rparr>)"
| quit: "is_quit (p_heap p) r \<Longrightarrow> worker_step want_poll (W_Got r) p (W_Quit (Some r)) p"
| execute: "p_heap p r = Some x \<Longrightarrow> \<not> is_quit (p_heap p) r \<Longrightarrow>
     rq_next y = rq_next x \<Longrightarrow> rq_pri y = rq_pri x \<Longrightarrow> rq_type y = rq_type x \<Longrightarrow>
     worker_step want_poll (W_Got r) p (W_Res r) (p\<lparr>p_heap := (p_heap p)(r \<mapsto> y)\<rparr>)"
| result: "push_result want_poll p r = Some p' \<Longrightarrow> worker_step want_poll (W_Res r) p (W_Loop TsZero) p'"

text \<open>The label \<open>quit\<close>: the request (if any) and the worker structure are freed.\<close>

definition worker_exit :: "'io etp_pool \<Rightarrow> addr \<Rightarrow> ptr \<Rightarrow> 'io etp_pool option" where
  "worker_exit p self req = do {
     let p = (case req of None \<Rightarrow> p | Some r \<Rightarrow> p\<lparr>p_heap := (p_heap p)(r := None)\<rparr>);
     ws \<leftarrow> etp_worker_free (p_wrk p) self;
     Some (p\<lparr>p_wrk := ws\<rparr>) }"

section \<open>The steps of the system\<close>

text \<open>
  What the client may do to the memory of requests between two sections: anything, except freeing a
  request the pool has in its hands or writing the members the pool relies on.
\<close>

definition client_writes :: "'io sys \<Rightarrow> req_heap \<Rightarrow> bool" where
  "client_writes s h' \<longleftrightarrow> (\<forall>a. in_hands s a \<longrightarrow>
     (\<exists>r r'. p_heap (pool s) a = Some r \<and> h' a = Some r' \<and> rq_next r' = rq_next r \<and>
             rq_pri r' = rq_pri r \<and> rq_type r' = rq_type r))"

text \<open>The condition under which \<open>etp_maybe_start_thread\<close> goes on to start a thread.\<close>

definition wants_thread :: "'io etp_pool \<Rightarrow> bool" where
  "wants_thread p \<longleftrightarrow> \<not> wanted p \<le> etp_nthreads p \<and>
     \<not> 0 \<le> sint (etp_nthreads p) + sint (etp_npending p) - sint (etp_nreqs p)"

inductive pool_step :: "('io \<Rightarrow> 'io) \<Rightarrow> ('io \<Rightarrow> 'io) \<Rightarrow> 'io sys \<Rightarrow> 'io sys \<Rightarrow> bool"
  for want_poll done_poll where
  work: "thr s = xs @ (w, pc) # ys \<Longrightarrow> worker_step want_poll pc (pool s) pc' p' \<Longrightarrow>
     pool_step want_poll done_poll s (s\<lparr>pool := p', thr := xs @ (w, pc') # ys,
       taken := taken s + (case (pc, pc') of (W_Loop _, W_Got r) \<Rightarrow> of_bool (r \<in> quits s) | _ \<Rightarrow> 0)\<rparr>)"
| exit: "thr s = xs @ (w, W_Quit r) # ys \<Longrightarrow> worker_exit (pool s) w r = Some p' \<Longrightarrow>
     pool_step want_poll done_poll s (s\<lparr>pool := p', thr := xs @ ys, quits := quits s - set_option r\<rparr>)"
| submit: "cl s = M_Idle \<Longrightarrow> \<not> in_hands s r \<Longrightarrow> p_heap (pool s) r = Some x \<Longrightarrow>
     rq_type x \<noteq> ETP_TYPE_QUIT \<Longrightarrow> etp_submit_prep (pool s) r = Some p' \<Longrightarrow>
     pool_step want_poll done_poll s (s\<lparr>pool := p',
       cl := (if rq_type x = EIO_GROUP then M_SubmitGrp r else M_Submit r),
       submitted := add_mset r (submitted s)\<rparr>)"
| submit_req: "cl s = M_Submit r \<Longrightarrow> etp_submit_req (pool s) r = Some p' \<Longrightarrow>
     cond_signal (thr s) ts \<Longrightarrow>
     pool_step want_poll done_poll s (s\<lparr>pool := p', thr := ts, cl := M_Decide\<rparr>)"
| submit_grp: "cl s = M_SubmitGrp r \<Longrightarrow>
     pool_step want_poll done_poll s (s\<lparr>pool := etp_submit_grp_req (pool s), cl := M_PushGrp r\<rparr>)"
| push_grp: "cl s = M_PushGrp r \<Longrightarrow> push_result want_poll (pool s) r = Some p' \<Longrightarrow>
     pool_step want_poll done_poll s (s\<lparr>pool := p', cl := M_Idle\<rparr>)"
| poll_decide: "cl s = M_Idle \<Longrightarrow> pool_step want_poll done_poll s (s\<lparr>cl := M_Decide\<rparr>)"
| decide: "cl s = M_Decide \<Longrightarrow>
     pool_step want_poll done_poll s (s\<lparr>cl := (if wants_thread (pool s) then M_Start else M_Idle)\<rparr>)"
| start: "cl s = M_Start \<Longrightarrow> p_wrk (pool s) w = None \<Longrightarrow>
     etp_start_thread (\<lambda>_. (w, created)) (pool s) = Some p' \<Longrightarrow>
     pool_step want_poll done_poll s (s\<lparr>pool := p', cl := M_Idle,
       thr := (if created then (w, W_Loop TsZero) # thr s else thr s)\<rparr>)"
| poll: "cl s = M_Idle \<Longrightarrow> poll_shift done_poll (pool s) = Some (r, p') \<Longrightarrow>
     pool_step want_poll done_poll s (s\<lparr>pool := p', cl := (case r of None \<Rightarrow> M_Idle | Some r \<Rightarrow> M_Polled r)\<rparr>)"
| account: "cl s = M_Polled r \<Longrightarrow>
     pool_step want_poll done_poll s (s\<lparr>pool := poll_account (pool s), cl := M_Idle,
       delivered := add_mset r (delivered s)\<rparr>)"
| end_push: "cl s = M_Idle \<Longrightarrow> wanted (pool s) < started (pool s) \<Longrightarrow> p_heap (pool s) a = None \<Longrightarrow>
     etp_end_thread_push (\<lambda>_. a) (pool s) = Some p' \<Longrightarrow> cond_signal (thr s) ts \<Longrightarrow>
     pool_step want_poll done_poll s (s\<lparr>pool := p', thr := ts, cl := M_EndDec, quits := insert a (quits s)\<rparr>)"
| end_dec: "cl s = M_EndDec \<Longrightarrow>
     pool_step want_poll done_poll s (s\<lparr>pool := etp_end_thread_dec (pool s), cl := M_Idle\<rparr>)"
| setting: "cl s = M_Idle \<Longrightarrow>
     pool_step want_poll done_poll s (s\<lparr>pool := (pool s)\<lparr>wanted := a, max_idle := b, idle_timeout := c,
       max_poll_time := d, max_poll_reqs := e\<rparr>\<rparr>)"
| client: "client_writes s h' \<Longrightarrow> pool_step want_poll done_poll s (s\<lparr>pool := (pool s)\<lparr>p_heap := h'\<rparr>\<rparr>)"

definition pool_start :: "'io \<Rightarrow> 'io sys" where
  "pool_start io = \<lparr>pool = etp_init (eio_pool_bss io), thr = [], cl = M_Idle,
     submitted = {#}, delivered = {#}, quits = {}, taken = 0\<rparr>"

section \<open>The invariant\<close>

text \<open>The requests of a collection that are not quit requests.\<close>

definition regular :: "addr set \<Rightarrow> addr multiset \<Rightarrow> addr multiset" where
  "regular Z M = filter_mset (\<lambda>a. a \<notin> Z) M"

fun pc_ok :: "addr set \<Rightarrow> wpc \<Rightarrow> bool" where
  "pc_ok Z (W_Res r) \<longleftrightarrow> r \<notin> Z"
| "pc_ok Z (W_Quit (Some r)) \<longleftrightarrow> r \<in> Z"
| "pc_ok Z _ \<longleftrightarrow> True"

text \<open>How a program counter enters the counts: as a thread on its way out, a waiter, an awake one.\<close>

fun quitting :: "addr set \<Rightarrow> wpc \<Rightarrow> nat" where
  "quitting Z (W_Got r) = of_bool (r \<in> Z)"
| "quitting Z (W_Quit _) = 1"
| "quitting Z _ = 0"

fun waiting :: "wpc \<Rightarrow> nat" where
  "waiting (W_Wait _ _ _) = 1"
| "waiting _ = 0"

fun alert :: "wpc \<Rightarrow> nat" where
  "alert (W_Loop _) = 1"
| "alert (W_Wait _ _ signalled) = of_bool signalled"
| "alert _ = 0"

fun counted :: "mpc \<Rightarrow> addr list" where
  "counted (M_PushGrp r) = [r]"
| "counted (M_Polled r) = [r]"
| "counted _ = []"

definition tally :: "(wpc \<Rightarrow> nat) \<Rightarrow> (addr \<times> wpc) list \<Rightarrow> nat" where
  "tally f ts = sum_list (map (f \<circ> snd) ts)"

definition inv_own :: "'io sys \<Rightarrow> addr list list \<Rightarrow> addr list list \<Rightarrow> bool" where
  "inv_own s rq rs \<longleftrightarrow> owns (pool s) rq rs (holds s) \<and> distinct (map fst (thr s)) \<and>
     (\<exists>ws. ring (p_wrk (pool s)) ws \<and> set ws = fst ` set (thr s))"

definition inv_kind :: "'io sys \<Rightarrow> addr list list \<Rightarrow> addr list list \<Rightarrow> bool" where
  "inv_kind s rq rs \<longleftrightarrow>
     (\<forall>a \<in> set (concat rq @ concat rs @ holds s). is_quit (p_heap (pool s)) a \<longleftrightarrow> a \<in> quits s) \<and>
     quits s \<subseteq> set (concat rq @ concat rs @ holds s) \<and>
     (\<forall>a \<in> set (concat rs @ client_held (cl s)). a \<notin> quits s) \<and>
     (\<forall>x \<in> set (thr s). pc_ok (quits s) (snd x))"

definition inv_count :: "'io sys \<Rightarrow> addr list list \<Rightarrow> addr list list \<Rightarrow> bool" where
  "inv_count s rq rs \<longleftrightarrow>
     npending (pool s) = of_nat (length (concat rs)) \<and>
     nready (pool s) + of_nat (taken s) = of_nat (size (regular (quits s) (mset (concat rq)))) \<and>
     nreqs (pool s) = of_nat (size (regular (quits s)
        (mset (concat rq @ concat rs @ counted (cl s) @ workers_held (thr s))))) \<and>
     idle (pool s) = of_nat (tally waiting (thr s)) \<and>
     started (pool s) + of_nat (size (filter_mset (\<lambda>a. a \<in> quits s) (mset (concat rq))) +
        tally (quitting (quits s)) (thr s)) =
       of_nat (length (thr s)) + of_bool (cl s = M_EndDec)"

definition inv_flow :: "'io sys \<Rightarrow> addr list list \<Rightarrow> addr list list \<Rightarrow> bool" where
  "inv_flow s rq rs \<longleftrightarrow>
     submitted s = delivered s + regular (quits s) (mset (concat rq @ concat rs @ holds s))"

definition inv_wake :: "'io sys \<Rightarrow> addr list list \<Rightarrow> bool" where
  "inv_wake s rq \<longleftrightarrow>
     ((\<exists>x \<in> set (thr s). asleep (snd x)) \<longrightarrow> length (concat rq) \<le> tally alert (thr s))"

text \<open>
  The signal of the poll callbacks, read by a test \<open>f\<close> of what they act on, which is \<open>None\<close> for a state
  they were not set up in; the test is \<open>None\<close> itself when nothing is known of the callbacks.
\<close>

type_synonym 'io signal = "('io \<Rightarrow> bool option) option"

definition inv_signal :: "'io signal \<Rightarrow> 'io sys \<Rightarrow> addr list list \<Rightarrow> bool" where
  "inv_signal raised s rs \<longleftrightarrow>
     (\<forall>f. raised = Some f \<longrightarrow> f (p_io (pool s)) = Some (concat rs \<noteq> []))"

text \<open>The callbacks set and reset what the test reads; they are called only when that changes it.\<close>

definition raises :: "'io signal \<Rightarrow> ('io \<Rightarrow> 'io) \<Rightarrow> bool" where
  "raises raised want \<longleftrightarrow>
     (\<forall>f. raised = Some f \<longrightarrow> (\<forall>io. f io = Some False \<longrightarrow> f (want io) = Some True))"

definition lowers :: "'io signal \<Rightarrow> ('io \<Rightarrow> 'io) \<Rightarrow> bool" where
  "lowers raised poll_done \<longleftrightarrow>
     (\<forall>f. raised = Some f \<longrightarrow> (\<forall>io. f io = Some True \<longrightarrow> f (poll_done io) = Some False))"

lemmas inv_defs = inv_own_def inv_kind_def inv_count_def inv_flow_def inv_wake_def inv_signal_def

definition sys_inv :: "'io signal \<Rightarrow> 'io sys \<Rightarrow> addr list list \<Rightarrow> addr list list \<Rightarrow> bool" where
  "sys_inv raised s rq rs \<longleftrightarrow> inv_own s rq rs \<and> inv_kind s rq rs \<and> inv_count s rq rs \<and>
     inv_flow s rq rs \<and> inv_wake s rq \<and> inv_signal raised s rs"

section \<open>Lemmas on the pieces\<close>

lemma workers_held_simps [simp]:
  "workers_held [] = []"
  "workers_held (x # ts) = worker_held (snd x) @ workers_held ts"
  "workers_held (xs @ ys) = workers_held xs @ workers_held ys"
  by (simp_all add: workers_held_def)

lemma tally_simps [simp]:
  "tally f [] = 0"
  "tally f (x # ts) = f (snd x) + tally f ts"
  "tally f (xs @ ys) = tally f xs + tally f ys"
  by (simp_all add: tally_def)

lemma regular_simps [simp]:
  "regular Z {#} = {#}"
  "regular Z (M + N) = regular Z M + regular Z N"
  "regular Z (add_mset a M) = (if a \<in> Z then regular Z M else add_mset a (regular Z M))"
  by (simp_all add: regular_def)

lemma regular_cong: "(\<And>a. a \<in># M \<Longrightarrow> a \<in> Z \<longleftrightarrow> a \<in> Z') \<Longrightarrow> regular Z M = regular Z' M"
  by (auto simp: regular_def intro: filter_mset_cong)

lemma tally_cong: "(\<And>x. x \<in> set ts \<Longrightarrow> f (snd x) = g (snd x)) \<Longrightarrow> tally f ts = tally g ts"
  by (induction ts) auto

lemma quitting_cong: "(\<And>r. r \<in> set (worker_held pc) \<Longrightarrow> r \<in> Z \<longleftrightarrow> r \<in> Z') \<Longrightarrow> quitting Z pc = quitting Z' pc"
  by (cases pc) auto

lemma pc_ok_cong: "(\<And>r. r \<in> set (worker_held pc) \<Longrightarrow> r \<in> Z \<longleftrightarrow> r \<in> Z') \<Longrightarrow> pc_ok Z pc = pc_ok Z' pc"
  by (cases "(Z, pc)" rule: pc_ok.cases) auto

lemma worker_held_in: "x \<in> set ts \<Longrightarrow> r \<in> set (worker_held (snd x)) \<Longrightarrow> r \<in> set (workers_held ts)"
  by (force simp: workers_held_def set_concat)

lemma counted_held: "set (counted m) \<subseteq> set (client_held m)"
  by (cases m) auto

lemma asleep_facts: "asleep pc \<Longrightarrow> worker_held pc = []" "asleep pc \<Longrightarrow> alert pc = 0"
  by (cases pc; simp)+

lemma cond_signal_same:
  assumes "cond_signal ts ts'"
  shows "workers_held ts' = workers_held ts" "tally waiting ts' = tally waiting ts"
    "tally (quitting Z) ts' = tally (quitting Z) ts" "map fst ts' = map fst ts"
    "(\<forall>x \<in> set ts'. pc_ok Z (snd x)) = (\<forall>x \<in> set ts. pc_ok Z (snd x))"
    "(\<exists>x \<in> set ts'. asleep (snd x)) \<Longrightarrow> tally alert ts' = Suc (tally alert ts) \<and> (\<exists>x \<in> set ts. asleep (snd x))"
  using assms by (induction rule: cond_signal.induct) auto

lemma cond_signal_length: "cond_signal ts ts' \<Longrightarrow> length ts' = length ts \<and> fst ` set ts' = fst ` set ts"
  by (metis cond_signal_same(4) image_set length_map)

section \<open>Every section keeps the invariant\<close>

lemma worker_take_inv:
  assumes inv: "sys_inv raised s rq rs" and t: "thr s = xs @ (w, W_Loop t) # ys"
    and sh: "reqq_shift (p_heap (pool s)) (req_queue (pool s)) = Some (Some r, q)"
  shows "\<exists>rq'. sys_inv raised (s\<lparr>pool := (pool s)\<lparr>req_queue := q, nready := nready (pool s) - 1\<rparr>,
      thr := xs @ (w, W_Got r) # ys, taken := taken s + of_bool (r \<in> quits s)\<rparr>) rq' rs"
proof -
  have o: "owns (pool s) rq rs (holds s)" using inv by (simp add: sys_inv_def inv_own_def)
  with sh obtain a rq' where pop: "pq_pop rq = Some (a, rq')"
    by (cases "pq_pop rq") (auto dest: shift_request_empty)
  from shift_request_owns [OF o pop] sh have
    a: "a = r" and o': "owns ((pool s)\<lparr>req_queue := q\<rparr>) rq' rs (r # holds s)" by auto
  have Q: "mset (concat rq) = add_mset r (mset (concat rq'))" using mset_pq_pop [OF pop] a by simp
  then have S: "set (concat rq) = insert r (set (concat rq'))" by (metis set_mset_mset set_mset_add_mset_insert)
  have L: "length (concat rq) = Suc (length (concat rq'))" using length_concat_pq_pop [OF pop] .
  let ?s = "s\<lparr>pool := (pool s)\<lparr>req_queue := q, nready := nready (pool s) - 1\<rparr>,
      thr := xs @ (w, W_Got r) # ys, taken := taken s + of_bool (r \<in> quits s)\<rparr>"
  have "owns (pool ?s) rq' rs (holds ?s)"
    using o' t owns_perm [of "r # holds s" "holds ?s" "pool ?s" rq' rs]
    by (simp add: holds_def owns_def)
  then have "inv_own ?s rq' rs" using inv t by (simp add: sys_inv_def inv_own_def)
  moreover have "inv_kind ?s rq' rs"
    using inv t S by (auto simp: sys_inv_def inv_kind_def holds_def)
  moreover have "inv_count ?s rq' rs"
    using inv t Q by (auto simp: sys_inv_def inv_count_def algebra_simps)
  moreover have "inv_flow ?s rq' rs"
    using inv t Q by (auto simp: sys_inv_def inv_flow_def holds_def)
  moreover have "inv_wake ?s rq'"
    using inv t L by (auto simp: sys_inv_def inv_wake_def)
  moreover have "inv_signal raised ?s rs"
    using inv by (simp add: sys_inv_def inv_signal_def)
  ultimately show ?thesis unfolding sys_inv_def by blast
qed


text \<open>The sections of a worker that move no request: only its counter and the two thread counts change.\<close>

lemma worker_local_inv:
  assumes inv: "sys_inv raised s rq rs" and t: "thr s = xs @ (w, pc) # ys"
    and same: "p_heap p' = p_heap (pool s)" "req_queue p' = req_queue (pool s)"
      "res_queue p' = res_queue (pool s)" "p_wrk p' = p_wrk (pool s)" "p_io p' = p_io (pool s)"
      "npending p' = npending (pool s)" "nready p' = nready (pool s)" "nreqs p' = nreqs (pool s)"
    and held: "worker_held pc' = worker_held pc" and ok: "pc_ok (quits s) pc'"
    and idle: "idle p' + of_nat (waiting pc) = idle (pool s) + of_nat (waiting pc')"
    and started: "started p' + of_nat (quitting (quits s) pc') =
      started (pool s) + of_nat (quitting (quits s) pc)"
    and wake: "concat rq = [] \<or> \<not> asleep pc' \<and> alert pc \<le> alert pc'"
  shows "sys_inv raised (s\<lparr>pool := p', thr := xs @ (w, pc') # ys\<rparr>) rq rs"
proof -
  let ?s = "s\<lparr>pool := p', thr := xs @ (w, pc') # ys\<rparr>"
  have h: "holds ?s = holds s" using t held by (simp add: holds_def)
  have o: "owns (pool s) rq rs (holds s)" using inv by (simp add: sys_inv_def inv_own_def)
  then have "owns p' rq rs (holds s)" using same owns_cong by blast
  then have "inv_own ?s rq rs" using inv t h same by (simp add: sys_inv_def inv_own_def)
  moreover have "inv_kind ?s rq rs"
    using inv t h ok same by (auto simp: sys_inv_def inv_kind_def)
  moreover have "inv_count ?s rq rs"
  proof -
    have i: "idle p' = of_nat (tally waiting (thr ?s))"
      using inv t idle by (simp add: sys_inv_def inv_count_def)
    have "started p' + of_nat (tally (quitting (quits s)) (thr ?s)) =
        started (pool s) + of_nat (tally (quitting (quits s)) (thr s))"
      using t started by (simp add: algebra_simps)
    then have "started p' + of_nat (n + tally (quitting (quits s)) (thr ?s)) =
        started (pool s) + of_nat (n + tally (quitting (quits s)) (thr s))" for n
      by (simp only: of_nat_add add.left_commute)
    moreover have "length (thr ?s) = length (thr s)" using t by simp
    ultimately have "started p' + of_nat (size (filter_mset (\<lambda>a. a \<in> quits s) (mset (concat rq))) +
        tally (quitting (quits s)) (thr ?s)) =
       of_nat (length (thr ?s)) + of_bool (cl s = M_EndDec)"
      using inv by (simp only: sys_inv_def inv_count_def)
    with i show ?thesis using inv t held same by (simp add: sys_inv_def inv_count_def)
  qed
  moreover have "inv_flow ?s rq rs" using inv h by (simp add: sys_inv_def inv_flow_def)
  moreover have "inv_wake ?s rq" using inv t wake by (auto simp: sys_inv_def inv_wake_def)
  moreover have "inv_signal raised ?s rs" using inv same by (simp add: sys_inv_def inv_signal_def)
  ultimately show ?thesis unfolding sys_inv_def by blast
qed

text \<open>Replacing the heap by one that keeps the members the pool relies on.\<close>

lemma chain_kept:
  "\<forall>x \<in> set xs. map_option rq_next (h' x) = map_option rq_next (h x) \<Longrightarrow>
   chain h' p xs \<longleftrightarrow> chain h p xs"
proof (induction xs arbitrary: p)
  case Nil
  then show ?case by simp
next
  case (Cons x xs)
  then have "map_option rq_next (h' x) = map_option rq_next (h x)" by simp
  then show ?case using Cons by (cases "h x"; cases "h' x") auto
qed

lemma reqq_abs_kept:
  "\<forall>x \<in> set (concat ls). map_option rq_next (h' x) = map_option rq_next (h x) \<Longrightarrow>
   reqq_abs h' q ls \<longleftrightarrow> reqq_abs h q ls"
proof -
  assume a: "\<forall>x \<in> set (concat ls). map_option rq_next (h' x) = map_option rq_next (h x)"
  then have "\<And>p ptr. p < length ls \<Longrightarrow> chain h' ptr (ls ! p) \<longleftrightarrow> chain h ptr (ls ! p)"
    by (intro chain_kept) (auto simp: set_concat_nth)
  then show ?thesis by (auto simp: reqq_abs_def)
qed

definition kept :: "req_heap \<Rightarrow> req_heap \<Rightarrow> addr \<Rightarrow> bool" where
  "kept h h' a \<longleftrightarrow> (\<exists>r r'. h a = Some r \<and> h' a = Some r' \<and> rq_next r' = rq_next r \<and>
     rq_pri r' = rq_pri r \<and> rq_type r' = rq_type r)"

lemma heap_kept_inv:
  assumes inv: "sys_inv raised s rq rs"
    and k: "\<And>a. a \<in> set (concat rq @ concat rs @ holds s) \<Longrightarrow> kept (p_heap (pool s)) h' a"
  shows "sys_inv raised (s\<lparr>pool := (pool s)\<lparr>p_heap := h'\<rparr>\<rparr>) rq rs"
proof -
  let ?h = "p_heap (pool s)" and ?s = "s\<lparr>pool := (pool s)\<lparr>p_heap := h'\<rparr>\<rparr>"
  have o: "owns (pool s) rq rs (holds s)" using inv by (simp add: sys_inv_def inv_own_def)
  have next': "\<forall>x \<in> set (concat rq). map_option rq_next (h' x) = map_option rq_next (?h x)"
    "\<forall>x \<in> set (concat rs). map_option rq_next (h' x) = map_option rq_next (?h x)"
    using k by (force simp: kept_def)+
  have pri: "pri_ok h' a" if "a \<in> set (concat rq @ concat rs @ holds s)" for a
    using k [OF that] o that unfolding owns_def pri_ok_def kept_def by force
  have quit: "is_quit h' a = is_quit ?h a" if "a \<in> set (concat rq @ concat rs @ holds s)" for a
    using k [OF that] by (auto simp: kept_def is_quit_def)
  have hs: "holds ?s = holds s" by (simp add: holds_def)
  have "owns (pool ?s) rq rs (holds ?s)"
    using o next' pri unfolding hs by (simp add: owns_def reqq_abs_kept [of rq h' ?h] reqq_abs_kept [of rs h' ?h])
  then have "inv_own ?s rq rs" using inv by (simp add: sys_inv_def inv_own_def)
  moreover have "inv_kind ?s rq rs"
    using inv quit unfolding sys_inv_def inv_kind_def hs by simp
  ultimately show ?thesis
    using inv by (simp add: sys_inv_def inv_count_def inv_flow_def inv_wake_def inv_signal_def hs)
qed


text \<open>A result is queued: by a worker or, for a group, by the client.\<close>

lemma push_result_inv:
  assumes inv: "sys_inv raised s rq rs" and push: "push_result want (pool s) r = Some p'"
    and signal: "raises raised want" and rZ: "r \<notin> quits s"
    and h: "mset (holds s) = add_mset r (mset (client_held c @ workers_held ts))"
    and c: "mset (counted (cl s) @ workers_held (thr s)) = add_mset r (mset (counted c @ workers_held ts))"
    and held: "set (client_held c) \<subseteq> set (client_held (cl s))"
    and ts: "map fst ts = map fst (thr s)" "\<forall>x \<in> set ts. pc_ok (quits s) (snd x)"
      "tally waiting ts = tally waiting (thr s)"
      "tally (quitting (quits s)) ts = tally (quitting (quits s)) (thr s)"
      "(c = M_EndDec) = (cl s = M_EndDec)"
      "(\<exists>x \<in> set ts. asleep (snd x)) \<Longrightarrow> (\<exists>x \<in> set (thr s). asleep (snd x)) \<and> tally alert (thr s) \<le> tally alert ts"
  shows "\<exists>rs'. sys_inv raised (s\<lparr>pool := p', thr := ts, cl := c\<rparr>) rq rs'"
proof -
  let ?k = "pri_of (p_heap (pool s)) r"
  let ?H = "client_held c @ workers_held ts" and ?s = "s\<lparr>pool := p', thr := ts, cl := c\<rparr>"
  have H: "holds ?s = ?H" by (simp add: holds_def)
  have "owns (pool s) rq rs (holds s)" using inv by (simp add: sys_inv_def inv_own_def)
  then have o: "owns (pool s) rq rs (r # ?H)" using h owns_perm [of "holds s" "r # ?H" "pool s" rq rs] by simp
  from push_result_owns [OF o, of want] push obtain h' q' where
    p': "p' = (pool s)\<lparr>p_heap := h', res_queue := q', npending := npending (pool s) + 1,
               p_io := (if concat rs = [] then want (p_io (pool s)) else p_io (pool s))\<rparr>"
    and o': "owns ((pool s)\<lparr>p_heap := h', res_queue := q'\<rparr>) rq (pq_push rs ?k r) ?H"
    and sbn: "same_but_next (p_heap (pool s)) h'" by auto
  let ?rs = "pq_push rs ?k r"
  have "pri_ok (p_heap (pool s)) r" "length rs = 9" using o by (auto simp: owns_def dest: reqq_absD)
  then have kl: "?k < length rs" by (auto elim: pri_okE)
  have R: "mset (concat ?rs) = add_mset r (mset (concat rs))" using kl by (simp add: mset_pq_push)
  have S: "set (concat ?rs) = insert r (set (concat rs))" using kl by (simp add: set_pq_push)
  have L: "length (concat ?rs) = Suc (length (concat rs))" using kl by (simp add: length_concat_pq_push)
  have ne: "concat ?rs \<noteq> []" using L by auto
  have HS: "set (holds s) = insert r (set ?H)" using h by (metis set_mset_mset set_mset_add_mset_insert)
  have fst_ts: "fst ` set ts = fst ` set (thr s)" "length ts = length (thr s)"
    using ts(1) by (metis image_set, metis length_map)
  have ow: "owns (pool ?s) rq ?rs (holds ?s)" using o' unfolding H by (simp add: p' owns_def)
  then have "inv_own ?s rq ?rs" using inv ts(1) fst_ts by (simp add: sys_inv_def inv_own_def p')
  moreover have "inv_kind ?s rq ?rs"
    using inv HS held ts(2) rZ is_quit_same_but_next [OF sbn] unfolding sys_inv_def inv_kind_def H
    by (auto simp: p' S)
  moreover have "inv_count ?s rq ?rs"
  proof -
    have "mset (concat rq @ concat ?rs @ counted c @ workers_held ts) =
        mset (concat rq @ concat rs @ counted (cl s) @ workers_held (thr s))"
      using R c by simp
    then show ?thesis using inv ts L fst_ts by (simp add: sys_inv_def inv_count_def p')
  qed
  moreover have "inv_flow ?s rq ?rs"
  proof -
    have "mset (concat rq @ concat ?rs @ ?H) = mset (concat rq @ concat rs @ holds s)"
      using R h by simp
    then show ?thesis using inv unfolding sys_inv_def inv_flow_def H by simp
  qed
  moreover have "inv_wake ?s rq"
  proof -
    have "inv_wake s rq" using inv by (simp add: sys_inv_def)
    with ts(6) show ?thesis unfolding inv_wake_def by simp (meson le_trans)
  qed
  moreover have "inv_signal raised ?s ?rs"
    using inv ne signal unfolding sys_inv_def inv_signal_def raises_def by (auto simp: p')
  ultimately show ?thesis unfolding sys_inv_def by blast
qed

lemma worker_step_inv:
  assumes step: "worker_step want pc (pool s) pc' p'" and inv: "sys_inv raised s rq rs"
    and t: "thr s = xs @ (w, pc) # ys" and signal: "raises raised want"
  shows "\<exists>rq' rs'. sys_inv raised (s\<lparr>pool := p', thr := xs @ (w, pc') # ys,
       taken := taken s + (case (pc, pc') of (W_Loop _, W_Got r) \<Rightarrow> of_bool (r \<in> quits s) | _ \<Rightarrow> 0)\<rparr>) rq' rs'"
proof -
  have o: "owns (pool s) rq rs (holds s)" using inv by (simp add: sys_inv_def inv_own_def)
  have empty: "q = req_queue (pool s) \<and> concat rq = []"
    if "reqq_shift (p_heap (pool s)) (req_queue (pool s)) = Some (None, q)" for q
  proof (cases "pq_pop rq")
    case None
    with that shift_request_empty [OF o] show ?thesis by (simp add: pq_pop_None)
  next
    case (Some x)
    with that shift_request_owns [OF o, of "fst x" "snd x"] show ?thesis by auto
  qed
  from step show ?thesis
  proof (cases rule: worker_step.cases)
    case (take r q t)
    with worker_take_inv [OF inv, of xs w t ys r q] t show ?thesis by auto blast+
  next
    case (give_up q)
    with worker_local_inv [OF inv t, of p' pc'] empty [OF give_up(4)] show ?thesis by auto
  next
    case (wait q t)
    with worker_local_inv [OF inv t, of p' pc'] empty [OF wait(4)] show ?thesis by auto
  next
    case (timedwait q t)
    with worker_local_inv [OF inv t, of p' pc'] empty [OF timedwait(4)] show ?thesis by auto
  next
    case (wake timed t sg)
    with worker_local_inv [OF inv t, of p' pc'] show ?thesis by (cases sg) auto
  next
    case (timeout t sg)
    with worker_local_inv [OF inv t, of p' pc'] show ?thesis by (cases sg) auto
  next
    case leave
    with worker_local_inv [OF inv t, of p' pc'] show ?thesis by auto
  next
    case (quit r)
    with inv t have "r \<in> quits s" by (auto simp: sys_inv_def inv_kind_def holds_def)
    with quit worker_local_inv [OF inv t, of p' pc'] show ?thesis by auto
  next
    case (execute r x y)
    with inv t have r: "r \<notin> quits s" by (auto simp: sys_inv_def inv_kind_def holds_def)
    have "kept (p_heap (pool s)) ((p_heap (pool s))(r \<mapsto> y)) a"
      if "a \<in> set (concat rq @ concat rs @ holds s)" for a
      using execute owns_live [OF o that] by (auto simp: kept_def)
    from heap_kept_inv [OF inv this] have
      inv': "sys_inv raised (s\<lparr>pool := p'\<rparr>) rq rs" using execute by simp
    have "thr (s\<lparr>pool := p'\<rparr>) = xs @ (w, pc) # ys" using t by simp
    from worker_local_inv [OF inv' this, of p' pc'] execute r show ?thesis by auto
  next
    case (result r)
    with inv t have r: "r \<notin> quits s" by (auto simp: sys_inv_def inv_kind_def)
    have "\<exists>rs'. sys_inv raised (s\<lparr>pool := p', thr := xs @ (w, pc') # ys, cl := cl s\<rparr>) rq rs'"
      by (rule push_result_inv [OF inv _ signal r])
        (use result t inv in \<open>auto simp: holds_def sys_inv_def inv_kind_def\<close>)
    then show ?thesis using result by auto
  qed
qed


text \<open>A worker leaves: its structure is unlinked, and the quit request it held is freed.\<close>

lemma worker_exit_inv:
  assumes inv: "sys_inv raised s rq rs" and t: "thr s = xs @ (w, W_Quit r) # ys"
    and e: "worker_exit (pool s) w r = Some p'"
  shows "sys_inv raised (s\<lparr>pool := p', thr := xs @ ys, quits := quits s - set_option r\<rparr>) rq rs"
proof -
  let ?s = "s\<lparr>pool := p', thr := xs @ ys, quits := quits s - set_option r\<rparr>"
  have o: "owns (pool s) rq rs (holds s)" and dt: "distinct (map fst (thr s))"
    using inv by (auto simp: sys_inv_def inv_own_def)
  obtain ws where ws: "ring (p_wrk (pool s)) ws" "set ws = fst ` set (thr s)"
    using inv by (auto simp: sys_inv_def inv_own_def)
  have "w \<in> set ws" using ws t by simp
  then obtain us vs where uv: "ws = us @ w # vs" by (meson split_list)
  have dw: "distinct ws" using ws(1) by (simp add: ring_def)
  from etp_worker_free_ring [of "p_wrk (pool s)" us w vs] ws(1) uv obtain wh where
    wh: "etp_worker_free (p_wrk (pool s)) w = Some wh" "ring wh (us @ vs)" by blast
  define h where "h = (case r of None \<Rightarrow> p_heap (pool s) | Some r \<Rightarrow> (p_heap (pool s))(r := None))"
  have p': "p' = (pool s)\<lparr>p_heap := h, p_wrk := wh\<rparr>"
    using e wh(1) by (auto simp: worker_exit_def h_def split: option.splits)
  have H: "mset (holds s) = mset (worker_held (W_Quit r) @ holds ?s)"
    using t by (simp add: holds_def)
  have o2: "owns (pool s) rq rs (worker_held (W_Quit r) @ holds ?s)"
    using o owns_perm [OF H, of "pool s" rq rs] by simp
  have rZ: "a \<in> quits s" if "r = Some a" for a
    using inv t that by (auto simp: sys_inv_def inv_kind_def)
  have ne: "a \<noteq> x" if "r = Some a" "x \<in> set (concat rq @ concat rs @ holds ?s)" for a x
    using o2 that by (auto simp: owns_def)
  have hx: "h x = p_heap (pool s) x" if "x \<in> set (concat rq @ concat rs @ holds ?s)" for x
    using ne that by (cases r) (auto simp: h_def)
  have Z: "x \<in> quits ?s \<longleftrightarrow> x \<in> quits s" if "x \<in> set (concat rq @ concat rs @ holds ?s)" for x
    using ne that by (cases r) auto
  have held_in: "a \<in> set (concat rq @ concat rs @ holds ?s)"
    if "x \<in> set (thr ?s)" "a \<in> set (worker_held (snd x))" for x a
    using worker_held_in [OF that] by (simp add: holds_def)
  have "owns (pool s) rq rs (holds ?s)" using o2 by (auto simp: owns_def)
  then have "owns (pool ?s) rq rs (holds ?s)"
    using hx by (simp add: p' owns_def pri_ok_def reqq_abs_agree [of rq h "p_heap (pool s)"]
        reqq_abs_agree [of rs h "p_heap (pool s)"])
  moreover have "distinct (map fst (thr ?s))" "set (us @ vs) = fst ` set (thr ?s)"
    using dt dw uv ws(2) t by auto
  moreover have "p_wrk (pool ?s) = wh" by (simp add: p')
  ultimately have "inv_own ?s rq rs" using wh(2) unfolding inv_own_def by metis
  moreover have "inv_kind ?s rq rs"
  proof -
    have "is_quit (p_heap (pool ?s)) x \<longleftrightarrow> x \<in> quits ?s" if "x \<in> set (concat rq @ concat rs @ holds ?s)" for x
      using hx [OF that] Z [OF that] inv that t
      by (auto simp: sys_inv_def inv_kind_def p' is_quit_def holds_def)
    moreover have "pc_ok (quits ?s) (snd x)" if "x \<in> set (thr ?s)" for x
    proof -
      have "pc_ok (quits s) (snd x)" using inv t that by (auto simp: sys_inv_def inv_kind_def)
      moreover have "pc_ok (quits ?s) (snd x) = pc_ok (quits s) (snd x)"
        using Z [OF held_in [OF that]] by (intro pc_ok_cong)
      ultimately show ?thesis by simp
    qed
    moreover have "quits ?s \<subseteq> set (concat rq @ concat rs @ holds ?s)"
    proof -
      have "set (holds s) = set_option r \<union> set (holds ?s)"
        using mset_eq_setD [OF H] by (cases r) auto
      then show ?thesis using inv by (auto simp: sys_inv_def inv_kind_def)
    qed
    ultimately show ?thesis using inv by (auto simp: sys_inv_def inv_kind_def)
  qed
  moreover have reg: "regular (quits ?s) M = regular (quits s) M"
    if "set_mset M \<subseteq> set (concat rq @ concat rs @ holds ?s)" for M
    using Z that by (intro regular_cong) auto
  moreover have "inv_count ?s rq rs"
  proof -
    have "filter_mset (\<lambda>a. a \<in> quits ?s) (mset (concat rq)) = filter_mset (\<lambda>a. a \<in> quits s) (mset (concat rq))"
      using Z by (intro filter_mset_cong) auto
    moreover have "tally (quitting (quits ?s)) (thr ?s) = tally (quitting (quits s)) (thr ?s)"
      using Z [OF held_in] by (intro tally_cong quitting_cong)
    moreover have "regular (quits ?s) (mset (concat rq)) = regular (quits s) (mset (concat rq))"
      by (rule reg) auto
    moreover have "regular (quits ?s) (mset (concat rq @ concat rs @ counted (cl s) @ workers_held (thr ?s))) =
        regular (quits s) (mset (concat rq @ concat rs @ counted (cl s) @ workers_held (thr ?s)))"
      using counted_held [of "cl s"] by (intro reg) (auto simp: holds_def)
    moreover have "regular (quits s) (mset (worker_held (W_Quit r))) = {#}"
      using rZ by (cases r) auto
    ultimately show ?thesis
      using inv t by (auto simp: sys_inv_def inv_count_def p' algebra_simps)
  qed
  moreover have "inv_flow ?s rq rs"
  proof -
    have "regular (quits s) (mset (worker_held (W_Quit r))) = {#}"
      using rZ by (cases r) auto
    moreover have "regular (quits ?s) (mset (concat rq @ concat rs @ holds ?s)) =
        regular (quits s) (mset (concat rq @ concat rs @ holds ?s))"
      by (rule reg) auto
    ultimately show ?thesis using inv H by (simp add: sys_inv_def inv_flow_def)
  qed
  moreover have "inv_wake ?s rq" using inv t by (auto simp: sys_inv_def inv_wake_def)
  moreover have "inv_signal raised ?s rs" using inv by (simp add: sys_inv_def inv_signal_def p')
  ultimately show ?thesis unfolding sys_inv_def by blast
qed


lemma word_swap: "a + x = b + y \<Longrightarrow> b + n = l + x \<Longrightarrow> a + n = l + y" for a :: u32
proof -
  assume "a + x = b + y" "b + n = l + x"
  then have "a = b + y - x" "b = l + x - n" by (simp_all add: eq_diff_eq)
  then show ?thesis by simp
qed

text \<open>The sections of the client that move no request between owners.\<close>

lemma client_local_inv:
  assumes inv: "sys_inv raised s rq rs"
    and same: "p_heap p' = p_heap (pool s)" "req_queue p' = req_queue (pool s)"
      "res_queue p' = res_queue (pool s)" "p_wrk p' = p_wrk (pool s)" "p_io p' = p_io (pool s)"
      "npending p' = npending (pool s)" "nready p' = nready (pool s)" "idle p' = idle (pool s)"
    and held: "client_held c = client_held (cl s)"
    and nreqs: "nreqs p' + of_nat (length (counted (cl s))) = nreqs (pool s) + of_nat (length (counted c))"
    and started: "started p' + of_bool (cl s = M_EndDec) = started (pool s) + of_bool (c = M_EndDec)"
  shows "sys_inv raised (s\<lparr>pool := p', cl := c\<rparr>) rq rs"
proof -
  let ?s = "s\<lparr>pool := p', cl := c\<rparr>"
  have h: "holds ?s = holds s" using held by (simp add: holds_def)
  have o: "owns (pool s) rq rs (holds s)" using inv by (simp add: sys_inv_def inv_own_def)
  then have "owns p' rq rs (holds s)" using same owns_cong by blast
  then have "inv_own ?s rq rs" using inv h same by (simp add: sys_inv_def inv_own_def)
  moreover have "inv_kind ?s rq rs"
    using inv h held same by (simp add: sys_inv_def inv_kind_def)
  moreover have "inv_count ?s rq rs"
  proof -
    have reg: "regular (quits s) (mset (counted m)) = mset (counted m)" if "client_held m = client_held (cl s)" for m
    proof -
      have "\<forall>a \<in> set (counted m). a \<notin> quits s"
        using inv that counted_held [of m] by (auto simp: sys_inv_def inv_kind_def)
      then show ?thesis by (simp add: regular_def filter_mset_eq_conv)
    qed
    have "nreqs (pool ?s) = of_nat (size (regular (quits ?s)
        (mset (concat rq @ concat rs @ counted (cl ?s) @ workers_held (thr ?s)))))"
      using inv nreqs reg [of c] reg [of "cl s"] held
      by (simp add: sys_inv_def inv_count_def algebra_simps)
    moreover have "started p' + of_nat (size (filter_mset (\<lambda>a. a \<in> quits s) (mset (concat rq))) +
        tally (quitting (quits s)) (thr s)) = of_nat (length (thr s)) + of_bool (c = M_EndDec)"
      by (rule word_swap [OF started]) (use inv in \<open>simp only: sys_inv_def inv_count_def\<close>)
    ultimately show ?thesis using inv same by (simp add: sys_inv_def inv_count_def)
  qed
  moreover have "inv_flow ?s rq rs" using inv h by (simp add: sys_inv_def inv_flow_def)
  moreover have "inv_wake ?s rq" using inv by (simp add: sys_inv_def inv_wake_def)
  moreover have "inv_signal raised ?s rs" using inv same by (simp add: sys_inv_def inv_signal_def)
  ultimately show ?thesis unfolding sys_inv_def by blast
qed


text \<open>A queue movement onto the request queue, by \<open>etp_submit\<close> and by \<open>etp_end_thread\<close>.\<close>

lemma submit_req_inv:
  assumes inv: "sys_inv raised s rq rs" and c: "cl s = M_Submit r"
    and p: "etp_submit_req (pool s) r = Some p'" and sg: "cond_signal (thr s) ts"
  shows "\<exists>rq'. sys_inv raised (s\<lparr>pool := p', thr := ts, cl := M_Decide\<rparr>) rq' rs"
proof -
  let ?s = "s\<lparr>pool := p', thr := ts, cl := M_Decide\<rparr>" and ?k = "pri_of (p_heap (pool s)) r"
  have H: "holds s = r # holds ?s" using c cond_signal_same(1) [OF sg] by (simp add: holds_def)
  then have o: "owns (pool s) rq rs (r # holds ?s)" using inv by (simp add: sys_inv_def inv_own_def)
  from push_request_owns [OF o] p obtain h' q' where
    p': "p' = (pool s)\<lparr>nreqs := nreqs (pool s) + 1, nready := nready (pool s) + 1,
               p_heap := h', req_queue := q'\<rparr>"
    and o': "owns ((pool s)\<lparr>p_heap := h', req_queue := q'\<rparr>) (pq_push rq ?k r) rs (holds ?s)"
    and sbn: "same_but_next (p_heap (pool s)) h'" by (auto simp: etp_submit_req_def Let_def)
  let ?rq = "pq_push rq ?k r"
  have "pri_ok (p_heap (pool s)) r" "length rq = 9" using o by (auto simp: owns_def dest: reqq_absD)
  then have kl: "?k < length rq" by (auto elim: pri_okE)
  have Q: "mset (concat ?rq) = add_mset r (mset (concat rq))" using kl by (simp add: mset_pq_push)
  have S: "set (concat ?rq) = insert r (set (concat rq))" using kl by (simp add: set_pq_push)
  have L: "length (concat ?rq) = Suc (length (concat rq))" using kl by (simp add: length_concat_pq_push)
  have rZ: "r \<notin> quits s" using inv c by (simp add: sys_inv_def inv_kind_def)
  note same = cond_signal_same [OF sg] cond_signal_length [OF sg]
  have "owns (pool ?s) ?rq rs (holds ?s)" using o' by (simp add: p' owns_def)
  then have "inv_own ?s ?rq rs" using inv same by (simp add: sys_inv_def inv_own_def p')
  moreover have "inv_kind ?s ?rq rs"
    using inv H same is_quit_same_but_next [OF sbn] unfolding sys_inv_def inv_kind_def
    by (auto simp: p' S c)
  moreover have "inv_count ?s ?rq rs"
    using inv same Q rZ c by (simp add: sys_inv_def inv_count_def p')
  moreover have "inv_flow ?s ?rq rs"
    using inv H Q by (simp add: sys_inv_def inv_flow_def)
  moreover have "inv_wake ?s ?rq"
    using inv same(6) L by (auto simp: sys_inv_def inv_wake_def)
  moreover have "inv_signal raised ?s rs" using inv by (simp add: sys_inv_def inv_signal_def p')
  ultimately show ?thesis unfolding sys_inv_def by blast
qed

lemma end_push_inv:
  assumes inv: "sys_inv raised s rq rs" and c: "cl s = M_Idle" and fresh: "p_heap (pool s) a = None"
    and p: "etp_end_thread_push (\<lambda>_. a) (pool s) = Some p'" and sg: "cond_signal (thr s) ts"
  shows "\<exists>rq'. sys_inv raised (s\<lparr>pool := p', thr := ts, cl := M_EndDec, quits := insert a (quits s)\<rparr>) rq' rs"
proof -
  let ?s = "s\<lparr>pool := p', thr := ts, cl := M_EndDec, quits := insert a (quits s)\<rparr>"
  have H: "holds ?s = holds s" using c cond_signal_same(1) [OF sg] by (simp add: holds_def)
  have o: "owns (pool s) rq rs (holds s)" using inv by (simp add: sys_inv_def inv_own_def)
  from end_thread_push_owns [OF o, of "\<lambda>_. a"] fresh p obtain h' q' where
    p': "p' = (pool s)\<lparr>p_heap := h', req_queue := q'\<rparr>"
    and o': "owns ((pool s)\<lparr>p_heap := h', req_queue := q'\<rparr>) (pq_push rq 8 a) rs (holds s)"
    and quit: "is_quit h' a" "\<forall>x. x \<noteq> a \<longrightarrow> (is_quit h' x \<longleftrightarrow> is_quit (p_heap (pool s)) x)"
    by auto
  let ?rq = "pq_push rq 8 a"
  have kl: "8 < length rq" using o by (auto simp: owns_def dest: reqq_absD)
  have Q: "mset (concat ?rq) = add_mset a (mset (concat rq))" using kl by (simp add: mset_pq_push)
  have S: "set (concat ?rq) = insert a (set (concat rq))" using kl by (simp add: set_pq_push)
  have L: "length (concat ?rq) = Suc (length (concat rq))" using kl by (simp add: length_concat_pq_push)
  have out: "x \<noteq> a" if "x \<in> set (concat rq @ concat rs @ holds s)" for x
    using owns_live [OF o that] fresh by auto
  then have Z: "x \<in> insert a (quits s) \<longleftrightarrow> x \<in> quits s" if "x \<in> set (concat rq @ concat rs @ holds s)" for x
    using that by auto
  note same = cond_signal_same [OF sg] cond_signal_length [OF sg]
  have held_in: "x \<in> set (concat rq @ concat rs @ holds s)"
    if "y \<in> set (thr s)" "x \<in> set (worker_held (snd y))" for x y
    using worker_held_in [OF that] by (simp add: holds_def)
  have reg: "regular (insert a (quits s)) M = regular (quits s) M"
    if "set_mset M \<subseteq> set (concat rq @ concat rs @ holds s)" for M
    using Z that by (intro regular_cong) auto
  have "owns (pool ?s) ?rq rs (holds ?s)" using o' H by (simp add: p' owns_def)
  then have "inv_own ?s ?rq rs" using inv same by (simp add: sys_inv_def inv_own_def p')
  moreover have "inv_kind ?s ?rq rs"
  proof -
    have "is_quit h' x \<longleftrightarrow> x \<in> insert a (quits s)"
      if "x \<in> set (concat ?rq @ concat rs @ holds s)" for x
      using inv that quit out by (cases "x = a") (auto simp: S sys_inv_def inv_kind_def)
    moreover have "pc_ok (insert a (quits s)) (snd x)" if "x \<in> set (thr s)" for x
    proof -
      have "pc_ok (insert a (quits s)) (snd x) = pc_ok (quits s) (snd x)"
        using Z [OF held_in [OF that]] by (intro pc_ok_cong)
      then show ?thesis using inv that by (simp add: sys_inv_def inv_kind_def)
    qed
    moreover have "x \<notin> insert a (quits s)" if "x \<in> set (concat rs)" for x
      using that inv out [of x] by (auto simp: sys_inv_def inv_kind_def)
    moreover have "insert a (quits s) \<subseteq> set (concat ?rq @ concat rs @ holds s)"
      using inv by (auto simp: S sys_inv_def inv_kind_def)
    ultimately show ?thesis using same(5) [of "insert a (quits s)"] H
      unfolding inv_kind_def by (simp add: p')
  qed
  moreover have "inv_count ?s ?rq rs"
  proof -
    have "filter_mset (\<lambda>x. x \<in> insert a (quits s)) (mset (concat ?rq)) =
        add_mset a (filter_mset (\<lambda>x. x \<in> quits s) (mset (concat rq)))"
      using Z by (simp add: Q) (intro filter_mset_cong; auto)
    moreover have "tally (quitting (insert a (quits s))) (thr s) = tally (quitting (quits s)) (thr s)"
      using Z [OF held_in] by (intro tally_cong quitting_cong)
    moreover have "regular (insert a (quits s)) (mset (concat ?rq)) = regular (quits s) (mset (concat rq))"
      using reg [of "mset (concat rq)"] by (simp add: Q)
    moreover have "regular (insert a (quits s)) (mset (concat rs)) = regular (quits s) (mset (concat rs))"
      "regular (insert a (quits s)) (mset (workers_held (thr s))) = regular (quits s) (mset (workers_held (thr s)))"
      by (rule reg; auto simp: holds_def)+
    ultimately show ?thesis
      using inv same c by (simp add: sys_inv_def inv_count_def p' algebra_simps)
  qed
  moreover have "inv_flow ?s ?rq rs"
    using inv reg [of "mset (concat rq @ concat rs @ holds s)"] unfolding sys_inv_def inv_flow_def H
    by (simp add: Q)
  moreover have "inv_wake ?s ?rq"
    using inv same(6) L by (auto simp: sys_inv_def inv_wake_def)
  moreover have "inv_signal raised ?s rs" using inv by (simp add: sys_inv_def inv_signal_def p')
  ultimately show ?thesis unfolding sys_inv_def by blast
qed


lemma submit_inv:
  assumes inv: "sys_inv raised s rq rs" and c: "cl s = M_Idle" and out: "\<not> in_hands s r"
    and x: "p_heap (pool s) r = Some x" "rq_type x \<noteq> ETP_TYPE_QUIT"
    and p: "etp_submit_prep (pool s) r = Some p'"
    and c': "c' = M_Submit r \<or> c' = M_SubmitGrp r"
  shows "sys_inv raised (s\<lparr>pool := p', cl := c', submitted := add_mset r (submitted s)\<rparr>) rq rs"
proof -
  let ?s = "s\<lparr>pool := p', cl := c', submitted := add_mset r (submitted s)\<rparr>"
  let ?x = "x\<lparr>rq_pri := submit_pri (rq_pri x)\<rparr>"
  have p': "p' = (pool s)\<lparr>p_heap := (p_heap (pool s))(r \<mapsto> ?x)\<rparr>"
    using p x by (simp add: etp_submit_prep_def upd_req_def)
  have o: "owns (pool s) rq rs (holds s)" using inv by (simp add: sys_inv_def inv_own_def)
  with out have r: "r \<notin> set (concat rq @ concat rs @ holds s)" by (auto simp: in_hands_def)
  have H: "holds ?s = r # holds s" using c c' by (auto simp: holds_def)
  have cnt: "counted c' = []" "c' \<noteq> M_EndDec" "client_held c' = [r]" using c' by auto
  have "owns p' rq rs (r # holds s)"
    using o r submit_pri_bounds [of "rq_pri x"]
    by (auto simp: owns_def p' reqq_abs_frame pri_ok_def)
  then have "inv_own ?s rq rs" using inv unfolding sys_inv_def inv_own_def H by (simp add: p')
  moreover have rZ: "r \<notin> quits s" using inv r by (auto simp: sys_inv_def inv_kind_def)
  then have "inv_kind ?s rq rs"
    using inv r x(2) c unfolding sys_inv_def inv_kind_def H
    by (auto simp: p' is_quit_def cnt)
  moreover have "inv_count ?s rq rs" using inv c by (simp add: sys_inv_def inv_count_def p' cnt)
  moreover have "inv_flow ?s rq rs"
    using inv rZ unfolding sys_inv_def inv_flow_def H by simp
  moreover have "inv_wake ?s rq" using inv by (simp add: sys_inv_def inv_wake_def)
  moreover have "inv_signal raised ?s rs" using inv by (simp add: sys_inv_def inv_signal_def p')
  ultimately show ?thesis unfolding sys_inv_def by blast
qed

lemma start_inv:
  assumes inv: "sys_inv raised s rq rs" and c: "cl s = M_Start" and w: "p_wrk (pool s) w = None"
    and p: "etp_start_thread (\<lambda>_. (w, created)) (pool s) = Some p'"
  shows "sys_inv raised (s\<lparr>pool := p', cl := M_Idle,
       thr := (if created then (w, W_Loop TsZero) # thr s else thr s)\<rparr>) rq rs"
proof (cases created)
  case False
  with p have "p' = pool s" by (simp add: etp_start_thread_def)
  with client_local_inv [OF inv, of p' M_Idle] c False show ?thesis by simp
next
  case True
  let ?s = "s\<lparr>pool := p', cl := M_Idle, thr := (w, W_Loop TsZero) # thr s\<rparr>"
  obtain ws where ws: "ring (p_wrk (pool s)) ws" "set ws = fst ` set (thr s)"
    using inv by (auto simp: sys_inv_def inv_own_def)
  from ring_link_ring [OF ws(1) w] obtain wh where
    wh: "ring_link ((p_wrk (pool s))(w \<mapsto> calloc_worker)) w = Some wh" "ring wh (w # ws)" by blast
  have p': "p' = (pool s)\<lparr>p_wrk := wh, started := started (pool s) + 1\<rparr>"
    using p True wh(1) by (simp add: etp_start_thread_def)
  have H: "holds ?s = holds s" using c by (simp add: holds_def)
  have o: "owns (pool s) rq rs (holds s)" using inv by (simp add: sys_inv_def inv_own_def)
  have "w \<notin> set ws" using wh(2) by (simp add: ring_def)
  then have "distinct (map fst (thr ?s))" "set (w # ws) = fst ` set (thr ?s)"
    using inv ws(2) by (auto simp: sys_inv_def inv_own_def)
  moreover have "owns p' rq rs (holds s)" using o by (simp add: p' owns_def)
  moreover have "p_wrk (pool ?s) = wh" by (simp add: p')
  ultimately have "inv_own ?s rq rs" using wh(2) unfolding inv_own_def H by (metis select_convs(1) surjective sys.update_convs)
  moreover have "inv_kind ?s rq rs"
    using inv c unfolding sys_inv_def inv_kind_def H by (simp add: p')
  moreover have "inv_count ?s rq rs" using inv c by (simp add: sys_inv_def inv_count_def p' algebra_simps)
  moreover have "inv_flow ?s rq rs" using inv H by (simp add: sys_inv_def inv_flow_def)
  moreover have "inv_wake ?s rq" using inv by (auto simp: sys_inv_def inv_wake_def)
  moreover have "inv_signal raised ?s rs" using inv by (simp add: sys_inv_def inv_signal_def p')
  ultimately show ?thesis using True unfolding sys_inv_def by simp
qed

lemma poll_inv:
  assumes inv: "sys_inv raised s rq rs" and c: "cl s = M_Idle"
    and p: "poll_shift done (pool s) = Some (r, p')" and signal: "lowers raised done"
  shows "\<exists>rs'. sys_inv raised (s\<lparr>pool := p', cl := (case r of None \<Rightarrow> M_Idle | Some r \<Rightarrow> M_Polled r)\<rparr>) rq rs'"
proof -
  have o: "owns (pool s) rq rs (holds s)" using inv by (simp add: sys_inv_def inv_own_def)
  show ?thesis
  proof (cases "pq_pop rs")
    case None
    with p poll_shift_empty [OF o] have "r = None" "p' = pool s" by auto
    with client_local_inv [OF inv, of "pool s" M_Idle] c show ?thesis by auto
  next
    case (Some y)
    then obtain a rs' where pop: "pq_pop rs = Some (a, rs')" by (cases y) auto
    let ?s = "s\<lparr>pool := p', cl := M_Polled a\<rparr>"
    from poll_shift_owns [OF o pop, of "done"] p obtain q' where
      ra: "r = Some a" and p': "p' = (pool s)\<lparr>res_queue := q', npending := npending (pool s) - 1,
        p_io := (if concat rs' = [] then done (p_io (pool s)) else p_io (pool s))\<rparr>"
      and o': "owns ((pool s)\<lparr>res_queue := q'\<rparr>) rq rs' (a # holds s)" by auto
    have R: "mset (concat rs) = add_mset a (mset (concat rs'))" using mset_pq_pop [OF pop] .
    then have S: "set (concat rs) = insert a (set (concat rs'))" by (metis set_mset_mset set_mset_add_mset_insert)
    have L: "length (concat rs) = Suc (length (concat rs'))" using length_concat_pq_pop [OF pop] .
    then have ne: "concat rs \<noteq> []" by auto
    have H: "holds ?s = a # holds s" using c by (simp add: holds_def)
    have aZ: "a \<notin> quits s" using inv S by (simp add: sys_inv_def inv_kind_def)
    have "owns p' rq rs' (a # holds s)" using o' by (simp add: p' owns_def)
    then have "inv_own ?s rq rs'" using inv unfolding sys_inv_def inv_own_def H by (simp add: p')
    moreover have "inv_kind ?s rq rs'"
      using inv S c unfolding sys_inv_def inv_kind_def H by (auto simp: p')
    moreover have "inv_count ?s rq rs'"
      using inv L R c by (simp add: sys_inv_def inv_count_def p')
    moreover have "inv_flow ?s rq rs'"
      using inv R unfolding sys_inv_def inv_flow_def H by simp
    moreover have "inv_wake ?s rq" using inv by (simp add: sys_inv_def inv_wake_def)
    moreover have "inv_signal raised ?s rs'"
      using inv ne signal unfolding sys_inv_def inv_signal_def lowers_def by (auto simp: p')
    ultimately show ?thesis using ra unfolding sys_inv_def by auto
  qed
qed

lemma account_inv:
  assumes inv: "sys_inv raised s rq rs" and c: "cl s = M_Polled r"
  shows "sys_inv raised (s\<lparr>pool := poll_account (pool s), cl := M_Idle,
       delivered := add_mset r (delivered s)\<rparr>) rq rs"
proof -
  let ?s = "s\<lparr>pool := poll_account (pool s), cl := M_Idle, delivered := add_mset r (delivered s)\<rparr>"
  have H: "holds s = r # holds ?s" using c by (simp add: holds_def)
  have rZ: "r \<notin> quits s" using inv c by (simp add: sys_inv_def inv_kind_def)
  have o: "owns (pool s) rq rs (r # holds ?s)" using inv H by (simp add: sys_inv_def inv_own_def)
  then have "owns (pool ?s) rq rs (holds ?s)" by (simp add: owns_def poll_account_def)
  then have "inv_own ?s rq rs" using inv by (simp add: sys_inv_def inv_own_def poll_account_def)
  moreover have "inv_kind ?s rq rs"
    using inv H rZ c by (auto simp: sys_inv_def inv_kind_def poll_account_def)
  moreover have "inv_count ?s rq rs"
    using inv rZ c by (simp add: sys_inv_def inv_count_def poll_account_def)
  moreover have "inv_flow ?s rq rs"
    using inv H rZ by (simp add: sys_inv_def inv_flow_def)
  moreover have "inv_wake ?s rq" using inv by (simp add: sys_inv_def inv_wake_def)
  moreover have "inv_signal raised ?s rs" using inv by (simp add: sys_inv_def inv_signal_def poll_account_def)
  ultimately show ?thesis unfolding sys_inv_def by blast
qed


section \<open>Every reachable state\<close>

lemma pool_step_inv:
  assumes step: "pool_step want_poll done_poll s s'" and inv: "sys_inv raised s rq rs"
    and signal: "raises raised want_poll" "lowers raised done_poll"
  shows "\<exists>rq' rs'. sys_inv raised s' rq' rs'"
  using step
proof (cases rule: pool_step.cases)
  case (work xs w pc ys pc' p')
  with worker_step_inv [OF work(3) inv work(2) signal(1)] show ?thesis by simp
next
  case (exit xs w r ys p')
  with worker_exit_inv [OF inv exit(2,3)] show ?thesis by auto
next
  case (submit r x p')
  with submit_inv [OF inv submit(2-6)] show ?thesis by (auto split: if_splits)
next
  case (submit_req r p' ts)
  with submit_req_inv [OF inv submit_req(2-4)] show ?thesis by auto
next
  case (submit_grp r)
  with client_local_inv [OF inv, of "etp_submit_grp_req (pool s)" "M_PushGrp r"] show ?thesis
    by (auto simp: etp_submit_grp_req_def)
next
  case (push_grp r p')
  have "\<exists>rs'. sys_inv raised (s\<lparr>pool := p', thr := thr s, cl := M_Idle\<rparr>) rq rs'"
    by (rule push_result_inv [OF inv push_grp(3) signal(1)])
      (use push_grp inv in \<open>auto simp: holds_def sys_inv_def inv_kind_def\<close>)
  with push_grp show ?thesis by auto
next
  case poll_decide
  with client_local_inv [OF inv, of "pool s" M_Decide] show ?thesis by auto
next
  case decide
  with client_local_inv [OF inv, of "pool s" M_Start] client_local_inv [OF inv, of "pool s" M_Idle]
  show ?thesis by auto
next
  case (start w created p')
  with start_inv [OF inv start(2-4)] show ?thesis
    by (intro exI [of _ rq] exI [of _ rs]) simp
next
  case (poll r p')
  with poll_inv [OF inv poll(2,3) signal(2)] show ?thesis by auto
next
  case (account r)
  with account_inv [OF inv account(2)] show ?thesis by auto
next
  case (end_push a p' ts)
  with end_push_inv [OF inv end_push(2,4-6)] show ?thesis by auto
next
  case end_dec
  with client_local_inv [OF inv, of "etp_end_thread_dec (pool s)" M_Idle] show ?thesis
    by (auto simp: etp_end_thread_dec_def)
next
  case (setting e d c b a)
  let ?p = "(pool s)\<lparr>wanted := a, max_idle := b, idle_timeout := c, max_poll_time := d, max_poll_reqs := e\<rparr>"
  have "sys_inv raised (s\<lparr>pool := ?p, cl := cl s\<rparr>) rq rs"
    by (rule client_local_inv [OF inv]) simp_all
  moreover have "s\<lparr>pool := ?p, cl := cl s\<rparr> = s'" using setting by simp
  ultimately show ?thesis by auto
next
  case (client h')
  have "in_hands s a" if "a \<in> set (concat rq @ concat rs @ holds s)" for a
    using inv that by (auto simp: in_hands_def sys_inv_def inv_own_def)
  with client(2) have "kept (p_heap (pool s)) h' a"
    if "a \<in> set (concat rq @ concat rs @ holds s)" for a
    using that unfolding client_writes_def kept_def by blast
  from heap_kept_inv [OF inv this] client show ?thesis by auto
qed


lemma sys_inv_start:
  assumes "\<forall>f. raised = Some f \<longrightarrow> f io = Some False"
  shows "sys_inv raised (pool_start io) (replicate 9 []) (replicate 9 [])"
proof -
  let ?s = "pool_start io" and ?e = "replicate 9 [] :: addr list list"
  have e: "concat ?e = []" by (simp add: concat_replicate_trivial)
  have H: "holds ?s = []" by (simp add: pool_start_def holds_def)
  have "owns (pool ?s) ?e ?e []" by (simp add: pool_start_def owns_init)
  moreover have "ring (p_wrk (pool ?s)) []" by (simp add: pool_start_def etp_init_def ring_ring_init)
  moreover have t: "thr ?s = []" by (simp add: pool_start_def)
  ultimately have "inv_own ?s ?e ?e" unfolding inv_own_def H by auto
  moreover have "inv_kind ?s ?e ?e" unfolding inv_kind_def H e t by (simp add: pool_start_def)
  moreover have "inv_count ?s ?e ?e"
    unfolding inv_count_def e t by (simp add: pool_start_def etp_init_def)
  moreover have "inv_flow ?s ?e ?e" unfolding inv_flow_def H e by (simp add: pool_start_def)
  moreover have "inv_wake ?s ?e" unfolding inv_wake_def t by simp
  moreover have "inv_signal raised ?s ?e"
    using assms unfolding inv_signal_def e by (simp add: pool_start_def etp_init_def eio_pool_bss_def)
  ultimately show ?thesis unfolding sys_inv_def by blast
qed

interpretation ps: trans_sys "\<lambda>s. \<exists>io. s = pool_start io" "pool_step want_poll done_poll"
    "\<lambda>s. \<exists>rq rs. sys_inv None s rq rs" for want_poll done_poll
proof unfold_locales
  fix s
  assume "\<exists>io. s = pool_start io"
  then obtain io where "s = pool_start io" by blast
  with sys_inv_start [of None io] show "\<exists>rq rs. sys_inv None s rq rs"
    by (intro exI [of _ "replicate 9 []"]) simp
next
  fix s s'
  assume "pool_step want_poll done_poll s s'" "\<exists>rq rs. sys_inv None s rq rs"
  then show "\<exists>rq rs. sys_inv None s' rq rs" using pool_step_inv [of want_poll done_poll s s' None]
    by (auto simp: raises_def lowers_def)
qed

definition pool_reachable :: "('io \<Rightarrow> 'io) \<Rightarrow> ('io \<Rightarrow> 'io) \<Rightarrow> 'io \<Rightarrow> 'io sys \<Rightarrow> bool" where
  "pool_reachable want_poll done_poll io s \<longleftrightarrow> (pool_step want_poll done_poll)\<^sup>*\<^sup>* (pool_start io) s"

lemma pool_reachable_inv:
  assumes "pool_reachable want_poll done_poll io s"
  obtains rq rs where "sys_inv None s rq rs"
  using ps.reach_inv [of "pool_start io" want_poll done_poll s] assms
  by (auto simp: pool_reachable_def)

section \<open>A scheduler\<close>

text \<open>
  An executable scheduler of the system: a schedule is a list of actions, each the choice of who
  moves next.  It follows the step relation, so every state it computes is reachable.
\<close>

datatype act =
    A_Submit addr eio_req
  | A_Client addr
  | A_Poll
  | A_Decide
  | A_End addr
  | A_Set u32 u32 u32 u32 u32
  | A_Worker nat bool

fun wake_first :: "(addr \<times> wpc) list \<Rightarrow> (addr \<times> wpc) list" where
  "wake_first [] = []"
| "wake_first ((w, W_Wait timed t False) # ts) = (w, W_Wait timed t True) # ts"
| "wake_first (x # ts) = x # wake_first ts"

fun worker_exec :: "('io \<Rightarrow> 'io) \<Rightarrow> bool \<Rightarrow> wpc \<Rightarrow> 'io etp_pool \<Rightarrow> (wpc \<times> 'io etp_pool) option" where
  "worker_exec want late (W_Loop t) p = do {
     (r, q) \<leftarrow> reqq_shift (p_heap p) (req_queue p);
     (case r of
        Some r \<Rightarrow> Some (W_Got r, p\<lparr>req_queue := q, nready := nready p - 1\<rparr>)
      | None \<Rightarrow>
          if t = TsOne then Some (W_TimedOut, p\<lparr>req_queue := q\<rparr>)
          else if idle p + 1 \<le> max_idle p
          then Some (W_Wait False t False, p\<lparr>req_queue := q, idle := idle p + 1\<rparr>)
          else Some (W_Wait True TsDeadline False, p\<lparr>req_queue := q, idle := idle p + 1\<rparr>)) }"
| "worker_exec want late (W_Wait timed t sg) p =
     Some (W_Loop (if timed \<and> late then TsOne else t), p\<lparr>idle := idle p - 1\<rparr>)"
| "worker_exec want late W_TimedOut p = Some (W_Quit None, p\<lparr>started := started p - 1\<rparr>)"
| "worker_exec want late (W_Got r) p = do {
     x \<leftarrow> p_heap p r;
     if is_quit (p_heap p) r then Some (W_Quit (Some r), p)
     else Some (W_Res r, p\<lparr>p_heap := (p_heap p)(r \<mapsto> x)\<rparr>) }"
| "worker_exec want late (W_Res r) p = map_option (Pair (W_Loop TsZero)) (push_result want p r)"
| "worker_exec want late (W_Quit r) p = None"

lemma worker_exec_sound: "worker_exec want late pc p = Some (pc', p') \<Longrightarrow> worker_step want pc p pc' p'"
  by (cases "(want, late, pc, p)" rule: worker_exec.cases)
    (auto split: bind_splits if_splits option.splits prod.splits intro: worker_step.intros)

fun act_exec :: "('io \<Rightarrow> 'io) \<Rightarrow> ('io \<Rightarrow> 'io) \<Rightarrow> act \<Rightarrow> 'io sys \<Rightarrow> 'io sys option" where
  "act_exec want fin (A_Submit r x) s =
     (if cl s \<noteq> M_Idle \<or> p_heap (pool s) r \<noteq> None \<or> rq_type x = ETP_TYPE_QUIT then None
      else do {
        p \<leftarrow> etp_submit_prep ((pool s)\<lparr>p_heap := (p_heap (pool s))(r \<mapsto> x)\<rparr>) r;
        Some (s\<lparr>pool := p, cl := (if rq_type x = EIO_GROUP then M_SubmitGrp r else M_Submit r),
                submitted := add_mset r (submitted s)\<rparr>) })"
| "act_exec want fin (A_Client w) s =
     (case cl s of
        M_Idle \<Rightarrow> None
      | M_Submit r \<Rightarrow> map_option (\<lambda>p. s\<lparr>pool := p, thr := wake_first (thr s), cl := M_Decide\<rparr>)
          (etp_submit_req (pool s) r)
      | M_SubmitGrp r \<Rightarrow> Some (s\<lparr>pool := etp_submit_grp_req (pool s), cl := M_PushGrp r\<rparr>)
      | M_PushGrp r \<Rightarrow> map_option (\<lambda>p. s\<lparr>pool := p, cl := M_Idle\<rparr>) (push_result want (pool s) r)
      | M_Decide \<Rightarrow> Some (s\<lparr>cl := (if wants_thread (pool s) then M_Start else M_Idle)\<rparr>)
      | M_Start \<Rightarrow>
          if p_wrk (pool s) w \<noteq> None then None
          else map_option (\<lambda>p. s\<lparr>pool := p, cl := M_Idle, thr := (w, W_Loop TsZero) # thr s\<rparr>)
                 (etp_start_thread (\<lambda>_. (w, True)) (pool s))
      | M_Polled r \<Rightarrow> Some (s\<lparr>pool := poll_account (pool s), cl := M_Idle,
          delivered := add_mset r (delivered s)\<rparr>)
      | M_EndDec \<Rightarrow> Some (s\<lparr>pool := etp_end_thread_dec (pool s), cl := M_Idle\<rparr>))"
| "act_exec want fin A_Poll s =
     (if cl s \<noteq> M_Idle then None
      else map_option (\<lambda>(r, p). s\<lparr>pool := p, cl := (case r of None \<Rightarrow> M_Idle | Some r \<Rightarrow> M_Polled r)\<rparr>)
             (poll_shift fin (pool s)))"
| "act_exec want fin A_Decide s = (if cl s \<noteq> M_Idle then None else Some (s\<lparr>cl := M_Decide\<rparr>))"
| "act_exec want fin (A_End a) s =
     (if cl s \<noteq> M_Idle \<or> \<not> wanted (pool s) < started (pool s) \<or> p_heap (pool s) a \<noteq> None then None
      else map_option (\<lambda>p. s\<lparr>pool := p, thr := wake_first (thr s), cl := M_EndDec,
               quits := insert a (quits s)\<rparr>) (etp_end_thread_push (\<lambda>_. a) (pool s)))"
| "act_exec want fin (A_Set a b c d e) s =
     (if cl s \<noteq> M_Idle then None
      else Some (s\<lparr>pool := (pool s)\<lparr>wanted := a, max_idle := b, idle_timeout := c,
             max_poll_time := d, max_poll_reqs := e\<rparr>\<rparr>))"
| "act_exec want fin (A_Worker i late) s =
     (if length (thr s) \<le> i then None
      else (case thr s ! i of
         (w, W_Quit r) \<Rightarrow> map_option (\<lambda>p. s\<lparr>pool := p, thr := take i (thr s) @ drop (Suc i) (thr s),
             quits := quits s - set_option r\<rparr>) (worker_exit (pool s) w r)
       | (w, pc) \<Rightarrow> map_option (\<lambda>(pc', p). s\<lparr>pool := p,
             thr := take i (thr s) @ (w, pc') # drop (Suc i) (thr s),
             taken := taken s + (case (pc, pc') of (W_Loop _, W_Got r) \<Rightarrow> of_bool (r \<in> quits s) | _ \<Rightarrow> 0)\<rparr>)
             (worker_exec want late pc (pool s))))"

fun run :: "('io \<Rightarrow> 'io) \<Rightarrow> ('io \<Rightarrow> 'io) \<Rightarrow> act list \<Rightarrow> 'io sys \<Rightarrow> 'io sys option" where
  "run want fin [] s = Some s"
| "run want fin (a # as) s = Option.bind (act_exec want fin a s) (run want fin as)"

lemma is_quit_code [code]:
  "is_quit h a \<longleftrightarrow> (case h a of None \<Rightarrow> False | Some r \<Rightarrow> rq_type r = ETP_TYPE_QUIT)"
  by (auto simp: is_quit_def split: option.splits)

lemma cond_signal_Cons: "cond_signal ts ts' \<Longrightarrow> \<not> asleep (snd x) \<Longrightarrow> cond_signal (x # ts) (x # ts')"
proof (induction rule: cond_signal.induct)
  case (none ts)
  then show ?case by (intro cond_signal.none) simp
next
  case (one xs w timed t ys)
  show ?case using cond_signal.one [of "x # xs"] by simp
qed

lemma cond_signal_wake_first: "cond_signal ts (wake_first ts)"
proof (induction ts rule: wake_first.induct)
  case 1
  show ?case by (simp add: cond_signal.none)
next
  case (2 w timed t ts)
  show ?case using cond_signal.one [of "[]"] by simp
qed (auto intro: cond_signal_Cons)

lemma reqq_abs_unique: "reqq_abs h q ls \<Longrightarrow> reqq_abs h q ls' \<Longrightarrow> ls = ls'"
proof -
  assume a: "reqq_abs h q ls" "reqq_abs h q ls'"
  have u: "chain h p xs \<Longrightarrow> chain h p ys \<Longrightarrow> xs = ys" for p xs ys
    by (induction xs arbitrary: p ys) (case_tac ys; auto)+
  note D = reqq_absD [OF a(1)] and D' = reqq_absD [OF a(2)]
  show ?thesis
  proof (rule nth_equalityI)
    show "ls ! i = ls' ! i" if "i < length ls" for i
      using that D(3) by (intro u [OF D(4) D'(4)]) auto
  qed (use D(3) D'(3) in simp)
qed

lemma act_exec_sound:
  assumes reach: "pool_reachable want fin io s" and e: "act_exec want fin a s = Some s'"
  shows "pool_reachable want fin io s'"
proof -
  obtain rq rs where inv: "sys_inv None s rq rs" using reach by (rule pool_reachable_inv)
  then have o: "owns (pool s) rq rs (holds s)" by (simp add: sys_inv_def inv_own_def)
  have one: "pool_reachable want fin io s'" if "pool_step want fin s s'" for s'
    using reach that unfolding pool_reachable_def by (rule rtranclp.rtrancl_into_rtrancl)
  show ?thesis
  proof (cases a)
    case (A_Submit r x)
    let ?h = "(p_heap (pool s))(r \<mapsto> x)"
    let ?s = "s\<lparr>pool := (pool s)\<lparr>p_heap := ?h\<rparr>\<rparr>"
    have g: "cl s = M_Idle" "p_heap (pool s) r = None" "rq_type x \<noteq> ETP_TYPE_QUIT"
      using e A_Submit by (auto split: if_splits)
    have "client_writes s ?h"
      unfolding client_writes_def in_hands_def using g(2) by (auto dest!: owns_live simp: fun_upd_apply)
    then have r1: "pool_reachable want fin io ?s" by (intro one pool_step.client)
    have "r \<notin> set (concat rq @ concat rs @ holds s)" using owns_live [OF o] g(2) by force
    moreover have "kept (p_heap (pool s)) ?h a" if "a \<in> set (concat rq @ concat rs @ holds s)" for a
      using owns_live [OF o that] g(2) by (auto simp: kept_def)
    then have "owns (pool ?s) rq rs (holds ?s)"
      using heap_kept_inv [OF inv] by (auto simp: sys_inv_def inv_own_def)
    moreover have "holds ?s = holds s" by (simp add: holds_def)
    ultimately have "\<not> in_hands ?s r"
      unfolding in_hands_def owns_def by (metis reqq_abs_unique)
    moreover obtain p where p: "etp_submit_prep (pool ?s) r = Some p"
        "s' = ?s\<lparr>pool := p, cl := (if rq_type x = EIO_GROUP then M_SubmitGrp r else M_Submit r),
                submitted := add_mset r (submitted ?s)\<rparr>"
      using e g A_Submit by (auto split: bind_splits)
    ultimately have "pool_step want fin ?s s'"
      unfolding p(2) using g by (intro pool_step.submit) auto
    with r1 show ?thesis unfolding pool_reachable_def by (rule rtranclp.rtrancl_into_rtrancl)
  next
    case (A_Client w)
    show ?thesis
      using e A_Client cond_signal_wake_first pool_step.decide [of s want fin]
        pool_step.start [of s w True]
      by (intro one) (auto split: mpc.splits if_splits intro: pool_step.intros)
  next
    case A_Poll
    with e show ?thesis by (intro one) (auto split: if_splits intro: pool_step.intros)
  next
    case A_Decide
    with e show ?thesis by (intro one) (auto split: if_splits intro: pool_step.intros)
  next
    case (A_End a)
    with e cond_signal_wake_first show ?thesis
      by (intro one) (auto split: if_splits intro: pool_step.intros)
  next
    case (A_Set wn mi it mt mr)
    with e show ?thesis
      by (intro one) (auto split: if_splits intro: pool_step.intros)
  next
    case (A_Worker i late)
    then have i: "i < length (thr s)" using e by (auto split: if_splits)
    obtain w pc where t: "thr s ! i = (w, pc)" by (cases "thr s ! i")
    have ts: "thr s = take i (thr s) @ (w, pc) # drop (Suc i) (thr s)"
      using id_take_nth_drop [OF i] t by simp
    show ?thesis
    proof (cases "\<exists>r. pc = W_Quit r")
      case True
      then obtain r where r: "pc = W_Quit r" ..
      with e A_Worker i t pool_step.exit [OF ts [unfolded r]] show ?thesis
        by (intro one) (auto split: if_splits)
    next
      case False
      then obtain pc' p where "worker_exec want late pc (pool s) = Some (pc', p)"
        "s' = s\<lparr>pool := p, thr := take i (thr s) @ (w, pc') # drop (Suc i) (thr s),
             taken := taken s + (case (pc, pc') of (W_Loop _, W_Got r) \<Rightarrow> of_bool (r \<in> quits s) | _ \<Rightarrow> 0)\<rparr>"
        using e A_Worker i t by (cases pc) (auto split: if_splits)
      with pool_step.work [OF ts worker_exec_sound] show ?thesis by (intro one) simp
    qed
  qed
qed

lemma run_reachable:
  "pool_reachable want fin io s \<Longrightarrow> run want fin as s = Some s' \<Longrightarrow> pool_reachable want fin io s'"
proof (induction "as" arbitrary: s)
  case Nil
  then show ?case by simp
next
  case (Cons a as)
  then show ?case by (auto split: bind_splits dest: act_exec_sound)
qed

lemma pool_reachable_start: "pool_reachable want fin io (pool_start io)"
  by (simp add: pool_reachable_def)

section \<open>What holds in every reachable state\<close>

text \<open>
  C4: No request is ever lost, duplicated, or freed while the pool has it.  In every reachable state
  of the interleaved system the two queues are well-formed, no request is in two places (a queue, or
  the hands of one thread), all of them are allocated, and the requests submitted so far are exactly
  the ones delivered and the ones still in a queue or in hands, quit requests apart.
\<close>

theorem pool_requests_conserved:
  assumes "pool_reachable want_poll done_poll io s"
  shows "\<exists>rq rs. reqq_abs (p_heap (pool s)) (req_queue (pool s)) rq \<and>
      reqq_abs (p_heap (pool s)) (res_queue (pool s)) rs \<and>
      distinct (concat rq @ concat rs @ holds s) \<and>
      set (concat rq @ concat rs @ holds s) \<subseteq> dom (p_heap (pool s)) \<and>
      submitted s = delivered s +
        {#a \<in># mset (concat rq @ concat rs @ holds s). \<not> is_quit (p_heap (pool s)) a#}"
proof -
  obtain rq rs where inv: "sys_inv None s rq rs" using assms by (rule pool_reachable_inv)
  let ?all = "concat rq @ concat rs @ holds s"
  have o: "owns (pool s) rq rs (holds s)" using inv by (simp add: sys_inv_def inv_own_def)
  have "regular (quits s) (mset ?all) = {#a \<in># mset ?all. \<not> is_quit (p_heap (pool s)) a#}"
    unfolding regular_def using inv by (intro filter_mset_cong) (auto simp: sys_inv_def inv_kind_def)
  then have "submitted s = delivered s + {#a \<in># mset ?all. \<not> is_quit (p_heap (pool s)) a#}"
    using inv by (simp only: sys_inv_def inv_flow_def)
  moreover have "set ?all \<subseteq> dom (p_heap (pool s))" using owns_live [OF o] by blast
  ultimately show ?thesis using o unfolding owns_def by blast
qed

text \<open>A schedule that submits a request, starts a thread, and runs it up to the result queue.\<close>

definition one_request :: "act list" where
  "one_request = [A_Submit 5 (calloc_req\<lparr>rq_type := EIO_NOP\<rparr>), A_Client 0, A_Client 0, A_Client 1,
     A_Worker 0 False, A_Worker 0 False, A_Worker 0 False]"

lemma one_request_run:
  "\<exists>s. run id id one_request (pool_start ()) = Some s \<and> cl s = M_Idle \<and>
     thr s = [(1, W_Loop TsZero)] \<and> submitted s = {#5#} \<and> delivered s = {#} \<and> q_size (res_queue (pool s)) = 1"
proof -
  have "map_option (\<lambda>s. (cl s, thr s, submitted s, delivered s, q_size (res_queue (pool s))))
    (run id id one_request (pool_start ())) = Some (M_Idle, [(1, W_Loop TsZero)], {#5#}, {#}, 1)"
    by code_simp
  then show ?thesis by auto
qed


theorem pool_requests_conserved_witness:
  "\<exists>s rq rs. run id id one_request (pool_start ()) = Some s \<and>
      reqq_abs (p_heap (pool s)) (res_queue (pool s)) rs \<and> concat rs \<noteq> [] \<and>
      submitted s = {#5#} \<and>
      submitted s = delivered s +
        {#a \<in># mset (concat rq @ concat rs @ holds s). \<not> is_quit (p_heap (pool s)) a#}"
proof -
  from one_request_run obtain s where s: "run id id one_request (pool_start ()) = Some s"
    "submitted s = {#5#}" "q_size (res_queue (pool s)) = 1" by blast
  from pool_requests_conserved [OF run_reachable [OF pool_reachable_start s(1)]] obtain rq rs where
    "reqq_abs (p_heap (pool s)) (res_queue (pool s)) rs"
    "submitted s = delivered s +
        {#a \<in># mset (concat rq @ concat rs @ holds s). \<not> is_quit (p_heap (pool s)) a#}" by blast
  moreover from this(1) s(3) have "concat rs \<noteq> []" by (auto simp: reqq_abs_def)
  ultimately show ?thesis using s(1,2) by blast
qed

lemma counters_exact:
  assumes "pool_reachable want_poll done_poll io s" "cl s = M_Idle"
  shows "nreqs (pool s) = of_nat (size (submitted s) - size (delivered s))"
    "npending (pool s) = word_of_int (q_size (res_queue (pool s)))"
    "idle (pool s) = of_nat (length (filter (\<lambda>x. waiting (snd x) = 1) (thr s)))"
    "\<exists>rq. reqq_abs (p_heap (pool s)) (req_queue (pool s)) rq \<and>
       nready (pool s) + of_nat (taken s) =
         of_nat (size {#a \<in># mset (concat rq). \<not> is_quit (p_heap (pool s)) a#}) \<and>
       started (pool s) + of_nat (size {#a \<in># mset (concat rq). is_quit (p_heap (pool s)) a#} +
         tally (quitting (quits s)) (thr s)) = of_nat (length (thr s))"
proof -
  obtain rq rs where inv: "sys_inv None s rq rs" using assms(1) by (rule pool_reachable_inv)
  have abs: "reqq_abs (p_heap (pool s)) (req_queue (pool s)) rq"
    "reqq_abs (p_heap (pool s)) (res_queue (pool s)) rs"
    using inv by (auto simp: sys_inv_def inv_own_def owns_def)
  have quit: "is_quit (p_heap (pool s)) a \<longleftrightarrow> a \<in> quits s" if "a \<in> set (concat rq)" for a
    using inv that by (simp add: sys_inv_def inv_kind_def)
  have "size (submitted s) = size (delivered s) +
      size (regular (quits s) (mset (concat rq @ concat rs @ workers_held (thr s))))"
    using inv assms(2) by (simp add: sys_inv_def inv_flow_def holds_def)
  then show "nreqs (pool s) = of_nat (size (submitted s) - size (delivered s))"
    using inv assms(2) by (simp add: sys_inv_def inv_count_def)
  show "npending (pool s) = word_of_int (q_size (res_queue (pool s)))"
    using inv reqq_absD(7) [OF abs(2)] by (simp add: sys_inv_def inv_count_def)
  have "tally waiting ts = length (filter (\<lambda>x. waiting (snd x) = 1) ts)" for ts
  proof (induction ts)
    case (Cons x ts)
    then show ?case by (cases "snd x") auto
  qed simp
  then show "idle (pool s) = of_nat (length (filter (\<lambda>x. waiting (snd x) = 1) (thr s)))"
    using inv by (simp add: sys_inv_def inv_count_def)
  have "regular (quits s) (mset (concat rq)) = {#a \<in># mset (concat rq). \<not> is_quit (p_heap (pool s)) a#}"
    unfolding regular_def using quit by (intro filter_mset_cong) auto
  moreover have "{#a \<in># mset (concat rq). a \<in> quits s#} = {#a \<in># mset (concat rq). is_quit (p_heap (pool s)) a#}"
    using quit by (intro filter_mset_cong) auto
  ultimately have "nready (pool s) + of_nat (taken s) =
         of_nat (size {#a \<in># mset (concat rq). \<not> is_quit (p_heap (pool s)) a#})"
    "started (pool s) + of_nat (size {#a \<in># mset (concat rq). is_quit (p_heap (pool s)) a#} +
         tally (quitting (quits s)) (thr s)) = of_nat (length (thr s))"
    using inv assms(2) unfolding sys_inv_def inv_count_def by auto
  with abs(1) show "\<exists>rq. reqq_abs (p_heap (pool s)) (req_queue (pool s)) rq \<and>
       nready (pool s) + of_nat (taken s) =
         of_nat (size {#a \<in># mset (concat rq). \<not> is_quit (p_heap (pool s)) a#}) \<and>
       started (pool s) + of_nat (size {#a \<in># mset (concat rq). is_quit (p_heap (pool s)) a#} +
         tally (quitting (quits s)) (thr s)) = of_nat (length (thr s))" by blast
qed

text \<open>
  C13: The counters are exact between two calls of the client.  \<open>nreqs\<close> is the number of requests
  submitted and not delivered, \<open>npending\<close> the length of the result queue, \<open>idle\<close> the number of
  workers that wait.  \<open>started\<close> and \<open>nready\<close> are exact up to the quit requests: every quit request a
  worker takes lowers \<open>nready\<close>, which \<open>etp_end_thread\<close> never raised, and the threads that are still
  to take one are no longer counted as started.
\<close>

theorem pool_counters_exact:
  assumes "pool_reachable want_poll done_poll io s" "cl s = M_Idle"
  shows "nreqs (pool s) = of_nat (size (submitted s) - size (delivered s)) \<and>
    npending (pool s) = word_of_int (q_size (res_queue (pool s))) \<and>
    idle (pool s) = of_nat (length (filter (\<lambda>x. waiting (snd x) = 1) (thr s))) \<and>
    (\<exists>rq. reqq_abs (p_heap (pool s)) (req_queue (pool s)) rq \<and>
       nready (pool s) + of_nat (taken s) =
         of_nat (size {#a \<in># mset (concat rq). \<not> is_quit (p_heap (pool s)) a#}) \<and>
       started (pool s) + of_nat (size {#a \<in># mset (concat rq). is_quit (p_heap (pool s)) a#} +
         tally (quitting (quits s)) (thr s)) = of_nat (length (thr s)))"
  using counters_exact [OF assms] by blast

theorem pool_counters_exact_witness:
  "\<exists>s. run id id one_request (pool_start ()) = Some s \<and> nreqs (pool s) = 1 \<and> npending (pool s) = 1"
proof -
  from one_request_run obtain s where s: "run id id one_request (pool_start ()) = Some s" "cl s = M_Idle"
    "submitted s = {#5#}" "delivered s = {#}" "q_size (res_queue (pool s)) = 1" by blast
  from pool_counters_exact [OF run_reachable [OF pool_reachable_start s(1)] s(2)] s
  show ?thesis by auto
qed

text \<open>
  C8: No lost wake-up.  As long as one worker sleeps on the condition variable without having been
  signalled, there are at least as many awake workers on their way to the request queue (at the head
  of the loop, or signalled) as there are requests in it: a queued request is never left while every
  worker sleeps.
\<close>

theorem pool_no_lost_wakeup:
  assumes "pool_reachable want_poll done_poll io s" "(w, pc) \<in> set (thr s)" "asleep pc"
  shows "q_size (req_queue (pool s)) \<le> int (tally alert (thr s))"
proof -
  obtain rq rs where inv: "sys_inv None s rq rs" using assms(1) by (rule pool_reachable_inv)
  then have "reqq_abs (p_heap (pool s)) (req_queue (pool s)) rq"
    by (simp add: sys_inv_def inv_own_def owns_def)
  from reqq_absD(7) [OF this] show ?thesis
    using inv assms(2,3) by (force simp: sys_inv_def inv_wake_def)
qed

text \<open>Two workers sleep; a request arrives and one of them is signalled.\<close>

definition two_sleepers :: "act list" where
  "two_sleepers = one_request @ [A_Worker 0 False, A_Set 2 4 10 0 0,
     A_Submit 6 (calloc_req\<lparr>rq_type := EIO_NOP\<rparr>), A_Client 0, A_Client 0,
     A_Submit 8 (calloc_req\<lparr>rq_type := EIO_NOP\<rparr>), A_Client 0, A_Client 0, A_Client 2,
     A_Worker 0 False, A_Worker 0 False, A_Worker 0 False, A_Worker 0 False, A_Worker 0 False, A_Worker 0 False,
     A_Worker 0 False, A_Worker 1 False, A_Worker 1 False,
     A_Submit 7 (calloc_req\<lparr>rq_type := EIO_NOP\<rparr>), A_Client 0]"

theorem pool_no_lost_wakeup_witness:
  "\<exists>s. run id id two_sleepers (pool_start ()) = Some s \<and> asleep (W_Wait False TsZero False) \<and>
     (1, W_Wait False TsZero False) \<in> set (thr s) \<and>
     0 < q_size (req_queue (pool s)) \<and> q_size (req_queue (pool s)) \<le> int (tally alert (thr s))"
proof -
  have "map_option (\<lambda>s. (thr s, q_size (req_queue (pool s)))) (run id id two_sleepers (pool_start ())) =
    Some ([(2, W_Wait False TsZero True), (1, W_Wait False TsZero False)], 1)"
    by code_simp
  then obtain s where s: "run id id two_sleepers (pool_start ()) = Some s"
    "thr s = [(2, W_Wait False TsZero True), (1, W_Wait False TsZero False)]" "q_size (req_queue (pool s)) = 1"
    by auto
  from pool_no_lost_wakeup [OF run_reachable [OF pool_reachable_start s(1)], of 1 "W_Wait False TsZero False"] s
  show ?thesis by simp
qed

text \<open>The poll signal, for a test that is defined on the states the callbacks are set up in.\<close>

lemma signal_iff_results:
  assumes want: "\<And>io. f io = Some False \<Longrightarrow> f (want_poll io) = Some True"
    and lower: "\<And>io. f io = Some True \<Longrightarrow> f (done_poll io) = Some False" and start: "f io = Some False"
    and "pool_reachable want_poll done_poll io s"
  shows "f (p_io (pool s)) = Some (q_size (res_queue (pool s)) \<noteq> 0)"
proof -
  have "\<exists>rq rs. sys_inv (Some f) s rq rs"
    using assms(4) unfolding pool_reachable_def
  proof (induction rule: rtranclp_induct)
    case base
    from sys_inv_start [of "Some f" io] start show ?case
      by (intro exI [of _ "replicate 9 []"]) simp
  next
    case (step s s')
    then obtain rq rs where "sys_inv (Some f) s rq rs" by blast
    from pool_step_inv [OF step(2) this] want lower show ?case
      by (simp add: raises_def lowers_def)
  qed
  then obtain rq rs where inv: "sys_inv (Some f) s rq rs" by blast
  then have "reqq_abs (p_heap (pool s)) (res_queue (pool s)) rs"
    by (simp add: sys_inv_def inv_own_def owns_def)
  from reqq_absD(7) [OF this] inv show ?thesis
    by (simp add: sys_inv_def inv_signal_def)
qed

text \<open>
  C9: The poll signal.  When the \<open>want_poll\<close> callback raises a signal and \<open>done_poll\<close> lowers it, then in
  every reachable state the signal is up exactly when results are waiting: the client is never left
  waiting for a wake-up it has missed, and is not woken for nothing.
\<close>

theorem pool_signal_iff_results:
  assumes "\<And>io. raised (want_poll io)" "\<And>io. \<not> raised (done_poll io)" "\<not> raised io"
    and "pool_reachable want_poll done_poll io s"
  shows "raised (p_io (pool s)) \<longleftrightarrow> q_size (res_queue (pool s)) \<noteq> 0"
  using signal_iff_results [of "Some \<circ> raised" want_poll done_poll io s] assms by simp

theorem pool_signal_iff_results_witness:
  "\<exists>s. run (\<lambda>_. True) (\<lambda>_. False) one_request (pool_start False) = Some s \<and>
     p_io (pool s) \<and> q_size (res_queue (pool s)) \<noteq> 0"
proof -
  have "map_option (\<lambda>s. p_io (pool s)) (run (\<lambda>_. True) (\<lambda>_. False) one_request (pool_start False)) = Some True"
    by code_simp
  then obtain s where s: "run (\<lambda>_. True) (\<lambda>_. False) one_request (pool_start False) = Some s" "p_io (pool s)"
    by auto
  from pool_signal_iff_results [of id "\<lambda>_. True" "\<lambda>_. False" False s,
      OF _ _ _ run_reachable [OF pool_reachable_start s(1)]] s
  show ?thesis by auto
qed

lemma sections_defined:
  assumes "pool_reachable want_poll done_poll io s"
  shows "(w, pc) \<in> set (thr s) \<Longrightarrow> (\<exists>pc' p'. worker_step want_poll pc (pool s) pc' p') \<or>
      (\<exists>r p'. pc = W_Quit r \<and> worker_exit (pool s) w r = Some p')"
    and "cl s = M_Submit r \<Longrightarrow> etp_submit_req (pool s) r \<noteq> None"
    and "cl s = M_PushGrp r \<Longrightarrow> push_result want_poll (pool s) r \<noteq> None"
    and "p_wrk (pool s) w' = None \<Longrightarrow> etp_start_thread (\<lambda>_. (w', created)) (pool s) \<noteq> None"
    and "poll_shift done_poll (pool s) \<noteq> None"
    and "p_heap (pool s) a = None \<Longrightarrow> etp_end_thread_push (\<lambda>_. a) (pool s) \<noteq> None"
proof -
  obtain rq rs where inv: "sys_inv None s rq rs" using assms by (rule pool_reachable_inv)
  have o: "owns (pool s) rq rs (holds s)" using inv by (simp add: sys_inv_def inv_own_def)
  have held: "\<exists>held. owns (pool s) rq rs (r # held)" if "r \<in> set (holds s)" for r
  proof -
    from split_list [OF that] obtain xs ys where "holds s = xs @ r # ys" by blast
    then show ?thesis using o owns_perm [of "holds s" "r # xs @ ys" "pool s" rq rs] by auto
  qed
  obtain ws where ws: "ring (p_wrk (pool s)) ws" "set ws = fst ` set (thr s)"
    using inv by (auto simp: sys_inv_def inv_own_def)
  have pushable: "push_result want_poll (pool s) r \<noteq> None" if "r \<in> set (holds s)" for r
    using held [OF that] push_result_owns by fastforce
  show "(\<exists>pc' p'. worker_step want_poll pc (pool s) pc' p') \<or>
      (\<exists>r p'. pc = W_Quit r \<and> worker_exit (pool s) w r = Some p')" if t: "(w, pc) \<in> set (thr s)"
  proof (cases pc)
    case (W_Loop t)
    have "\<exists>x. reqq_shift (p_heap (pool s)) (req_queue (pool s)) = Some x"
      using shift_request_empty [OF o] shift_request_owns [OF o] by (cases "pq_pop rq") force+
    then obtain r q where "reqq_shift (p_heap (pool s)) (req_queue (pool s)) = Some (r, q)" by auto
    then show ?thesis using W_Loop
      by (cases r; cases "t = TsOne"; cases "idle (pool s) + 1 \<le> max_idle (pool s)")
        (blast intro: worker_step.intros)+
  next
    case (W_Got r)
    then have "r \<in> set (holds s)" using worker_held_in [OF t] by (simp add: holds_def)
    then obtain x where "p_heap (pool s) r = Some x" using owns_live [OF o] by auto
    then show ?thesis using W_Got by (blast intro: worker_step.intros)
  next
    case (W_Res r)
    then have "r \<in> set (holds s)" using worker_held_in [OF t] by (simp add: holds_def)
    then show ?thesis using W_Res pushable by (blast intro: worker_step.intros)
  next
    case (W_Quit r)
    have "w \<in> set ws" using ws(2) t by force
    then obtain us vs where "ws = us @ w # vs" by (meson split_list)
    with ws(1) etp_worker_free_ring obtain h where "etp_worker_free (p_wrk (pool s)) w = Some h" by blast
    then show ?thesis using W_Quit by (auto simp: worker_exit_def split: option.splits)
  qed (blast intro: worker_step.intros)+
  show "etp_submit_req (pool s) r \<noteq> None" if "cl s = M_Submit r"
    using held [of r] push_request_owns that by (fastforce simp: holds_def etp_submit_req_def)
  show "push_result want_poll (pool s) r \<noteq> None" if "cl s = M_PushGrp r"
    using pushable [of r] that by (simp add: holds_def)
  show "etp_start_thread (\<lambda>_. (w', created)) (pool s) \<noteq> None" if "p_wrk (pool s) w' = None"
    using ring_link_ring [OF ws(1) that] by (auto simp: etp_start_thread_def)
  show "poll_shift done_poll (pool s) \<noteq> None"
    using poll_shift_empty [OF o] poll_shift_owns [OF o] by (cases "pq_pop rs") force+
  show "etp_end_thread_push (\<lambda>_. a) (pool s) \<noteq> None" if "p_heap (pool s) a = None"
    using end_thread_push_owns [OF o, of "\<lambda>_. a"] that by auto
qed

text \<open>
  C6: No section ever faults.  In every reachable state every worker can run its next section, or
  leave, and so can the client: none of the queue operations meets a null or freed pointer, an index
  out of range, or \<open>abort\<close>.
\<close>

theorem pool_never_faults:
  assumes "pool_reachable want_poll done_poll io s"
  shows "(\<forall>w pc. (w, pc) \<in> set (thr s) \<longrightarrow>
        (\<exists>pc' p'. worker_step want_poll pc (pool s) pc' p') \<or>
        (\<exists>r p'. pc = W_Quit r \<and> worker_exit (pool s) w r = Some p')) \<and>
    (\<forall>r. cl s = M_Submit r \<longrightarrow> etp_submit_req (pool s) r \<noteq> None) \<and>
    (\<forall>r. cl s = M_PushGrp r \<longrightarrow> push_result want_poll (pool s) r \<noteq> None) \<and>
    (\<forall>w created. p_wrk (pool s) w = None \<longrightarrow> etp_start_thread (\<lambda>_. (w, created)) (pool s) \<noteq> None) \<and>
    poll_shift done_poll (pool s) \<noteq> None \<and>
    (\<forall>a. p_heap (pool s) a = None \<longrightarrow> etp_end_thread_push (\<lambda>_. a) (pool s) \<noteq> None)"
  using sections_defined [OF assms] by blast

theorem pool_never_faults_witness:
  "\<exists>s. run id id one_request (pool_start ()) = Some s \<and>
     ((\<exists>pc' p'. worker_step id (W_Loop TsZero) (pool s) pc' p') \<or>
      (\<exists>r p'. W_Loop TsZero = W_Quit r \<and> worker_exit (pool s) 1 r = Some p'))"
proof -
  from one_request_run obtain s where s: "run id id one_request (pool_start ()) = Some s"
    "thr s = [(1, W_Loop TsZero)]" by blast
  have "(1, W_Loop TsZero) \<in> set (thr s)" using s(2) by simp
  with pool_never_faults [OF run_reachable [OF pool_reachable_start s(1)]] s(1)
  show ?thesis by blast
qed

text \<open>
  C33: A timeout can race with the ending of threads.  There is a schedule of 16 sections after which
  the only thread is gone while the count of started threads has wrapped around to its maximum: the
  worker has timed out but not yet lowered the count when \<open>etp_set_max_parallel\<close> lowers it for the
  same thread.  From then on, whatever is submitted, no thread is ever started again, because
  \<open>etp_maybe_start_thread\<close> sees more threads than are wanted.
\<close>

definition timeout_race :: "act list" where
  "timeout_race = one_request @ [A_Set 4 0 0 0 0, A_Worker 0 False, A_Worker 0 True, A_Worker 0 False,
     A_Set 0 0 0 0 0, A_End 6, A_Client 0, A_Worker 0 False, A_Worker 0 False]"


end
