(* ===== verification/Grp.thy ===== *)
theory Grp
  imports Pool
begin

text \<open>
  Finishing, destroying and cancelling requests, and groups of requests: \<open>grp_try_feed\<close>, \<open>grp_dec\<close>,
  \<open>eio_destroy\<close>, \<open>eio_finish\<close> and the group functions of \<open>libeio/eio.c\<close>, \<open>etp_cancel\<close> and
  \<open>etp_grp_cancel\<close> of \<open>libeio/etp.c\<close>.  A group keeps its unfinished members in a doubly linked list
  and counts them in \<open>size\<close>; it is finished after the last of them.  The callbacks of a request are
  arguments: what the function behind each pointer does to the pool.
\<close>

section \<open>Callbacks\<close>

record 'io eio_cbs =
  cb_finish :: "finish_fn \<Rightarrow> addr \<Rightarrow> 'io etp_pool \<Rightarrow> (int \<times> 'io etp_pool) option"
  cb_destroy :: "destroy_fn \<Rightarrow> addr \<Rightarrow> 'io etp_pool \<Rightarrow> 'io etp_pool option"
  cb_feed :: "feed_fn \<Rightarrow> addr \<Rightarrow> 'io etp_pool \<Rightarrow> 'io etp_pool option"

definition EIO_FINISH :: "'io eio_cbs \<Rightarrow> addr \<Rightarrow> 'io etp_pool \<Rightarrow> (int \<times> 'io etp_pool) option" where
  "EIO_FINISH cbs req p = do {
     x \<leftarrow> p_heap p req;
     (case rq_finish x of
        None \<Rightarrow> Some (0, p)
      | Some f \<Rightarrow> if rq_cancelled x then Some (0, p) else cb_finish cbs f req p) }"

definition EIO_DESTROY :: "'io eio_cbs \<Rightarrow> addr \<Rightarrow> 'io etp_pool \<Rightarrow> 'io etp_pool option" where
  "EIO_DESTROY cbs req p = do {
     x \<leftarrow> p_heap p req;
     (case rq_destroy x of None \<Rightarrow> Some p | Some f \<Rightarrow> cb_destroy cbs f req p) }"

definition EIO_FEED :: "'io eio_cbs \<Rightarrow> addr \<Rightarrow> 'io etp_pool \<Rightarrow> 'io etp_pool option" where
  "EIO_FEED cbs req p = do {
     x \<leftarrow> p_heap p req;
     (case rq_feed x of None \<Rightarrow> Some p | Some f \<Rightarrow> cb_feed cbs f req p) }"

section \<open>Finishing a request\<close>

text \<open>A write to a request of the pool.\<close>

definition wr :: "addr \<Rightarrow> (eio_req \<Rightarrow> eio_req) \<Rightarrow> 'io etp_pool \<Rightarrow> 'io etp_pool option" where
  "wr a f p = map_option (\<lambda>h. p\<lparr>p_heap := h\<rparr>) (upd_req (p_heap p) a f)"

text \<open>
  The feeding loop.  \<open>size\<close> is a \<open>size_t\<close> and \<open>int2\<close> a \<open>long\<close>, so the comparison is one of unsigned 64-bit
  integers.  \<open>None\<close> also stands for a feeder that keeps adding for longer than the fuel.
\<close>

fun grp_try_feed :: "'io eio_cbs \<Rightarrow> nat \<Rightarrow> addr \<Rightarrow> 'io etp_pool \<Rightarrow> 'io etp_pool option" where
  "grp_try_feed cbs 0 grp p = None"
| "grp_try_feed cbs (Suc n) grp p = do {
     g \<leftarrow> p_heap p grp;
     if rq_size g < word_of_int (rq_int2 g) \<and> \<not> rq_cancelled g then do {
       p \<leftarrow> wr grp (\<lambda>g. g\<lparr>rq_flags := and (rq_flags g) (not ETP_FLAG_GROUPADD)\<rparr>) p;
       p \<leftarrow> EIO_FEED cbs grp p;
       g \<leftarrow> p_heap p grp;
       if and (rq_flags g) ETP_FLAG_GROUPADD = 0 then wr grp (\<lambda>g. g\<lparr>rq_feed := None\<rparr>) p
       else grp_try_feed cbs n grp p }
     else Some p }"

text \<open>
  \<open>eio_destroy\<close>: the buffers the request owns are freed, so nothing may be read through the pointers
  any more, then the destructor runs.
\<close>

definition eio_destroy :: "'io eio_cbs \<Rightarrow> addr \<Rightarrow> 'io etp_pool \<Rightarrow> 'io etp_pool option" where
  "eio_destroy cbs req p = do {
     p \<leftarrow> wr req (\<lambda>x. if and (rq_flags x) EIO_FLAG_PTR1_FREE \<noteq> 0 then x\<lparr>rq_ptr1 := MNull\<rparr> else x) p;
     p \<leftarrow> wr req (\<lambda>x. if and (rq_flags x) EIO_FLAG_PTR2_FREE \<noteq> 0 then x\<lparr>rq_ptr2 := MNull\<rparr> else x) p;
     EIO_DESTROY cbs req p }"

text \<open>The part of \<open>eio_finish\<close> that takes a request out of the list of its group.\<close>

definition grp_unlink :: "req_heap \<Rightarrow> addr \<Rightarrow> addr \<Rightarrow> req_heap option" where
  "grp_unlink h req grp = do {
     x \<leftarrow> h req;
     h \<leftarrow> (case rq_grp_next x of None \<Rightarrow> Some h
            | Some n \<Rightarrow> upd_req h n (\<lambda>y. y\<lparr>rq_grp_prev := rq_grp_prev x\<rparr>));
     x \<leftarrow> h req;
     h \<leftarrow> (case rq_grp_prev x of None \<Rightarrow> Some h
            | Some q \<Rightarrow> upd_req h q (\<lambda>y. y\<lparr>rq_grp_next := rq_grp_next x\<rparr>));
     g \<leftarrow> h grp;
     x \<leftarrow> h req;
     if rq_grp_first g = Some req then upd_req h grp (\<lambda>g. g\<lparr>rq_grp_first := rq_grp_next x\<rparr>)
     else Some h }"

text \<open>
  \<open>eio_finish\<close> and \<open>grp_dec\<close> call each other along the chain of groups a request is nested in; the fuel
  bounds that depth and the feeding loops.
\<close>

fun eio_finish :: "'io eio_cbs \<Rightarrow> nat \<Rightarrow> addr \<Rightarrow> 'io etp_pool \<Rightarrow> (int \<times> 'io etp_pool) option"
  and grp_dec :: "'io eio_cbs \<Rightarrow> nat \<Rightarrow> addr \<Rightarrow> 'io etp_pool \<Rightarrow> (int \<times> 'io etp_pool) option" where
  "eio_finish cbs 0 req p = None"
| "eio_finish cbs (Suc n) req p = do {
     (res, p) \<leftarrow> EIO_FINISH cbs req p;
     x \<leftarrow> p_heap p req;
     (res, p) \<leftarrow> (case rq_grp x of
         None \<Rightarrow> Some (res, p)
       | Some grp \<Rightarrow> do {
           h \<leftarrow> grp_unlink (p_heap p) req grp;
           (res2, p) \<leftarrow> grp_dec cbs n grp (p\<lparr>p_heap := h\<rparr>);
           Some (if res = 0 then res2 else res, p) });
     p \<leftarrow> eio_destroy cbs req p;
     Some (res, p) }"
| "grp_dec cbs 0 grp p = None"
| "grp_dec cbs (Suc n) grp p = do {
     p \<leftarrow> wr grp (\<lambda>g. g\<lparr>rq_size := rq_size g - 1\<rparr>) p;
     p \<leftarrow> grp_try_feed cbs n grp p;
     g \<leftarrow> p_heap p grp;
     if rq_size g = 0 \<and> and (rq_flags g) ETP_FLAG_DELAYED \<noteq> 0 then eio_finish cbs n grp p
     else Some (0, p) }"

section \<open>Cancelling\<close>

text \<open>
  \<open>etp_cancel\<close> and the loop of \<open>etp_grp_cancel\<close>.  The recursion follows the tree of members; a list of
  members with a cycle is followed for ever, which is \<open>None\<close> for every fuel.
\<close>

fun etp_cancel :: "nat \<Rightarrow> addr \<Rightarrow> req_heap \<Rightarrow> req_heap option"
  and grp_cancel_loop :: "nat \<Rightarrow> ptr \<Rightarrow> req_heap \<Rightarrow> req_heap option" where
  "etp_cancel 0 req h = None"
| "etp_cancel (Suc n) req h = do {
     h \<leftarrow> upd_req h req (\<lambda>x. x\<lparr>rq_cancelled := True\<rparr>);
     x \<leftarrow> h req;
     grp_cancel_loop n (rq_grp_first x) h }"
| "grp_cancel_loop 0 grp h = None"
| "grp_cancel_loop (Suc n) None h = Some h"
| "grp_cancel_loop (Suc n) (Some grp) h = do {
     h \<leftarrow> etp_cancel n grp h;
     x \<leftarrow> h grp;
     grp_cancel_loop n (rq_grp_next x) h }"

definition etp_grp_cancel :: "nat \<Rightarrow> addr \<Rightarrow> req_heap \<Rightarrow> req_heap option" where
  "etp_grp_cancel n grp h = do { g \<leftarrow> h grp; grp_cancel_loop n (rq_grp_first g) h }"

section \<open>The group functions\<close>

text \<open>\<open>eio_grp_add\<close>; the assertion on \<open>int1\<close> is an abort.\<close>

definition eio_grp_add :: "addr \<Rightarrow> addr \<Rightarrow> req_heap \<Rightarrow> req_heap option" where
  "eio_grp_add grp req h = do {
     g \<leftarrow> h grp;
     if rq_int1 g = 2 then None else do {
       h \<leftarrow> upd_req h grp (\<lambda>g. g\<lparr>rq_flags := or (rq_flags g) ETP_FLAG_GROUPADD\<rparr>);
       h \<leftarrow> upd_req h grp (\<lambda>g. g\<lparr>rq_size := rq_size g + 1\<rparr>);
       h \<leftarrow> upd_req h req (\<lambda>x. x\<lparr>rq_grp := Some grp\<rparr>);
       h \<leftarrow> upd_req h req (\<lambda>x. x\<lparr>rq_grp_prev := None\<rparr>);
       g \<leftarrow> h grp;
       h \<leftarrow> upd_req h req (\<lambda>x. x\<lparr>rq_grp_next := rq_grp_first g\<rparr>);
       g \<leftarrow> h grp;
       h \<leftarrow> (case rq_grp_first g of None \<Rightarrow> Some h
              | Some f \<Rightarrow> upd_req h f (\<lambda>x. x\<lparr>rq_grp_prev := Some req\<rparr>));
       upd_req h grp (\<lambda>g. g\<lparr>rq_grp_first := Some req\<rparr>) } }"

definition eio_grp_feed ::
    "'io eio_cbs \<Rightarrow> nat \<Rightarrow> addr \<Rightarrow> feed_fn option \<Rightarrow> int \<Rightarrow> 'io etp_pool \<Rightarrow> 'io etp_pool option" where
  "eio_grp_feed cbs n grp feed limit p = do {
     p \<leftarrow> wr grp (\<lambda>g. g\<lparr>rq_int2 := limit\<rparr>) p;
     p \<leftarrow> wr grp (\<lambda>g. g\<lparr>rq_feed := feed\<rparr>) p;
     grp_try_feed cbs n grp p }"

definition eio_grp_limit :: "'io eio_cbs \<Rightarrow> nat \<Rightarrow> addr \<Rightarrow> int \<Rightarrow> 'io etp_pool \<Rightarrow> 'io etp_pool option" where
  "eio_grp_limit cbs n grp limit p = do {
     p \<leftarrow> wr grp (\<lambda>g. g\<lparr>rq_int2 := limit\<rparr>) p;
     grp_try_feed cbs n grp p }"

section \<open>The pool of the library\<close>

text \<open>The public functions apply the pool operations to the one static pool.\<close>

definition eio_cancel :: "nat \<Rightarrow> addr \<Rightarrow> 'io etp_pool \<Rightarrow> 'io etp_pool option" where
  "eio_cancel n req p = map_option (\<lambda>h. p\<lparr>p_heap := h\<rparr>) (etp_cancel n req (p_heap p))"

definition eio_grp_cancel :: "nat \<Rightarrow> addr \<Rightarrow> 'io etp_pool \<Rightarrow> 'io etp_pool option" where
  "eio_grp_cancel n grp p = map_option (\<lambda>h. p\<lparr>p_heap := h\<rparr>) (etp_grp_cancel n grp (p_heap p))"

definition eio_poll ::
    "('io \<Rightarrow> 'io) \<Rightarrow> ('io etp_pool \<Rightarrow> addr \<times> bool) \<Rightarrow> 'io eio_cbs \<Rightarrow> (nat \<Rightarrow> timeval) \<Rightarrow>
     nat \<Rightarrow> 'io etp_pool \<Rightarrow> (int \<times> 'io etp_pool) option" where
  "eio_poll done_poll spawn cbs now n p = etp_poll done_poll spawn (eio_finish cbs n) now n p"

section \<open>The list of members\<close>

text \<open>
  \<open>mseg h g pv p xs e\<close>: from \<open>p\<close> the \<open>grp_next\<close> members lead through \<open>xs\<close> to \<open>e\<close>, the \<open>grp_prev\<close>
  members point back (the first to \<open>pv\<close>), and each request names \<open>g\<close> as its group.
\<close>

fun mseg :: "req_heap \<Rightarrow> addr \<Rightarrow> ptr \<Rightarrow> ptr \<Rightarrow> addr list \<Rightarrow> ptr \<Rightarrow> bool" where
  "mseg h g pv p [] e \<longleftrightarrow> p = e"
| "mseg h g pv p (x # xs) e \<longleftrightarrow> p = Some x \<and>
     (\<exists>r. h x = Some r \<and> rq_grp r = Some g \<and> rq_grp_prev r = pv \<and> mseg h g (Some x) (rq_grp_next r) xs e)"

definition grp_ok :: "req_heap \<Rightarrow> addr \<Rightarrow> addr list \<Rightarrow> bool" where
  "grp_ok h g xs \<longleftrightarrow> (\<exists>r. h g = Some r \<and> mseg h g None (rq_grp_first r) xs None \<and>
     distinct (g # xs) \<and> unat (rq_size r) = length xs)"

text \<open>Two requests with the same links.\<close>

definition links :: "eio_req option \<Rightarrow> (ptr \<times> ptr \<times> ptr) option" where
  "links x = map_option (\<lambda>r. (rq_grp r, rq_grp_prev r, rq_grp_next r)) x"

lemma mseg_agree:
  "\<forall>x \<in> set xs. links (h' x) = links (h x) \<Longrightarrow> mseg h' g pv p xs e \<longleftrightarrow> mseg h g pv p xs e"
proof (induction xs arbitrary: pv p)
  case Nil
  then show ?case by simp
next
  case (Cons x xs)
  then have "links (h' x) = links (h x)" by simp
  then show ?case using Cons by (cases "h x"; cases "h' x") (auto simp: links_def)
qed

lemma mseg_dom: "mseg h g pv p xs e \<Longrightarrow> x \<in> set xs \<Longrightarrow> \<exists>r. h x = Some r \<and> rq_grp r = Some g"
  by (induction xs arbitrary: pv p) auto

lemma mseg_hd: "mseg h g pv p xs None \<Longrightarrow> p = (if xs = [] then None else Some (hd xs))"
  by (cases xs) auto

lemma mseg_append:
  "mseg h g pv p (xs @ ys) e \<longleftrightarrow>
     (\<exists>q. mseg h g pv p xs q \<and> mseg h g (if xs = [] then pv else Some (last xs)) q ys e)"
  by (induction xs arbitrary: pv p) auto

lemma mseg_new_head:
  assumes "mseg h g pv p (y # ys) e" "h y = Some r" "h' y = Some (r\<lparr>rq_grp_prev := pv'\<rparr>)"
    "\<forall>x \<in> set ys. h' x = h x"
  shows "mseg h' g pv' p (y # ys) e"
  using assms mseg_agree [of ys h' h g "Some y" "rq_grp_next r" e] by (auto simp: links_def)

lemma mseg_new_end:
  assumes "mseg h g pv p (xs @ [z]) e" "h z = Some r" "h' z = Some (r\<lparr>rq_grp_next := e'\<rparr>)"
    "\<forall>x \<in> set xs. h' x = h x"
  shows "mseg h' g pv p (xs @ [z]) e'"
  using assms mseg_agree [of xs h' h g pv p] by (auto simp: mseg_append links_def)

text \<open>Everything but the list links of a request.\<close>

definition no_links :: "eio_req \<Rightarrow> eio_req" where
  "no_links r = r\<lparr>rq_grp_prev := None, rq_grp_next := None\<rparr>"

text \<open>Adding a request puts it in front, and counts it.\<close>

lemma eio_grp_add_members:
  assumes ok: "grp_ok h g xs" and x: "h r = Some x" and fresh: "r \<notin> set (g # xs)"
    and gr: "h g = Some gr" and live: "rq_int1 gr \<noteq> 2"
    and room: "Suc (length xs) < 2 ^ 64"
  shows "\<exists>h'. eio_grp_add g r h = Some h' \<and> grp_ok h' g (r # xs) \<and>
     h' g = Some (gr\<lparr>rq_flags := or (rq_flags gr) ETP_FLAG_GROUPADD, rq_size := rq_size gr + 1,
                     rq_grp_first := Some r\<rparr>) \<and>
     map_option no_links (h' r) = Some (no_links (x\<lparr>rq_grp := Some g\<rparr>)) \<and>
     (\<forall>y. y \<notin> {g, r} \<longrightarrow> map_option no_links (h' y) = map_option no_links (h y)) \<and>
     (\<forall>y. y \<notin> set (g # r # xs) \<longrightarrow> h' y = h y)"
proof -
  from ok gr have m: "mseg h g None (rq_grp_first gr) xs None" and d: "distinct (g # xs)"
    and sz: "unat (rq_size gr) = length xs" by (auto simp: grp_ok_def)
  then have sz': "unat (rq_size gr + 1) = Suc (length xs)" using room by (simp add: unat_word_ariths)
  have gr_ne: "g \<noteq> r" using fresh by auto
  let ?x = "x\<lparr>rq_grp := Some g, rq_grp_prev := None, rq_grp_next := rq_grp_first gr\<rparr>"
  let ?g = "gr\<lparr>rq_flags := or (rq_flags gr) ETP_FLAG_GROUPADD, rq_size := rq_size gr + 1,
                     rq_grp_first := Some r\<rparr>"
  show ?thesis
  proof (cases xs)
    case Nil
    then have f: "rq_grp_first gr = None" using m by simp
    let ?h = "h(r \<mapsto> ?x, g \<mapsto> ?g)"
    have "eio_grp_add g r h = Some ?h"
      using gr x gr_ne live f by (simp add: eio_grp_add_def upd_req_def fun_upd_twist)
    moreover have "grp_ok ?h g (r # xs)"
      using gr_ne Nil f sz' by (simp add: grp_ok_def)
    ultimately show ?thesis using gr_ne x by (intro exI [of _ ?h]) (auto simp: no_links_def)
  next
    case (Cons y ys)
    then have f: "rq_grp_first gr = Some y" using m by simp
    from m Cons obtain ry where ry: "h y = Some ry" by auto
    have ne: "y \<noteq> g" "y \<noteq> r" using d fresh Cons by auto
    let ?h = "h(r \<mapsto> ?x, y \<mapsto> ry\<lparr>rq_grp_prev := Some r\<rparr>, g \<mapsto> ?g)"
    have "eio_grp_add g r h = Some ?h"
      using gr x gr_ne live f ne ry by (simp add: eio_grp_add_def upd_req_def fun_upd_twist)
    moreover have "mseg ?h g (Some r) (rq_grp_first gr) xs None"
      unfolding Cons
    proof (rule mseg_new_head)
      show "mseg h g None (rq_grp_first gr) (y # ys) None" using m Cons by simp
      show "h y = Some ry" by (rule ry)
      show "?h y = Some (ry\<lparr>rq_grp_prev := Some r\<rparr>)" using ne by simp
      show "\<forall>z \<in> set ys. ?h z = h z" using d fresh Cons by auto
    qed
    then have "grp_ok ?h g (r # xs)"
      using gr_ne ne f sz' d fresh by (auto simp: grp_ok_def)
    ultimately show ?thesis using gr_ne x ne ry Cons
      by (intro exI [of _ ?h]) (auto simp: no_links_def)
  qed
qed

text \<open>Unlinking takes exactly the one member out.\<close>

lemma grp_unlink_members:
  assumes ok: "grp_ok h g (xs @ r # ys)" and gr: "h g = Some gr" and x: "h r = Some x"
  shows "\<exists>h'. grp_unlink h r g = Some h' \<and>
     (\<exists>f. h' g = Some (gr\<lparr>rq_grp_first := f\<rparr>) \<and> mseg h' g None f (xs @ ys) None) \<and>
     h' r = Some x \<and>
     (\<forall>y. y \<noteq> g \<longrightarrow> map_option no_links (h' y) = map_option no_links (h y)) \<and>
     (\<forall>y. y \<notin> set (g # xs @ ys) \<longrightarrow> h' y = h y)"
proof -
  define pv where "pv = (if xs = [] then None else Some (last xs))"
  define nx where "nx = (if ys = [] then None else Some (hd ys))"
  from ok gr have m: "mseg h g None (rq_grp_first gr) (xs @ r # ys) None"
    and d: "distinct (g # xs @ r # ys)" by (auto simp: grp_ok_def)
  from m x have m1: "mseg h g None (rq_grp_first gr) xs (Some r)"
    and m2: "mseg h g (Some r) (rq_grp_next x) ys None" and p: "rq_grp_prev x = pv"
    by (auto simp: mseg_append pv_def)
  have n: "rq_grp_next x = nx" using mseg_hd [OF m2] by (simp add: nx_def)
  define h1 where "h1 = (if ys = [] then h else h(hd ys \<mapsto> (the (h (hd ys)))\<lparr>rq_grp_prev := pv\<rparr>))"
  define h2 where "h2 = (if xs = [] then h1 else h1(last xs \<mapsto> (the (h (last xs)))\<lparr>rq_grp_next := nx\<rparr>))"
  define h3 where "h3 = (if xs = [] then h2(g \<mapsto> gr\<lparr>rq_grp_first := nx\<rparr>) else h2)"
  have hy: "\<exists>v. h (hd ys) = Some v" "hd ys \<noteq> g" "hd ys \<noteq> r" "hd ys \<notin> set xs" if "ys \<noteq> []"
    using that m2 d by (cases ys; auto)+
  have hx: "\<exists>v. h (last xs) = Some v" "last xs \<noteq> g" "last xs \<noteq> r" "last xs \<notin> set ys" if "xs \<noteq> []"
    using that m1 d by (cases xs rule: rev_cases; auto simp: mseg_append)+
  have ne: "last xs \<noteq> hd ys" if "xs \<noteq> []" "ys \<noteq> []"
    using hy(4) [OF that(2)] last_in_set [OF that(1)] by metis
  have first: "rq_grp_first gr = Some r \<longleftrightarrow> xs = []"
    using m1 d by (cases xs) auto
  have "(case rq_grp_next x of None \<Rightarrow> Some h
       | Some n \<Rightarrow> upd_req h n (\<lambda>y. y\<lparr>rq_grp_prev := rq_grp_prev x\<rparr>)) = Some h1"
    using hy(1) by (auto simp: n p nx_def h1_def upd_req_def)
  moreover have h1r: "h1 r = Some x" using x hy(3) by (auto simp: h1_def)
  moreover have "(case rq_grp_prev x of None \<Rightarrow> Some h1
       | Some q \<Rightarrow> upd_req h1 q (\<lambda>y. y\<lparr>rq_grp_next := rq_grp_next x\<rparr>)) = Some h2"
    using hx(1) ne by (auto simp: n p pv_def h1_def h2_def upd_req_def)
  moreover have h1g: "h1 g = Some gr" using gr hy(2) by (cases "ys = []") (auto simp: h1_def fun_upd_other)
  then have h2g: "h2 g = Some gr" using hx(2) by (cases "xs = []") (auto simp: h2_def fun_upd_other)
  moreover note h2g
  moreover have h2r: "h2 r = Some x" using h1r hx(3) by (auto simp: h2_def)
  ultimately have "grp_unlink h r g = Some h3"
    using x first by (auto simp: grp_unlink_def n h3_def upd_req_def)
  note unlinked = this
  have at_hd: "h3 (hd ys) = Some ((the (h (hd ys)))\<lparr>rq_grp_prev := pv\<rparr>)" if "ys \<noteq> []"
    using that hy(2) [OF that] ne [OF _ that] by (cases "xs = []") (simp_all add: h1_def h2_def h3_def)
  have at_last: "h3 (last xs) = Some ((the (h (last xs)))\<lparr>rq_grp_next := nx\<rparr>)" if "xs \<noteq> []"
    using that by (simp add: h2_def h3_def)
  have at_other: "h3 y = h y" if "y \<noteq> g" "ys \<noteq> [] \<Longrightarrow> y \<noteq> hd ys" "xs \<noteq> [] \<Longrightarrow> y \<noteq> last xs" for y
    using that by (cases "xs = []"; cases "ys = []") (simp_all add: h1_def h2_def h3_def)
  have tail: "mseg h3 g pv nx ys None"
  proof (cases ys)
    case Nil
    then show ?thesis by (simp add: nx_def)
  next
    case (Cons y zs)
    from m2 Cons obtain ry where ry: "h y = Some ry" by auto
    show ?thesis unfolding Cons
    proof (rule mseg_new_head)
      show "mseg h g (Some r) nx (y # zs) None" using m2 n Cons by simp
      show "h3 y = Some (ry\<lparr>rq_grp_prev := pv\<rparr>)" using at_hd ry Cons by simp
      show "\<forall>x \<in> set zs. h3 x = h x"
      proof
        fix x
        assume "x \<in> set zs"
        then have "x \<noteq> y" "x \<noteq> g" "x \<in> set ys" using d Cons by auto
        then show "h3 x = h x" using Cons hx(4) by (intro at_other) auto
      qed
    qed (rule ry)
  qed
  have "\<exists>f. h3 g = Some (gr\<lparr>rq_grp_first := f\<rparr>) \<and> mseg h3 g None f (xs @ ys) None"
  proof (cases xs rule: rev_cases)
    case Nil
    then show ?thesis using tail by (intro exI [of _ nx]) (simp add: h3_def pv_def)
  next
    case (snoc us z)
    from m1 snoc obtain rz where rz: "h z = Some rz" by (auto simp: mseg_append)
    have "mseg h3 g None (rq_grp_first gr) (us @ [z]) nx"
    proof (rule mseg_new_end)
      show "mseg h g None (rq_grp_first gr) (us @ [z]) (Some r)" using m1 snoc by simp
      show "h3 z = Some (rz\<lparr>rq_grp_next := nx\<rparr>)" using at_last rz snoc by simp
      show "\<forall>x \<in> set us. h3 x = h x"
      proof
        fix x
        assume "x \<in> set us"
        then have "x \<noteq> z" "x \<noteq> g" "x \<in> set xs" using d snoc by auto
        then show "h3 x = h x" using snoc hy(4) by (intro at_other) auto
      qed
    qed (rule rz)
    moreover have "h3 g = Some gr" using snoc h2g by (simp add: h3_def)
    ultimately show ?thesis using tail snoc
      by (intro exI [of _ "rq_grp_first gr"]) (auto simp: mseg_append pv_def)
  qed
  moreover have "h3 r = Some x"
    using x d hx(3) hy(3) by (subst at_other) auto
  moreover have "map_option no_links (h3 y) = map_option no_links (h y)" if "y \<noteq> g" for y
  proof -
    consider "ys \<noteq> []" "y = hd ys" | "xs \<noteq> []" "y = last xs" | "h3 y = h y"
      using at_other [OF \<open>y \<noteq> g\<close>] by blast
    then show ?thesis
      by cases (use at_hd at_last hx(1) hy(1) in \<open>auto simp: no_links_def\<close>)
  qed
  moreover have "h3 y = h y" if "y \<notin> set (g # xs @ ys)" for y
    using that by (intro at_other) auto
  ultimately show ?thesis using unlinked by blast
qed


section \<open>Finishing the members of a group\<close>

text \<open>
  Callbacks of requests that do not use the library themselves: \<open>act r\<close> is what the callback of \<open>r\<close>
  does to the outside, the destructor frees the request.
\<close>

definition quiet_cbs :: "(addr \<Rightarrow> 'io \<Rightarrow> 'io) \<Rightarrow> 'io eio_cbs" where
  "quiet_cbs act = \<lparr>
     cb_finish = (\<lambda>_ r p. Some (0, p\<lparr>p_io := act r (p_io p)\<rparr>)),
     cb_destroy = (\<lambda>_ r p. Some (p\<lparr>p_heap := (p_heap p)(r := None)\<rparr>)),
     cb_feed = (\<lambda>_ _ p. Some p)\<rparr>"

definition waiting_req :: "eio_req \<Rightarrow> bool" where
  "waiting_req x \<longleftrightarrow> rq_finish x \<noteq> None \<and> rq_destroy x \<noteq> None \<and> \<not> rq_cancelled x"

lemma flag_bits:
  "and (and f (not ETP_FLAG_GROUPADD)) ETP_FLAG_GROUPADD = 0"
  "and (and f (not ETP_FLAG_GROUPADD)) ETP_FLAG_DELAYED = and f ETP_FLAG_DELAYED"
  "and (or f ETP_FLAG_GROUPADD) ETP_FLAG_DELAYED = and f ETP_FLAG_DELAYED"
  "and (or f ETP_FLAG_DELAYED) ETP_FLAG_DELAYED \<noteq> 0"
proof -
  have g: "bit ETP_FLAG_GROUPADD n \<longleftrightarrow> n = 2" "bit ETP_FLAG_DELAYED n \<longleftrightarrow> n = 3" for n
    unfolding ETP_FLAG_GROUPADD_def ETP_FLAG_DELAYED_def
    using bit_exp_iff [where 'a = "8 word", of 2 n] bit_exp_iff [where 'a = "8 word", of 3 n] by auto
  show "and (and f (not ETP_FLAG_GROUPADD)) ETP_FLAG_GROUPADD = 0"
    by (rule bit_eqI; auto simp: bit_simps g)+
  show "and (and f (not ETP_FLAG_GROUPADD)) ETP_FLAG_DELAYED = and f ETP_FLAG_DELAYED"
    "and (or f ETP_FLAG_GROUPADD) ETP_FLAG_DELAYED = and f ETP_FLAG_DELAYED"
    by (rule bit_eqI; auto simp: bit_simps g)+
  have "bit (and (or f ETP_FLAG_DELAYED) ETP_FLAG_DELAYED) 3"
    by (simp add: bit_simps g)
  then show "and (or f ETP_FLAG_DELAYED) ETP_FLAG_DELAYED \<noteq> 0" by force
qed

lemma grp_try_feed_no_feeder:
  assumes "p_heap p g = Some gr" "rq_feed gr = None"
  shows "\<exists>fl. grp_try_feed cbs (Suc n) g p = Some (p\<lparr>p_heap := (p_heap p)(g \<mapsto> gr\<lparr>rq_flags := fl\<rparr>)\<rparr>) \<and>
     and fl ETP_FLAG_DELAYED = and (rq_flags gr) ETP_FLAG_DELAYED"
proof (cases "rq_size gr < word_of_int (rq_int2 gr) \<and> \<not> rq_cancelled gr")
  case True
  let ?fl = "and (rq_flags gr) (not ETP_FLAG_GROUPADD)"
  have eq: "gr\<lparr>rq_flags := ?fl, rq_feed := None\<rparr> = gr\<lparr>rq_flags := ?fl\<rparr>"
    using assms(2) by (cases gr) simp
  have "grp_try_feed cbs (Suc n) g p =
      Some (p\<lparr>p_heap := (p_heap p)(g \<mapsto> gr\<lparr>rq_flags := ?fl, rq_feed := None\<rparr>)\<rparr>)"
    using True assms by (simp add: wr_def upd_req_def EIO_FEED_def flag_bits)
  then have "grp_try_feed cbs (Suc n) g p = Some (p\<lparr>p_heap := (p_heap p)(g \<mapsto> gr\<lparr>rq_flags := ?fl\<rparr>)\<rparr>)"
    by (simp only: eq)
  then show ?thesis by (auto simp: flag_bits)
next
  case False
  have "gr\<lparr>rq_flags := rq_flags gr\<rparr> = gr" "(p_heap p)(g \<mapsto> gr) = p_heap p"
    using assms(1) by auto
  then have "grp_try_feed cbs (Suc n) g p = Some (p\<lparr>p_heap := (p_heap p)(g \<mapsto> gr\<lparr>rq_flags := rq_flags gr\<rparr>)\<rparr>)"
    using False assms(1) by (auto simp: Let_def)
  then show ?thesis by blast
qed

declare grp_try_feed.simps [simp del] eio_finish.simps [simp del] grp_dec.simps [simp del]

lemma eio_destroy_quiet:
  assumes "p_heap p r = Some x" "rq_destroy x \<noteq> None"
  shows "eio_destroy (quiet_cbs act) r p = Some (p\<lparr>p_heap := (p_heap p)(r := None)\<rparr>)"
  using assms by (auto simp: eio_destroy_def wr_def upd_req_def EIO_DESTROY_def quiet_cbs_def)

text \<open>A request in no group: its callback, then its destructor.\<close>

lemma eio_finish_alone:
  assumes "p_heap p r = Some x" "waiting_req x" "rq_grp x = None"
  shows "eio_finish (quiet_cbs act) (Suc n) r p =
     Some (0, p\<lparr>p_heap := (p_heap p)(r := None), p_io := act r (p_io p)\<rparr>)"
proof -
  have "EIO_FINISH (quiet_cbs act) r p = Some (0, p\<lparr>p_io := act r (p_io p)\<rparr>)"
    using assms by (auto simp: EIO_FINISH_def quiet_cbs_def waiting_req_def)
  moreover have "eio_destroy (quiet_cbs act) r (p\<lparr>p_io := act r (p_io p)\<rparr>) =
      Some (p\<lparr>p_heap := (p_heap p)(r := None), p_io := act r (p_io p)\<rparr>)"
    using assms eio_destroy_quiet [of "p\<lparr>p_io := act r (p_io p)\<rparr>" r x act]
    by (simp add: waiting_req_def)
  ultimately show ?thesis using assms by (simp add: eio_finish.simps)
qed

text \<open>
  The state between two completions: \<open>g\<close> is a group without feeder that waits for the members \<open>xs\<close>,
  and \<open>d\<close> tells whether its own result has been seen already.
\<close>

definition grp_pending :: "req_heap \<Rightarrow> addr \<Rightarrow> addr list \<Rightarrow> bool \<Rightarrow> bool" where
  "grp_pending h g xs d \<longleftrightarrow> grp_ok h g xs \<and>
     (\<exists>gr. h g = Some gr \<and> rq_type gr = EIO_GROUP \<and> rq_feed gr = None \<and> rq_grp gr = None \<and> waiting_req gr \<and>
        (and (rq_flags gr) ETP_FLAG_DELAYED \<noteq> 0) = d) \<and>
     (\<forall>x \<in> set xs. \<exists>r. h x = Some r \<and> waiting_req r)"

lemma grp_pending_finish:
  assumes g: "grp_pending (p_heap p) g (xs @ r # ys) d"
  shows "\<exists>p'. eio_finish (quiet_cbs act) (Suc (Suc (Suc n))) r p = Some (0, p') \<and>
     (if d \<and> xs @ ys = [] then p_io p' = act g (act r (p_io p)) \<and> p_heap p' r = None \<and> p_heap p' g = None
      else p_io p' = act r (p_io p) \<and> p_heap p' r = None \<and> grp_pending (p_heap p') g (xs @ ys) d) \<and>
     (\<forall>y. y \<notin> set (g # xs @ r # ys) \<longrightarrow> p_heap p' y = p_heap p y)"
proof -
  let ?cbs = "quiet_cbs act" and ?h = "p_heap p"
  obtain gr where gr: "?h g = Some gr" "rq_feed gr = None" "rq_grp gr = None" "waiting_req gr"
    "(and (rq_flags gr) ETP_FLAG_DELAYED \<noteq> 0) = d" "rq_type gr = EIO_GROUP" and ok: "grp_ok ?h g (xs @ r # ys)"
    using g by (auto simp: grp_pending_def)
  obtain x where x: "?h r = Some x" "waiting_req x" using g by (auto simp: grp_pending_def)
  have rg: "rq_grp x = Some g" using ok x(1) by (auto simp: grp_ok_def mseg_append)
  have d: "distinct (g # xs @ r # ys)" "unat (rq_size gr) = length (xs @ r # ys)"
    using ok gr(1) by (auto simp: grp_ok_def)
  from grp_unlink_members [OF ok gr(1) x(1)] obtain h' f where
    ul: "grp_unlink ?h r g = Some h'" and hg: "h' g = Some (gr\<lparr>rq_grp_first := f\<rparr>)"
    and seg: "mseg h' g None f (xs @ ys) None" and hr: "h' r = Some x"
    and nl: "\<forall>y. y \<noteq> g \<longrightarrow> map_option no_links (h' y) = map_option no_links (?h y)"
    and frame: "\<forall>y. y \<notin> set (g # xs @ ys) \<longrightarrow> h' y = ?h y" by blast
  define gr1 where "gr1 = gr\<lparr>rq_grp_first := f, rq_size := rq_size gr - 1\<rparr>"
  have "rq_size gr \<noteq> 0" using d(2) by auto
  then have sz: "unat (rq_size gr1) = length (xs @ ys)" using d(2) by (simp add: gr1_def unat_minus_one)
  define p1 where "p1 = p\<lparr>p_io := act r (p_io p), p_heap := h'(g \<mapsto> gr1)\<rparr>"
  obtain fl where feed: "grp_try_feed ?cbs (Suc n) g p1 =
      Some (p1\<lparr>p_heap := (p_heap p1)(g \<mapsto> gr1\<lparr>rq_flags := fl\<rparr>)\<rparr>)"
    and fl: "and fl ETP_FLAG_DELAYED = and (rq_flags gr1) ETP_FLAG_DELAYED"
    using grp_try_feed_no_feeder [of p1 g gr1 ?cbs n] gr(2) by (auto simp: p1_def gr1_def)
  define gr2 where "gr2 = gr1\<lparr>rq_flags := fl\<rparr>"
  define p2 where "p2 = p1\<lparr>p_heap := h'(g \<mapsto> gr2)\<rparr>"
  have p2: "grp_try_feed ?cbs (Suc n) g p1 = Some p2" using feed by (simp add: p1_def p2_def gr2_def)
  have fin: "EIO_FINISH ?cbs r p = Some (0, p\<lparr>p_io := act r (p_io p)\<rparr>)"
    using x by (auto simp: EIO_FINISH_def quiet_cbs_def waiting_req_def)
  have del: "(and (rq_flags gr2) ETP_FLAG_DELAYED \<noteq> 0) = d"
    using fl gr(5) by (simp add: gr1_def gr2_def)
  have wr1: "wr g (\<lambda>g. g\<lparr>rq_size := rq_size g - 1\<rparr>) (p\<lparr>p_io := act r (p_io p), p_heap := h'\<rparr>) = Some p1"
    using hg by (simp add: wr_def upd_req_def p1_def gr1_def)
  have g2: "p_heap p2 g = Some gr2" "waiting_req gr2" "rq_grp gr2 = None" "rq_size gr2 = rq_size gr1"
    using gr(3,4) by (simp_all add: p2_def gr2_def gr1_def waiting_req_def)
  have r2: "p_heap p2 r = Some x" using hr d(1) by (simp add: p2_def)
  have r3: "eio_finish ?cbs (Suc n) g p2 = Some (0, p2\<lparr>p_heap := (p_heap p2)(g := None), p_io := act g (p_io p2)\<rparr>)"
    by (rule eio_finish_alone [OF g2(1-3)])
  have zero: "rq_size gr2 = 0 \<longleftrightarrow> xs @ ys = []"
    using sz g2(4) by (metis length_0_conv unat_eq_zero)
  show ?thesis
  proof (cases "d \<and> xs @ ys = []")
    case True
    then have dec: "grp_dec ?cbs (Suc (Suc n)) g (p\<lparr>p_io := act r (p_io p), p_heap := h'\<rparr>) =
        Some (0, p2\<lparr>p_heap := (p_heap p2)(g := None), p_io := act g (p_io p2)\<rparr>)"
      using wr1 p2 g2(1) r3 del zero by (simp add: grp_dec.simps)
    let ?p3 = "p2\<lparr>p_heap := (p_heap p2)(g := None), p_io := act g (p_io p2)\<rparr>"
    have "eio_destroy ?cbs r ?p3 = Some (?p3\<lparr>p_heap := (p_heap ?p3)(r := None)\<rparr>)"
      by (rule eio_destroy_quiet) (use r2 x d(1) in \<open>auto simp: waiting_req_def\<close>)
    then show ?thesis using True fin x(1) rg ul dec d(1) frame
      by (auto simp: p2_def p1_def eio_finish.simps(2))
  next
    case False
    then have dec: "grp_dec ?cbs (Suc (Suc n)) g (p\<lparr>p_io := act r (p_io p), p_heap := h'\<rparr>) = Some (0, p2)"
      using wr1 p2 g2(1) del zero by (auto simp: grp_dec.simps)
    let ?p3 = "p2\<lparr>p_heap := (p_heap p2)(r := None)\<rparr>"
    have ds: "eio_destroy ?cbs r p2 = Some ?p3"
      by (rule eio_destroy_quiet) (use r2 x in \<open>auto simp: waiting_req_def\<close>)
    have "mseg (p_heap ?p3) g None f (xs @ ys) None"
      by (subst mseg_agree [where h = h']) (use seg d(1) in \<open>auto simp: p2_def\<close>)
    then have "grp_ok (p_heap ?p3) g (xs @ ys)"
      using d(1) sz g2 by (auto simp: grp_ok_def gr2_def gr1_def p2_def)
    moreover have "\<exists>v. p_heap ?p3 y = Some v \<and> waiting_req v" if "y \<in> set (xs @ ys)" for y
    proof -
      have ne: "y \<noteq> g" "y \<noteq> r" using that d(1) by auto
      from g that have "\<exists>v. ?h y = Some v \<and> waiting_req v" unfolding grp_pending_def by simp
      then obtain v where "?h y = Some v" "waiting_req v" by blast
      moreover have "map_option no_links (h' y) = map_option no_links (?h y)" using nl ne by blast
      ultimately obtain w where w: "h' y = Some w" "no_links w = no_links v" by (cases "h' y") auto
      have "waiting_req w = waiting_req (no_links w)" for w by (simp add: waiting_req_def no_links_def)
      with w(2) \<open>waiting_req v\<close> have "waiting_req w" by metis
      with w(1) ne show ?thesis by (simp add: p2_def)
    qed
    ultimately have "grp_pending (p_heap ?p3) g (xs @ ys) d"
      using g2 gr(2,6) del d(1) by (auto simp: grp_pending_def gr2_def gr1_def p2_def)
    then show ?thesis using False fin x(1) rg ul dec ds frame
      by (auto simp: p2_def p1_def eio_finish.simps(2))
  qed
qed


fun finish_all :: "'io eio_cbs \<Rightarrow> nat \<Rightarrow> addr list \<Rightarrow> 'io etp_pool \<Rightarrow> 'io etp_pool option" where
  "finish_all cbs n [] p = Some p"
| "finish_all cbs n (r # rs) p = do { (_, p) \<leftarrow> eio_finish cbs n r p; finish_all cbs n rs p }"

lemma grp_pending_exchange:
  assumes "grp_pending (p_heap p) g xs d" "r \<in> set xs"
  obtains us vs where "xs = us @ r # vs" "mset xs = add_mset r (mset (us @ vs))"
proof -
  from split_list [OF assms(2)] obtain us vs where "xs = us @ r # vs" by blast
  then show ?thesis using that by simp
qed

lemma finish_all_pending:
  "grp_pending (p_heap p) g xs d \<Longrightarrow> mset xs = mset ys + M \<Longrightarrow> \<not> d \<or> M \<noteq> {#} \<Longrightarrow>
   \<exists>p' xs'. finish_all (quiet_cbs act) (Suc (Suc (Suc n))) ys p = Some p' \<and>
     p_io p' = fold act ys (p_io p) \<and> grp_pending (p_heap p') g xs' d \<and> mset xs' = M \<and>
     (\<forall>y. y \<notin> set (g # xs) \<longrightarrow> p_heap p' y = p_heap p y) \<and> (\<forall>y \<in> set ys. p_heap p' y = None)"
proof (induction ys arbitrary: p xs)
  case Nil
  then show ?case by auto
next
  case (Cons r ys)
  have "r \<in> set xs" using Cons.prems(2) by (metis add_mset_add_single mset.simps(2) set_mset_mset union_iff union_single_eq_member)
  from split_list [OF this] obtain us vs where x: "xs = us @ r # vs" by blast
  then have M: "mset (us @ vs) = mset ys + M" using Cons.prems(2) by simp
  then have "\<not> (d \<and> us @ vs = [])" using Cons.prems(3) by auto
  then obtain p1 where p1: "eio_finish (quiet_cbs act) (Suc (Suc (Suc n))) r p = Some (0, p1)"
    "p_io p1 = act r (p_io p)" "p_heap p1 r = None" "grp_pending (p_heap p1) g (us @ vs) d"
    "\<forall>y. y \<notin> set (g # us @ r # vs) \<longrightarrow> p_heap p1 y = p_heap p y"
    using grp_pending_finish [of p g us r vs d act n] Cons.prems(1) x by auto
  from Cons.IH [OF p1(4) M Cons.prems(3)] obtain p' xs' where
    p': "finish_all (quiet_cbs act) (Suc (Suc (Suc n))) ys p1 = Some p'"
     "p_io p' = fold act ys (p_io p1)" "grp_pending (p_heap p') g xs' d" "mset xs' = M"
     "\<forall>y. y \<notin> set (g # us @ vs) \<longrightarrow> p_heap p' y = p_heap p1 y" "\<forall>y \<in> set ys. p_heap p' y = None" by blast
  have "distinct (g # xs)" using Cons.prems(1) by (auto simp: grp_pending_def grp_ok_def)
  then have "p_heap p' r = None" using p'(5) p1(3) x by auto
  then show ?case using p1 p' x by (intro exI [of _ p'] exI [of _ xs']) auto
qed

text \<open>The poll loop meets the group itself: with members left it is only marked as delayed.\<close>

lemma poll_handle_pending:
  assumes "grp_pending (p_heap p) g xs False" "xs \<noteq> []"
  shows "\<exists>p'. poll_handle fin g p = Some (None, p') \<and> p_io p' = p_io p \<and>
     grp_pending (p_heap p') g xs True \<and> (\<forall>y. y \<noteq> g \<longrightarrow> p_heap p' y = p_heap p y)"
proof -
  obtain gr where gr: "p_heap p g = Some gr" "rq_type gr = EIO_GROUP" "rq_feed gr = None" "rq_grp gr = None"
    "waiting_req gr" "mseg (p_heap p) g None (rq_grp_first gr) xs None" "distinct (g # xs)"
    "unat (rq_size gr) = length xs"
    using assms(1) by (auto simp: grp_pending_def grp_ok_def)
  let ?gr = "gr\<lparr>rq_flags := or (rq_flags gr) ETP_FLAG_DELAYED\<rparr>"
  let ?p = "p\<lparr>p_heap := (p_heap p)(g \<mapsto> ?gr)\<rparr>"
  have "rq_size gr \<noteq> 0" using gr(8) assms(2) by auto
  then have "poll_handle fin g p = Some (None, ?p)"
    using gr(1,2) by (simp add: poll_handle_def upd_req_def)
  moreover have "mseg (p_heap ?p) g None (rq_grp_first gr) xs None"
    by (subst mseg_agree [where h = "p_heap p"]) (use gr in auto)
  then have "grp_pending (p_heap ?p) g xs True"
    using assms(1) gr flag_bits(4) [of "rq_flags gr"] by (auto simp: grp_pending_def grp_ok_def waiting_req_def)
  ultimately show ?thesis by (intro exI [of _ ?p]) auto
qed

text \<open>The last member of a delayed group, and a group with no member left.\<close>

lemma finish_all_delayed:
  assumes "grp_pending (p_heap p) g xs True" "mset ys = mset xs" "xs \<noteq> []"
  shows "\<exists>p'. finish_all (quiet_cbs act) (Suc (Suc (Suc n))) ys p = Some p' \<and>
     p_io p' = act g (fold act ys (p_io p)) \<and> (\<forall>y \<in> set (g # xs). p_heap p' y = None) \<and>
     (\<forall>y. y \<notin> set (g # xs) \<longrightarrow> p_heap p' y = p_heap p y)"
proof -
  obtain zs r where ys: "ys = zs @ [r]" using assms(2,3) by (cases ys rule: rev_cases) auto
  have M: "mset xs = mset zs + {#r#}" using assms(2) ys by (metis mset_append mset_single_iff_right)
  from finish_all_pending [OF assms(1) M, of act n] obtain p1 xs1 where
    p1: "finish_all (quiet_cbs act) (Suc (Suc (Suc n))) zs p = Some p1"
     "p_io p1 = fold act zs (p_io p)" "grp_pending (p_heap p1) g xs1 True" "mset xs1 = {#r#}"
     "\<forall>y. y \<notin> set (g # xs) \<longrightarrow> p_heap p1 y = p_heap p y" "\<forall>y \<in> set zs. p_heap p1 y = None" by auto
  have "xs1 = [] @ r # []" using p1(4) by (simp add: mset_single_iff)
  with grp_pending_finish [of p1 g "[]" r "[]" True act n] p1(3) obtain p' where
    p': "eio_finish (quiet_cbs act) (Suc (Suc (Suc n))) r p1 = Some (0, p')"
    "p_io p' = act g (act r (p_io p1))" "p_heap p' r = None" "p_heap p' g = None"
    "\<forall>y. y \<notin> {g, r} \<longrightarrow> p_heap p' y = p_heap p1 y" by auto
  have all: "finish_all (quiet_cbs act) (Suc (Suc (Suc n))) (as @ bs) q =
      Option.bind (finish_all (quiet_cbs act) (Suc (Suc (Suc n))) as q)
        (finish_all (quiet_cbs act) (Suc (Suc (Suc n))) bs)" for as bs q
    by (induction as arbitrary: q) (auto split: bind_splits)
  have d: "distinct (g # xs)" using assms(1) by (auto simp: grp_pending_def grp_ok_def)
  have S: "set xs = insert r (set zs)" using M by (metis set_mset_mset set_mset_union set_mset_single Un_insert_right sup_bot_right)
  have "p_heap p' y = None" if "y \<in> set (g # xs)" for y
    using that p' p1(6) S by (cases "y = g \<or> y = r") auto
  then show ?thesis using p1 p' ys S by (intro exI [of _ p']) (auto simp: all)
qed

text \<open>
  C15: A group finishes exactly once and last.  Its members complete in any order \<open>ys1 @ ys2\<close>, and the
  poll loop meets the result of the group itself at any point in between.  Every member's callback
  runs once, in that order; the callback of the group runs once, after all of them; and every request
  has been destroyed.
\<close>

theorem group_finishes_last:
  assumes "grp_pending (p_heap p) g xs False" "mset (ys1 @ ys2) = mset xs"
  shows "\<exists>p1 r p2 p3.
     finish_all (quiet_cbs act) (Suc (Suc (Suc n))) ys1 p = Some p1 \<and>
     poll_handle (eio_finish (quiet_cbs act) (Suc (Suc (Suc n)))) g p1 = Some (r, p2) \<and>
     finish_all (quiet_cbs act) (Suc (Suc (Suc n))) ys2 p2 = Some p3 \<and>
     p_io p3 = act g (fold act (ys1 @ ys2) (p_io p)) \<and>
     (\<forall>y \<in> set (g # xs). p_heap p3 y = None)"
proof -
  have M: "mset xs = mset ys1 + mset ys2" using assms(2) by simp
  from finish_all_pending [OF assms(1) M, of act n] obtain p1 xs1 where
    p1: "finish_all (quiet_cbs act) (Suc (Suc (Suc n))) ys1 p = Some p1"
     "p_io p1 = fold act ys1 (p_io p)" "grp_pending (p_heap p1) g xs1 False" "mset xs1 = mset ys2"
     "\<forall>y \<in> set ys1. p_heap p1 y = None" by auto
  have S: "set xs = set ys1 \<union> set xs1" using M p1(4) by (metis set_mset_mset set_mset_union)
  have d: "distinct (g # xs)" using assms(1) by (auto simp: grp_pending_def grp_ok_def)
  have "distinct (ys1 @ xs1)"
    using d M p1(4) by (metis distinct.simps(2) distinct_mset_iff mset_append)
  then have disj: "y \<notin> set (g # xs1)" if "y \<in> set ys1" for y using that d S by auto
  show ?thesis
  proof (cases "ys2 = []")
    case True
    then have e: "xs1 = []" using p1(4) by simp
    obtain gr where gr: "p_heap p1 g = Some gr" "waiting_req gr" "rq_grp gr = None" "rq_size gr = 0"
      using p1(3) e by (auto simp: grp_pending_def grp_ok_def unat_eq_zero)
    have "poll_handle (eio_finish (quiet_cbs act) (Suc (Suc (Suc n)))) g p1 =
        Some (Some 0, p1\<lparr>p_heap := (p_heap p1)(g := None), p_io := act g (p_io p1)\<rparr>)"
      using gr eio_finish_alone [OF gr(1-3)] by (simp add: poll_handle_def)
    then show ?thesis using p1 True e S by auto
  next
    case False
    then have ne: "xs1 \<noteq> []" using p1(4) by auto
    from poll_handle_pending [OF p1(3) ne] obtain p2 where
      p2: "poll_handle (eio_finish (quiet_cbs act) (Suc (Suc (Suc n)))) g p1 = Some (None, p2)"
      "p_io p2 = p_io p1" "grp_pending (p_heap p2) g xs1 True" "\<forall>y. y \<noteq> g \<longrightarrow> p_heap p2 y = p_heap p1 y"
      by blast
    from finish_all_delayed [OF p2(3) p1(4) [symmetric] ne, of act n] obtain p3 where
      p3: "finish_all (quiet_cbs act) (Suc (Suc (Suc n))) ys2 p2 = Some p3"
      "p_io p3 = act g (fold act ys2 (p_io p2))" "\<forall>y \<in> set (g # xs1). p_heap p3 y = None"
      "\<forall>y. y \<notin> set (g # xs1) \<longrightarrow> p_heap p3 y = p_heap p2 y" by blast
    have "p_heap p3 y = None" if "y \<in> set ys1" for y
      using disj [OF that] p3(4) p2(4) p1(5) that by auto
    then have "\<forall>y \<in> set (g # xs). p_heap p3 y = None" using p3(3) S by auto
    then show ?thesis using p1 p2 p3 by auto
  qed
qed

text \<open>A group of two members built by \<open>eio_grp_add\<close>.\<close>

definition two_members :: "req_heap option" where
  "two_members =
     (let r = calloc_req\<lparr>rq_type := EIO_NOP, rq_finish := Some F_php_eio_res_cb,
                rq_destroy := Some D_eio_api_destroy\<rparr>;
          h = [1 \<mapsto> r\<lparr>rq_type := EIO_GROUP\<rparr>, 2 \<mapsto> r, 3 \<mapsto> r]
      in Option.bind (eio_grp_add 1 2 h) (eio_grp_add 1 3))"

lemma two_members_pending: "\<exists>h. two_members = Some h \<and> grp_pending h 1 [3, 2] False"
proof -
  let ?r = "calloc_req\<lparr>rq_type := EIO_NOP, rq_finish := Some F_php_eio_res_cb, rq_destroy := Some D_eio_api_destroy\<rparr>"
  have f: "and ETP_FLAG_GROUPADD ETP_FLAG_DELAYED = 0"
    by (simp add: ETP_FLAG_GROUPADD_def ETP_FLAG_DELAYED_def)
  show ?thesis
    by (simp add: two_members_def eio_grp_add_def upd_req_def grp_pending_def grp_ok_def
        calloc_req_def waiting_req_def f)
qed

theorem group_finishes_last_witness:
  "\<exists>h p1 r p2 p3. two_members = Some h \<and>
     finish_all (quiet_cbs (\<lambda>r log. log @ [r])) 3 [2] ((etp_init (eio_pool_bss []))\<lparr>p_heap := h\<rparr>) = Some p1 \<and>
     poll_handle (eio_finish (quiet_cbs (\<lambda>r log. log @ [r])) 3) 1 p1 = Some (r, p2) \<and>
     finish_all (quiet_cbs (\<lambda>r log. log @ [r])) 3 [3] p2 = Some p3 \<and> p_io p3 = [2, 3, 1]"
proof -
  from two_members_pending obtain h where h: "two_members = Some h" "grp_pending h 1 [3, 2] False" by blast
  let ?p = "(etp_init (eio_pool_bss []))\<lparr>p_heap := h\<rparr> :: addr list etp_pool"
  have "p_io ?p = []" by (simp add: etp_init_def eio_pool_bss_def)
  with group_finishes_last [of ?p 1 "[3, 2]" "[2]" "[3]" "\<lambda>r log. log @ [r]" 0] h
  show ?thesis by (auto simp: numeral_3_eq_3)
qed

section \<open>Cancelling a tree of groups\<close>

datatype gtree = GT (top_of: addr) (branches: "gtree list")

text \<open>The tree of members below a request, as the \<open>grp_first\<close> and \<open>grp_next\<close> members lead through it.\<close>

fun req_tree :: "req_heap \<Rightarrow> gtree \<Rightarrow> bool"
  and req_forest :: "req_heap \<Rightarrow> ptr \<Rightarrow> gtree list \<Rightarrow> bool" where
  "req_tree h (GT a ts) \<longleftrightarrow> (\<exists>r. h a = Some r \<and> req_forest h (rq_grp_first r) ts)"
| "req_forest h p [] \<longleftrightarrow> p = None"
| "req_forest h p (t # ts) \<longleftrightarrow> p = Some (top_of t) \<and> req_tree h t \<and>
     (\<exists>r. h (top_of t) = Some r \<and> req_forest h (rq_grp_next r) ts)"

fun nodes :: "gtree \<Rightarrow> addr list" where
  "nodes (GT a ts) = a # concat (map nodes ts)"

definition cancel_all :: "addr set \<Rightarrow> req_heap \<Rightarrow> req_heap" where
  "cancel_all S h = (\<lambda>a. if a \<in> S then map_option (\<lambda>r. r\<lparr>rq_cancelled := True\<rparr>) (h a) else h a)"

lemma req_tree_cancel_all:
  "req_tree (cancel_all S h) t \<longleftrightarrow> req_tree h t"
  "req_forest (cancel_all S h) p ts \<longleftrightarrow> req_forest h p ts"
proof (induction h t and h p ts rule: req_tree_req_forest.induct)
  case (1 h a ts)
  then show ?case by (cases "h a") (auto simp: cancel_all_def)
next
  case (2 h p)
  then show ?case by simp
next
  case (3 h p t ts)
  then show ?case by (cases "h (top_of t)") (auto simp: cancel_all_def)
qed

lemma upd_cancel_all:
  "upd_req (cancel_all S h) a (\<lambda>x. x\<lparr>rq_cancelled := True\<rparr>) =
     (if h a = None then None else Some (cancel_all (insert a S) h))"
proof (cases "h a")
  case (Some r)
  have "rq_cancelled_update (\<lambda>_. True) (rq_cancelled_update (\<lambda>_. True) r) = r\<lparr>rq_cancelled := True\<rparr>" by simp
  with Some show ?thesis by (auto simp: upd_req_def cancel_all_def)
qed (simp add: upd_req_def cancel_all_def)

lemma cancel_tree_forest:
  "req_tree h t \<Longrightarrow> 2 * length (nodes t) \<le> n \<Longrightarrow>
     etp_cancel n (top_of t) (cancel_all S h) = Some (cancel_all (S \<union> set (nodes t)) h)"
  "req_forest h p ts \<Longrightarrow> 2 * length (concat (map nodes ts)) + 1 \<le> n \<Longrightarrow>
     grp_cancel_loop n p (cancel_all S h) = Some (cancel_all (S \<union> set (concat (map nodes ts))) h)"
proof (induction h t and h p ts arbitrary: n S and n S rule: req_tree_req_forest.induct)
  case (1 h a ts)
  then obtain r where r: "h a = Some r" "req_forest h (rq_grp_first r) ts" by auto
  obtain m where n: "n = Suc m" "2 * length (concat (map nodes ts)) + 1 \<le> m"
    using "1.prems"(2) by (cases n) auto
  have "cancel_all (insert a S) h a = Some (r\<lparr>rq_cancelled := True\<rparr>)" using r(1) by (simp add: cancel_all_def)
  with "1.IH" [OF r(2) n(2), of "insert a S"] show ?case
    using n(1) r(1) by (simp add: upd_cancel_all)
next
  case (2 h p)
  then show ?case by (cases n) auto
next
  case (3 h p t ts)
  then obtain r where r: "p = Some (top_of t)" "req_tree h t" "h (top_of t) = Some r"
    "req_forest h (rq_grp_next r) ts" by auto
  obtain m where n: "n = Suc m" "2 * length (nodes t) \<le> m" "2 * length (concat (map nodes ts)) + 1 \<le> m"
    using "3.prems"(2) by (cases n; cases t) auto
  let ?S = "S \<union> set (nodes t)"
  have "\<exists>r'. cancel_all ?S h (top_of t) = Some r' \<and> rq_grp_next r' = rq_grp_next r"
    using r(3) by (auto simp: cancel_all_def)
  with "3.IH"(1) [OF r(2) n(2), of S] "3.IH"(2) [OF r(4) n(3), of ?S] show ?case
    using n(1) r(1) by (auto simp: Un_assoc)
qed

text \<open>
  C21: Cancelling a request cancels the request and every request below it in the tree of groups, and
  changes nothing else; twice the number of those requests is enough fuel.
\<close>

theorem etp_cancel_marks_tree:
  assumes "req_tree h t" "2 * length (nodes t) \<le> n"
  shows "etp_cancel n (top_of t) h =
    Some (\<lambda>a. if a \<in> set (nodes t) then map_option (\<lambda>r. r\<lparr>rq_cancelled := True\<rparr>) (h a) else h a)"
  using cancel_tree_forest(1) [OF assms, of "{}"] by (simp add: cancel_all_def)

theorem etp_cancel_marks_tree_witness:
  "\<exists>h h'. two_members = Some h \<and> req_tree h (GT 1 [GT 3 [], GT 2 []]) \<and> etp_cancel 6 1 h = Some h' \<and>
     map_option rq_cancelled (h' 3) = Some True \<and> map_option rq_cancelled (h' 2) = Some True"
proof -
  have "\<exists>h. two_members = Some h \<and> req_tree h (GT 1 [GT 3 [], GT 2 []])"
    by (simp add: two_members_def eio_grp_add_def upd_req_def calloc_req_def)
  then obtain h where h: "two_members = Some h" "req_tree h (GT 1 [GT 3 [], GT 2 []])" by blast
  then have "\<exists>x y. h 3 = Some x \<and> h 2 = Some y" by auto
  with etp_cancel_marks_tree [OF h(2), of 6] h show ?thesis by auto
qed

section \<open>Adding a request twice\<close>

lemma cancel_keeps_links:
  "etp_cancel n a h = Some h' \<Longrightarrow> h y = Some r \<Longrightarrow> \<exists>r'. h' y = Some r' \<and> rq_grp_next r' = rq_grp_next r"
  "grp_cancel_loop n p h = Some h' \<Longrightarrow> h y = Some r \<Longrightarrow> \<exists>r'. h' y = Some r' \<and> rq_grp_next r' = rq_grp_next r"
proof (induction n a h and n p h arbitrary: h' r and h' r rule: etp_cancel_grp_cancel_loop.induct)
  case (2 n req h)
  then obtain h1 x where h1: "upd_req h req (\<lambda>x. x\<lparr>rq_cancelled := True\<rparr>) = Some h1" "h1 req = Some x"
    "grp_cancel_loop n (rq_grp_first x) h1 = Some h'" by (auto split: bind_splits)
  have "\<exists>r1. h1 y = Some r1 \<and> rq_grp_next r1 = rq_grp_next r"
    using "2.prems"(2) h1(1) by (auto simp: upd_req_eq_Some)
  then obtain r1 where "h1 y = Some r1" "rq_grp_next r1 = rq_grp_next r" by blast
  with "2.IH" [OF h1] show ?case by auto
next
  case (5 n grp h)
  then obtain h1 x where h1: "etp_cancel n grp h = Some h1" "h1 grp = Some x"
    "grp_cancel_loop n (rq_grp_next x) h1 = Some h'" by (auto split: bind_splits)
  from "5.IH"(1) [OF h1(1) "5.prems"(2)] obtain r1 where "h1 y = Some r1" "rq_grp_next r1 = rq_grp_next r" by auto
  with "5.IH"(2) [OF h1] show ?case by auto
qed auto

lemma cancel_loop_cycle:
  "h r = Some x \<Longrightarrow> rq_grp_next x = Some r \<Longrightarrow> grp_cancel_loop n (Some r) h = None"
proof (induction n arbitrary: h x)
  case (Suc n)
  show ?case
  proof (cases "etp_cancel n r h")
    case (Some h1)
    from cancel_keeps_links(1) [OF this Suc.prems(1)] Suc.prems(2) obtain x1 where
      "h1 r = Some x1" "rq_grp_next x1 = Some r" by auto
    with Suc.IH Some show ?thesis by simp
  qed simp
qed simp



end
