(* ===== verification/DentSort.thy ===== *)
theory DentSort
  imports Request
begin

text \<open>
  Sorting directory entries: \<open>eio_dent_cmp\<close>, the radix pre-pass \<open>eio_dent_radix_sort\<close>, the insertion
  sort with a sentinel \<open>eio_dent_insertion_sort\<close> and their composition \<open>eio_dent_sort\<close> of
  \<open>libeio/eio.c\<close>.  Arrays are lists, pointers into them are indices, and the two places where the C
  would read outside an array (in front of the bit table, in front of the entries) as well as an
  overflow of the stacks are \<open>None\<close>.  The main theorem is that the composition sorts, in spite of the
  insertion sort running without a bounds check.
\<close>

section \<open>Comparing entries\<close>

text \<open>The result is a \<open>signed char\<close>: a difference of scores is cut to 8 bits.\<close>

definition eio_dent_cmp :: "eio_dirent \<Rightarrow> eio_dirent \<Rightarrow> int" where
  "eio_dent_cmp a b =
     (if de_score a - de_score b \<noteq> 0 then sint (word_of_int (de_score a - de_score b) :: u8)
      else if de_inode a < de_inode b then -1
      else if de_inode a > de_inode b then 1
      else 0)"

definition EIO_SORT_CUTOFF :: nat where "EIO_SORT_CUTOFF = 30"
definition EIO_SORT_FAST :: nat where "EIO_SORT_FAST = 60"

section \<open>The radix pre-pass\<close>

text \<open>
  An element of the bit table: the sentinel 0, or the position of a bit in the structure (on a
  little-endian machine) as the field it lies in and its number there.  Read as a position, the
  sentinel is the lowest bit of the first member, \<open>nameofs\<close>.
\<close>

datatype dent_bit = Sentinel | InodeBit nat | ScoreBit nat

fun dent_test :: "dent_bit \<Rightarrow> eio_dirent \<Rightarrow> bool" where
  "dent_test Sentinel d \<longleftrightarrow> odd (de_nameofs d)"
| "dent_test (InodeBit k) d \<longleftrightarrow> bit (de_inode d) k"
| "dent_test (ScoreBit j) d \<longleftrightarrow> bit (de_score d) j"

definition radix_bits :: "int \<Rightarrow> u64 \<Rightarrow> dent_bit list" where
  "radix_bits score_bits inode_bits =
     Sentinel # map InodeBit (filter (bit inode_bits) [0..<64]) @
       map ScoreBit (filter (bit score_bits) [0..<8])"

text \<open>The loop that partitions \<open>[a, b)\<close> on one bit; it returns where the second part begins.\<close>

function part_loop ::
    "(eio_dirent \<Rightarrow> bool) \<Rightarrow> eio_dirent list \<Rightarrow> nat \<Rightarrow> nat \<Rightarrow> eio_dirent list \<times> nat" where
  "part_loop t ds a b =
     (let (ds, a, b) =
        (if \<not> t (ds ! a) then (ds, a + 1, b)
         else if \<not> t (ds ! (b - 1)) then (ds[a := ds ! (b - 1), b - 1 := ds ! a], a + 1, b - 1)
         else (ds, a, b - 1))
      in if a < b then part_loop t ds a b else (ds, a))"
  by pat_completeness auto
termination
  by (relation "measure (\<lambda>(t, ds, a, b). b - a)") (auto split: if_splits)

declare part_loop.simps [simp del]

text \<open>The stacks of the C are arrays of 73 elements, here one list with the top in front.\<close>

definition RADIX_STACK :: nat where "RADIX_STACK = 9 + 8 * 8"

type_synonym radix_stack = "(nat \<times> nat \<times> nat) list"

text \<open>The endless inner loop, on the part \<open>[base, end)\<close>, from the bit with index \<open>bi\<close> downwards.\<close>

fun radix_inner ::
    "dent_bit list \<Rightarrow> eio_dirent list \<Rightarrow> nat \<Rightarrow> nat \<Rightarrow> nat \<Rightarrow> radix_stack \<Rightarrow>
     (eio_dirent list \<times> radix_stack) option" where
  "radix_inner bits ds base en bi stk =
     (if en - base < EIO_SORT_CUTOFF then Some (ds, stk)
      else (case part_loop (dent_test (bits ! bi)) ds base en of
        (ds, a) \<Rightarrow>
          (case bi of
             0 \<Rightarrow> None
           | Suc bi \<Rightarrow>
               if bits ! bi = Sentinel then Some (ds, stk)
               else if RADIX_STACK \<le> length stk then None
               else radix_inner bits ds base a bi ((a, en, bi) # stk))))"

declare radix_inner.simps [simp del]

definition stack_weight :: "radix_stack \<Rightarrow> nat" where
  "stack_weight stk = sum_list (map (\<lambda>(a, en, bi). 2 ^ bi) stk)"

lemma radix_inner_weight:
  "radix_inner bits ds base en bi stk = Some (ds', stk') \<Longrightarrow>
   stack_weight stk' < stack_weight stk + 2 ^ bi"
proof (induction bits ds base en bi stk rule: radix_inner.induct)
  case (1 bits ds base en bi stk)
  obtain ds1 a where p: "part_loop (dent_test (bits ! bi)) ds base en = (ds1, a)" by fastforce
  show ?case
  proof (cases "en - base < EIO_SORT_CUTOFF")
    case True
    with "1.prems" show ?thesis by (simp add: radix_inner.simps)
  next
    case False
    then obtain bj where bi: "bi = Suc bj" using "1.prems" p by (cases bi) (auto simp: radix_inner.simps)
    show ?thesis
    proof (cases "bits ! bj = Sentinel")
      case True
      with "1.prems" False p bi show ?thesis by (simp add: radix_inner.simps)
    next
      case n: False
      with "1.prems" False p bi have "\<not> RADIX_STACK \<le> length stk"
        "radix_inner bits ds1 base a bj ((a, en, bj) # stk) = Some (ds', stk')"
        by (auto simp: radix_inner.simps [of bits ds] split: if_splits)
      with "1.IH" [OF False p [symmetric] bi n] show ?thesis
        by (simp add: stack_weight_def bi)
    qed
  qed
qed

text \<open>The outer loop, over the stack.\<close>

function radix_outer ::
    "dent_bit list \<Rightarrow> eio_dirent list \<Rightarrow> radix_stack \<Rightarrow> eio_dirent list option" where
  "radix_outer bits ds [] = Some ds"
| "radix_outer bits ds ((base, en, bi) # stk) =
     (case radix_inner bits ds base en bi stk of
        None \<Rightarrow> None
      | Some (ds, stk) \<Rightarrow> radix_outer bits ds stk)"
  by pat_completeness auto
termination
proof (relation "measure (\<lambda>(bits, ds, stk). stack_weight stk)")
  fix bits ds base en bi stk x ds' stk'
  assume "radix_inner bits ds base en bi stk = Some x" "(ds', stk') = x"
  then show "((bits, ds', stk'), bits, ds, (base, en, bi) # stk) \<in> measure (\<lambda>(bits, ds, stk). stack_weight stk)"
    using radix_inner_weight [of bits ds base en bi stk ds' stk'] by (auto simp: stack_weight_def)
qed simp

definition eio_dent_radix_sort :: "eio_dirent list \<Rightarrow> int \<Rightarrow> u64 \<Rightarrow> eio_dirent list option" where
  "eio_dent_radix_sort dents score_bits inode_bits =
     (if length dents \<le> EIO_SORT_FAST then Some dents
      else (let bits = radix_bits score_bits inode_bits
            in radix_outer bits dents [(0, length dents, length bits - 1)]))"

section \<open>The insertion sort\<close>

text \<open>\<open>for (i = ...; --i; )\<close>, looking for a smaller element than the one at \<open>m\<close>.\<close>

fun min_loop :: "eio_dirent list \<Rightarrow> nat \<Rightarrow> nat \<Rightarrow> nat" where
  "min_loop ds 0 m = m"
| "min_loop ds (Suc i) m =
     (if i = 0 then m else min_loop ds i (if eio_dent_cmp (ds ! i) (ds ! m) < 0 then i else m))"

text \<open>The inner loop, with \<open>j = i - 1\<close> given by its successor; below 0 there is nothing to read.\<close>

fun ins_loop :: "eio_dirent list \<Rightarrow> nat \<Rightarrow> eio_dirent \<Rightarrow> eio_dirent list option" where
  "ins_loop ds 0 value = None"
| "ins_loop ds (Suc j) value =
     (if eio_dent_cmp (ds ! j) value > 0 then ins_loop (ds[Suc j := ds ! j]) j value
      else Some (ds[Suc j := value]))"

fun ins_outer :: "nat \<Rightarrow> nat \<Rightarrow> eio_dirent list \<Rightarrow> eio_dirent list option" where
  "ins_outer 0 i ds = Some ds"
| "ins_outer (Suc n) i ds =
     (case ins_loop ds i (ds ! i) of None \<Rightarrow> None | Some ds \<Rightarrow> ins_outer n (Suc i) ds)"

definition eio_dent_insertion_sort :: "eio_dirent list \<Rightarrow> eio_dirent list option" where
  "eio_dent_insertion_sort dents =
     (let size = length dents;
          m = min_loop dents (if size > EIO_SORT_FAST then EIO_SORT_CUTOFF + 1 else size) 0;
          dents = dents[0 := dents ! m, m := dents ! 0]
      in ins_outer (size - 1) 1 dents)"

definition eio_dent_sort :: "eio_dirent list \<Rightarrow> int \<Rightarrow> u64 \<Rightarrow> eio_dirent list option" where
  "eio_dent_sort dents score_bits inode_bits =
     (if length dents \<le> 1 then Some dents
      else (case eio_dent_radix_sort dents score_bits inode_bits of
              None \<Rightarrow> None
            | Some dents \<Rightarrow> eio_dent_insertion_sort dents))"

section \<open>The order of the entries\<close>

text \<open>What the comparison looks at, with its order as an instance of the library's class.\<close>

datatype dent_key = DentKey (dk_score: int) (dk_inode: u64)

instantiation dent_key :: linorder
begin

definition less_eq_dent_key :: "dent_key \<Rightarrow> dent_key \<Rightarrow> bool" where
  "x \<le> y \<longleftrightarrow> dk_score x < dk_score y \<or> dk_score x = dk_score y \<and> dk_inode x \<le> dk_inode y"

definition less_dent_key :: "dent_key \<Rightarrow> dent_key \<Rightarrow> bool" where
  "x < y \<longleftrightarrow> dk_score x < dk_score y \<or> dk_score x = dk_score y \<and> dk_inode x < dk_inode y"

instance
  by standard (auto simp: less_eq_dent_key_def less_dent_key_def dent_key.expand)

end

definition dent_key :: "eio_dirent \<Rightarrow> dent_key" where
  "dent_key d = DentKey (de_score d) (de_inode d)"

text \<open>Scores are what a non-negative \<open>signed char\<close> can hold.\<close>

definition score_ok :: "eio_dirent \<Rightarrow> bool" where
  "score_ok d \<longleftrightarrow> 0 \<le> de_score d \<and> de_score d < 128"

lemma sint_small: "-128 \<le> i \<Longrightarrow> i < 128 \<Longrightarrow> sint (word_of_int i :: u8) = i"
  by (simp add: sint_sbintrunc' signed_take_bit_int_eq_self)

lemma eio_dent_cmp_sign:
  assumes "score_ok a" "score_ok b"
  shows "eio_dent_cmp a b < 0 \<longleftrightarrow> dent_key a < dent_key b"
    "eio_dent_cmp a b > 0 \<longleftrightarrow> dent_key b < dent_key a"
proof -
  have s: "sint (word_of_int (de_score a - de_score b) :: u8) = de_score a - de_score b"
    using assms by (intro sint_small) (auto simp: score_ok_def)
  show "eio_dent_cmp a b < 0 \<longleftrightarrow> dent_key a < dent_key b"
    "eio_dent_cmp a b > 0 \<longleftrightarrow> dent_key b < dent_key a"
    unfolding eio_dent_cmp_def s by (auto simp: dent_key_def less_dent_key_def)
qed

section \<open>Bits decide the order\<close>

lemma bits_less:
  fixes a b :: int
  assumes "0 \<le> a" "0 \<le> b" "\<And>j. j > k \<Longrightarrow> bit a j = bit b j" "\<not> bit a k" "bit b k"
  shows "a < b"
proof -
  have hi: "drop_bit (Suc k) a = drop_bit (Suc k) b"
    by (rule bit_eqI) (auto simp: bit_drop_bit_eq assms(3))
  have "take_bit (Suc k) a = take_bit k a"
    using assms(4) by (simp add: take_bit_Suc_from_most)
  then have "take_bit (Suc k) a < 2 ^ k" by simp
  moreover have "take_bit (Suc k) b = 2 ^ k + take_bit k b"
    using assms(5) by (simp add: take_bit_Suc_from_most)
  then have "2 ^ k \<le> take_bit (Suc k) b" by simp
  ultimately have lo: "take_bit (Suc k) a < take_bit (Suc k) b" by linarith
  have "push_bit (Suc k) (drop_bit (Suc k) a) + take_bit (Suc k) a <
      push_bit (Suc k) (drop_bit (Suc k) b) + take_bit (Suc k) b"
    unfolding hi using lo by (rule add_strict_left_mono)
  then show ?thesis by (simp only: bits_ident)
qed

text \<open>The bits above the index \<open>bi\<close> of the table.\<close>

definition agree :: "dent_bit list \<Rightarrow> nat \<Rightarrow> eio_dirent \<Rightarrow> eio_dirent \<Rightarrow> bool" where
  "agree bits bi a b \<longleftrightarrow> (\<forall>k. bi < k \<and> k < length bits \<longrightarrow> dent_test (bits ! k) a = dent_test (bits ! k) b)"

text \<open>The masks given to the sort contain every bit in which two entries differ.\<close>

definition masked :: "int \<Rightarrow> u64 \<Rightarrow> eio_dirent \<Rightarrow> eio_dirent \<Rightarrow> bool" where
  "masked score_bits inode_bits a b \<longleftrightarrow> score_ok a \<and> score_ok b \<and>
     (\<forall>k < 64. bit (de_inode a) k \<noteq> bit (de_inode b) k \<longrightarrow> bit inode_bits k) \<and>
     (\<forall>j < 8. bit (de_score a) j \<noteq> bit (de_score b) j \<longrightarrow> bit score_bits j)"

definition bit_pos :: "dent_bit \<Rightarrow> nat" where
  "bit_pos b = (case b of Sentinel \<Rightarrow> 0 | InodeBit k \<Rightarrow> k | ScoreBit j \<Rightarrow> 64 + j)"

definition dent_num :: "eio_dirent \<Rightarrow> int" where
  "dent_num d = push_bit 64 (de_score d) + uint (de_inode d)"

lemma dent_num_less: "score_ok a \<Longrightarrow> score_ok b \<Longrightarrow> dent_num a < dent_num b \<longleftrightarrow> dent_key a < dent_key b"
proof -
  have u: "0 \<le> uint w" "uint w < 2 ^ 64" for w :: u64 using uint_bounded [of w] by auto
  have split: "x * 18446744073709551616 + y < x' * 18446744073709551616 + y' \<longleftrightarrow> x < x' \<or> x = x' \<and> y < y'"
    if "0 \<le> y" "y < 18446744073709551616" "0 \<le> y'" "y' < 18446744073709551616" for x y x' y' :: int
  proof (cases x x' rule: linorder_cases)
    case less
    then have "x + 1 \<le> x'" by simp
    with that less show ?thesis by linarith
  next
    case greater
    then have "x' + 1 \<le> x" by simp
    with that greater show ?thesis by linarith
  qed simp
  show ?thesis
    using split [of "uint (de_inode a)" "uint (de_inode b)" "de_score a" "de_score b"]
      u [of "de_inode a"] u [of "de_inode b"]
    by (simp add: dent_num_def push_bit_eq_mult dent_key_def less_dent_key_def word_less_def)
qed

lemma bit_dent_num:
  "bit (dent_num d) n = (if n < 64 then bit (de_inode d) n else bit (de_score d) (n - 64))"
proof -
  have "dent_num d = or (push_bit 64 (de_score d)) (uint (de_inode d))"
    unfolding dent_num_def
    by (rule disjunctive_add) (auto simp: bit_simps dest: bit_imp_le_length)
  then show ?thesis
    by (auto simp: bit_simps bit_uint_iff dest: bit_imp_le_length)
qed


section \<open>The bit table\<close>

lemma radix_bits_table:
  fixes sb ib
  defines "bits \<equiv> radix_bits sb ib"
  shows "bits ! 0 = Sentinel"
    "0 < k \<Longrightarrow> k < length bits \<Longrightarrow> bits ! k \<noteq> Sentinel"
    "0 < k \<Longrightarrow> k < k' \<Longrightarrow> k' < length bits \<Longrightarrow> bit_pos (bits ! k) < bit_pos (bits ! k')"
    "length bits \<le> RADIX_STACK"
    "0 < k \<Longrightarrow> k < length bits \<Longrightarrow> dent_test (bits ! k) d = bit (dent_num d) (bit_pos (bits ! k))"
    "masked sb ib a b \<Longrightarrow> bit (dent_num a) n \<noteq> bit (dent_num b) n \<Longrightarrow> \<exists>k. 0 < k \<and> k < length bits \<and> bit_pos (bits ! k) = n"
proof -
  define xs where "xs = map InodeBit (filter (bit ib) [0..<64])"
  define ys where "ys = map ScoreBit (filter (bit sb) [0..<8])"
  have b: "bits = Sentinel # xs @ ys" by (simp add: bits_def radix_bits_def xs_def ys_def)
  have el: "x \<in> set (xs @ ys) \<Longrightarrow> (\<exists>j < 64. x = InodeBit j) \<or> (\<exists>j < 8. x = ScoreBit j)" for x
    by (auto simp: xs_def ys_def)
  show "bits ! 0 = Sentinel" by (simp add: b)
  have tl: "bits ! k = (xs @ ys) ! (k - 1)" "k - 1 < length (xs @ ys)" if "0 < k" "k < length bits" for k
    using that by (auto simp: b nth_Cons')
  show "bits ! k \<noteq> Sentinel" if "0 < k" "k < length bits"
    using el [OF nth_mem [OF tl(2) [OF that]]] tl(1) [OF that] by auto
  have "sorted_wrt (<) (map bit_pos (xs @ ys))"
    unfolding map_append sorted_wrt_append
    by (auto simp: xs_def ys_def bit_pos_def sorted_wrt_map comp_def intro!: sorted_wrt_filter)
  then show "bit_pos (bits ! k) < bit_pos (bits ! k')" if "0 < k" "k < k'" "k' < length bits"
    using that tl [of k] tl [of k'] sorted_wrt_nth_less [of "(<)" "map bit_pos (xs @ ys)" "k - 1" "k' - 1"]
    by (simp del: map_append)
  have "length xs \<le> 64" "length ys \<le> 8"
    using length_filter_le [of "bit ib" "[0..<64]"] length_filter_le [of "bit sb" "[0..<8]"]
    by (auto simp: xs_def ys_def)
  then show "length bits \<le> RADIX_STACK" by (simp add: b RADIX_STACK_def)
  show "dent_test (bits ! k) d = bit (dent_num d) (bit_pos (bits ! k))" if "0 < k" "k < length bits"
    using el [OF nth_mem [OF tl(2) [OF that]]] tl(1) [OF that] by (auto simp: bit_pos_def bit_dent_num)
  assume m: "masked sb ib a b" and n: "bit (dent_num a) n \<noteq> bit (dent_num b) n"
  have "\<exists>x \<in> set (xs @ ys). bit_pos x = n"
  proof (cases "n < 64")
    case True
    then show ?thesis using m n
      by (intro bexI [of _ "InodeBit n"]) (auto simp: bit_dent_num masked_def xs_def bit_pos_def)
  next
    case False
    then have sc: "bit (de_score a) (n - 64) \<noteq> bit (de_score b) (n - 64)" using n by (simp add: bit_dent_num)
    have "take_bit 7 (de_score a) = de_score a" "take_bit 7 (de_score b) = de_score b"
      using m by (auto intro!: take_bit_int_eq_self simp: masked_def score_ok_def)
    then have "n - 64 < 7" using sc by (metis bit_take_bit_iff)
    then show ?thesis using m sc False
      by (intro bexI [of _ "ScoreBit (n - 64)"]) (auto simp: masked_def ys_def bit_pos_def)
  qed
  then obtain i where i: "i < length (xs @ ys)" "bit_pos ((xs @ ys) ! i) = n" by (metis in_set_conv_nth)
  then show "\<exists>k. 0 < k \<and> k < length bits \<and> bit_pos (bits ! k) = n"
    by (intro exI [of _ "Suc i"]) (simp add: b)
qed

lemma agree_less:
  assumes m: "masked sb ib a b" and bi: "0 < bi" "bi < length (radix_bits sb ib)"
    and ag: "agree (radix_bits sb ib) bi a b"
    and t: "\<not> dent_test (radix_bits sb ib ! bi) a" "dent_test (radix_bits sb ib ! bi) b"
  shows "dent_key a < dent_key b"
proof -
  let ?bits = "radix_bits sb ib" and ?k = "bit_pos (radix_bits sb ib ! bi)"
  have ok: "score_ok a" "score_ok b" using m by (auto simp: masked_def)
  have nn: "0 \<le> dent_num a" "0 \<le> dent_num b" using ok by (auto simp: dent_num_def score_ok_def)
  have "bit (dent_num a) j = bit (dent_num b) j" if "j > ?k" for j
  proof -
    have "bit (dent_num a) j = bit (dent_num b) j"
      if k: "0 < k" "k < length ?bits" "bit_pos (?bits ! k) = j" for k
    proof -
      have "bi < k" using \<open>j > ?k\<close> k bi radix_bits_table(3) [of k bi sb ib] by (metis less_asym' nat_neq_iff)
      then have "dent_test (?bits ! k) a = dent_test (?bits ! k) b" using ag k by (simp add: agree_def)
      then show ?thesis using radix_bits_table(5) [OF k(1,2)] k(3) by simp
    qed
    then show ?thesis using radix_bits_table(6) [OF m] by metis
  qed
  then have "dent_num a < dent_num b"
    using t radix_bits_table(5) [OF bi] by (intro bits_less [OF nn]) auto
  then show ?thesis using dent_num_less [OF ok] by simp
qed

lemma agree_all:
  assumes m: "masked sb ib a b" and ag: "agree (radix_bits sb ib) 0 a b"
  shows "dent_key a = dent_key b"
proof -
  let ?bits = "radix_bits sb ib"
  have ok: "score_ok a" "score_ok b" using m by (auto simp: masked_def)
  have "bit (dent_num a) j = bit (dent_num b) j" for j
  proof -
    have "bit (dent_num a) j = bit (dent_num b) j"
      if k: "0 < k" "k < length ?bits" "bit_pos (?bits ! k) = j" for k
      using ag k radix_bits_table(5) [OF k(1,2)] by (auto simp: agree_def)
    then show ?thesis using radix_bits_table(6) [OF m] by metis
  qed
  then have "dent_num a = dent_num b" by (rule bit_eqI)
  then show ?thesis using dent_num_less [OF ok] dent_num_less [OF ok(2,1)] by (metis less_irrefl linorder_neqE)
qed

section \<open>Partitioning\<close>

lemma part_loop_spec:
  assumes "part_loop t ds a b = (ds', c)" "a < b" "b \<le> length ds"
  shows "a \<le> c \<and> c \<le> b \<and> length ds' = length ds \<and> mset ds' = mset ds \<and>
    (\<forall>i. i < a \<or> b \<le> i \<longrightarrow> ds' ! i = ds ! i) \<and>
    (\<lambda>i. ds' ! i) ` {a..<b} = (\<lambda>i. ds ! i) ` {a..<b} \<and>
    (\<forall>i. a \<le> i \<and> i < c \<longrightarrow> \<not> t (ds' ! i)) \<and> (\<forall>i. c \<le> i \<and> i < b \<longrightarrow> t (ds' ! i))"
  using assms
proof (induction t ds a b arbitrary: rule: part_loop.induct)
  case (1 t ds a b)
  define ds1 where "ds1 = (if t (ds ! a) \<and> \<not> t (ds ! (b - 1)) then ds[a := ds ! (b - 1), b - 1 := ds ! a] else ds)"
  define a1 where "a1 = (if \<not> t (ds ! a) \<or> \<not> t (ds ! (b - 1)) then a + 1 else a)"
  define b1 where "b1 = (if \<not> t (ds ! a) then b else b - 1)"
  have step: "(if \<not> t (ds ! a) then (ds, a + 1, b)
         else if \<not> t (ds ! (b - 1)) then (ds[a := ds ! (b - 1), b - 1 := ds ! a], a + 1, b - 1)
         else (ds, a, b - 1)) = (ds1, a1, b1)"
    by (auto simp: ds1_def a1_def b1_def)
  have swap: "a < b - 1" if "t (ds ! a)" "\<not> t (ds ! (b - 1))"
    using that "1.prems"(2) by (cases "a = b - 1") auto
  then have ab: "a \<le> a1" "a1 \<le> b1" "b1 \<le> b" and len: "length ds1 = length ds"
    using "1.prems"(2) by (auto simp: a1_def b1_def ds1_def)
  have ms: "mset ds1 = mset ds" using "1.prems" by (auto simp: ds1_def mset_swap)
  have out: "ds1 ! i = ds ! i" if "i < a \<or> b \<le> i" for i
    using that "1.prems" by (auto simp: ds1_def nth_list_update)
  have img: "(\<lambda>i. ds1 ! i) ` {a..<b} = (\<lambda>i. ds ! i) ` {a..<b}"
  proof (cases "t (ds ! a) \<and> \<not> t (ds ! (b - 1))")
    case True
    let ?f = "\<lambda>i. if i = a then b - 1 else if i = b - 1 then a else i"
    have "ds1 ! i = ds ! ?f i" if "i \<in> {a..<b}" for i
      using True that "1.prems" by (auto simp: ds1_def nth_list_update)
    then have "(\<lambda>i. ds1 ! i) ` {a..<b} = (\<lambda>i. ds ! i) ` (?f ` {a..<b})" by (auto simp: image_image)
    also have "?f ` {a..<b} = {a..<b}"
    proof -
      have "i \<in> ?f ` {a..<b}" if "i \<in> {a..<b}" for i
        using that by (intro image_eqI [of _ _ "?f i"]) auto
      then show ?thesis using "1.prems" by auto
    qed
    finally show ?thesis .
  qed (auto simp: ds1_def)
  have zeros: "\<not> t (ds1 ! i)" if "a \<le> i" "i < a1" for i
  proof -
    have i: "i = a" "\<not> t (ds ! a) \<or> \<not> t (ds ! (b - 1))"
      using that by (auto simp: a1_def split: if_splits)
    show ?thesis
    proof (cases "t (ds ! a)")
      case True
      then have "a < b - 1" using i(2) swap by blast
      then show ?thesis using True i "1.prems" by (simp add: ds1_def nth_list_update)
    qed (simp add: ds1_def i(1))
  qed
  have ones: "t (ds1 ! i)" if "b1 \<le> i" "i < b" for i
  proof -
    have "i = b - 1" "t (ds ! a)" using that "1.prems" by (auto simp: b1_def split: if_splits)
    then show ?thesis using "1.prems" by (auto simp: ds1_def nth_list_update)
  qed
  show ?case
  proof (cases "a1 < b1")
    case True
    then have rec: "part_loop t ds1 a1 b1 = (ds', c)"
      using "1.prems"(1) step by (subst (asm) part_loop.simps) (simp add: Let_def)
    have "b1 \<le> length ds1" using ab(3) len "1.prems"(3) by simp
    from "1.IH" [OF step [symmetric] refl refl True rec True this] have
      I: "a1 \<le> c" "c \<le> b1" "length ds' = length ds1" "mset ds' = mset ds1"
        "\<And>i. i < a1 \<or> b1 \<le> i \<Longrightarrow> ds' ! i = ds1 ! i"
        "(\<lambda>i. ds' ! i) ` {a1..<b1} = (\<lambda>i. ds1 ! i) ` {a1..<b1}"
        "\<And>i. a1 \<le> i \<and> i < c \<Longrightarrow> \<not> t (ds' ! i)" "\<And>i. c \<le> i \<and> i < b1 \<Longrightarrow> t (ds' ! i)" by auto
    have sp: "{a..<b} = {a..<a1} \<union> {a1..<b1} \<union> {b1..<b}" using ab by auto
    have "(\<lambda>i. ds' ! i) ` {a..<a1} = (\<lambda>i. ds1 ! i) ` {a..<a1}"
      "(\<lambda>i. ds' ! i) ` {b1..<b} = (\<lambda>i. ds1 ! i) ` {b1..<b}"
      using I(5) by (auto intro!: image_cong)
    then have "(\<lambda>i. ds' ! i) ` {a..<b} = (\<lambda>i. ds1 ! i) ` {a..<b}"
      unfolding sp image_Un using I(6) by simp
    moreover have "\<not> t (ds' ! i)" if "a \<le> i" "i < c" for i
      using that zeros [of i] I(5) [of i] I(7) [of i] by (cases "i < a1") auto
    moreover have "t (ds' ! i)" if "c \<le> i" "i < b" for i
      using that ones [of i] I(5) [of i] I(8) [of i] by (cases "i < b1") auto
    moreover have "ds' ! i = ds ! i" if "i < a \<or> b \<le> i" for i
      using that out [of i] I(5) [of i] ab by auto
    ultimately show ?thesis using I(1-4) ab len ms img by auto
  next
    case False
    then have "ds' = ds1" "c = a1" "b1 = a1"
      using "1.prems"(1) step ab by (subst (asm) part_loop.simps; simp add: Let_def)+
    then show ?thesis using ab len ms out img zeros ones by auto
  qed
qed

section \<open>The invariant of the pre-pass\<close>

text \<open>
  The parts on the stack lie side by side, from \<open>x\<close> to the end; each has a bit index in the table that
  leaves room on the stack.
\<close>

fun covers :: "nat \<Rightarrow> radix_stack \<Rightarrow> nat \<Rightarrow> bool" where
  "covers x [] n \<longleftrightarrow> x = n"
| "covers x ((base, en, bi) # stk) n \<longleftrightarrow> base = x \<and> base \<le> en \<and> covers en stk n"

fun depth_ok :: "nat \<Rightarrow> radix_stack \<Rightarrow> bool" where
  "depth_ok l [] \<longleftrightarrow> True"
| "depth_ok l ((base, en, bi) # stk) \<longleftrightarrow> 0 < bi \<and> length stk + bi < l \<and> depth_ok l stk"

text \<open>
  The entries of one part agree on all bits above its index, everything before a part is smaller than
  everything from its start on, and once a first part is done a smallest entry of the parts done is
  among the first 30 entries.
\<close>

definition radix_inv :: "int \<Rightarrow> u64 \<Rightarrow> eio_dirent list \<Rightarrow> eio_dirent list \<Rightarrow> nat \<Rightarrow> radix_stack \<Rightarrow> bool" where
  "radix_inv sb ib ds0 ds x stk \<longleftrightarrow> mset ds = mset ds0 \<and> x \<le> length ds \<and> covers x stk (length ds) \<and>
     depth_ok (length (radix_bits sb ib)) stk \<and>
     (\<forall>(b, e, bi) \<in> set stk. \<forall>i j. b \<le> i \<and> i < e \<and> b \<le> j \<and> j < e \<longrightarrow>
        agree (radix_bits sb ib) bi (ds ! i) (ds ! j)) \<and>
     (\<forall>i j. i < x \<and> x \<le> j \<and> j < length ds \<longrightarrow> dent_key (ds ! i) < dent_key (ds ! j)) \<and>
     (\<forall>(b, e, bi) \<in> set stk. \<forall>i j. i < e \<and> e \<le> j \<and> j < length ds \<longrightarrow> dent_key (ds ! i) < dent_key (ds ! j)) \<and>
     (x = 0 \<or> (\<exists>m < EIO_SORT_CUTOFF. m < x \<and> (\<forall>j < x. dent_key (ds ! m) \<le> dent_key (ds ! j))))"

lemma covers_le: "covers x stk n \<Longrightarrow> x \<le> n"
  by (induction x stk n rule: covers.induct) auto

lemma covers_bounds: "covers x stk n \<Longrightarrow> (b, e, bi) \<in> set stk \<Longrightarrow> x \<le> b \<and> b \<le> e \<and> e \<le> n"
  by (induction x stk n rule: covers.induct) (auto dest: covers_le)

lemma masked_nth: "mset ds = mset ds0 \<Longrightarrow> \<forall>a \<in> set ds0. \<forall>b \<in> set ds0. masked sb ib a b \<Longrightarrow> i < length ds \<Longrightarrow> j < length ds \<Longrightarrow>
   masked sb ib (ds ! i) (ds ! j)"
  by (metis mset_eq_setD nth_mem)

text \<open>A part is finished once it has a smallest entry among its first 30, or is not the first.\<close>

lemma radix_done:
  assumes inv: "radix_inv sb ib ds0 ds x ((x, en, bi) # stk)"
    and first: "x = 0 \<Longrightarrow> en = 0 \<or> (\<exists>m < EIO_SORT_CUTOFF. m < en \<and> (\<forall>j < en. dent_key (ds ! m) \<le> dent_key (ds ! j)))"
  shows "radix_inv sb ib ds0 ds en stk"
proof -
  have bound: "\<forall>i j. i < en \<and> en \<le> j \<and> j < length ds \<longrightarrow> dent_key (ds ! i) < dent_key (ds ! j)"
    "x \<le> en" "en \<le> length ds" using inv by (auto simp: radix_inv_def dest: covers_le)
  have "en = 0 \<or> (\<exists>m < EIO_SORT_CUTOFF. m < en \<and> (\<forall>j < en. dent_key (ds ! m) \<le> dent_key (ds ! j)))"
  proof (cases "x = 0")
    case False
    then obtain m where m: "m < EIO_SORT_CUTOFF" "m < x" "\<forall>j < x. dent_key (ds ! m) \<le> dent_key (ds ! j)"
      using inv by (auto simp: radix_inv_def)
    have "dent_key (ds ! m) \<le> dent_key (ds ! j)" if "j < en" for j
    proof (cases "j < x")
      case True
      with m(3) show ?thesis by blast
    next
      case False
      then have "dent_key (ds ! m) < dent_key (ds ! j)"
        using inv m(2) that bound(3) by (auto simp: radix_inv_def)
      then show ?thesis by simp
    qed
    with m bound(2) show ?thesis by (meson order_less_le_trans)
  qed (rule first)
  then show ?thesis using inv bound unfolding radix_inv_def by auto
qed

text \<open>Partitioning the part in hand splits it in two.\<close>

lemma radix_split:
  assumes inv: "radix_inv sb ib ds0 ds x ((x, en, bi) # stk)" and m0: "\<forall>a \<in> set ds0. \<forall>b \<in> set ds0. masked sb ib a b"
    and p: "part_loop (dent_test (radix_bits sb ib ! bi)) ds x en = (ds', c)" and xe: "x < en"
  shows "x \<le> c" "c \<le> en" "length ds' = length ds" "mset ds' = mset ds0"
    "\<And>i j. x \<le> i \<Longrightarrow> i < c \<Longrightarrow> c \<le> j \<Longrightarrow> j < length ds' \<Longrightarrow> dent_key (ds' ! i) < dent_key (ds' ! j)"
    "\<And>i j. i < x \<Longrightarrow> x \<le> j \<Longrightarrow> j < length ds' \<Longrightarrow> dent_key (ds' ! i) < dent_key (ds' ! j)"
    "\<And>i j. x \<le> i \<and> i < c \<and> x \<le> j \<and> j < c \<or> c \<le> i \<and> i < en \<and> c \<le> j \<and> j < en \<Longrightarrow>
       agree (radix_bits sb ib) (bi - 1) (ds' ! i) (ds' ! j)"
    "radix_inv sb ib ds0 ds' x ((x, en, bi) # stk)"
proof -
  let ?bits = "radix_bits sb ib"
  have I: "mset ds = mset ds0" "en \<le> length ds" "0 < bi" "bi < length ?bits" "covers en stk (length ds)"
    "depth_ok (length ?bits) stk" "length stk + bi < length ?bits"
    "\<And>i j. x \<le> i \<Longrightarrow> i < en \<Longrightarrow> x \<le> j \<Longrightarrow> j < en \<Longrightarrow> agree ?bits bi (ds ! i) (ds ! j)"
    "\<And>i j. i < x \<Longrightarrow> x \<le> j \<Longrightarrow> j < length ds \<Longrightarrow> dent_key (ds ! i) < dent_key (ds ! j)"
    "\<And>i j. i < en \<Longrightarrow> en \<le> j \<Longrightarrow> j < length ds \<Longrightarrow> dent_key (ds ! i) < dent_key (ds ! j)"
    using inv by (auto simp: radix_inv_def dest: covers_le)
  from part_loop_spec [OF p xe I(2)] have
    P: "x \<le> c" "c \<le> en" "length ds' = length ds" "mset ds' = mset ds"
      "\<And>i. i < x \<or> en \<le> i \<Longrightarrow> ds' ! i = ds ! i"
      "(\<lambda>i. ds' ! i) ` {x..<en} = (\<lambda>i. ds ! i) ` {x..<en}"
      "\<And>i. x \<le> i \<Longrightarrow> i < c \<Longrightarrow> \<not> dent_test (?bits ! bi) (ds' ! i)"
      "\<And>i. c \<le> i \<Longrightarrow> i < en \<Longrightarrow> dent_test (?bits ! bi) (ds' ! i)" by auto
  have src: "\<exists>k. x \<le> k \<and> k < en \<and> ds' ! i = ds ! k" if "x \<le> i" "i < en" for i
  proof -
    have "ds' ! i \<in> (\<lambda>i. ds ! i) ` {x..<en}" using that P(6) by force
    then show ?thesis by auto
  qed
  show "x \<le> c" "c \<le> en" "length ds' = length ds" "mset ds' = mset ds0" using P I by auto
  then have msk: "masked sb ib (ds' ! i) (ds' ! j)" if "i < length ds'" "j < length ds'" for i j
    using masked_nth [OF _ m0 that] by simp
  have ag: "agree ?bits bi (ds' ! i) (ds' ! j)" if "x \<le> i" "i < en" "x \<le> j" "j < en" for i j
    using src [OF that(1,2)] src [OF that(3,4)] I(8) by metis
  have below: "dent_key (ds' ! i) < dent_key (ds' ! j)" if "i < x" "x \<le> j" "j < length ds'" for i j
  proof (cases "j < en")
    case True
    with src [OF that(2)] obtain k where "x \<le> k" "k < en" "ds' ! j = ds ! k" by blast
    then show ?thesis using P(5) [of i] I(9) [OF that(1), of k] I(2) that(1) by simp
  next
    case False
    then show ?thesis using P(3,5) I(9) that by simp
  qed
  then show "\<And>i j. i < x \<Longrightarrow> x \<le> j \<Longrightarrow> j < length ds' \<Longrightarrow> dent_key (ds' ! i) < dent_key (ds' ! j)" .
  have above: "dent_key (ds' ! i) < dent_key (ds' ! j)" if "i < en" "en \<le> j" "j < length ds'" for i j
  proof (cases "i < x")
    case True
    then show ?thesis using P(3,5) I(10) that by simp
  next
    case False
    with src [of i] that obtain k where "x \<le> k" "k < en" "ds' ! i = ds ! k" by auto
    then show ?thesis using P(3,5) I(10) [of k j] that by simp
  qed
  show "dent_key (ds' ! i) < dent_key (ds' ! j)" if "x \<le> i" "i < c" "c \<le> j" "j < length ds'" for i j
  proof (cases "j < en")
    case True
    have i: "i < en" using that P(2) by simp
    have "x \<le> j" using that by simp
    from ag [OF that(1) i this True] P(7) [OF that(1,2)] P(8) [OF that(3) True] show ?thesis
      using msk that i I(2-4) P(3) by (intro agree_less) auto
  next
    case False
    then show ?thesis using above that P(2) by auto
  qed
  show "agree ?bits (bi - 1) (ds' ! i) (ds' ! j)"
    if "x \<le> i \<and> i < c \<and> x \<le> j \<and> j < c \<or> c \<le> i \<and> i < en \<and> c \<le> j \<and> j < en" for i j
  proof -
    have "agree ?bits bi (ds' ! i) (ds' ! j)" using that P(1,2) by (intro ag) auto
    moreover have "dent_test (?bits ! bi) (ds' ! i) = dent_test (?bits ! bi) (ds' ! j)"
      using that P(7,8) by blast
    moreover have "k = bi \<or> bi < k" if "bi - 1 < k" for k using that I(3) by linarith
    ultimately show ?thesis unfolding agree_def by blast
  qed
  have stk': "agree ?bits bi' (ds' ! i) (ds' ! j)"
    if "(b, e, bi') \<in> set stk" "b \<le> i" "i < e" "b \<le> j" "j < e" for b e bi' i j
  proof -
    have "en \<le> b" using covers_bounds [OF I(5) that(1)] by simp
    then show ?thesis using inv that P(5) unfolding radix_inv_def by force
  qed
  have stk'': "dent_key (ds' ! i) < dent_key (ds' ! j)"
    if "(b, e, bi') \<in> set stk" "i < e" "e \<le> j" "j < length ds'" for b e bi' i j
  proof (cases "i < en")
    case True
    then show ?thesis using above covers_bounds [OF I(5) that(1)] that by auto
  next
    case False
    then show ?thesis using inv that P(3,5) covers_bounds [OF I(5) that(1)]
      unfolding radix_inv_def by force
  qed
  have "x = 0 \<or> (\<exists>m < EIO_SORT_CUTOFF. m < x \<and> (\<forall>j < x. dent_key (ds' ! m) \<le> dent_key (ds' ! j)))"
  proof -
    have "x = 0 \<or> (\<exists>m < EIO_SORT_CUTOFF. m < x \<and> (\<forall>j < x. dent_key (ds ! m) \<le> dent_key (ds ! j)))"
      using inv by (simp add: radix_inv_def)
    then show ?thesis using P(5) by (metis (no_types, lifting))
  qed
  note least = this
  have "\<forall>(b, e, bi) \<in> set ((x, en, bi) # stk). \<forall>i j. b \<le> i \<and> i < e \<and> b \<le> j \<and> j < e \<longrightarrow>
        agree ?bits bi (ds' ! i) (ds' ! j)"
    using ag stk' by fastforce
  moreover have "\<forall>(b, e, bi) \<in> set ((x, en, bi) # stk). \<forall>i j. i < e \<and> e \<le> j \<and> j < length ds' \<longrightarrow>
        dent_key (ds' ! i) < dent_key (ds' ! j)"
    using above stk'' by fastforce
  moreover have "\<forall>i j. i < x \<and> x \<le> j \<and> j < length ds' \<longrightarrow> dent_key (ds' ! i) < dent_key (ds' ! j)"
    using below by blast
  moreover have "covers x ((x, en, bi) # stk) (length ds')" "depth_ok (length ?bits) ((x, en, bi) # stk)"
    "x \<le> length ds'" "mset ds' = mset ds0"
    using I P xe by simp_all
  ultimately show "radix_inv sb ib ds0 ds' x ((x, en, bi) # stk)"
    using least unfolding radix_inv_def by blast
qed


lemma least_in_part:
  assumes "0 < en" "en \<le> EIO_SORT_CUTOFF"
  shows "\<exists>m < EIO_SORT_CUTOFF. m < en \<and> (\<forall>j < en. dent_key (ds ! m) \<le> dent_key (ds ! j))"
proof -
  let ?K = "(\<lambda>j. dent_key (ds ! j)) ` {..<en}"
  have "Min ?K \<in> ?K" using assms(1) by (intro Min_in) auto
  then obtain m where m: "m < en" "dent_key (ds ! m) = Min ?K" by auto
  have "\<forall>j < en. dent_key (ds ! m) \<le> dent_key (ds ! j)" using m(2) by (auto intro: Min_le)
  with m assms(2) show ?thesis by (meson order_less_le_trans)
qed

lemma radix_inner_ok:
  "radix_inv sb ib ds0 ds x ((x, en, bi) # stk) \<Longrightarrow> \<forall>a \<in> set ds0. \<forall>b \<in> set ds0. masked sb ib a b \<Longrightarrow>
   \<exists>ds' stk' x'. radix_inner (radix_bits sb ib) ds x en bi stk = Some (ds', stk') \<and>
     radix_inv sb ib ds0 ds' x' stk'"
proof (induction bi arbitrary: ds en stk)
  case 0
  then show ?case by (simp add: radix_inv_def)
next
  case (Suc bj)
  let ?bits = "radix_bits sb ib"
  show ?case
  proof (cases "en - x < EIO_SORT_CUTOFF")
    case True
    have "radix_inv sb ib ds0 ds en stk"
      by (rule radix_done [OF Suc.prems(1)]) (use True least_in_part [of en ds] in auto)
    then show ?thesis using True by (auto simp: radix_inner.simps)
  next
    case False
    then have xe: "x < en" by (simp add: EIO_SORT_CUTOFF_def)
    obtain ds' c where p: "part_loop (dent_test (?bits ! Suc bj)) ds x en = (ds', c)" by fastforce
    note S = radix_split [OF Suc.prems(1,2) p xe]
    have d: "Suc bj < length ?bits" "length stk + Suc bj < length ?bits"
      using Suc.prems(1) by (auto simp: radix_inv_def)
    show ?thesis
    proof (cases "?bits ! bj = Sentinel")
      case True
      then have bj: "bj = 0" using radix_bits_table(2) [of bj sb ib] d by (cases bj) auto
      have msk: "masked sb ib (ds' ! i) (ds' ! j)" if "i < length ds'" "j < length ds'" for i j
        using masked_nth [OF S(4) Suc.prems(2) that] .
      have en: "en \<le> length ds'" using S(8) by (auto simp: radix_inv_def dest: covers_le)
      have "dent_key (ds' ! x) \<le> dent_key (ds' ! j)" if "x \<le> j" "j < en" for j
      proof (cases "(x < c) = (j < c)")
        case True
        then have "agree ?bits 0 (ds' ! x) (ds' ! j)" using S(7) [of x j] that xe bj by force
        from agree_all [OF msk this] that en xe show ?thesis by simp
      next
        case False
        then show ?thesis using S(1) S(5) [of x j] that en by force
      qed
      then have "radix_inv sb ib ds0 ds' en stk"
        using xe by (intro radix_done [OF S(8)] disjI2 exI [of _ 0]) (auto simp: EIO_SORT_CUTOFF_def)
      then show ?thesis using False p True by (auto simp: radix_inner.simps)
    next
      case n: False
      then have bj: "0 < bj" using radix_bits_table(1) [of sb ib] by (cases bj) auto
      have room: "\<not> RADIX_STACK \<le> length stk" using d(2) radix_bits_table(4) [of sb ib] by simp
      have "radix_inv sb ib ds0 ds' x ((x, c, bj) # (c, en, bj) # stk)"
      proof -
        have "\<forall>(b, e, bi) \<in> set ((x, c, bj) # (c, en, bj) # stk). \<forall>i j.
            b \<le> i \<and> i < e \<and> b \<le> j \<and> j < e \<longrightarrow> agree ?bits bi (ds' ! i) (ds' ! j)"
          using S(7,8) unfolding radix_inv_def by fastforce
        moreover have "\<forall>(b, e, bi) \<in> set ((x, c, bj) # (c, en, bj) # stk). \<forall>i j.
            i < e \<and> e \<le> j \<and> j < length ds' \<longrightarrow> dent_key (ds' ! i) < dent_key (ds' ! j)"
        proof -
          have "dent_key (ds' ! i) < dent_key (ds' ! j)" if "i < c" "c \<le> j" "j < length ds'" for i j
            using S(1) S(5) [of i j] S(6) [of i j] that by (cases "i < x") auto
          then show ?thesis using S(8) unfolding radix_inv_def by fastforce
        qed
        ultimately show ?thesis using S(1,2,8) d bj unfolding radix_inv_def by simp
      qed
      from Suc.IH [OF this Suc.prems(2)] False p n room show ?thesis
        by (simp add: radix_inner.simps [of _ ds])
    qed
  qed
qed

lemma radix_outer_ok:
  "radix_inv sb ib ds0 ds x stk \<Longrightarrow> \<forall>a \<in> set ds0. \<forall>b \<in> set ds0. masked sb ib a b \<Longrightarrow>
   \<exists>ds'. radix_outer (radix_bits sb ib) ds stk = Some ds' \<and> radix_inv sb ib ds0 ds' (length ds') []"
proof (induction "radix_bits sb ib" ds stk arbitrary: x rule: radix_outer.induct)
  case (1 ds)
  then show ?case by (auto simp: radix_inv_def)
next
  case (2 ds base en bi stk)
  then have b: "base = x" by (simp add: radix_inv_def)
  from radix_inner_ok [OF 2(2) [unfolded b] 2(3)] obtain ds' stk' x' where
    "radix_inner (radix_bits sb ib) ds x en bi stk = Some (ds', stk')" "radix_inv sb ib ds0 ds' x' stk'" by blast
  with 2(1) [of "(ds', stk')" ds' stk' x'] 2(3) b show ?case by simp
qed

text \<open>The pre-pass permutes the entries and puts a smallest one among the first 30.\<close>

lemma eio_dent_radix_sort_ok:
  assumes m: "\<forall>a \<in> set ds. \<forall>b \<in> set ds. masked sb ib a b" and sz: "EIO_SORT_FAST < length ds"
    and some_bit: "ib \<noteq> 0 \<or> (\<exists>j < 8. bit sb j)"
  shows "\<exists>ds'. eio_dent_radix_sort ds sb ib = Some ds' \<and> mset ds' = mset ds \<and>
     (\<exists>m < EIO_SORT_CUTOFF. \<forall>j < length ds'. dent_key (ds' ! m) \<le> dent_key (ds' ! j))"
proof -
  let ?bits = "radix_bits sb ib"
  have "\<exists>k < 64. bit ib k" if "ib \<noteq> 0"
  proof (rule ccontr)
    assume n: "\<not> (\<exists>k < 64. bit ib k)"
    have "ib = 0" by (rule bit_word_eqI) (use n in auto)
    with that show False by simp
  qed
  then have "1 < length ?bits"
    using some_bit by (force simp: radix_bits_def filter_empty_conv)
  then have "radix_inv sb ib ds ds 0 [(0, length ds, length ?bits - 1)]"
    by (auto simp: radix_inv_def agree_def)
  from radix_outer_ok [OF this m] obtain ds' where
    r: "radix_outer ?bits ds [(0, length ds, length ?bits - 1)] = Some ds'"
    "radix_inv sb ib ds ds' (length ds') []" by blast
  then have ms: "mset ds' = mset ds" by (simp add: radix_inv_def)
  then have "length ds' \<noteq> 0" using sz by (metis length_0_conv mset_zero_iff not_less_zero list.size(3))
  with r(2) have "\<exists>m < EIO_SORT_CUTOFF. \<forall>j < length ds'. dent_key (ds' ! m) \<le> dent_key (ds' ! j)"
    by (auto simp: radix_inv_def)
  with r(1) ms sz show ?thesis by (auto simp: eio_dent_radix_sort_def Let_def)
qed

section \<open>The insertion sort\<close>

lemma min_loop_spec:
  assumes "\<forall>d \<in> set ds. score_ok d" "0 < n" "n \<le> length ds" "m < length ds"
  shows "min_loop ds n m < length ds \<and> dent_key (ds ! min_loop ds n m) \<le> dent_key (ds ! m) \<and>
    (\<forall>i. 0 < i \<and> i < n \<longrightarrow> dent_key (ds ! min_loop ds n m) \<le> dent_key (ds ! i))"
  using assms(2-4)
proof (induction n arbitrary: m)
  case (Suc n)
  show ?case
  proof (cases "n = 0")
    case False
    let ?m = "if eio_dent_cmp (ds ! n) (ds ! m) < 0 then n else m"
    have ok: "score_ok (ds ! n)" "score_ok (ds ! m)" using assms(1) Suc.prems by auto
    have key: "dent_key (ds ! ?m) \<le> dent_key (ds ! n)" "dent_key (ds ! ?m) \<le> dent_key (ds ! m)"
      using eio_dent_cmp_sign(1) [OF ok] by auto
    have "min_loop ds n ?m < length ds \<and> dent_key (ds ! min_loop ds n ?m) \<le> dent_key (ds ! ?m) \<and>
      (\<forall>i. 0 < i \<and> i < n \<longrightarrow> dent_key (ds ! min_loop ds n ?m) \<le> dent_key (ds ! i))"
      using False Suc.prems by (intro Suc.IH) auto
    with key False show ?thesis by (auto simp: less_Suc_eq intro: order_trans)
  qed (use Suc.prems in auto)
qed simp

text \<open>
  The inner loop puts the value behind the last entry that is not greater; it stops in time when the
  first entry is not greater.
\<close>

lemma ins_loop_spec:
  assumes "\<forall>d \<in> set ds. score_ok d" "score_ok v" "Suc j < length ds" "dent_key (ds ! 0) \<le> dent_key v"
  shows "\<exists>k. 0 < k \<and> k \<le> Suc j \<and>
    ins_loop ds (Suc j) v = Some (take k ds @ v # drop k (take (Suc j) ds) @ drop (Suc (Suc j)) ds) \<and>
    dent_key (ds ! (k - 1)) \<le> dent_key v \<and> (\<forall>i. k \<le> i \<and> i \<le> j \<longrightarrow> dent_key v < dent_key (ds ! i))"
  using assms
proof (induction j arbitrary: ds)
  case 0
  have "ds ! 0 \<in> set ds" using 0(3) by (cases ds) auto
  then have "score_ok (ds ! 0)" using 0 by blast
  then have "\<not> eio_dent_cmp (ds ! 0) v > 0" using eio_dent_cmp_sign(2) 0 by auto
  then show ?case using 0 by (intro exI [of _ 1]) (simp add: upd_conv_take_nth_drop)
next
  case (Suc j)
  have ok: "score_ok (ds ! Suc j)" using Suc.prems by auto
  show ?case
  proof (cases "eio_dent_cmp (ds ! Suc j) v > 0")
    case False
    then have "dent_key (ds ! Suc j) \<le> dent_key v"
      using eio_dent_cmp_sign(2) [OF ok Suc.prems(2)] by auto
    then show ?thesis using False Suc.prems
      by (intro exI [of _ "Suc (Suc j)"]) (auto simp: upd_conv_take_nth_drop)
  next
    case True
    then have gt: "dent_key v < dent_key (ds ! Suc j)" using eio_dent_cmp_sign(2) [OF ok Suc.prems(2)] by simp
    let ?ds = "ds[Suc (Suc j) := ds ! Suc j]"
    have "set ?ds \<subseteq> insert (ds ! Suc j) (set ds)" by (rule set_update_subset_insert)
    then have "\<forall>d \<in> set ?ds. score_ok d" using Suc.prems(1) ok by blast
    from Suc.IH [OF this Suc.prems(2)] Suc.prems obtain k where k: "0 < k" "k \<le> Suc j"
      "ins_loop ?ds (Suc j) v = Some (take k ?ds @ v # drop k (take (Suc j) ?ds) @ drop (Suc (Suc j)) ?ds)"
      "dent_key (?ds ! (k - 1)) \<le> dent_key v" "\<forall>i. k \<le> i \<and> i \<le> j \<longrightarrow> dent_key v < dent_key (?ds ! i)"
      by auto
    have eq: "take k ?ds = take k ds" "take (Suc j) ?ds = take (Suc j) ds" using k(2) by simp_all
    have "drop (Suc (Suc j)) ?ds = ds ! Suc j # drop (Suc (Suc (Suc j))) ds"
      using Suc.prems(3) by (simp add: drop_update_swap Cons_nth_drop_Suc [symmetric])
    moreover have "drop k (take (Suc (Suc j)) ds) = drop k (take (Suc j) ds) @ [ds ! Suc j]"
      using k(2) Suc.prems(3) by (subst take_Suc_conv_app_nth) simp_all
    ultimately have "ins_loop ds (Suc (Suc j)) v =
        Some (take k ds @ v # drop k (take (Suc (Suc j)) ds) @ drop (Suc (Suc (Suc j))) ds)"
      using True k(3) eq by simp
    moreover have "dent_key v < dent_key (ds ! i)" if "k \<le> i" "i \<le> Suc j" for i
      using k(5) gt that by (cases "i = Suc j") auto
    ultimately show ?thesis using k(1,2,4) by (intro exI [of _ k]) auto
  qed
qed

definition keys :: "eio_dirent list \<Rightarrow> dent_key list" where
  "keys ds = map dent_key ds"

lemma ins_outer_spec:
  "\<forall>d \<in> set ds. score_ok d \<Longrightarrow> 0 < i \<Longrightarrow> i + n = length ds \<Longrightarrow>
   \<forall>j < length ds. dent_key (ds ! 0) \<le> dent_key (ds ! j) \<Longrightarrow> sorted (keys (take i ds)) \<Longrightarrow>
   \<exists>ds'. ins_outer n i ds = Some ds' \<and> mset ds' = mset ds \<and> sorted (keys ds')"
proof (induction n arbitrary: i ds)
  case 0
  then show ?case by simp
next
  case (Suc n)
  obtain j where i: "i = Suc j" using Suc.prems(2) by (cases i) auto
  let ?v = "ds ! i"
  have il: "i < length ds" using Suc.prems(3) by simp
  have "score_ok ?v" using Suc.prems(1) il by simp
  from ins_loop_spec [OF Suc.prems(1) this, of j] il i Suc.prems(4) obtain k where
    k: "0 < k" "k \<le> i" "dent_key (ds ! (k - 1)) \<le> dent_key ?v"
      "\<forall>m. k \<le> m \<and> m < i \<longrightarrow> dent_key ?v < dent_key (ds ! m)" and
    r: "ins_loop ds i ?v = Some (take k ds @ ?v # drop k (take i ds) @ drop (Suc i) ds)"
    by (auto simp: less_Suc_eq_le)
  define ds1 where "ds1 = take k ds @ ?v # drop k (take i ds) @ drop (Suc i) ds"
  have tk: "take i ds = take k ds @ drop k (take i ds)"
    using k(2) by (metis append_take_drop_id min.absorb1 take_take)
  have "mset ds1 = mset (take i ds) + {#?v#} + mset (drop (Suc i) ds)"
    unfolding ds1_def by (subst tk) simp
  also have "\<dots> = mset (take i ds @ ?v # drop (Suc i) ds)" by simp
  also have "take i ds @ ?v # drop (Suc i) ds = ds" using il by (rule id_take_nth_drop [symmetric])
  finally have ms: "mset ds1 = mset ds" .
  then have len: "length ds1 = length ds" by (metis size_mset)
  have t1: "take (Suc i) ds1 = take k ds @ ?v # drop k (take i ds)"
    unfolding ds1_def using k(2) il by (simp add: Suc_diff_le)
  have so: "sorted (keys (take k ds))" "sorted (keys (drop k (take i ds)))"
    using Suc.prems(5) k(2) unfolding keys_def
    by (metis min.absorb1 sorted_wrt_take take_map take_take, metis drop_map sorted_wrt_drop)
  have lo: "dent_key x \<le> dent_key ?v" if x: "x \<in> set (take k ds)" for x
  proof -
    obtain m where m: "m < k" "x = ds ! m" using x il k(2) by (auto simp: in_set_conv_nth)
    have "keys (take i ds) ! m \<le> keys (take i ds) ! (k - 1)"
      using Suc.prems(5) m k(1,2) il by (intro sorted_nth_mono) (auto simp: keys_def)
    then have "dent_key (ds ! m) \<le> dent_key (ds ! (k - 1))" using m k(1,2) il by (simp add: keys_def)
    with k(3) m show ?thesis by simp
  qed
  have hi: "dent_key ?v \<le> dent_key x" if x: "x \<in> set (drop k (take i ds))" for x
  proof -
    obtain m where m: "m < i - k" "x = ds ! (k + m)" using x il by (auto simp: in_set_conv_nth)
    with k(2,4) show ?thesis by (simp add: less_imp_le)
  qed
  have "sorted (keys (take (Suc i) ds1))"
    using so lo hi unfolding t1 keys_def by (force simp: sorted_append intro: order_trans)
  moreover have "ds1 ! 0 = ds ! 0" using k(1) il k(2) by (simp add: ds1_def nth_append)
  moreover have "\<forall>d \<in> set ds1. score_ok d" using Suc.prems(1) mset_eq_setD [OF ms] by simp
  moreover have "\<forall>j < length ds1. dent_key (ds ! 0) \<le> dent_key (ds1 ! j)"
    using Suc.prems(4) mset_eq_setD [OF ms] by (metis in_set_conv_nth)
  ultimately obtain ds' where "ins_outer n (Suc i) ds1 = Some ds'" "mset ds' = mset ds1" "sorted (keys ds')"
    using Suc.IH [of ds1 "Suc i"] Suc.prems(3) len by auto
  then show ?case using r ms by (simp add: ds1_def)
qed


lemma eio_dent_insertion_sort_ok:
  assumes ok: "\<forall>d \<in> set ds. score_ok d" and ne: "1 < length ds"
    and front: "EIO_SORT_FAST < length ds \<Longrightarrow>
      \<exists>m < EIO_SORT_CUTOFF. \<forall>j < length ds. dent_key (ds ! m) \<le> dent_key (ds ! j)"
  shows "\<exists>ds'. eio_dent_insertion_sort ds = Some ds' \<and> mset ds' = mset ds \<and> sorted (keys ds')"
proof -
  let ?n = "if length ds > EIO_SORT_FAST then EIO_SORT_CUTOFF + 1 else length ds"
  define m where "m = min_loop ds ?n 0"
  have n: "0 < ?n" "?n \<le> length ds" "0 < length ds"
    using ne by (auto simp: EIO_SORT_FAST_def EIO_SORT_CUTOFF_def)
  from min_loop_spec [OF ok n] have m: "m < length ds" "dent_key (ds ! m) \<le> dent_key (ds ! 0)"
    "\<And>i. 0 < i \<Longrightarrow> i < ?n \<Longrightarrow> dent_key (ds ! m) \<le> dent_key (ds ! i)"
    unfolding m_def by blast+
  have least: "dent_key (ds ! m) \<le> dent_key (ds ! j)" if j: "j < length ds" for j
  proof (cases "EIO_SORT_FAST < length ds")
    case True
    from front [OF this] obtain l where l: "l < EIO_SORT_CUTOFF" "dent_key (ds ! l) \<le> dent_key (ds ! j)"
      using j by blast
    have "dent_key (ds ! m) \<le> dent_key (ds ! l)" using m(2) m(3) [of l] l(1) True by (cases "l = 0") auto
    with l(2) show ?thesis by simp
  next
    case False
    then show ?thesis using m(2) m(3) [of j] j by (cases "j = 0") auto
  qed
  let ?ds = "ds[0 := ds ! m, m := ds ! 0]"
  have ms: "mset ?ds = mset ds" using m(1) n(3) by (simp add: mset_swap)
  have first: "?ds ! 0 = ds ! m" using n(3) m(1) by (cases "m = 0") (simp_all add: nth_list_update)
  have "?ds ! j \<in> set ds" if "j < length ?ds" for j
    using nth_mem [OF that] mset_eq_setD [OF ms] by simp
  then have "\<forall>j < length ?ds. dent_key (?ds ! 0) \<le> dent_key (?ds ! j)"
    unfolding first using least by (metis in_set_conv_nth)
  moreover have "\<forall>d \<in> set ?ds. score_ok d" using ok mset_eq_setD [OF ms] by simp
  moreover have "sorted (keys (take 1 ?ds))"
    using n(3) by (cases ?ds) (simp_all add: keys_def)
  moreover have "1 + (length ds - 1) = length ?ds" using ne by simp
  ultimately obtain ds' where "ins_outer (length ds - 1) 1 ?ds = Some ds'" "mset ds' = mset ?ds" "sorted (keys ds')"
    using ins_outer_spec [of ?ds 1 "length ds - 1"] zero_less_one by blast
  then show ?thesis using ms by (simp add: eio_dent_insertion_sort_def Let_def m_def)
qed

lemma eio_dent_sort_sorts_helper:
  assumes "\<forall>a \<in> set ds. \<forall>b \<in> set ds. masked sb ib a b"
    and "length ds \<le> EIO_SORT_FAST \<or> ib \<noteq> 0 \<or> (\<exists>j < 8. bit sb j)"
  shows "\<exists>ds'. eio_dent_sort ds sb ib = Some ds' \<and> mset ds' = mset ds \<and> sorted (map dent_key ds')"
proof (cases "length ds \<le> 1")
  case True
  then have "sorted (map dent_key ds)" by (cases ds rule: remdups_adj.cases) auto
  then show ?thesis using True by (simp add: eio_dent_sort_def)
next
  case False
  have "\<exists>ds1. eio_dent_radix_sort ds sb ib = Some ds1 \<and> mset ds1 = mset ds \<and>
    (EIO_SORT_FAST < length ds1 \<longrightarrow>
      (\<exists>m < EIO_SORT_CUTOFF. \<forall>j < length ds1. dent_key (ds1 ! m) \<le> dent_key (ds1 ! j)))"
  proof (cases "EIO_SORT_FAST < length ds")
    case True
    with eio_dent_radix_sort_ok [OF assms(1) this] assms(2) show ?thesis by auto
  next
    case small: False
    then show ?thesis by (simp add: eio_dent_radix_sort_def)
  qed
  then obtain ds1 where r: "eio_dent_radix_sort ds sb ib = Some ds1" "mset ds1 = mset ds"
    "EIO_SORT_FAST < length ds1 \<Longrightarrow>
      \<exists>m < EIO_SORT_CUTOFF. \<forall>j < length ds1. dent_key (ds1 ! m) \<le> dent_key (ds1 ! j)" by blast
  have "\<forall>d \<in> set ds1. score_ok d" using assms(1) mset_eq_setD [OF r(2)] by (auto simp: masked_def)
  moreover have "1 < length ds1" using False r(2) by (metis not_less size_mset)
  ultimately obtain ds' where "eio_dent_insertion_sort ds1 = Some ds'" "mset ds' = mset ds1" "sorted (keys ds')"
    using eio_dent_insertion_sort_ok [OF _ _ r(3)] by blast
  then show ?thesis using False r by (auto simp: eio_dent_sort_def keys_def)
qed

text \<open>
  C11: \<open>eio_dent_sort\<close> sorts: for scores of a non-negative \<open>signed char\<close> and masks that contain every bit
  in which two entries differ, it never reads outside an array, and returns a permutation of the entries in ascending
  order of score, then inode.  For more than 60 entries the masks must contain at least one bit.
\<close>

theorem eio_dent_sort_sorts:
  assumes "\<forall>a \<in> set ds. \<forall>b \<in> set ds. masked sb ib a b"
    and "length ds \<le> EIO_SORT_FAST \<or> ib \<noteq> 0 \<or> (\<exists>j < 8. bit sb j)"
  shows "\<exists>ds'. eio_dent_sort ds sb ib = Some ds' \<and> mset ds' = mset ds \<and> sorted (map dent_key ds')"
  by (rule eio_dent_sort_sorts_helper [OF assms])

definition sample_dirent :: "nat \<Rightarrow> eio_dirent" where
  "sample_dirent i = \<lparr>de_nameofs = int i, de_namelen = 1, de_type = 8, de_score = int (i mod 3),
     de_inode = of_nat (97 * i mod 64)\<rparr>"

lemma sample_dirent_masked: "masked 3 63 (sample_dirent a) (sample_dirent b)"
proof -
  have "take_bit 6 (97 * i mod 64) = 97 * i mod 64" for i :: nat
    by (intro take_bit_nat_eq_self) simp
  then have b6: "k < 6" if "bit (97 * i mod 64) k" for i k :: nat
    using that by (metis bit_take_bit_iff)
  have 1: "k < 6" if "bit (de_inode (sample_dirent i)) k" for i k
    using that b6 [of i k] by (simp add: sample_dirent_def bit_of_nat_iff)
  have "take_bit 2 (de_score (sample_dirent i)) = de_score (sample_dirent i)" for i
    by (intro take_bit_int_eq_self) (auto simp: sample_dirent_def)
  then have 2: "k < 2" if "bit (de_score (sample_dirent i)) k" for i k
    using that by (metis bit_take_bit_iff)
  have "bit (63 :: u64) k" if "k < 6" for k
    using that by (auto simp: less_Suc_eq numeral_eq_Suc bit_Suc)
  moreover have "bit (3 :: int) k" if "k < 2" for k
    using that by (auto simp: less_Suc_eq numeral_eq_Suc bit_Suc)
  moreover have "score_ok (sample_dirent i)" for i
    by (auto simp: score_ok_def sample_dirent_def)
  ultimately show ?thesis using 1 2 by (auto simp: masked_def)
qed

theorem eio_dent_sort_sorts_witness:
  "\<exists>ds'. eio_dent_sort (map sample_dirent [0..<100]) 3 63 = Some ds' \<and>
     mset ds' = mset (map sample_dirent [0..<100]) \<and> sorted (map dent_key ds')"
  using eio_dent_sort_sorts [of "map sample_dirent [0..<100]" 3 63] sample_dirent_masked by auto

text \<open>
  Without any bit in the masks the pre-pass of a directory of more than 60 entries partitions on
  the sentinel and then reads in front of its bit table.
\<close>

theorem eio_dent_sort_no_bits:
  assumes "EIO_SORT_FAST < length ds" "ib = 0" "\<not> (\<exists>j < 8. bit sb j)"
  shows "eio_dent_sort ds sb ib = None"
proof -
  have bits: "radix_bits sb ib = [Sentinel]"
    using assms(2,3) by (auto simp: radix_bits_def filter_empty_conv)
  obtain ds' c where "part_loop (dent_test Sentinel) ds 0 (length ds) = (ds', c)" by fastforce
  then have "radix_inner [Sentinel] ds 0 (length ds) 0 [] = None"
    using assms(1) by (simp add: radix_inner.simps EIO_SORT_CUTOFF_def EIO_SORT_FAST_def)
  then show ?thesis using assms(1)
    by (simp add: eio_dent_sort_def eio_dent_radix_sort_def bits EIO_SORT_FAST_def)
qed

theorem eio_dent_sort_no_bits_witness:
  "eio_dent_sort (replicate 61 \<lparr>de_nameofs = 0, de_namelen = 1, de_type = 8, de_score = 0, de_inode = 0\<rparr>) 0 0 = None"
  by (rule eio_dent_sort_no_bits) (simp_all add: EIO_SORT_FAST_def)

end
