(* ===== verification/Scandir.thy ===== *)
theory Scandir
  imports DentSort
begin

unbundle bit_operations_syntax

text \<open>
  Reading a directory: \<open>eio__scandir\<close> of \<open>libeio/eio.c\<close>, and the two functions of \<open>php8/php_eio.c\<close>
  that turn its buffers into PHP arrays.  The directory stream, the memory allocator and the
  cancellation flag that other threads may set are arguments.  The buffer of names is the string of
  the bytes written so far; its capacity is a member of the state.  \<open>int\<close> sizes are unbounded here.
\<close>

section \<open>Constants\<close>

definition EIO_READDIR_DENTS :: int where "EIO_READDIR_DENTS = 0x01"
definition EIO_READDIR_DIRS_FIRST :: int where "EIO_READDIR_DIRS_FIRST = 0x02"
definition EIO_READDIR_STAT_ORDER :: int where "EIO_READDIR_STAT_ORDER = 0x04"
definition EIO_READDIR_FOUND_UNKNOWN :: int where "EIO_READDIR_FOUND_UNKNOWN = 0x80"

definition EIO_DT_UNKNOWN :: u8 where "EIO_DT_UNKNOWN = 0"
definition EIO_DT_DIR :: u8 where "EIO_DT_DIR = 4"

definition ENOMEM :: int where "ENOMEM = 12"
definition ECANCELED :: int where "ECANCELED = 125"

definition NUL :: char where "NUL = CHR 0x00"

section \<open>The environment and the state of the loop\<close>

text \<open>
  \<open>se_open\<close> is the outcome of \<open>openat\<close> and \<open>fdopendir\<close>: an \<open>errno\<close>, or the entries \<open>readdir\<close> will
  return and the \<open>errno\<close> it leaves at the end.  \<open>se_cancelled i\<close> is the flag seen after entry \<open>i\<close>,
  \<open>se_malloc n\<close> tells whether an allocation of \<open>n\<close> bytes succeeds.
\<close>

record dir_entry =
  dn_name :: string
  dn_type :: u8
  dn_ino :: u64

record scandir_env =
  se_open :: "int + dir_entry list \<times> int"
  se_cancelled :: "nat \<Rightarrow> bool"
  se_malloc :: "int \<Rightarrow> bool"

record scan_st =
  sc_names :: string
  sc_namesalloc :: int
  sc_dents :: "eio_dirent list option"
  sc_dentalloc :: int
  sc_dentoffs :: int
  sc_flags :: int
  sc_bits :: u64

definition sizeof_eio_dirent :: int where "sizeof_eio_dirent = 16"

text \<open>Reading a C string at an index up to its terminator.\<close>

definition c_at :: "string \<Rightarrow> nat \<Rightarrow> char" where
  "c_at s i = (if i < length s then s ! i else NUL)"

definition skip_entry :: "string \<Rightarrow> bool" where
  "skip_entry name \<longleftrightarrow> \<not> (c_at name 0 \<noteq> CHR ''.'' \<or>
     (c_at name 1 \<noteq> NUL \<and> (c_at name 1 \<noteq> CHR ''.'' \<or> c_at name 2 \<noteq> NUL)))"

section \<open>Adding an entry\<close>

text \<open>
  Doubling the name buffer until the name fits; \<open>None\<close> when \<open>realloc\<close> fails.  A capacity of 0 would
  never grow; the loop starts with 4064.
\<close>

function grow_names :: "(int \<Rightarrow> bool) \<Rightarrow> int \<Rightarrow> int \<Rightarrow> int option" where
  "grow_names malloc need cap =
     (if need \<le> cap then Some cap
      else if cap \<le> 0 then None
      else if malloc (cap * 2) then grow_names malloc need (cap * 2)
      else None)"
  by pat_completeness auto
termination
  by (relation "measure (\<lambda>(malloc, need, cap). nat (need - cap))") auto

declare grow_names.simps [simp del]

text \<open>The switch on \<open>d_type\<close> with the types Linux defines; it also tells whether the type was unknown.\<close>

definition dent_type :: "u8 \<Rightarrow> u8 \<times> bool" where
  "dent_type t = (if t \<in> {1, 2, 4, 6, 8, 10, 12, 14} then (t, False) else (EIO_DT_UNKNOWN, True))"

definition dent_score :: "int \<Rightarrow> u8 \<Rightarrow> string \<Rightarrow> int" where
  "dent_score flags type name =
     (let len = int (length name) + 1 in
      if flags AND EIO_READDIR_DIRS_FIRST \<noteq> 0 then
        (if type = EIO_DT_UNKNOWN then
           (if c_at name 0 = CHR ''.'' then 1
            else if CHR ''.'' \<notin> set name then
              (if len \<le> 2 then 4 - len else if len \<le> 4 then 4 else if len \<le> 7 then 5 else 6)
            else 7)
         else if type = EIO_DT_DIR then 0 else 7)
      else 7)"

text \<open>
  The body of the loop for an entry that is not skipped.  The flag in the result tells whether the
  loop goes on; it is left when the array of entries cannot grow.  The function as a whole is \<open>None\<close>
  when the names cannot grow, because the name is then copied through the null pointer.
\<close>

definition scan_entry :: "scandir_env \<Rightarrow> dir_entry \<Rightarrow> scan_st \<Rightarrow> (scan_st \<times> bool) option" where
  "scan_entry env e st =
     (let name = dn_name e; len = int (length name) + 1; namesoffs = int (length (sc_names st)) in
      case grow_names (se_malloc env) (namesoffs + len) (sc_namesalloc st) of
        None \<Rightarrow> None
      | Some cap \<Rightarrow>
          (let st = st\<lparr>sc_namesalloc := cap, sc_names := sc_names st @ name @ [NUL]\<rparr> in
           case sc_dents st of
             None \<Rightarrow> Some (st\<lparr>sc_dentoffs := sc_dentoffs st + 1\<rparr>, True)
           | Some dents \<Rightarrow>
               if sc_dentoffs st = sc_dentalloc st \<and>
                  \<not> se_malloc env (sc_dentalloc st * 2 * sizeof_eio_dirent)
               then Some (st\<lparr>sc_dentalloc := sc_dentalloc st * 2, sc_dents := None\<rparr>, False)
               else
                 (let st = (if sc_dentoffs st = sc_dentalloc st
                            then st\<lparr>sc_dentalloc := sc_dentalloc st * 2\<rparr> else st);
                      (type, unknown) = dent_type (dn_type e);
                      flags = (if unknown then sc_flags st OR EIO_READDIR_FOUND_UNKNOWN else sc_flags st);
                      ent = \<lparr>de_nameofs = namesoffs, de_namelen = of_nat (length name), de_type = type,
                             de_score = dent_score flags type name, de_inode = dn_ino e\<rparr>
                  in Some (st\<lparr>sc_dents := Some (dents @ [ent]), sc_flags := flags,
                              sc_bits := sc_bits st OR dn_ino e,
                              sc_dentoffs := sc_dentoffs st + 1\<rparr>, True))))"

text \<open>
  The loop over the stream: the final state, whether the end of the stream was reached, and \<open>errno\<close>.
\<close>

fun scan_loop ::
    "scandir_env \<Rightarrow> int \<Rightarrow> nat \<Rightarrow> dir_entry list \<Rightarrow> scan_st \<Rightarrow> (scan_st \<times> bool \<times> int) option" where
  "scan_loop env endno i [] st = Some (st, True, endno)"
| "scan_loop env endno i (e # es) st =
     (case (if skip_entry (dn_name e) then Some (st, True) else scan_entry env e st) of
        None \<Rightarrow> None
      | Some (st, go_on) \<Rightarrow>
          if \<not> go_on then Some (st, False, ENOMEM)
          else if se_cancelled env i then Some (st, False, ECANCELED)
          else scan_loop env endno (Suc i) es st)"

section \<open>Ordering the entries\<close>

text \<open>
  The partition of known directories to the front; the loop is the one of the radix pre-pass with
  another test, but checks its condition first.
\<close>

definition dirs_to_front :: "eio_dirent list \<Rightarrow> eio_dirent list \<times> nat" where
  "dirs_to_front dents =
     (if dents = [] then (dents, 0)
      else part_loop (\<lambda>d. de_type d \<noteq> EIO_DT_DIR) dents 0 (length dents))"

definition scandir_sort :: "int \<Rightarrow> u64 \<Rightarrow> eio_dirent list \<Rightarrow> eio_dirent list option" where
  "scandir_sort flags inode_bits dents =
     (if flags AND EIO_READDIR_STAT_ORDER \<noteq> 0 then
        eio_dent_sort dents (if flags AND EIO_READDIR_DIRS_FIRST \<noteq> 0 then 7 else 0) inode_bits
      else if flags AND EIO_READDIR_DIRS_FIRST \<noteq> 0 then
        (if flags AND EIO_READDIR_FOUND_UNKNOWN \<noteq> 0 then eio_dent_sort dents 7 inode_bits
         else (case dirs_to_front dents of
           (dents, dir) \<Rightarrow> map_option (\<lambda>ds. ds @ drop dir dents) (eio_dent_sort (take dir dents) 0 inode_bits)))
      else Some dents)"

section \<open>The whole function\<close>

text \<open>The result is \<open>errno\<close> and the request.\<close>

definition eio__scandir :: "scandir_env \<Rightarrow> eio_req \<Rightarrow> (int \<times> eio_req) option" where
  "eio__scandir env req =
     (let flags = rq_int1 req;
          req = req\<lparr>rq_result := -1\<rparr>;
          flags = (if flags AND EIO_READDIR_DENTS = 0
                   then flags AND NOT (EIO_READDIR_DIRS_FIRST OR EIO_READDIR_STAT_ORDER) else flags)
      in case se_open env of
        Inl e \<Rightarrow> Some (e, req)
      | Inr (es, endno) \<Rightarrow>
          (let dents = (if flags \<noteq> 0 \<and> se_malloc env (128 * sizeof_eio_dirent) then Some [] else None);
               names = se_malloc env 4064;
               req = req\<lparr>rq_flags := rq_flags req OR EIO_FLAG_PTR1_FREE OR EIO_FLAG_PTR2_FREE,
                         rq_ptr1 := (case dents of None \<Rightarrow> MNull | Some ds \<Rightarrow> MDents ds),
                         rq_ptr2 := (if names then MBytes [] else MNull)\<rparr>
           in if \<not> names \<or> flags \<noteq> 0 \<and> dents = None then Some (ENOMEM, req)
              else (case scan_loop env endno 0 es
                  \<lparr>sc_names = [], sc_namesalloc = 4064, sc_dents = dents, sc_dentalloc = 128,
                   sc_dentoffs = 0, sc_flags = flags, sc_bits = 0\<rparr> of
                None \<Rightarrow> None
              | Some (st, done, errno) \<Rightarrow>
                  (let req = req\<lparr>rq_ptr1 := (case sc_dents st of None \<Rightarrow> MNull | Some ds \<Rightarrow> MDents ds),
                                 rq_ptr2 := MBytes (sc_names st)\<rparr>
                   in if \<not> done \<or> errno \<noteq> 0 then Some (errno, req)
                      else (let req = req\<lparr>rq_int1 := sc_flags st, rq_result := sc_dentoffs st\<rparr> in
                        case sc_dents st of
                          None \<Rightarrow> Some (0, req)
                        | Some ds \<Rightarrow> map_option (\<lambda>ds. (0, req\<lparr>rq_ptr1 := MDents ds\<rparr>))
                            (scandir_sort (sc_flags st) (sc_bits st) ds))))))"

section \<open>The PHP side\<close>

text \<open>\<open>strlen\<close> and the bytes before the terminator.\<close>

definition c_string :: "string \<Rightarrow> string" where
  "c_string s = takeWhile (\<lambda>c. c \<noteq> NUL) s"

text \<open>\<open>php_eio_set_readdir_names\<close>: walk over the terminated names.\<close>

fun readdir_names :: "nat \<Rightarrow> string \<Rightarrow> string list" where
  "readdir_names 0 names = []"
| "readdir_names (Suc n) names =
     (let name = c_string names in name # readdir_names n (drop (Suc (length name)) names))"

definition php_eio_set_readdir_names :: "eio_req \<Rightarrow> string list" where
  "php_eio_set_readdir_names req =
     (case rq_ptr2 req of MBytes names \<Rightarrow> readdir_names (nat (rq_result req)) names | _ \<Rightarrow> [])"

text \<open>\<open>php_eio_set_readdir_dent_and_names\<close>: an array of name, type and inode for every entry.\<close>

definition dent_array :: "string \<Rightarrow> eio_dirent \<Rightarrow> string \<times> int \<times> int" where
  "dent_array names ent =
     (take (unat (de_namelen ent)) (drop (nat (de_nameofs ent)) names), uint (de_type ent), sint (de_inode ent))"

definition php_eio_set_readdir_dent_and_names :: "eio_req \<Rightarrow> string list \<times> (string \<times> int \<times> int) list" where
  "php_eio_set_readdir_dent_and_names req =
     (case (rq_ptr1 req, rq_ptr2 req) of
        (MDents ents, MBytes names) \<Rightarrow>
          (let a = map (dent_array names) (take (nat (rq_result req)) ents) in (map fst a, a))
      | _ \<Rightarrow> ([], []))"

section \<open>What the loop leaves\<close>

definition visible :: "dir_entry list \<Rightarrow> dir_entry list" where
  "visible es = filter (\<lambda>e. \<not> skip_entry (dn_name e)) es"

definition names_of :: "dir_entry list \<Rightarrow> string" where
  "names_of es = concat (map (\<lambda>e. dn_name e @ [NUL]) es)"

definition ent_of :: "int \<Rightarrow> int \<Rightarrow> dir_entry \<Rightarrow> eio_dirent" where
  "ent_of flags offs e =
     \<lparr>de_nameofs = offs, de_namelen = of_nat (length (dn_name e)), de_type = fst (dent_type (dn_type e)),
      de_score = dent_score flags (fst (dent_type (dn_type e))) (dn_name e), de_inode = dn_ino e\<rparr>"

fun ents_of :: "int \<Rightarrow> int \<Rightarrow> dir_entry list \<Rightarrow> eio_dirent list" where
  "ents_of flags offs [] = []"
| "ents_of flags offs (e # es) = ent_of flags offs e # ents_of flags (offs + int (length (dn_name e)) + 1) es"

definition found_unknown :: "dir_entry list \<Rightarrow> bool" where
  "found_unknown es \<longleftrightarrow> (\<exists>e \<in> set es. snd (dent_type (dn_type e)))"

definition inodes_of :: "dir_entry list \<Rightarrow> u64" where
  "inodes_of es = foldr (\<lambda>e b. dn_ino e OR b) es 0"

lemma visible_simps [simp]:
  "visible [] = []"
  "visible (e # es) = (if skip_entry (dn_name e) then visible es else e # visible es)"
  by (simp_all add: visible_def)

lemma names_of_simps [simp]:
  "names_of [] = []" "names_of (e # es) = dn_name e @ NUL # names_of es"
  by (simp_all add: names_of_def)

lemma found_unknown_simps [simp]:
  "found_unknown [] = False"
  "found_unknown (e # es) = (snd (dent_type (dn_type e)) \<or> found_unknown es)"
  by (auto simp: found_unknown_def)

lemma inodes_of_simps [simp]: "inodes_of [] = 0" "inodes_of (e # es) = dn_ino e OR inodes_of es"
  by (simp_all add: inodes_of_def)

lemma bit_128: "bit (128 :: int) n \<longleftrightarrow> n = 7"
  using bit_exp_iff [where 'a = int, of 7 n] by simp

lemma found_unknown_flag:
  "(f OR EIO_READDIR_FOUND_UNKNOWN) AND EIO_READDIR_DIRS_FIRST = f AND EIO_READDIR_DIRS_FIRST"
  "(f OR EIO_READDIR_FOUND_UNKNOWN) AND EIO_READDIR_STAT_ORDER = f AND EIO_READDIR_STAT_ORDER"
  "(f OR EIO_READDIR_FOUND_UNKNOWN) OR EIO_READDIR_FOUND_UNKNOWN = f OR EIO_READDIR_FOUND_UNKNOWN"
  "(f OR EIO_READDIR_FOUND_UNKNOWN) AND EIO_READDIR_FOUND_UNKNOWN \<noteq> 0"
proof -
  have b: "bit (2 :: int) n \<longleftrightarrow> n = 1" "bit (4 :: int) n \<longleftrightarrow> n = 2" for n
    using bit_exp_iff [where 'a = int, of 1 n] bit_exp_iff [where 'a = int, of 2 n] by auto
  show "(f OR EIO_READDIR_FOUND_UNKNOWN) AND EIO_READDIR_DIRS_FIRST = f AND EIO_READDIR_DIRS_FIRST"
    unfolding EIO_READDIR_FOUND_UNKNOWN_def EIO_READDIR_DIRS_FIRST_def
    by (rule bit_eqI) (auto simp: bit_simps b bit_128)
  show "(f OR EIO_READDIR_FOUND_UNKNOWN) AND EIO_READDIR_STAT_ORDER = f AND EIO_READDIR_STAT_ORDER"
    unfolding EIO_READDIR_FOUND_UNKNOWN_def EIO_READDIR_STAT_ORDER_def
    by (rule bit_eqI) (auto simp: bit_simps b bit_128)
  show "(f OR EIO_READDIR_FOUND_UNKNOWN) OR EIO_READDIR_FOUND_UNKNOWN = f OR EIO_READDIR_FOUND_UNKNOWN"
    by (simp add: or.assoc)
  have "bit ((f OR EIO_READDIR_FOUND_UNKNOWN) AND EIO_READDIR_FOUND_UNKNOWN) 7"
    by (simp add: bit_simps EIO_READDIR_FOUND_UNKNOWN_def bit_128)
  then show "(f OR EIO_READDIR_FOUND_UNKNOWN) AND EIO_READDIR_FOUND_UNKNOWN \<noteq> 0" by force
qed

lemma dent_score_flag: "dent_score (f OR EIO_READDIR_FOUND_UNKNOWN) = dent_score f"
  by (intro ext) (simp add: dent_score_def found_unknown_flag)

lemma ents_of_flag: "ents_of (f OR EIO_READDIR_FOUND_UNKNOWN) offs es = ents_of f offs es"
  by (induction es arbitrary: offs) (simp_all add: ent_of_def dent_score_flag)

lemma grow_names_ok:
  "0 < cap \<Longrightarrow> \<forall>n. malloc n \<Longrightarrow> \<exists>cap'. grow_names malloc need cap = Some cap' \<and> need \<le> cap' \<and> cap \<le> cap'"
proof (induction malloc need cap rule: grow_names.induct)
  case (1 malloc need cap)
  show ?case
  proof (cases "need \<le> cap")
    case True
    then show ?thesis by (simp add: grow_names.simps)
  next
    case False
    have "malloc (cap * 2)" "\<not> cap \<le> 0" "0 < cap * 2" using "1.prems" by auto
    with "1.IH" [OF False _ _ _ "1.prems"(2)] obtain cap' where
      c: "grow_names malloc need (cap * 2) = Some cap'" "need \<le> cap'" "cap * 2 \<le> cap'" by blast
    have "grow_names malloc need cap = Some cap'"
      using False "1.prems" c(1) by (subst grow_names.simps) simp
    with c "1.prems"(1) show ?thesis by auto
  qed
qed

text \<open>The buffers are large enough for what is in them.\<close>

definition fits :: "scan_st \<Rightarrow> bool" where
  "fits st \<longleftrightarrow> 0 < sc_namesalloc st \<and> int (length (sc_names st)) \<le> sc_namesalloc st \<and>
     0 < sc_dentalloc st \<and>
     (\<forall>ds. sc_dents st = Some ds \<longrightarrow> sc_dentoffs st = int (length ds) \<and> sc_dentoffs st \<le> sc_dentalloc st)"

lemma scan_entry_ok:
  assumes "fits st" "\<forall>n. se_malloc env n"
  shows "\<exists>st'. scan_entry env e st = Some (st', True) \<and> fits st' \<and>
    sc_names st' = sc_names st @ dn_name e @ [NUL] \<and> sc_dentoffs st' = sc_dentoffs st + 1 \<and>
    (case sc_dents st of
       None \<Rightarrow> sc_dents st' = None \<and> sc_flags st' = sc_flags st \<and> sc_bits st' = sc_bits st
     | Some ds \<Rightarrow>
         sc_dents st' = Some (ds @ [ent_of (sc_flags st) (int (length (sc_names st))) e]) \<and>
         sc_flags st' = (if snd (dent_type (dn_type e)) then sc_flags st OR EIO_READDIR_FOUND_UNKNOWN
                         else sc_flags st) \<and>
         sc_bits st' = sc_bits st OR dn_ino e)"
proof -
  obtain cap where cap: "grow_names (se_malloc env) (int (length (sc_names st)) + (int (length (dn_name e)) + 1))
      (sc_namesalloc st) = Some cap"
    "int (length (sc_names st)) + (int (length (dn_name e)) + 1) \<le> cap" "sc_namesalloc st \<le> cap"
    using grow_names_ok [OF _ assms(2)] assms(1) by (force simp: fits_def)
  obtain t u where tu: "dent_type (dn_type e) = (t, u)" by fastforce
  show ?thesis
    using assms cap tu
    by (auto simp: scan_entry_def Let_def fits_def ent_of_def dent_score_flag split: option.splits)
qed

lemma scan_loop_ok:
  "fits st \<Longrightarrow> \<forall>n. se_malloc env n \<Longrightarrow> \<forall>i. \<not> se_cancelled env i \<Longrightarrow>
   \<exists>st'. scan_loop env endno i es st = Some (st', True, endno) \<and> fits st' \<and>
     sc_names st' = sc_names st @ names_of (visible es) \<and>
     sc_dentoffs st' = sc_dentoffs st + int (length (visible es)) \<and>
     (case sc_dents st of
        None \<Rightarrow> sc_dents st' = None \<and> sc_flags st' = sc_flags st
      | Some ds \<Rightarrow>
          sc_dents st' = Some (ds @ ents_of (sc_flags st) (int (length (sc_names st))) (visible es)) \<and>
          sc_flags st' = (if found_unknown (visible es) then sc_flags st OR EIO_READDIR_FOUND_UNKNOWN
                          else sc_flags st) \<and>
          sc_bits st' = sc_bits st OR inodes_of (visible es))"
proof (induction es arbitrary: i st)
  case Nil
  then show ?case by (auto split: option.splits)
next
  case (Cons e es)
  show ?case
  proof (cases "skip_entry (dn_name e)")
    case True
    then have v: "visible (e # es) = visible es"
      and l: "scan_loop env endno i (e # es) st = scan_loop env endno (Suc i) es st"
      using Cons.prems(3) by simp_all
    show ?thesis unfolding v l by (rule Cons.IH [OF Cons.prems])
  next
    case False
    from scan_entry_ok [OF Cons.prems(1,2), of e] obtain st1 where
      st1: "scan_entry env e st = Some (st1, True)" "fits st1"
        "sc_names st1 = sc_names st @ dn_name e @ [NUL]" "sc_dentoffs st1 = sc_dentoffs st + 1"
        "case sc_dents st of
           None \<Rightarrow> sc_dents st1 = None \<and> sc_flags st1 = sc_flags st \<and> sc_bits st1 = sc_bits st
         | Some ds \<Rightarrow>
             sc_dents st1 = Some (ds @ [ent_of (sc_flags st) (int (length (sc_names st))) e]) \<and>
             sc_flags st1 = (if snd (dent_type (dn_type e)) then sc_flags st OR EIO_READDIR_FOUND_UNKNOWN
                             else sc_flags st) \<and>
             sc_bits st1 = sc_bits st OR dn_ino e" by blast
    have offs: "int (length (sc_names st1)) = int (length (sc_names st)) + int (length (dn_name e)) + 1"
      using st1(3) by simp
    from Cons.IH [OF st1(2) Cons.prems(2,3), of "Suc i"] show ?thesis
      using False st1 Cons.prems(3) offs
      by (cases "sc_dents st"; cases "snd (dent_type (dn_type e))")
        (auto simp: ents_of_flag found_unknown_flag or.assoc add.commute add.left_commute)
  qed
qed


section \<open>The names\<close>

lemma readdir_names_of:
  "\<forall>e \<in> set es. NUL \<notin> set (dn_name e) \<Longrightarrow> readdir_names (length es) (names_of es) = map dn_name es"
proof (induction es)
  case (Cons e es)
  then have "c_string (dn_name e @ NUL # names_of es) = dn_name e"
    by (auto simp: c_string_def takeWhile_append)
  with Cons show ?case by (simp add: Let_def)
qed simp

lemma dent_array_ents_of:
  "\<forall>e \<in> set es. length (dn_name e) < 65536 \<Longrightarrow>
   map (dent_array (pre @ names_of es)) (ents_of flags (int (length pre)) es) =
   map (\<lambda>e. (dn_name e, uint (fst (dent_type (dn_type e))), sint (dn_ino e))) es"
proof (induction es arbitrary: pre)
  case (Cons e es)
  have "int (length pre) + int (length (dn_name e)) + 1 = int (length (pre @ dn_name e @ [NUL]))" by simp
  with Cons.IH [of "pre @ dn_name e @ [NUL]"] Cons.prems
  have "map (dent_array (pre @ names_of (e # es))) (ents_of flags (int (length pre) + int (length (dn_name e)) + 1) es) =
      map (\<lambda>e. (dn_name e, uint (fst (dent_type (dn_type e))), sint (dn_ino e))) es"
    by (simp add: add.commute add.left_commute)
  moreover have "unat (of_nat (length (dn_name e)) :: u16) = length (dn_name e)"
    using Cons.prems by (simp add: unsigned_of_nat take_bit_nat_eq_self)
  moreover have "dent_array (pre @ names_of (e # es)) (ent_of flags (int (length pre)) e) =
      (dn_name e, uint (fst (dent_type (dn_type e))), sint (dn_ino e))"
    if "unat (of_nat (length (dn_name e)) :: u16) = length (dn_name e)"
    using that by (simp add: dent_array_def ent_of_def)
  ultimately show ?case by (simp only: ents_of.simps list.map)
qed simp

lemma set_ents_of: "d \<in> set (ents_of flags offs es) \<Longrightarrow> \<exists>e \<in> set es. \<exists>o'. d = ent_of flags o' e"
  by (induction es arbitrary: offs) auto

lemma length_ents_of [simp]: "length (ents_of flags offs es) = length es"
  by (induction es arbitrary: offs) auto

lemma bit_inodes_of: "bit (inodes_of es) k \<longleftrightarrow> (\<exists>e \<in> set es. bit (dn_ino e) k)"
  by (induction es) (auto simp: bit_simps)

lemma inodes_of_0: "inodes_of es = 0 \<longleftrightarrow> (\<forall>e \<in> set es. dn_ino e = 0)"
  by (metis bit_0_eq bit_inodes_of bit_eqI bot_apply bot_bool_def)

section \<open>Sorting the result\<close>

lemma dent_score_range:
  "0 \<le> dent_score f t n" "dent_score f t n < 8"
  "f AND EIO_READDIR_DIRS_FIRST = 0 \<Longrightarrow> dent_score f t n = 7"
  "f AND EIO_READDIR_DIRS_FIRST \<noteq> 0 \<Longrightarrow> t = EIO_DT_DIR \<Longrightarrow> dent_score f t n = 0"
  by (auto simp: dent_score_def Let_def EIO_DT_DIR_def EIO_DT_UNKNOWN_def)

lemma score_bits_8:
  fixes i :: int
  assumes "0 \<le> i" "i < 8" "bit i j"
  shows "bit (7 :: int) j"
proof -
  from assms(1,2) have "take_bit 3 i = i" by (intro take_bit_int_eq_self) auto
  with assms(3) have "j < 3" by (metis bit_take_bit_iff)
  then have "bit (mask 3 :: int) j" by (simp add: bit_mask_iff)
  moreover have "mask 3 = (7 :: int)" by (simp add: mask_eq_exp_minus_1)
  ultimately show ?thesis by metis
qed

lemma masked_ents:
  assumes "\<forall>d \<in> set ds. \<exists>e \<in> set es. \<exists>o'. d = ent_of f o' e" "a \<in> set ds" "b \<in> set ds"
    and "sb = 7 \<or> de_score a = de_score b"
  shows "masked sb (inodes_of es) a b"
proof -
  obtain e o1 e' o2 where e: "e \<in> set es" "a = ent_of f o1 e" "e' \<in> set es" "b = ent_of f o2 e'"
    using assms(1-3) by meson
  have r: "0 \<le> de_score a" "de_score a < 8" "0 \<le> de_score b" "de_score b < 8"
    using e dent_score_range(1,2) [of f] by (auto simp: ent_of_def)
  then have "score_ok a" "score_ok b" by (simp_all add: score_ok_def)
  moreover have "bit sb j" if d: "bit (de_score a) j \<noteq> bit (de_score b) j" for j
  proof -
    have "sb = 7" using assms(4) d by metis
    moreover have "bit (7 :: int) j"
      using d score_bits_8 [OF r(1,2), of j] score_bits_8 [OF r(3,4), of j] by blast
    ultimately show ?thesis by simp
  qed
  moreover have "bit (inodes_of es) k" if "bit (de_inode a) k \<noteq> bit (de_inode b) k" for k
    using that e by (auto simp: bit_inodes_of ent_of_def)
  ultimately show ?thesis by (auto simp: masked_def)
qed

definition dent_order :: "int \<Rightarrow> eio_dirent list \<Rightarrow> bool" where
  "dent_order flags ds \<longleftrightarrow>
     (if flags AND EIO_READDIR_STAT_ORDER \<noteq> 0 then sorted (map dent_key ds)
      else if flags AND EIO_READDIR_DIRS_FIRST \<noteq> 0 then
        (if flags AND EIO_READDIR_FOUND_UNKNOWN \<noteq> 0 then sorted (map dent_key ds)
         else (\<exists>k. (\<forall>d \<in> set (take k ds). de_type d = EIO_DT_DIR) \<and>
                   (\<forall>d \<in> set (drop k ds). de_type d \<noteq> EIO_DT_DIR) \<and>
                   sorted (map de_inode (take k ds))))
      else True)"

lemma sorted_inodes:
  "sorted (map dent_key ds) \<Longrightarrow> \<forall>a \<in> set ds. \<forall>b \<in> set ds. de_score a = de_score b \<Longrightarrow> sorted (map de_inode ds)"
  unfolding sorted_wrt_map dent_key_def less_eq_dent_key_def dent_key.sel
  by (erule sorted_wrt_mono_rel [rotated]) (metis order_less_irrefl)

lemma scandir_sort_ok:
  assumes src: "\<forall>d \<in> set ds. \<exists>e \<in> set es. \<exists>o'. d = ent_of f o' e"
    and same: "g AND EIO_READDIR_DIRS_FIRST = f AND EIO_READDIR_DIRS_FIRST"
    and some_bit: "length ds \<le> EIO_SORT_FAST \<or> inodes_of es \<noteq> 0"
  shows "\<exists>ds'. scandir_sort g (inodes_of es) ds = Some ds' \<and> mset ds' = mset ds \<and> dent_order g ds'"
proof (cases "g AND EIO_READDIR_STAT_ORDER \<noteq> 0 \<or>
    g AND EIO_READDIR_DIRS_FIRST \<noteq> 0 \<and> g AND EIO_READDIR_FOUND_UNKNOWN \<noteq> 0")
  case True
  define sb :: int where "sb = (if g AND EIO_READDIR_DIRS_FIRST \<noteq> 0 then 7 else 0)"
  have "\<forall>a \<in> set ds. \<forall>b \<in> set ds. masked sb (inodes_of es) a b"
  proof (intro ballI masked_ents [OF src])
    fix a b
    assume "a \<in> set ds" "b \<in> set ds"
    then obtain e o1 e' o2 where "a = ent_of f o1 e" "b = ent_of f o2 e'" using src by meson
    then show "sb = 7 \<or> de_score a = de_score b"
      using same dent_score_range(3) [of f] by (auto simp: sb_def ent_of_def)
  qed
  from eio_dent_sort_sorts_helper [OF this] some_bit obtain ds' where
    "eio_dent_sort ds sb (inodes_of es) = Some ds'" "mset ds' = mset ds" "sorted (map dent_key ds')" by blast
  moreover have "scandir_sort g (inodes_of es) ds = eio_dent_sort ds sb (inodes_of es)"
    using True by (auto simp: scandir_sort_def sb_def)
  ultimately show ?thesis using True by (auto simp: dent_order_def)
next
  case False
  show ?thesis
  proof (cases "g AND EIO_READDIR_DIRS_FIRST \<noteq> 0")
    case True
    obtain ds1 k where p: "dirs_to_front ds = (ds1, k)" by fastforce
    have "mset ds1 = mset ds \<and> k \<le> length ds1 \<and>
      (\<forall>d \<in> set (take k ds1). de_type d = EIO_DT_DIR) \<and> (\<forall>d \<in> set (drop k ds1). de_type d \<noteq> EIO_DT_DIR)"
    proof (cases "ds = []")
      case False
      then have "part_loop (\<lambda>d. de_type d \<noteq> EIO_DT_DIR) ds 0 (length ds) = (ds1, k)"
        using p by (simp add: dirs_to_front_def)
      from part_loop_spec [OF this] False show ?thesis by (auto simp: in_set_conv_nth)
    qed (use p in \<open>simp add: dirs_to_front_def\<close>)
    then have P: "mset ds1 = mset ds" "k \<le> length ds1" "\<forall>d \<in> set (take k ds1). de_type d = EIO_DT_DIR"
      "\<forall>d \<in> set (drop k ds1). de_type d \<noteq> EIO_DT_DIR" by blast+
    have sub: "set (take k ds1) \<subseteq> set ds" using mset_eq_setD [OF P(1)] set_take_subset by metis
    have sc: "de_score a = 0" if "a \<in> set (take k ds1)" for a
    proof -
      have "a \<in> set ds" using that sub by blast
      then obtain e o1 where "a = ent_of f o1 e" using src by meson
      then show ?thesis using P(3) that dent_score_range(4) [of f] same True by (auto simp: ent_of_def)
    qed
    have "\<forall>a \<in> set (take k ds1). \<forall>b \<in> set (take k ds1). masked 0 (inodes_of es) a b"
      using sc sub by (intro ballI masked_ents [OF src]) auto
    moreover have "length (take k ds1) \<le> EIO_SORT_FAST \<or> inodes_of es \<noteq> 0"
      using some_bit P(1) by (metis length_take min.coboundedI1 mset_eq_length)
    ultimately obtain ds2 where s: "eio_dent_sort (take k ds1) 0 (inodes_of es) = Some ds2"
      "mset ds2 = mset (take k ds1)" "sorted (map dent_key ds2)"
      using eio_dent_sort_sorts_helper [of "take k ds1" 0 "inodes_of es"] by blast
    have "set ds2 = set (take k ds1)" using mset_eq_setD [OF s(2)] .
    then have "sorted (map de_inode ds2)" using sorted_inodes [OF s(3)] sc by simp
    moreover have "length ds2 = k" using s(2) P(2) by (metis length_take min_absorb2 mset_eq_length)
    moreover have "mset (ds2 @ drop k ds1) = mset ds"
      using s(2) P(1) by (metis append_take_drop_id mset_append)
    ultimately show ?thesis
      using True False p s(1) P(3,4) \<open>set ds2 = set (take k ds1)\<close>
      by (intro exI [of _ "ds2 @ drop k ds1"]) (auto simp: scandir_sort_def dent_order_def intro!: exI [of _ k])
  next
    case f: False
    with False show ?thesis by (auto simp: scandir_sort_def dent_order_def)
  qed
qed

section \<open>The whole function on an environment where nothing fails\<close>

definition scan_good :: "scandir_env \<Rightarrow> dir_entry list \<Rightarrow> bool" where
  "scan_good env es \<longleftrightarrow> se_open env = Inr (es, 0) \<and> (\<forall>n. se_malloc env n) \<and> (\<forall>i. \<not> se_cancelled env i) \<and>
     (length (visible es) \<le> EIO_SORT_FAST \<or> inodes_of (visible es) \<noteq> 0)"

definition scan_flags :: "int \<Rightarrow> int" where
  "scan_flags flags = (if flags AND EIO_READDIR_DENTS = 0
     then flags AND NOT (EIO_READDIR_DIRS_FIRST OR EIO_READDIR_STAT_ORDER) else flags)"

lemma scan_flags_dents: "flags AND EIO_READDIR_DENTS \<noteq> 0 \<Longrightarrow> scan_flags flags = flags \<and> flags \<noteq> 0"
  by (auto simp: scan_flags_def)

lemma fits_start:
  "fits \<lparr>sc_names = [], sc_namesalloc = 4064, sc_dents = (if b then Some [] else None), sc_dentalloc = 128,
         sc_dentoffs = 0, sc_flags = f, sc_bits = 0\<rparr>"
  by (simp add: fits_def)

lemma eio__scandir_good:
  assumes "scan_good env es"
  shows "\<exists>req'. eio__scandir env req = Some (0, req') \<and> rq_result req' = int (length (visible es)) \<and>
    rq_ptr2 req' = MBytes (names_of (visible es)) \<and>
    (scan_flags (rq_int1 req) \<noteq> 0 \<longrightarrow>
      (\<exists>ds. rq_ptr1 req' = MDents ds \<and> dent_order (rq_int1 req') ds \<and>
         rq_int1 req' = (if found_unknown (visible es) then scan_flags (rq_int1 req) OR EIO_READDIR_FOUND_UNKNOWN
                         else scan_flags (rq_int1 req)) \<and>
         mset ds = mset (ents_of (scan_flags (rq_int1 req)) 0 (visible es))))"
proof -
  define f where "f = scan_flags (rq_int1 req)"
  define st0 where "st0 = \<lparr>sc_names = [], sc_namesalloc = 4064, sc_dents = (if f \<noteq> 0 then Some [] else None),
    sc_dentalloc = 128, sc_dentoffs = 0, sc_flags = f, sc_bits = 0\<rparr>"
  have g: "se_open env = Inr (es, 0)" "\<forall>n. se_malloc env n" "\<forall>i. \<not> se_cancelled env i"
    "length (visible es) \<le> EIO_SORT_FAST \<or> inodes_of (visible es) \<noteq> 0"
    using assms by (auto simp: scan_good_def)
  have "fits st0" unfolding st0_def by (rule fits_start)
  from scan_loop_ok [OF this g(2,3), of 0 0 es] obtain st where st:
    "scan_loop env 0 0 es st0 = Some (st, True, 0)" "sc_names st = names_of (visible es)"
    "sc_dentoffs st = int (length (visible es))"
    "if f \<noteq> 0 then sc_dents st = Some (ents_of f 0 (visible es)) \<and>
        sc_flags st = (if found_unknown (visible es) then f OR EIO_READDIR_FOUND_UNKNOWN else f) \<and>
        sc_bits st = inodes_of (visible es)
     else sc_dents st = None \<and> sc_flags st = f"
    by (auto simp: st0_def split: if_splits)
  show ?thesis
  proof (cases "f = 0")
    case True
    with st g show ?thesis
      by (auto simp: eio__scandir_def Let_def f_def st0_def scan_flags_def)
  next
    case False
    with st have s: "sc_dents st = Some (ents_of f 0 (visible es))"
      "sc_flags st = (if found_unknown (visible es) then f OR EIO_READDIR_FOUND_UNKNOWN else f)"
      "sc_bits st = inodes_of (visible es)" by auto
    have "\<forall>d \<in> set (ents_of f 0 (visible es)). \<exists>e \<in> set (visible es). \<exists>o'. d = ent_of f o' e"
      using set_ents_of by blast
    moreover have "sc_flags st AND EIO_READDIR_DIRS_FIRST = f AND EIO_READDIR_DIRS_FIRST"
      using s(2) found_unknown_flag(1) by simp
    ultimately obtain ds where ds:
      "scandir_sort (sc_flags st) (inodes_of (visible es)) (ents_of f 0 (visible es)) = Some ds"
      "mset ds = mset (ents_of f 0 (visible es))" "dent_order (sc_flags st) ds"
      using scandir_sort_ok [of "ents_of f 0 (visible es)" "visible es" f "sc_flags st"] g(4) by auto
    have e: "eio__scandir env req = Some (0, req\<lparr>rq_result := int (length (visible es)),
      rq_flags := rq_flags req OR EIO_FLAG_PTR1_FREE OR EIO_FLAG_PTR2_FREE, rq_int1 := sc_flags st,
      rq_ptr1 := MDents ds, rq_ptr2 := MBytes (names_of (visible es))\<rparr>)"
      using False st(1-3) s(1,3) g ds(1)
      by (simp add: eio__scandir_def Let_def f_def [symmetric] scan_flags_def [symmetric] st0_def)
    show ?thesis using ds s(2) False by (simp add: e f_def)
  qed
qed

section \<open>The result of the request\<close>

text \<open>\<open>eio__scandir\<close> either fails with a result of -1, or succeeds with \<open>errno\<close> 0 and the number of entries.\<close>

lemma scan_entry_offs: "scan_entry env e st = Some (st', b) \<Longrightarrow> sc_dentoffs st \<le> sc_dentoffs st'"
  by (auto simp: scan_entry_def Let_def split: option.splits if_splits prod.splits)

lemma scan_loop_offs:
  "scan_loop env endno i es st = Some (st', d, n) \<Longrightarrow> sc_dentoffs st \<le> sc_dentoffs st'"
proof (induction es arbitrary: i st)
  case (Cons e es)
  show ?case
    using Cons.prems Cons.IH scan_entry_offs [of env e st]
    by (fastforce split: option.splits if_splits prod.splits)
qed simp

lemma eio__scandir_result:
  "eio__scandir env req = Some (n, req') \<Longrightarrow> rq_result req' = -1 \<or> n = 0 \<and> 0 \<le> rq_result req'"
  by (auto simp: eio__scandir_def Let_def split: sum.splits option.splits if_splits prod.splits dest!: scan_loop_offs)

section \<open>Properties\<close>

text \<open>
  C22: reading a directory gives PHP exactly the names of its entries other than the dot entries, in the
  order of the stream, whatever the flags: the walk over the terminated names finds every one of them.
\<close>

theorem scandir_names:
  assumes "scan_good env es" "\<forall>e \<in> set es. NUL \<notin> set (dn_name e)"
  shows "\<exists>req'. eio__scandir env req = Some (0, req') \<and> rq_result req' = int (length (visible es)) \<and>
    php_eio_set_readdir_names req' = map dn_name (visible es)"
proof -
  obtain req' where r: "eio__scandir env req = Some (0, req')" "rq_result req' = int (length (visible es))"
    "rq_ptr2 req' = MBytes (names_of (visible es))" using eio__scandir_good [OF assms(1)] by blast
  moreover have "readdir_names (length (visible es)) (names_of (visible es)) = map dn_name (visible es)"
    using assms(2) by (intro readdir_names_of) (auto simp: visible_def)
  ultimately show ?thesis by (simp add: php_eio_set_readdir_names_def)
qed

definition witness_dir :: "dir_entry list" where
  "witness_dir = [\<lparr>dn_name = ''.'', dn_type = 4, dn_ino = 2\<rparr>, \<lparr>dn_name = ''b.c'', dn_type = 8, dn_ino = 9\<rparr>,
                  \<lparr>dn_name = ''..'', dn_type = 4, dn_ino = 1\<rparr>, \<lparr>dn_name = ''lib'', dn_type = 4, dn_ino = 7\<rparr>]"

definition witness_env :: scandir_env where
  "witness_env = \<lparr>se_open = Inr (witness_dir, 0), se_cancelled = (\<lambda>_. False), se_malloc = (\<lambda>_. True)\<rparr>"

lemma witness_visible:
  "visible witness_dir = [\<lparr>dn_name = ''b.c'', dn_type = 8, dn_ino = 9\<rparr>, \<lparr>dn_name = ''lib'', dn_type = 4, dn_ino = 7\<rparr>]"
  by (simp add: witness_dir_def skip_entry_def c_at_def NUL_def)

lemma witness_good: "scan_good witness_env witness_dir"
  by (simp add: scan_good_def witness_env_def witness_visible EIO_SORT_FAST_def)

lemma witness_no_nul: "\<forall>e \<in> set witness_dir. NUL \<notin> set (dn_name e)"
  by (simp add: witness_dir_def NUL_def)

lemma scandir_names_witness:
  "\<exists>req'. eio__scandir witness_env calloc_req = Some (0, req') \<and> rq_result req' = 2 \<and>
     php_eio_set_readdir_names req' = [''b.c'', ''lib'']"
  using scandir_names [OF witness_good witness_no_nul, of calloc_req] by (simp add: witness_visible)

text \<open>
  C24: with \<open>EIO_READDIR_DENTS\<close> every entry is reported once with its name, type and inode: the offsets
  and lengths in the array of entries select the right bytes of the name buffer, also after the array
  has been sorted, and the array is in the order the flags ask for.
\<close>

theorem scandir_dents:
  assumes "scan_good env es" "rq_int1 req AND EIO_READDIR_DENTS \<noteq> 0" "\<forall>e \<in> set es. length (dn_name e) < 65536"
  shows "\<exists>req' ds. eio__scandir env req = Some (0, req') \<and> rq_ptr1 req' = MDents ds \<and>
    dent_order (rq_int1 req') ds \<and>
    mset (snd (php_eio_set_readdir_dent_and_names req')) =
      image_mset (\<lambda>e. (dn_name e, uint (fst (dent_type (dn_type e))), sint (dn_ino e))) (mset (visible es))"
proof -
  from eio__scandir_good [OF assms(1), of req] scan_flags_dents [OF assms(2)] obtain req' ds where r:
    "eio__scandir env req = Some (0, req')" "rq_result req' = int (length (visible es))"
    "rq_ptr2 req' = MBytes (names_of (visible es))" "rq_ptr1 req' = MDents ds" "dent_order (rq_int1 req') ds"
    "mset ds = mset (ents_of (rq_int1 req) 0 (visible es))" by metis
  have "length ds = length (visible es)" using mset_eq_length [OF r(6)] by simp
  then have "mset (snd (php_eio_set_readdir_dent_and_names req')) =
      image_mset (dent_array (names_of (visible es))) (mset ds)"
    using r by (simp add: php_eio_set_readdir_dent_and_names_def Let_def)
  also have "\<dots> = mset (map (dent_array (names_of (visible es))) (ents_of (rq_int1 req) 0 (visible es)))"
    by (simp add: r(6))
  also have "\<dots> = mset (map (\<lambda>e. (dn_name e, uint (fst (dent_type (dn_type e))), sint (dn_ino e))) (visible es))"
    using dent_array_ents_of [of "visible es" "[]" "rq_int1 req"] assms(3) by (simp add: visible_def)
  finally show ?thesis using r by auto
qed

lemma scandir_dents_witness:
  "\<exists>req' ds. eio__scandir witness_env (calloc_req\<lparr>rq_int1 := 7\<rparr>) = Some (0, req') \<and> rq_ptr1 req' = MDents ds \<and>
    dent_order (rq_int1 req') ds \<and>
    mset (snd (php_eio_set_readdir_dent_and_names req')) = {#(''b.c'', 8, 9), (''lib'', 4, 7)#}"
proof -
  have f: "rq_int1 (calloc_req\<lparr>rq_int1 := 7\<rparr>) AND EIO_READDIR_DENTS \<noteq> 0" by (simp add: EIO_READDIR_DENTS_def)
  have l: "\<forall>e \<in> set witness_dir. length (dn_name e) < 65536" by (simp add: witness_dir_def)
  show ?thesis using scandir_dents [OF witness_good f l] by (simp add: witness_visible dent_type_def)
qed

text \<open>
  When \<open>eio__scandir\<close> returns, the request has either failed with a result of -1 or succeeded with
  \<open>errno\<close> 0 and a count: a failed open, a failed allocation of the entries, a cancellation and a read
  error of the stream are all reported as failures.
\<close>

theorem scandir_failure_reported:
  assumes "eio__scandir env req = Some (n, req')" "n \<noteq> 0"
  shows "rq_result req' = -1"
  using eio__scandir_result [OF assms(1)] assms(2) by simp

lemma scandir_failure_reported_witness:
  "eio__scandir (witness_env\<lparr>se_open := Inl 2\<rparr>) calloc_req = Some (2, calloc_req\<lparr>rq_result := -1\<rparr>) \<and>
   rq_result (calloc_req\<lparr>rq_result := -1\<rparr>) = -1"
proof -
  have e: "eio__scandir (witness_env\<lparr>se_open := Inl 2\<rparr>) calloc_req = Some (2, calloc_req\<lparr>rq_result := -1\<rparr>)"
    by (simp add: eio__scandir_def)
  show ?thesis using e scandir_failure_reported [OF e] by simp
qed

end
