(* ===== verification/Realpath.thy ===== *)
theory Realpath
  imports Scandir
begin

text \<open>
  Canonical path names and working directory handles: \<open>eio__realpath\<close>, \<open>eio__wd_open_sync\<close>,
  \<open>eio_wd_open_sync\<close> and \<open>eio_wd_close_sync\<close> of \<open>libeio/eio.c\<close>.  The three thirds of the temporary
  buffer are the path built so far (\<open>out\<close>, up to the pointer \<open>res\<close>), the last link read (\<open>tmp1\<close>)
  and the path still to resolve after a link (\<open>tmp2\<close>, here the argument \<open>rel\<close>).  A write outside its
  third is a fault.  The system calls are arguments; \<open>readlink\<close> also gets the number of calls before
  it, because other processes may change the file system meanwhile.  Strings hold no terminator.
\<close>

section \<open>Constants and the environment\<close>

definition ENOENT :: int where "ENOENT = 2"
definition EINVAL :: int where "EINVAL = 22"
definition ENAMETOOLONG :: int where "ENAMETOOLONG = 36"
definition ELOOP :: int where "ELOOP = 40"

definition EIO_PATH_MAX :: nat where "EIO_PATH_MAX = 8160"
definition SYMLINKS :: nat where "SYMLINKS = 32"
definition AT_FDCWD :: int where "AT_FDCWD = -100"

text \<open>
  \<open>pe_stale\<close> is the byte a reused temporary buffer has at index 1, \<open>pe_tmp1\<close> the bytes it has in the
  second third.
\<close>

record path_env =
  pe_getcwd :: "nat \<Rightarrow> int + string"
  pe_readlink :: "nat \<Rightarrow> string \<Rightarrow> int + string"
  pe_stale :: char
  pe_tmp1 :: string

section \<open>Resolving a path\<close>

definition slash :: char where "slash = CHR ''/''"

text \<open>Going back over one component, its slash included.\<close>

definition back_up :: "string \<Rightarrow> string" where
  "back_up out = rev (drop 1 (dropWhile (\<lambda>c. c \<noteq> slash) (rev out)))"

lemma length_after_comp:
  "takeWhile P rel \<noteq> [] \<Longrightarrow> length (dropWhile P rel) < length rel"
  by (cases rel) (auto simp: length_dropWhile_le less_Suc_eq_le split: if_splits)

lemma length_tl_after_comp:
  "rel \<noteq> [] \<Longrightarrow> length (dropWhile P rel) - Suc 0 < length rel"
  using length_dropWhile_le [of P rel] by (cases rel) (simp_all add: less_Suc_eq_le del: dropWhile.simps)

function rp_loop ::
    "(nat \<Rightarrow> string \<Rightarrow> int + string) \<Rightarrow> nat \<Rightarrow> nat \<Rightarrow> string \<Rightarrow> string \<Rightarrow> string \<Rightarrow> (int + string) option" where
  "rp_loop readlink i symlinks tmp1 out rel =
     (if rel = [] then Some (Inr out)
      else
        (let comp = takeWhile (\<lambda>c. c \<noteq> slash) rel; rest = dropWhile (\<lambda>c. c \<noteq> slash) rel in
         if comp = [] then rp_loop readlink i symlinks tmp1 out (tl rest)
         else if comp = ''.'' then rp_loop readlink i symlinks tmp1 out rest
         else if comp = ''..'' then rp_loop readlink i symlinks tmp1 (back_up out) rest
         else if length out + 1 + length comp + 1 \<ge> EIO_PATH_MAX then Some (Inl ENAMETOOLONG)
         else if length out + 1 + length comp + 1 > EIO_PATH_MAX then None
         else (case readlink i (out @ slash # comp) of
             Inl e \<Rightarrow> if e \<noteq> EINVAL then Some (Inl e)
                      else rp_loop readlink (Suc i) symlinks tmp1 (out @ slash # comp) rest
           | Inr l \<Rightarrow>
               (let link = take EIO_PATH_MAX l; tmp1 = link @ drop (length link) tmp1 in
                if length link + 1 + length rest \<ge> EIO_PATH_MAX then Some (Inl ENAMETOOLONG)
                else if symlinks - 1 = 0 then Some (Inl ELOOP)
                else if length link + 1 + length rest + 1 > EIO_PATH_MAX then None
                else rp_loop readlink (Suc i) (symlinks - 1) tmp1
                       (if c_at tmp1 0 = slash then [] else out) (link @ slash # rest)))))"
  by pat_completeness auto

termination
  by (relation "measures [\<lambda>(f, i, n, t, out, rel). n, \<lambda>(f, i, n, t, out, rel). length rel]")
    (auto simp: length_after_comp length_tl_after_comp)

declare rp_loop.simps [simp del]

definition eio__realpath :: "path_env \<Rightarrow> eio_wd \<Rightarrow> string option \<Rightarrow> (int + string) option" where
  "eio__realpath env wd path =
     (case path of
        None \<Rightarrow> Some (Inl EINVAL)
      | Some rel \<Rightarrow>
          if rel = [] then Some (Inl ENOENT)
          else
            (let run = (\<lambda>out. map_option (map_sum id (\<lambda>out. if out = [] then [slash] else out))
                          (rp_loop (pe_readlink env) 0 SYMLINKS (pe_tmp1 env) out rel))
             in if c_at rel 0 \<noteq> slash then
                  (case wd of
                     EIO_INVALID_WD \<Rightarrow> Some (Inl ENOENT)
                   | EIO_CWD \<Rightarrow>
                       (case pe_getcwd env EIO_PATH_MAX of
                          Inl e \<Rightarrow> Some (Inl e)
                        | Inr cwd \<Rightarrow> run (if c_at cwd 1 \<noteq> NUL then cwd else []))
                   | WD pwd \<Rightarrow>
                       if length (pwd_str pwd) > 3 * EIO_PATH_MAX then None
                       else run (if (if length (pwd_str pwd) > 1 then pwd_str pwd ! 1 else pe_stale env) \<noteq> NUL
                                 then pwd_str pwd else []))
                else run []))"

section \<open>Working directory handles\<close>

record wd_env = path_env +
  we_openat :: "int \<Rightarrow> string \<Rightarrow> int"
  we_dup :: int
  we_malloc :: bool

text \<open>\<open>WD2FD\<close>: the null pointer is the current directory; the invalid handle is no pointer to a structure.\<close>

definition WD2FD :: "eio_wd \<Rightarrow> int option" where
  "WD2FD wd = (case wd of EIO_CWD \<Rightarrow> Some AT_FDCWD | EIO_INVALID_WD \<Rightarrow> None | WD pwd \<Rightarrow> Some (pwd_fd pwd))"

text \<open>The result is the handle and the descriptors that were closed.\<close>

definition eio__wd_open_sync :: "wd_env \<Rightarrow> eio_wd \<Rightarrow> string option \<Rightarrow> (eio_wd \<times> int list) option" where
  "eio__wd_open_sync env wd path =
     (case eio__realpath (path_env.truncate env) wd path of
        None \<Rightarrow> None
      | Some (Inl e) \<Rightarrow> Some (EIO_INVALID_WD, [])
      | Some (Inr str) \<Rightarrow>
          (case WD2FD wd of
             None \<Rightarrow> None
           | Some dirfd \<Rightarrow>
               (let fd = we_openat env dirfd (the path);
                    (fd, closed) = (if fd = 0 then (we_dup env, [fd]) else (fd, []))
                in if fd < 0 then Some (EIO_INVALID_WD, closed)
                   else if \<not> we_malloc env then None
                   else Some (WD \<lparr>pwd_fd = fd, pwd_str = str\<rparr>, closed))))"

definition eio_wd_open_sync :: "wd_env \<Rightarrow> eio_wd \<Rightarrow> string option \<Rightarrow> (eio_wd \<times> int list) option" where
  "eio_wd_open_sync env wd path = eio__wd_open_sync env wd path"

text \<open>The descriptors closed by giving up a handle.\<close>

definition eio_wd_close_sync :: "eio_wd \<Rightarrow> int list" where
  "eio_wd_close_sync wd = (if wd \<noteq> EIO_INVALID_WD \<and> wd \<noteq> EIO_CWD then [pwd_fd (the_pwd wd)] else [])"

section \<open>Path resolution on lists of components\<close>

text \<open>
  The specification: components are looked up one after the other from a current directory, which is
  a list of components; a link is replaced by the components of its contents.
\<close>

function comps :: "string \<Rightarrow> string list" where
  "comps [] = []"
| "comps (c # s) =
     (if c = slash then comps s
      else (c # takeWhile (\<lambda>c. c \<noteq> slash) s) # comps (dropWhile (\<lambda>c. c \<noteq> slash) s))"
  by pat_completeness auto
termination
  by (relation "measure length") (auto simp: length_dropWhile_le less_Suc_eq_le)

definition join :: "string list \<Rightarrow> string" where
  "join cs = concat (map (\<lambda>c. slash # c) cs)"

inductive resolves ::
    "(nat \<Rightarrow> string \<Rightarrow> int + string) \<Rightarrow> nat \<Rightarrow> string list \<Rightarrow> string list \<Rightarrow> string list \<Rightarrow> bool"
  for readlink where
  resolves_done: "resolves readlink i cur [] cur"
| resolves_dot: "resolves readlink i cur cs r \<Longrightarrow> resolves readlink i cur (''.'' # cs) r"
| resolves_dotdot: "resolves readlink i (butlast cur) cs r \<Longrightarrow> resolves readlink i cur (''..'' # cs) r"
| resolves_entry:
    "c \<notin> {''.'', ''..''} \<Longrightarrow> readlink i (join (cur @ [c])) = Inl EINVAL \<Longrightarrow>
     resolves readlink (Suc i) (cur @ [c]) cs r \<Longrightarrow> resolves readlink i cur (c # cs) r"
| resolves_link:
    "c \<notin> {''.'', ''..''} \<Longrightarrow> readlink i (join (cur @ [c])) = Inr l \<Longrightarrow>
     resolves readlink (Suc i) (if c_at l 0 = slash then [] else cur) (comps l @ cs) r \<Longrightarrow>
     resolves readlink i cur (c # cs) r"

inductive_cases resolvesE: "resolves readlink i cur cs r"

section \<open>Components of a path\<close>

abbreviation comp_of :: "string \<Rightarrow> string" where "comp_of \<equiv> takeWhile (\<lambda>c. c \<noteq> slash)"
abbreviation after_comp :: "string \<Rightarrow> string" where "after_comp \<equiv> dropWhile (\<lambda>c. c \<noteq> slash)"

definition name_ok :: "string \<Rightarrow> bool" where
  "name_ok c \<longleftrightarrow> c \<noteq> [] \<and> slash \<notin> set c"

lemma comps_split:
  "rel \<noteq> [] \<Longrightarrow> comp_of rel = [] \<Longrightarrow> comps rel = comps (tl (after_comp rel))"
  "rel \<noteq> [] \<Longrightarrow> comp_of rel \<noteq> [] \<Longrightarrow> comps rel = comp_of rel # comps (after_comp rel)"
  by (cases rel; auto split: if_splits)+

lemma comps_append: "comps (l @ slash # rest) = comps l @ comps rest"
proof (induction l rule: comps.induct)
  case (2 c s)
  show ?case
  proof (cases "c = slash")
    case False
    have "comp_of (s @ slash # rest) = comp_of s" by (induction s) auto
    moreover have "after_comp (s @ slash # rest) = after_comp s @ slash # rest" by (induction s) auto
    ultimately show ?thesis using 2 False by simp
  qed (use 2 in simp)
qed simp

lemma comp_of_ok: "comp_of rel \<noteq> [] \<Longrightarrow> name_ok (comp_of rel)"
  by (auto simp: name_ok_def dest: set_takeWhileD)

lemma join_simps [simp]: "join [] = []" "join (cs @ [c]) = join cs @ slash # c"
  by (simp_all add: join_def)

lemma back_up_join:
  assumes "\<forall>c \<in> set cs. name_ok c"
  shows "back_up (join cs) = join (butlast cs)"
proof (cases cs rule: rev_cases)
  case (snoc ds d)
  have "slash \<notin> set (rev d)" using assms snoc by (simp add: name_ok_def)
  moreover have "slash \<notin> set e \<Longrightarrow> dropWhile (\<lambda>c. c \<noteq> slash) (e @ slash # r) = slash # r" for e r
    by (induction e) auto
  ultimately have "dropWhile (\<lambda>c. c \<noteq> slash) (rev d @ slash # rev (join ds)) = slash # rev (join ds)"
    by blast
  then show ?thesis using snoc by (simp add: back_up_def)
qed (simp add: back_up_def)

section \<open>The loop implements the resolution\<close>

lemma rp_loop_resolves:
  "rp_loop readlink i n t (join cur) rel = Some (Inr out) \<Longrightarrow> \<forall>c \<in> set cur. name_ok c \<and> c \<notin> {''.'', ''..''} \<Longrightarrow>
    \<forall>i p. readlink i p \<noteq> Inr [] \<Longrightarrow>
    \<exists>r. resolves readlink i cur (comps rel) r \<and> out = join r \<and> (\<forall>c \<in> set r. name_ok c \<and> c \<notin> {''.'', ''..''})"
proof (induction readlink i n t "join cur" rel arbitrary: cur rule: rp_loop.induct)
  case (1 readlink i n t rel)
  note IH = "1.hyps" and prems = "1.prems"
  note run = prems(1) [unfolded rp_loop.simps [of readlink i n t "join cur" rel] Let_def]
  show ?case
  proof (cases "rel = []")
    case True
    with run prems(2) show ?thesis by (auto intro: resolves_done)
  next
    case ne: False
    show ?thesis
    proof (cases "comp_of rel = []")
      case True
      with run ne IH(1) [OF ne refl refl True refl] prems(2,3) comps_split(1) [OF ne True] show ?thesis by simp
    next
      case c: False
      note cs = comps_split(2) [OF ne c]
      consider "comp_of rel = ''.''" | "comp_of rel = ''..''" | "comp_of rel \<notin> {''.'', ''..''}" by blast
      then show ?thesis
      proof cases
        case 1
        with run ne c have "rp_loop readlink i n t (join cur) (after_comp rel) = Some (Inr out)" by simp
        from IH(2) [OF ne refl refl c 1 refl this prems(2,3)] show ?thesis
          unfolding cs 1 by (blast intro: resolves_dot)
      next
        case 2
        have b: "back_up (join cur) = join (butlast cur)" using prems(2) back_up_join by blast
        with run ne c 2 have "rp_loop readlink i n t (join (butlast cur)) (after_comp rel) = Some (Inr out)" by simp
        with IH(3) [OF ne refl refl c _ 2 b] prems(2,3) 2 show ?thesis
          unfolding cs 2 by (auto dest: in_set_butlastD intro: resolves_dotdot)
      next
        case 3
        define p where "p = join cur @ slash # comp_of rel"
        have p: "p = join (cur @ [comp_of rel])" by (simp add: p_def)
        have nd: "comp_of rel \<noteq> ''.''" "comp_of rel \<noteq> ''..''" using 3 by auto
        have len: "\<not> EIO_PATH_MAX \<le> length (join cur) + 1 + length (comp_of rel) + 1"
          "\<not> EIO_PATH_MAX < length (join cur) + 1 + length (comp_of rel) + 1"
          using run ne c nd by (auto split: if_splits)
        have ok: "\<forall>x \<in> set (cur @ [comp_of rel]). name_ok x \<and> x \<notin> {''.'', ''..''}"
          using prems(2) 3 comp_of_ok [OF c] by auto
        show ?thesis
        proof (cases "readlink i p")
          case (Inl e)
          then have e: "e = EINVAL" "rp_loop readlink (Suc i) n t p (after_comp rel) = Some (Inr out)"
            using run ne c nd len by (auto simp: p_def split: if_splits)
          from IH(4) [OF ne refl refl c nd len Inl [unfolded p_def] _ p [unfolded p_def] e(2) [unfolded p] ok prems(3)] e(1)
          obtain r where "resolves readlink (Suc i) (cur @ [comp_of rel]) (comps (after_comp rel)) r"
            "out = join r" "\<forall>c \<in> set r. name_ok c \<and> c \<notin> {''.'', ''..''}" by blast
          then show ?thesis
            using resolves_entry [of "comp_of rel" readlink i cur "comps (after_comp rel)" r] 3 Inl e(1)
            unfolding cs p by blast
        next
          case (Inr l)
          define l' where "l' = take EIO_PATH_MAX l"
          have len': "\<not> EIO_PATH_MAX \<le> length l' + 1 + length (after_comp rel)" "n - 1 \<noteq> 0"
            "\<not> EIO_PATH_MAX < length l' + 1 + length (after_comp rel) + 1"
            and run': "rp_loop readlink (Suc i) (n - 1) (l' @ drop (length l') t)
               (if c_at (l' @ drop (length l') t) 0 = slash then [] else join cur) (l' @ slash # after_comp rel) = Some (Inr out)"
            using run ne c nd len Inr by (auto simp: p_def l'_def Let_def split: if_splits)
          have "l \<noteq> []" using Inr prems(3) by metis
          with len'(1) have l: "l' = l" "l \<noteq> []" by (auto simp: l'_def)
          have h: "c_at (l' @ drop (length l') t) 0 = c_at l 0" using l by (cases l) (auto simp: c_at_def)
          define cur' where "cur' = (if c_at l 0 = slash then [] else cur)"
          have j: "(if c_at (l' @ drop (length l') t) 0 = slash then [] else join cur) = join cur'"
            using h by (simp add: cur'_def)
          have ok': "\<forall>x \<in> set cur'. name_ok x \<and> x \<notin> {''.'', ''..''}" using prems(2) by (simp add: cur'_def)
          from IH(5) [OF ne refl refl c nd len Inr [unfolded p_def] l'_def refl len' j run' [unfolded j] ok' prems(3)]
          obtain r where "resolves readlink (Suc i) cur' (comps (l' @ slash # after_comp rel)) r"
            "out = join r" "\<forall>c \<in> set r. name_ok c \<and> c \<notin> {''.'', ''..''}" by blast
          then show ?thesis
            using resolves_link [of "comp_of rel" readlink i cur l "comps (after_comp rel)" r] 3 Inr l(1)
            unfolding cs p comps_append cur'_def by blast
        qed
      qed
    qed
  qed
qed


lemma rp_loop_total:
  "length out < EIO_PATH_MAX \<Longrightarrow>
   \<exists>r. rp_loop readlink i n t out rel = Some r \<and> (\<forall>out'. r = Inr out' \<longrightarrow> length out' < EIO_PATH_MAX)"
proof (induction readlink i n t out rel rule: rp_loop.induct)
  case (1 readlink i n t out rel)
  have b: "length (back_up out) < EIO_PATH_MAX"
    using "1.prems" le_less_trans [OF length_dropWhile_le, of out EIO_PATH_MAX]
    by (simp add: back_up_def) (metis diff_le_self length_dropWhile_le length_rev order.strict_trans1)
  show ?case
    using "1.prems" b "1.IH" by (subst rp_loop.simps) (auto simp: Let_def split: sum.splits)
qed

section \<open>The function as a whole\<close>

definition dir_ok :: "string list \<Rightarrow> bool" where
  "dir_ok cs \<longleftrightarrow> (\<forall>c \<in> set cs. name_ok c \<and> c \<notin> {''.'', ''..''})"

definition abs_path :: "string list \<Rightarrow> string" where
  "abs_path cs = (if cs = [] then [slash] else join cs)"

text \<open>The directory a relative path starts from; an absolute one starts from the top.\<close>

definition base_of :: "path_env \<Rightarrow> eio_wd \<Rightarrow> string \<Rightarrow> string list \<Rightarrow> bool" where
  "base_of env wd path base \<longleftrightarrow> dir_ok base \<and> NUL \<notin> set (join base) \<and>
     (if c_at path 0 = slash then base = []
      else case wd of
        EIO_INVALID_WD \<Rightarrow> False
      | EIO_CWD \<Rightarrow> pe_getcwd env EIO_PATH_MAX = Inr (abs_path base)
      | WD pwd \<Rightarrow> pwd_str pwd = abs_path base \<and> (base = [] \<longrightarrow> pe_stale env = NUL))"

lemma join_eq_Nil [simp]: "join cs = [] \<longleftrightarrow> cs = []"
  by (simp add: join_def)

lemma abs_path_second:
  assumes "dir_ok base" "NUL \<notin> set (join base)" "base \<noteq> []"
  shows "1 < length (join base) \<and> join base ! 1 \<noteq> NUL"
proof -
  obtain d ds where b: "base = d # ds" using assms(3) by (cases base) auto
  then obtain x y where d: "d = x # y" using assms(1) by (cases d) (auto simp: dir_ok_def name_ok_def)
  show ?thesis using assms(2) unfolding b d by (auto simp: join_def)
qed

lemma c_at_slash [simp]: "c_at [slash] 1 = NUL" "c_at [slash] (Suc 0) = NUL"
  by (simp_all add: c_at_def)

lemma map_run_Inr:
  "map_option (map_sum id f) m = Some (Inr out) \<Longrightarrow> \<exists>out'. m = Some (Inr out') \<and> out = f out'"
proof (cases m)
  case (Some r)
  then show "map_option (map_sum id f) m = Some (Inr out) \<Longrightarrow> \<exists>out'. m = Some (Inr out') \<and> out = f out'"
    by (cases r) auto
qed simp

lemma eio__realpath_run:
  assumes "base_of env wd path base" "path \<noteq> []" "length (join base) \<le> EIO_PATH_MAX"
  shows "eio__realpath env wd (Some path) =
    map_option (map_sum id (\<lambda>out. if out = [] then [slash] else out))
      (rp_loop (pe_readlink env) 0 SYMLINKS (pe_tmp1 env) (join base) path)"
proof (cases "c_at path 0 = slash")
  case True
  with assms show ?thesis by (simp add: eio__realpath_def Let_def base_of_def)
next
  case False
  have s: "base \<noteq> [] \<Longrightarrow> 1 < length (join base) \<and> join base ! 1 \<noteq> NUL"
    using assms(1) abs_path_second by (simp add: base_of_def)
  show ?thesis
  proof (cases wd)
    case EIO_CWD
    with False assms s show ?thesis
      by (cases "base = []") (auto simp: eio__realpath_def Let_def base_of_def abs_path_def c_at_def)
  next
    case EIO_INVALID_WD
    with False assms show ?thesis by (simp add: base_of_def)
  next
    case (WD pwd)
    with False assms s show ?thesis
      by (cases "base = []") (auto simp: eio__realpath_def Let_def base_of_def abs_path_def EIO_PATH_MAX_def)
  qed
qed

lemma eio__realpath_spec:
  assumes "base_of env wd path base" "length (join base) \<le> EIO_PATH_MAX"
    and "\<forall>i p. pe_readlink env i p \<noteq> Inr []"
    and "eio__realpath env wd (Some path) = Some (Inr out)"
  shows "\<exists>r. resolves (pe_readlink env) 0 base (comps path) r \<and> out = abs_path r \<and> dir_ok r"
proof -
  have "path \<noteq> []" using assms(4) by (auto simp: eio__realpath_def)
  from map_run_Inr [OF assms(4) [unfolded eio__realpath_run [OF assms(1) this assms(2)]]] obtain out' where
    o: "rp_loop (pe_readlink env) 0 SYMLINKS (pe_tmp1 env) (join base) path = Some (Inr out')"
    "out = (if out' = [] then [slash] else out')" by blast
  have "\<forall>c \<in> set base. name_ok c \<and> c \<notin> {''.'', ''..''}" using assms(1) by (simp add: base_of_def dir_ok_def)
  from rp_loop_resolves [OF o(1) this assms(3)] obtain r where
    r: "resolves (pe_readlink env) 0 base (comps path) r" "out' = join r" "\<forall>c \<in> set r. name_ok c \<and> c \<notin> {''.'', ''..''}"
    by blast
  have "out = abs_path r" unfolding o(2) r(2) abs_path_def by simp
  with r(1,3) show ?thesis unfolding dir_ok_def by blast
qed

text \<open>The longest path the system calls and the handles may provide.\<close>

definition short_dirs :: "path_env \<Rightarrow> eio_wd \<Rightarrow> bool" where
  "short_dirs env wd \<longleftrightarrow> (\<forall>cwd. pe_getcwd env EIO_PATH_MAX = Inr cwd \<longrightarrow> length cwd < EIO_PATH_MAX) \<and>
     (\<forall>pwd. wd = WD pwd \<longrightarrow> length (pwd_str pwd) < EIO_PATH_MAX)"

lemma map_run_total:
  assumes "length out < EIO_PATH_MAX"
  shows "\<exists>r. map_option (map_sum id (\<lambda>out. if out = [] then [slash] else out)) (rp_loop rl i n t out rel) = Some r \<and>
    (\<forall>out'. r = Inr out' \<longrightarrow> length out' < EIO_PATH_MAX)"
proof -
  obtain r where r: "rp_loop rl i n t out rel = Some r" "\<forall>out'. r = Inr out' \<longrightarrow> length out' < EIO_PATH_MAX"
    using rp_loop_total [OF assms] by blast
  then show ?thesis by (cases r) (auto simp: EIO_PATH_MAX_def)
qed

lemma eio__realpath_total_helper:
  assumes "short_dirs env wd"
  shows "\<exists>r. eio__realpath env wd path = Some r \<and> (\<forall>out. r = Inr out \<longrightarrow> length out < EIO_PATH_MAX)"
proof (cases path)
  case (Some rel)
  show ?thesis
  proof (cases "rel = [] \<or> c_at rel 0 = slash")
    case True
    then show ?thesis using map_run_total [of "[]"] by (auto simp: eio__realpath_def Let_def Some EIO_PATH_MAX_def)
  next
    case False
    show ?thesis
    proof (cases wd)
      case EIO_CWD
      show ?thesis
      proof (cases "pe_getcwd env EIO_PATH_MAX")
        case (Inl e)
        with False Some EIO_CWD show ?thesis by (simp add: eio__realpath_def)
      next
        case (Inr cwd)
        then have "length (if c_at cwd 1 \<noteq> NUL then cwd else []) < EIO_PATH_MAX"
          using assms by (simp add: short_dirs_def EIO_PATH_MAX_def)
        from map_run_total [OF this, of "pe_readlink env" 0 SYMLINKS "pe_tmp1 env" rel] show ?thesis
          using False Some EIO_CWD Inr by (simp add: eio__realpath_def)
      qed
    next
      case EIO_INVALID_WD
      with False Some show ?thesis by (simp add: eio__realpath_def)
    next
      case (WD pwd)
      then have l: "length (pwd_str pwd) < EIO_PATH_MAX" using assms by (simp add: short_dirs_def)
      then have "length (if (if length (pwd_str pwd) > 1 then pwd_str pwd ! 1 else pe_stale env) \<noteq> NUL
          then pwd_str pwd else []) < EIO_PATH_MAX" by (simp add: EIO_PATH_MAX_def)
      from map_run_total [OF this, of "pe_readlink env" 0 SYMLINKS "pe_tmp1 env" rel] show ?thesis
        using False Some WD l by (simp add: eio__realpath_def Let_def)
    qed
  qed
qed (simp add: eio__realpath_def)

lemma eio__wd_open_sync_path:
  "eio__wd_open_sync env wd path = Some (WD pwd, cl) \<Longrightarrow>
   eio__realpath (path_env.truncate env) wd path = Some (Inr (pwd_str pwd)) \<and> 0 \<le> pwd_fd pwd \<and>
   (we_dup env \<noteq> 0 \<longrightarrow> pwd_fd pwd \<noteq> 0)"
  by (auto simp: eio__wd_open_sync_def Let_def split: option.splits sum.splits if_splits prod.splits)

section \<open>Properties\<close>

text \<open>
  C18: \<open>eio__realpath\<close> implements path resolution: when it returns a path, that path is the list of
  components which looking up the given path component by component from the starting directory
  arrives at, following the links read on the way, and it has no dot, empty or slashed component.
\<close>

theorem realpath_resolves:
  assumes "base_of env wd path base" "length (join base) \<le> EIO_PATH_MAX"
    and "\<forall>i p. pe_readlink env i p \<noteq> Inr []"
    and "eio__realpath env wd (Some path) = Some (Inr out)"
  shows "\<exists>r. resolves (pe_readlink env) 0 base (comps path) r \<and> out = abs_path r \<and> dir_ok r"
  using assms by (rule eio__realpath_spec)

definition witness_link :: "nat \<Rightarrow> string \<Rightarrow> int + string" where
  "witness_link i p = (if p = ''/a/l'' then Inr ''/b/c'' else Inl EINVAL)"

definition witness_path_env :: path_env where
  "witness_path_env = \<lparr>pe_getcwd = (\<lambda>_. Inr ''/a''), pe_readlink = witness_link, pe_stale = CHR ''x'', pe_tmp1 = []\<rparr>"

lemma witness_realpath:
  "eio__realpath witness_path_env EIO_CWD (Some ''./l//../d'') = Some (Inr ''/b/d'')"
  by (simp add: eio__realpath_def witness_path_env_def witness_link_def Let_def c_at_def slash_def NUL_def
      EIO_PATH_MAX_def SYMLINKS_def EINVAL_def back_up_def rp_loop.simps)

lemma witness_base: "base_of witness_path_env EIO_CWD ''./l//../d'' [''a'']"
  by (simp add: base_of_def dir_ok_def name_ok_def slash_def NUL_def join_def c_at_def abs_path_def witness_path_env_def)

lemma witness_no_empty_link: "\<forall>i p. pe_readlink witness_path_env i p \<noteq> Inr []"
  by (simp add: witness_path_env_def witness_link_def)

lemma realpath_resolves_witness:
  "\<exists>r. resolves witness_link 0 [''a''] [''.'', ''l'', ''..'', ''d''] r \<and> ''/b/d'' = abs_path r \<and> dir_ok r"
proof -
  have l: "length (join [''a'']) \<le> EIO_PATH_MAX" by (simp add: join_def EIO_PATH_MAX_def)
  have c: "comps ''./l//../d'' = [''.'', ''l'', ''..'', ''d'']" by (simp add: slash_def)
  show ?thesis
    using realpath_resolves [OF witness_base l witness_no_empty_link witness_realpath]
    unfolding c by (simp add: witness_path_env_def)
qed

text \<open>
  C28: \<open>eio__realpath\<close> ends on every path and file system, whatever links it finds, never writes outside
  the three parts of its buffer, and the path it returns leaves room for a terminator.
\<close>

theorem realpath_total:
  assumes "short_dirs env wd"
  shows "\<exists>r. eio__realpath env wd path = Some r \<and> (\<forall>out. r = Inr out \<longrightarrow> length out < EIO_PATH_MAX)"
  using assms by (rule eio__realpath_total_helper)

lemma realpath_total_witness:
  "\<exists>r. eio__realpath (witness_path_env\<lparr>pe_readlink := \<lambda>_ _. Inr ''l''\<rparr>) EIO_CWD (Some ''l'') = Some r \<and>
     (\<forall>out. r = Inr out \<longrightarrow> length out < EIO_PATH_MAX)"
  by (rule realpath_total) (simp add: short_dirs_def witness_path_env_def EIO_PATH_MAX_def)

text \<open>
  A path relative to a working directory handle is resolved from the directory that opening the
  handle resolved to.
\<close>

theorem wd_handle_chain:
  assumes "base_of (path_env.truncate env) wd p1 base" "length (join base) \<le> EIO_PATH_MAX"
    and "\<forall>i p. pe_readlink env i p \<noteq> Inr []" "\<forall>i p. pe_readlink env' i p \<noteq> Inr []"
    and "short_dirs (path_env.truncate env) wd"
    and "eio__wd_open_sync env wd (Some p1) = Some (WD pwd, cl)"
    and "eio__realpath env' (WD pwd) (Some p2) = Some (Inr out)"
    and "c_at p2 0 \<noteq> slash" "NUL \<notin> set (pwd_str pwd)" "pe_stale env' = NUL"
  shows "\<exists>r1 r2. resolves (pe_readlink env) 0 base (comps p1) r1 \<and>
    resolves (pe_readlink env') 0 r1 (comps p2) r2 \<and> out = abs_path r2"
proof -
  have t: "pe_readlink (path_env.truncate env) = pe_readlink env" by (simp add: path_env.truncate_def)
  have o: "eio__realpath (path_env.truncate env) wd (Some p1) = Some (Inr (pwd_str pwd))"
    using eio__wd_open_sync_path [OF assms(6)] by blast
  from eio__realpath_spec [OF assms(1,2) _ o] assms(3) obtain r1 where
    r1: "resolves (pe_readlink env) 0 base (comps p1) r1" "pwd_str pwd = abs_path r1" "dir_ok r1"
    unfolding t by blast
  have "length (pwd_str pwd) < EIO_PATH_MAX" using eio__realpath_total_helper [OF assms(5), of "Some p1"] o by auto
  then have l: "length (join r1) \<le> EIO_PATH_MAX" using r1(2) by (auto simp: abs_path_def split: if_splits)
  have "NUL \<notin> set (join r1)" using assms(9) r1(2) by (cases "r1 = []") (simp_all add: abs_path_def)
  then have b: "base_of env' (WD pwd) p2 r1" using r1(2,3) assms(8,10) by (simp add: base_of_def)
  from eio__realpath_spec [OF b l assms(4,7)] r1(1) show ?thesis by blast
qed

definition witness_wd_env :: wd_env where
  "witness_wd_env = \<lparr>pe_getcwd = (\<lambda>_. Inr ''/a''), pe_readlink = witness_link, pe_stale = NUL, pe_tmp1 = [],
     we_openat = (\<lambda>_ _. 0), we_dup = 7, we_malloc = True\<rparr>"

lemma wd_handle_chain_witness:
  "\<exists>r1 r2. resolves witness_link 0 [''a''] [''l''] r1 \<and> resolves witness_link 0 r1 [''d''] r2 \<and> ''/b/c/d'' = abs_path r2"
proof -
  let ?env = "path_env.truncate witness_wd_env"
  have t: "?env = witness_path_env\<lparr>pe_stale := NUL\<rparr>"
    by (simp add: path_env.truncate_def witness_wd_env_def witness_path_env_def)
  have 1: "base_of ?env EIO_CWD ''l'' [''a'']"
    by (simp add: t base_of_def dir_ok_def name_ok_def slash_def NUL_def join_def c_at_def abs_path_def witness_path_env_def)
  have 2: "length (join [''a'']) \<le> EIO_PATH_MAX" by (simp add: join_def EIO_PATH_MAX_def)
  have 3: "\<forall>i p. pe_readlink witness_wd_env i p \<noteq> Inr []" by (simp add: witness_wd_env_def witness_link_def)
  have 4: "\<forall>i p. pe_readlink (witness_path_env\<lparr>pe_stale := NUL\<rparr>) i p \<noteq> Inr []"
    by (simp add: witness_path_env_def witness_link_def)
  have 5: "short_dirs ?env EIO_CWD" by (simp add: t short_dirs_def witness_path_env_def EIO_PATH_MAX_def)
  have o: "eio__realpath (witness_path_env\<lparr>pe_stale := NUL\<rparr>) EIO_CWD (Some ''l'') = Some (Inr ''/b/c'')"
    by (simp add: eio__realpath_def witness_path_env_def witness_link_def Let_def c_at_def slash_def NUL_def
        EIO_PATH_MAX_def SYMLINKS_def EINVAL_def rp_loop.simps)
  have 6: "eio__wd_open_sync witness_wd_env EIO_CWD (Some ''l'') = Some (WD \<lparr>pwd_fd = 7, pwd_str = ''/b/c''\<rparr>, [0])"
    unfolding eio__wd_open_sync_def t o by (simp add: witness_wd_env_def WD2FD_def)
  have 7: "eio__realpath (witness_path_env\<lparr>pe_stale := NUL\<rparr>) (WD \<lparr>pwd_fd = 7, pwd_str = ''/b/c''\<rparr>) (Some ''d'') =
      Some (Inr ''/b/c/d'')"
    by (simp add: eio__realpath_def witness_path_env_def witness_link_def Let_def c_at_def slash_def NUL_def
        EIO_PATH_MAX_def SYMLINKS_def EINVAL_def rp_loop.simps)
  have 8: "c_at ''d'' 0 \<noteq> slash" "NUL \<notin> set (pwd_str \<lparr>pwd_fd = 7, pwd_str = ''/b/c''\<rparr>)"
    "pe_stale (witness_path_env\<lparr>pe_stale := NUL\<rparr>) = NUL" by (simp_all add: c_at_def slash_def NUL_def)
  have c: "comps ''l'' = [''l'']" "comps ''d'' = [''d'']" by (simp_all add: slash_def)
  show ?thesis
    using wd_handle_chain [OF 1 2 3 4 5 6 7 8] unfolding c by (simp add: witness_wd_env_def witness_path_env_def)
qed

text \<open>
  Opening a handle never gives one with descriptor 0, which would be taken for the current
  directory, as long as duplicating descriptor 0 gives another one; descriptor 0 is closed then.
\<close>

theorem wd_open_not_cwd:
  assumes "eio__wd_open_sync env wd path = Some (WD pwd, cl)" "we_dup env \<noteq> 0"
  shows "0 < pwd_fd pwd"
  using eio__wd_open_sync_path [OF assms(1)] assms(2) by linarith

lemma wd_open_not_cwd_witness: "(0 :: int) < pwd_fd \<lparr>pwd_fd = 7, pwd_str = ''/''\<rparr>"
proof (rule wd_open_not_cwd)
  show "eio__wd_open_sync witness_wd_env EIO_CWD (Some ''/'') = Some (WD \<lparr>pwd_fd = 7, pwd_str = ''/''\<rparr>, [0])"
    by (simp add: eio__wd_open_sync_def eio__realpath_def path_env.truncate_def witness_wd_env_def Let_def
        c_at_def slash_def rp_loop.simps WD2FD_def)
  show "we_dup witness_wd_env \<noteq> 0" by (simp add: witness_wd_env_def)
qed

text \<open>
  A path relative to a handle of the top directory depends on what an earlier request left in the
  buffer: only one byte, without a terminator, is copied, and the byte after it is tested.  The result
  then starts with two slashes.
\<close>

theorem realpath_top_handle_stale:
  assumes "pe_stale env \<noteq> NUL" "name_ok c" "c \<notin> {''.'', ''..''}" "length c < 8000"
    and "pe_readlink env 0 (slash # slash # c) = Inl EINVAL"
  shows "eio__realpath env (WD \<lparr>pwd_fd = fd, pwd_str = [slash]\<rparr>) (Some c) = Some (Inr (slash # slash # c))"
proof -
  have t: "comp_of c = c" "after_comp c = []" "c \<noteq> []" "c_at c 0 \<noteq> slash"
    using assms(2) by (cases c; auto simp: name_ok_def c_at_def takeWhile_eq_all_conv dropWhile_eq_Nil_conv)+
  have e: "rp_loop (pe_readlink env) (Suc 0) SYMLINKS (pe_tmp1 env) (slash # slash # c) [] = Some (Inr (slash # slash # c))"
    by (simp add: rp_loop.simps)
  have "rp_loop (pe_readlink env) 0 SYMLINKS (pe_tmp1 env) [slash] c = Some (Inr (slash # slash # c))"
    unfolding rp_loop.simps [of "pe_readlink env" 0 SYMLINKS "pe_tmp1 env" "[slash]" c] Let_def t(1,2)
    using assms(3,4,5) t(3) e by (simp add: EIO_PATH_MAX_def)
  then show ?thesis
    using assms(1) t by (simp add: eio__realpath_def Let_def EIO_PATH_MAX_def)
qed

lemma realpath_top_handle_stale_witness:
  "eio__realpath witness_path_env (WD \<lparr>pwd_fd = 3, pwd_str = [slash]\<rparr>) (Some ''etc'') = Some (Inr (slash # slash # ''etc''))"
  by (rule realpath_top_handle_stale)
    (simp_all add: witness_path_env_def NUL_def name_ok_def slash_def witness_link_def)

end
