(* ===== verification/SysEmul.thy ===== *)
theory SysEmul
  imports Realpath
begin

unbundle bit_operations_syntax

text \<open>
  The system call layer of \<open>libeio/eio.c\<close>: the wrappers and emulations that a worker thread runs on
  the operating system.  The operating system is an argument: a function that maps a call and its own
  state to the result, the value of \<open>errno\<close> afterwards, the bytes stored through the pointer argument,
  and its next state.  The build is the one of Linux with the system calls that \<open>libeio/libeio.m4\<close>
  tests for, so \<open>readahead\<close>, \<open>fallocate\<close> and \<open>renameat2\<close> go straight to the system.
\<close>

section \<open>System calls\<close>

datatype syscall =
    S_openat int eio_mem int int
  | S_close int
  | S_lseek int int int
  | S_read int u64
  | S_pread int u64 int
  | S_write int string
  | S_write_mem int eio_mem u64
  | S_pwrite int eio_mem u64 int
  | S_fcntl int int eio_mem
  | S_ioctl int int eio_mem
  | S_readahead int int u64
  | S_sendfile int int int u64
  | S_fstatat int eio_mem int
  | S_fchownat int eio_mem int int int
  | S_fchmodat int eio_mem int int
  | S_unlinkat int eio_mem int
  | S_rmdir string
  | S_mkdirat int eio_mem int
  | S_renameat2 int eio_mem int eio_mem int
  | S_linkat int eio_mem int eio_mem int
  | S_symlinkat eio_mem int eio_mem
  | S_mknodat int eio_mem int int
  | S_readlinkat int eio_mem nat
  | S_futimens int "((int \<times> int) \<times> (int \<times> int)) option"
  | S_utimensat int eio_mem "((int \<times> int) \<times> (int \<times> int)) option" int
  | S_fstat int
  | S_fstatvfs int
  | S_fchown int int int
  | S_fchmod int int
  | S_ftruncate int int
  | S_dup2 int int
  | S_sync
  | S_fsync int
  | S_fdatasync int
  | S_syncfs int
  | S_sync_file_range int int u64 int
  | S_msync u64 u64 int
  | S_mlock u64 u64
  | S_mlockall int
  | S_fallocate int int int u64
  | S_select int int

record sysres =
  sr_res :: int
  sr_errno :: int
  sr_data :: string

type_synonym 'w kern = "syscall \<Rightarrow> 'w \<Rightarrow> sysres \<times> 'w"

text \<open>What a thread sees: the system, and its own \<open>errno\<close>.\<close>

record 'w os =
  os_w :: 'w
  os_errno :: int

definition call :: "'w kern \<Rightarrow> syscall \<Rightarrow> 'w os \<Rightarrow> int \<times> string \<times> 'w os" where
  "call k c s = (case k c (os_w s) of (r, w) \<Rightarrow> (sr_res r, sr_data r, s\<lparr>os_w := w, os_errno := sr_errno r\<rparr>))"

text \<open>A call of which only the result is used.\<close>

definition call1 :: "'w kern \<Rightarrow> syscall \<Rightarrow> 'w os \<Rightarrow> int \<times> 'w os" where
  "call1 k c s = (case call k c s of (r, d, s) \<Rightarrow> (r, s))"

definition ENOSYS :: int where "ENOSYS = 38"
definition ENOTSOCK :: int where "ENOTSOCK = 88"
definition EOPNOTSUPP :: int where "EOPNOTSUPP = 95"

text \<open>\<open>EIO_ERRNO\<close>: set \<open>errno\<close> and give a result.\<close>

definition EIO_ERRNO :: "int \<Rightarrow> int \<Rightarrow> 'w os \<Rightarrow> int \<times> 'w os" where
  "EIO_ERRNO errval retval s = (retval, s\<lparr>os_errno := errval\<rparr>)"

definition EIO_ENOSYS :: "'w os \<Rightarrow> int \<times> 'w os" where
  "EIO_ENOSYS s = EIO_ERRNO ENOSYS (-1) s"

section \<open>Files\<close>

definition silent_close :: "'w kern \<Rightarrow> int \<Rightarrow> 'w os \<Rightarrow> 'w os" where
  "silent_close k fd s =
     (let saved_errno = os_errno s; (r, s) = call1 k (S_close fd) s in s\<lparr>os_errno := saved_errno\<rparr>)"

definition eio__syncfs :: "'w kern \<Rightarrow> int \<Rightarrow> 'w os \<Rightarrow> int \<times> 'w os" where
  "eio__syncfs k fd s =
     (case call1 k (S_syncfs fd) s of (res, s) \<Rightarrow>
       if res < 0 \<and> os_errno s = ENOSYS \<and> fd \<ge> 0
       then (case call1 k S_sync s of (r, s) \<Rightarrow> (res, s))
       else (res, s))"

text \<open>The constants are those of Linux, so the flags are passed on as they are.\<close>

definition eio__sync_file_range :: "'w kern \<Rightarrow> int \<Rightarrow> int \<Rightarrow> u64 \<Rightarrow> int \<Rightarrow> 'w os \<Rightarrow> int \<times> 'w os" where
  "eio__sync_file_range k fd offset nbytes flags s =
     (case call1 k (S_sync_file_range fd offset nbytes flags) s of (res, s) \<Rightarrow>
       if res = 0 \<or> os_errno s \<noteq> ENOSYS then (res, s) else call1 k (S_fdatasync fd) s)"

definition eio__fallocate :: "'w kern \<Rightarrow> int \<Rightarrow> int \<Rightarrow> int \<Rightarrow> u64 \<Rightarrow> 'w os \<Rightarrow> int \<times> 'w os" where
  "eio__fallocate k fd mode offset len s = call1 k (S_fallocate fd mode offset len) s"

definition eio__renameat2 ::
    "'w kern \<Rightarrow> int \<Rightarrow> eio_mem \<Rightarrow> int \<Rightarrow> eio_mem \<Rightarrow> int \<Rightarrow> 'w os \<Rightarrow> int \<times> 'w os" where
  "eio__renameat2 k olddirfd oldpath newdirfd newpath flags s =
     call1 k (S_renameat2 olddirfd oldpath newdirfd newpath flags) s"

text \<open>Open flags: \<open>O_WRONLY | O_CLOEXEC | O_NONBLOCK\<close> and \<open>O_PATH | O_CLOEXEC | O_NONBLOCK\<close>.\<close>

definition O_CLOEXEC :: int where "O_CLOEXEC = 0x80000"
definition O_NONBLOCK :: int where "O_NONBLOCK = 0x800"
definition O_WRONLY :: int where "O_WRONLY = 1"
definition O_PATH :: int where "O_PATH = 0x200000"

definition eio__truncateat :: "'w kern \<Rightarrow> int \<Rightarrow> eio_mem \<Rightarrow> int \<Rightarrow> 'w os \<Rightarrow> int \<times> 'w os" where
  "eio__truncateat k dirfd path len s =
     (case call1 k (S_openat dirfd path (O_WRONLY OR O_CLOEXEC OR O_NONBLOCK) 0) s of (fd, s) \<Rightarrow>
       if fd < 0 then (fd, s)
       else (case call1 k (S_ftruncate fd len) s of (res, s) \<Rightarrow> (res, silent_close k fd s)))"

definition eio__statvfsat :: "'w kern \<Rightarrow> int \<Rightarrow> eio_mem \<Rightarrow> 'w os \<Rightarrow> int \<times> string \<times> 'w os" where
  "eio__statvfsat k dirfd path s =
     (case call1 k (S_openat dirfd path (O_PATH OR O_CLOEXEC OR O_NONBLOCK) 0) s of (fd, s) \<Rightarrow>
       if fd < 0 then (fd, [], s)
       else (case call k (S_fstatvfs fd) s of (res, buf, s) \<Rightarrow> (res, buf, silent_close k fd s)))"

text \<open>The whence constants of the library are those of Linux.\<close>

definition SEEK_SET :: int where "SEEK_SET = 0"
definition SEEK_CUR :: int where "SEEK_CUR = 1"
definition SEEK_END :: int where "SEEK_END = 2"

definition eio__lseek :: "'w kern \<Rightarrow> eio_req \<Rightarrow> 'w os \<Rightarrow> eio_req \<times> 'w os" where
  "eio__lseek k req s =
     (let whence = (if rq_int2 req = 0 then SEEK_SET
                    else if rq_int2 req = 1 then SEEK_CUR
                    else if rq_int2 req = 2 then SEEK_END
                    else rq_int2 req)
      in case call1 k (S_lseek (rq_int1 req) (rq_offs req) whence) s of (offs, s) \<Rightarrow>
        (req\<lparr>rq_offs := offs, rq_result := (if offs = -1 then -1 else 0)\<rparr>, s))"

section \<open>Copying between descriptors\<close>

definition EIO_BUFSIZE :: u64 where "EIO_BUFSIZE = 65536"

text \<open>
  The loop around \<open>sendfile\<close>: \<open>Inl\<close> is a return from the function, \<open>Inr\<close> the state at the \<open>break\<close>.
  The system decides how many rounds there are; \<open>None\<close> only says that the fuel was used up.
\<close>

fun sf_loop ::
    "nat \<Rightarrow> 'w kern \<Rightarrow> int \<Rightarrow> int \<Rightarrow> int \<Rightarrow> u64 \<Rightarrow> int \<Rightarrow> 'w os \<Rightarrow> ((int + int \<times> int \<times> u64) \<times> 'w os) option" where
  "sf_loop 0 k ofd ifd offset todo written s = None"
| "sf_loop (Suc n) k ofd ifd offset todo written s =
     (case call1 k (S_sendfile ofd ifd offset todo) s of (res, s) \<Rightarrow>
       if res \<le> 128 * 1024 * 1024 then
         (let written = (if res > 0 then written + res else written) in
          if written \<noteq> 0 then Some (Inl written, s) else Some (Inr (res, offset, todo), s))
       else
         (let written = written + res; offset = offset + res; todo = todo - of_int res in
          if todo = 0 then Some (Inl written, s)
          else sf_loop n k ofd ifd offset todo written s))"

text \<open>The emulation by \<open>pread\<close> and \<open>write\<close>.\<close>

fun sf_emul ::
    "nat \<Rightarrow> 'w kern \<Rightarrow> int \<Rightarrow> int \<Rightarrow> int \<Rightarrow> u64 \<Rightarrow> int \<Rightarrow> 'w os \<Rightarrow> (int \<times> 'w os) option" where
  "sf_emul 0 k ofd ifd offset todo res s = (if todo = 0 then Some (res, s) else None)"
| "sf_emul (Suc n) k ofd ifd offset todo res s =
     (if todo = 0 then Some (res, s)
      else (case call k (S_pread ifd (if todo > EIO_BUFSIZE then EIO_BUFSIZE else todo) offset) s of
        (cnt, buf, s) \<Rightarrow>
          if cnt \<le> 0 then Some (if cnt \<noteq> 0 \<and> res = 0 then -1 else res, s)
          else (case call1 k (S_write ofd (take (nat cnt) buf)) s of (cnt, s) \<Rightarrow>
            if cnt \<le> 0 then Some (if cnt \<noteq> 0 \<and> res = 0 then -1 else res, s)
            else sf_emul n k ofd ifd (offset + cnt) (todo - of_int cnt) (res + cnt) s)))"

text \<open>\<open>malloc\<close> tells whether the buffer of the emulation can be allocated.\<close>

definition eio__sendfile ::
    "nat \<Rightarrow> 'w kern \<Rightarrow> bool \<Rightarrow> int \<Rightarrow> int \<Rightarrow> int \<Rightarrow> u64 \<Rightarrow> 'w os \<Rightarrow> (int \<times> 'w os) option" where
  "eio__sendfile n k malloc ofd ifd offset todo s =
     (if todo = 0 then Some (0, s)
      else (case sf_loop n k ofd ifd offset todo 0 s of
        None \<Rightarrow> None
      | Some (Inl written, s) \<Rightarrow> Some (written, s)
      | Some (Inr (res, offset, todo), s) \<Rightarrow>
          if res < 0 \<and> os_errno s \<in> {ENOSYS, EINVAL, ENOTSOCK, EOPNOTSUPP} then
            (let s = s\<lparr>os_errno := ENOMEM\<rparr> in
             if \<not> malloc then Some (-1, s) else sf_emul n k ofd ifd offset todo 0 s)
          else Some (res, s)))"

definition eio_sendfile_sync ::
    "nat \<Rightarrow> 'w kern \<Rightarrow> bool \<Rightarrow> int \<Rightarrow> int \<Rightarrow> int \<Rightarrow> u64 \<Rightarrow> 'w os \<Rightarrow> (int \<times> 'w os) option" where
  "eio_sendfile_sync n k malloc ofd ifd offset todo s = eio__sendfile n k malloc ofd ifd offset todo s"

section \<open>Memory\<close>

text \<open>\<open>page\<close> is the page size of the system.\<close>

definition eio_page_align :: "u64 \<Rightarrow> u64 \<Rightarrow> u64 \<Rightarrow> u64 \<times> u64" where
  "eio_page_align page addr len =
     (let mask = page - 1; adj = mask AND addr
      in (addr - adj, (len + adj + mask) AND NOT mask))"

definition EIO_MCL_ONFAULT :: int where "EIO_MCL_ONFAULT = 4"

definition eio__mlockall :: "'w kern \<Rightarrow> int \<Rightarrow> 'w os \<Rightarrow> int \<times> 'w os" where
  "eio__mlockall k flags s = call1 k (S_mlockall flags) s"

definition eio_mlockall_sync :: "'w kern \<Rightarrow> int \<Rightarrow> 'w os \<Rightarrow> int \<times> 'w os" where
  "eio_mlockall_sync k flags s = eio__mlockall k flags s"

definition eio__mlock :: "'w kern \<Rightarrow> u64 \<Rightarrow> u64 \<Rightarrow> u64 \<Rightarrow> 'w os \<Rightarrow> int \<times> 'w os" where
  "eio__mlock k page addr len s =
     (case eio_page_align page addr len of (addr, len) \<Rightarrow> call1 k (S_mlock addr len) s)"

definition MS_ASYNC :: int where "MS_ASYNC = 1"
definition MS_INVALIDATE :: int where "MS_INVALIDATE = 2"
definition MS_SYNC :: int where "MS_SYNC = 4"

definition EIO_MS_ASYNC :: int where "EIO_MS_ASYNC = 1"
definition EIO_MS_INVALIDATE :: int where "EIO_MS_INVALIDATE = 2"
definition EIO_MS_SYNC :: int where "EIO_MS_SYNC = 4"

definition msync_flags :: "int \<Rightarrow> int" where
  "msync_flags flags =
     (if EIO_MS_ASYNC \<noteq> MS_SYNC \<or> EIO_MS_INVALIDATE \<noteq> MS_INVALIDATE \<or> EIO_MS_SYNC \<noteq> MS_SYNC then
        0 OR (if flags AND EIO_MS_ASYNC \<noteq> 0 then MS_ASYNC else 0)
          OR (if flags AND EIO_MS_INVALIDATE \<noteq> 0 then MS_INVALIDATE else 0)
          OR (if flags AND EIO_MS_SYNC \<noteq> 0 then MS_SYNC else 0)
      else flags)"

definition eio__msync :: "'w kern \<Rightarrow> u64 \<Rightarrow> u64 \<Rightarrow> u64 \<Rightarrow> int \<Rightarrow> 'w os \<Rightarrow> int \<times> 'w os" where
  "eio__msync k page mem len flags s =
     (case eio_page_align page mem len of (mem, len) \<Rightarrow> call1 k (S_msync mem len (msync_flags flags)) s)"

definition EIO_MT_MODIFY :: int where "EIO_MT_MODIFY = 1"

text \<open>
  The addresses \<open>eio__mtouch\<close> accesses, in order; the first is accessed before the first test.
  \<open>cancelled i\<close> is the flag of the request after access \<open>i\<close>.  A page size of 0 does not occur.
\<close>

function mtouch_loop :: "(nat \<Rightarrow> bool) \<Rightarrow> nat \<Rightarrow> int \<Rightarrow> int \<Rightarrow> int \<Rightarrow> int list" where
  "mtouch_loop cancelled i page addr endp =
     addr # (if 0 < page \<and> addr + page < endp \<and> \<not> cancelled i
             then mtouch_loop cancelled (Suc i) page (addr + page) endp else [])"
  by pat_completeness auto
termination
  by (relation "measure (\<lambda>(cancelled, i, page, addr, endp). nat (endp - addr))") auto

declare mtouch_loop.simps [simp del]

text \<open>The addresses, and whether they are modified.  The result of the function is always 0.\<close>

definition eio__mtouch :: "(nat \<Rightarrow> bool) \<Rightarrow> u64 \<Rightarrow> u64 \<Rightarrow> u64 \<Rightarrow> int \<Rightarrow> int list \<times> bool" where
  "eio__mtouch cancelled page mem len flags =
     (case eio_page_align page mem len of (mem, len) \<Rightarrow>
       (let addr = sint mem; endp = sint (mem + len) in
        (if addr < endp then mtouch_loop cancelled 0 (sint page) addr endp else [],
         flags AND EIO_MT_MODIFY \<noteq> 0)))"

section \<open>Allocation and slurp\<close>

text \<open>
  \<open>ALLOC\<close>: \<open>mallocb n\<close> is \<open>None\<close> when the allocation of \<open>n\<close> bytes fails, and the indeterminate bytes
  of the new block otherwise.  The flag tells whether the caller goes on.
\<close>

definition ALLOC :: "(nat \<Rightarrow> string option) \<Rightarrow> nat \<Rightarrow> eio_req \<Rightarrow> 'w os \<Rightarrow> (eio_req \<times> 'w os) \<times> bool" where
  "ALLOC mallocb len req s =
     (if rq_ptr2 req = MNull then
        (let req = req\<lparr>rq_flags := rq_flags req OR EIO_FLAG_PTR2_FREE\<rparr> in
         case mallocb len of
           None \<Rightarrow> ((req\<lparr>rq_result := -1\<rparr>, s\<lparr>os_errno := ENOMEM\<rparr>), False)
         | Some b \<Rightarrow> ((req\<lparr>rq_ptr2 := MBytes b\<rparr>, s), True))
      else ((req, s), True))"

text \<open>Storing bytes at the start of a buffer; a buffer of the user of the library is not looked into.\<close>

definition fill :: "string \<Rightarrow> eio_mem \<Rightarrow> eio_mem" where
  "fill data m = (case m of MBytes b \<Rightarrow> MBytes (data @ drop (length data) b) | m \<Rightarrow> m)"

text \<open>The first part of \<open>eio__slurp\<close>: find out the offset and the size from the size of the file.\<close>

definition slurp_size :: "'w kern \<Rightarrow> int \<Rightarrow> eio_req \<Rightarrow> 'w os \<Rightarrow> eio_req \<times> 'w os" where
  "slurp_size k fd req s =
     (if rq_offs req < 0 \<or> rq_size req = 0 then
        (case call1 k (S_lseek fd 0 SEEK_END) s of (sz, s) \<Rightarrow>
          (let req = (if rq_offs req < 0 then req\<lparr>rq_offs := rq_offs req + sz\<rparr> else req);
               req = (if rq_size req = 0 then req\<lparr>rq_size := of_int (sz - rq_offs req)\<rparr> else req)
           in (req, s)))
      else (req, s))"

definition eio__slurp :: "'w kern \<Rightarrow> (nat \<Rightarrow> string option) \<Rightarrow> int \<Rightarrow> eio_req \<Rightarrow> 'w os \<Rightarrow> eio_req \<times> 'w os" where
  "eio__slurp k mallocb fd req s =
     (let req = req\<lparr>rq_result := fd\<rparr> in
      if fd < 0 then (req, s)
      else
        (case slurp_size k fd req s of (req, s) \<Rightarrow>
         case ALLOC mallocb (unat (rq_size req)) req s of ((req, s), go_on) \<Rightarrow>
           if \<not> go_on then (req, s)
           else (case call k (S_pread fd (rq_size req) (rq_offs req)) s of (res, buf, s) \<Rightarrow>
             (req\<lparr>rq_result := res, rq_ptr2 := fill buf (rq_ptr2 req)\<rparr>, silent_close k fd s))))"

section \<open>The copy\<close>

text \<open>
  What the system promises of the three calls when \<open>src\<close> and \<open>sink\<close> read off its state the bytes of
  the input file and the bytes written to the output so far: no call transfers more than it was asked
  for, a transfer is the piece of the file at the offset, and nothing is written when a call fails.
\<close>

definition copy_kern :: "'w kern \<Rightarrow> int \<Rightarrow> int \<Rightarrow> ('w \<Rightarrow> string) \<Rightarrow> ('w \<Rightarrow> string) \<Rightarrow> bool" where
  "copy_kern k ofd ifd src sink \<longleftrightarrow>
     (\<forall>w offset n r w'. k (S_sendfile ofd ifd offset n) w = (r, w') \<longrightarrow>
        src w' = src w \<and> sr_res r \<le> uint n \<and>
        (0 < sr_res r \<longrightarrow> nat offset + nat (sr_res r) \<le> length (src w)) \<and>
        sink w' = sink w @ take (nat (sr_res r)) (drop (nat offset) (src w))) \<and>
     (\<forall>w offset n r w'. k (S_pread ifd n offset) w = (r, w') \<longrightarrow>
        src w' = src w \<and> sink w' = sink w \<and> sr_res r \<le> uint n \<and>
        (0 < sr_res r \<longrightarrow> nat offset + nat (sr_res r) \<le> length (src w) \<and>
           take (nat (sr_res r)) (sr_data r) = take (nat (sr_res r)) (drop (nat offset) (src w)))) \<and>
     (\<forall>w data r w'. k (S_write ofd data) w = (r, w') \<longrightarrow>
        src w' = src w \<and> sr_res r \<le> int (length data) \<and> sink w' = sink w @ take (nat (sr_res r)) data)"

lemma copy_sendfile:
  assumes "copy_kern k ofd ifd src sink" "call1 k (S_sendfile ofd ifd offset n) s = (res, s')"
  shows "src (os_w s') = src (os_w s)" "res \<le> uint n"
    "0 < res \<Longrightarrow> nat offset + nat res \<le> length (src (os_w s))"
    "sink (os_w s') = sink (os_w s) @ take (nat res) (drop (nat offset) (src (os_w s)))"
  using assms by (auto simp: copy_kern_def call1_def call_def split: prod.splits)

lemma copy_pread:
  assumes "copy_kern k ofd ifd src sink" "call k (S_pread ifd n offset) s = (res, buf, s')"
  shows "src (os_w s') = src (os_w s)" "sink (os_w s') = sink (os_w s)" "res \<le> uint n"
    "0 < res \<Longrightarrow> nat offset + nat res \<le> length (src (os_w s)) \<and>
       take (nat res) buf = take (nat res) (drop (nat offset) (src (os_w s)))"
  using assms unfolding copy_kern_def call_def by (auto split: prod.splits)

lemma copy_write:
  assumes "copy_kern k ofd ifd src sink" "call1 k (S_write ofd data) s = (res, s')"
  shows "src (os_w s') = src (os_w s)" "res \<le> int (length data)"
    "sink (os_w s') = sink (os_w s) @ take (nat res) data"
  using assms by (auto simp: copy_kern_def call1_def call_def split: prod.splits)

text \<open>\<open>n\<close> more bytes, from the offset, have arrived.\<close>

definition copied :: "('w \<Rightarrow> string) \<Rightarrow> ('w \<Rightarrow> string) \<Rightarrow> int \<Rightarrow> nat \<Rightarrow> 'w os \<Rightarrow> 'w os \<Rightarrow> bool" where
  "copied src sink offset n s s' \<longleftrightarrow> src (os_w s') = src (os_w s) \<and>
     (0 < n \<longrightarrow> nat offset + n \<le> length (src (os_w s))) \<and>
     sink (os_w s') = sink (os_w s) @ take n (drop (nat offset) (src (os_w s)))"

lemma copied_trans:
  assumes "copied src sink offset a s s1" "copied src sink (offset + int a) b s1 s2" "0 \<le> offset"
  shows "copied src sink offset (a + b) s s2"
proof -
  have "nat (offset + int a) = nat offset + a" using assms(3) by simp
  then show ?thesis
    using assms by (auto simp: copied_def take_add add.commute add.left_commute)
qed

lemma copied_0 [simp]: "copied src sink offset 0 s s' \<longleftrightarrow>
    src (os_w s') = src (os_w s) \<and> sink (os_w s') = sink (os_w s)"
  by (auto simp: copied_def)

lemma copied_errno [simp]:
  "copied src sink offset n (s\<lparr>os_errno := e\<rparr>) s' = copied src sink offset n s s'"
  by (simp add: copied_def)

lemma uint_minus_of_int:
  fixes c :: "'a::len word"
  assumes "0 \<le> r" "r \<le> uint c"
  shows "uint (c - of_int r) = uint c - r"
proof -
  have "r < 2 ^ LENGTH('a)" using assms(2) uint_lt2p [of c] by linarith
  then have "uint (of_int r :: 'a word) = r" using assms(1) by (simp add: unsigned_of_int take_bit_int_eq_self)
  then show ?thesis using assms by (simp add: uint_sub_if')
qed

lemma sf_loop_copies:
  assumes k: "copy_kern k ofd ifd src sink"
  shows "sf_loop n k ofd ifd offset todo written s = Some (r, s') \<Longrightarrow> 0 \<le> offset \<Longrightarrow> 0 \<le> written \<Longrightarrow>
    (case r of
       Inl res \<Rightarrow> \<exists>m. res = written + int m \<and> int m \<le> uint todo \<and> copied src sink offset m s s'
     | Inr (res, offset', todo') \<Rightarrow> written = 0 \<and> res \<le> 0 \<and> offset' = offset \<and> todo' = todo \<and> copied src sink offset 0 s s')"
proof (induction n arbitrary: offset todo written s)
  case (Suc n)
  obtain res s1 where c: "call1 k (S_sendfile ofd ifd offset todo) s = (res, s1)" by fastforce
  note C = copy_sendfile [OF k c]
  have cp: "copied src sink offset (nat res) s s1" using C by (auto simp: copied_def)
  show ?case
  proof (cases "res \<le> 128 * 1024 * 1024")
    case True
    show ?thesis
    proof (cases "written + (if 0 < res then res else 0) = 0")
      case zero: True
      then have "written = 0" "res \<le> 0" using Suc.prems(3) by (auto split: if_splits)
      with zero True Suc.prems(1) c cp show ?thesis by (auto simp: Let_def split: if_splits)
    next
      case False
      with True Suc.prems(1) c have "r = Inl (written + (if 0 < res then res else 0))" "s' = s1"
        by (auto simp: Let_def split: if_splits)
      with C(2) cp show ?thesis by (cases "0 < res") (auto intro!: exI [of _ "nat res"])
    qed
  next
    case False
    then have res: "0 < res" by simp
    have left: "uint (todo - of_int res) = uint todo - res" using res C(2) by (intro uint_minus_of_int) auto
    show ?thesis
    proof (cases "todo - of_int res = 0")
      case True
      with False Suc.prems(1) c have "r = Inl (written + res)" "s' = s1" by (auto simp: Let_def)
      with C(2) res cp show ?thesis by (auto intro!: exI [of _ "nat res"])
    next
      case more: False
      with False Suc.prems(1) c have
        "sf_loop n k ofd ifd (offset + res) (todo - of_int res) (written + res) s1 = Some (r, s')" by (simp add: Let_def)
      from Suc.IH [OF this] Suc.prems(2,3) res obtain m where
        "r = Inl (written + res + int m)" "int m \<le> uint todo - res" "copied src sink (offset + res) m s1 s'"
        by (auto simp: left split: sum.splits)
      then show ?thesis
        using copied_trans [OF cp, of m s'] Suc.prems(2) res by (auto intro!: exI [of _ "nat res + m"])
    qed
  qed
qed simp

lemma sf_emul_copies:
  assumes k: "copy_kern k ofd ifd src sink"
  shows "sf_emul n k ofd ifd offset todo res0 s = Some (res, s') \<Longrightarrow> 0 \<le> offset \<Longrightarrow> 0 \<le> res0 \<Longrightarrow>
    \<exists>m. copied src sink offset m s s' \<and> int m \<le> uint todo \<and> (res = res0 + int m \<or> res = -1 \<and> res0 = 0 \<and> m = 0)"
proof (induction n arbitrary: offset todo res0 s)
  case 0
  then show ?case by (auto split: if_splits intro!: exI [of _ 0])
next
  case (Suc n)
  show ?case
  proof (cases "todo = 0")
    case True
    with Suc.prems show ?thesis by (auto intro!: exI [of _ 0])
  next
    case False
    define want where "want = (if todo > EIO_BUFSIZE then EIO_BUFSIZE else todo)"
    have want: "uint want \<le> uint todo" by (simp add: want_def word_less_def)
    obtain cnt buf s1 where p: "call k (S_pread ifd want offset) s = (cnt, buf, s1)" by (metis prod_cases3)
    note P = copy_pread [OF k p]
    show ?thesis
    proof (cases "cnt \<le> 0")
      case True
      with False Suc.prems p P show ?thesis
        by (auto simp: want_def [symmetric] split: if_splits intro!: exI [of _ 0])
    next
      case pos: False
      obtain cnt2 s2 where w: "call1 k (S_write ofd (take (nat cnt) buf)) s1 = (cnt2, s2)" by fastforce
      note W = copy_write [OF k w]
      show ?thesis
      proof (cases "cnt2 \<le> 0")
        case True
        with pos False Suc.prems p P(1,2) w W show ?thesis
          by (auto simp: want_def [symmetric] split: if_splits intro!: exI [of _ 0])
      next
        case pos2: False
        have len: "cnt2 \<le> cnt" using W(2) pos by auto
        have cp: "copied src sink offset (nat cnt2) s s2"
          using P pos W len pos2 by (auto simp: copied_def min_def)
        have left: "uint (todo - of_int cnt2) = uint todo - cnt2"
          using pos2 len P(3) want by (intro uint_minus_of_int) auto
        have "sf_emul n k ofd ifd (offset + cnt2) (todo - of_int cnt2) (res0 + cnt2) s2 = Some (res, s')"
          using False Suc.prems(1) p pos w pos2 by (simp add: want_def [symmetric])
        from Suc.IH [OF this] Suc.prems(2,3) pos2 obtain m where
          "copied src sink (offset + cnt2) m s2 s'" "int m \<le> uint todo - cnt2" "res = res0 + cnt2 + int m"
          by (auto simp: left)
        then show ?thesis
          using copied_trans [OF cp, of m s'] Suc.prems(2) pos2 by (auto intro!: exI [of _ "nat cnt2 + m"])
      qed
    qed
  qed
qed

lemma eio__sendfile_copies:
  assumes k: "copy_kern k ofd ifd src sink" and "0 \<le> offset"
    and run: "eio__sendfile n k malloc ofd ifd offset todo s = Some (res, s')"
  shows "\<exists>m. copied src sink offset m s s' \<and> int m \<le> uint todo \<and> (res = int m \<or> res < 0 \<and> m = 0)"
proof (cases "todo = 0")
  case True
  with run show ?thesis by (auto simp: eio__sendfile_def)
next
  case False
  from run False obtain r s1 where l: "sf_loop n k ofd ifd offset todo 0 s = Some (r, s1)"
    by (auto simp: eio__sendfile_def split: option.splits)
  show ?thesis
  proof (cases r)
    case (Inl v)
    with run False l sf_loop_copies [OF k l assms(2)] show ?thesis by (auto simp: eio__sendfile_def)
  next
    case (Inr b)
    then obtain r1 o1 t1 where b: "r = Inr (r1, o1, t1)" by (cases b) auto
    from sf_loop_copies [OF k l assms(2)] b have B: "r1 \<le> 0" "o1 = offset" "t1 = todo" "copied src sink offset 0 s s1"
      by auto
    show ?thesis
    proof (cases "r1 < 0 \<and> os_errno s1 \<in> {ENOSYS, EINVAL, ENOTSOCK, EOPNOTSUPP}")
      case em: True
      show ?thesis
      proof (cases malloc)
        case False
        with run \<open>todo \<noteq> 0\<close> l b B em show ?thesis by (auto simp: eio__sendfile_def intro!: exI [of _ 0])
      next
        case True
        with run \<open>todo \<noteq> 0\<close> l b B em have
          "sf_emul n k ofd ifd offset todo 0 (s1\<lparr>os_errno := ENOMEM\<rparr>) = Some (res, s')"
          by (auto simp: eio__sendfile_def)
        from sf_emul_copies [OF k this assms(2)] B(4) show ?thesis by (auto simp: copied_def)
      qed
    next
      case False
      with run \<open>todo \<noteq> 0\<close> l b B show ?thesis
        by (cases "r1 = 0") (auto simp: eio__sendfile_def intro!: exI [of _ 0])
    qed
  qed
qed

section \<open>The copy ends\<close>

lemma sf_loop_total:
  assumes k: "copy_kern k ofd ifd src sink"
  shows "unat todo < n \<Longrightarrow> \<exists>r. sf_loop n k ofd ifd offset todo written s = Some r"
proof (induction n arbitrary: offset todo written s)
  case (Suc n)
  obtain res s1 where c: "call1 k (S_sendfile ofd ifd offset todo) s = (res, s1)" by fastforce
  show ?case
  proof (cases "res \<le> 128 * 1024 * 1024")
    case False
    then have "uint (todo - of_int res) = uint todo - res"
      using copy_sendfile(2) [OF k c] by (intro uint_minus_of_int) auto
    then have "int (unat (todo - of_int res)) = int (unat todo) - res" by (simp only: uint_nat)
    then have "unat (todo - of_int res) < n" using Suc.prems False by linarith
    from Suc.IH [OF this, of "offset + res" "written + res" s1] obtain r where
      "sf_loop n k ofd ifd (offset + res) (todo - of_int res) (written + res) s1 = Some r" by blast
    with c False show ?thesis by (simp add: Let_def)
  qed (simp add: c Let_def)
qed simp

lemma sf_emul_total:
  assumes k: "copy_kern k ofd ifd src sink"
  shows "unat todo \<le> n \<Longrightarrow> \<exists>r. sf_emul n k ofd ifd offset todo res s = Some r"
proof (induction n arbitrary: offset todo res s)
  case (Suc n)
  define want where "want = (if todo > EIO_BUFSIZE then EIO_BUFSIZE else todo)"
  have want: "uint want \<le> uint todo" by (simp add: want_def word_less_def)
  obtain cnt buf s1 where p: "call k (S_pread ifd want offset) s = (cnt, buf, s1)" by (metis prod_cases3)
  obtain cnt2 s2 where w: "call1 k (S_write ofd (take (nat cnt) buf)) s1 = (cnt2, s2)" by fastforce
  show ?case
  proof (cases "todo = 0 \<or> cnt \<le> 0 \<or> cnt2 \<le> 0")
    case False
    have "cnt2 \<le> uint todo"
      using copy_pread(3) [OF k p] copy_write(2) [OF k w] want False by auto
    then have "uint (todo - of_int cnt2) = uint todo - cnt2" using False by (intro uint_minus_of_int) auto
    then have "int (unat (todo - of_int cnt2)) = int (unat todo) - cnt2" by (simp only: uint_nat)
    then have "unat (todo - of_int cnt2) \<le> n" using Suc.prems False by linarith
    from Suc.IH [OF this, of "offset + cnt2" "res + cnt2" s2] obtain r where
      "sf_emul n k ofd ifd (offset + cnt2) (todo - of_int cnt2) (res + cnt2) s2 = Some r" by blast
    with False p w show ?thesis by (simp add: want_def [symmetric])
  next
    case True
    then show ?thesis
      unfolding sf_emul.simps want_def [symmetric] p by (auto simp: w)
  qed
qed (simp add: word_unat_eq_iff)

section \<open>Page ranges\<close>

lemma unat_take_bit: "unat (take_bit p x) = unat x mod 2 ^ p" for x :: "'a::len word"
  by (metis unsigned_take_bit_eq take_bit_eq_mod)

lemma unat_round_down:
  fixes x :: "'a::len word"
  shows "unat (x - take_bit p x) = unat x div 2 ^ p * 2 ^ p"
proof -
  have "take_bit p x \<le> x" unfolding word_le_nat_alt unat_take_bit by (rule mod_less_eq_dividend)
  then have "unat (x - take_bit p x) = unat x - unat x mod 2 ^ p" by (simp only: unat_sub unat_take_bit)
  then show ?thesis by (simp add: minus_mod_eq_div_mult)
qed

lemma and_not_mask_word:
  fixes x :: "'a::len word"
  shows "x AND NOT (mask p) = x - take_bit p x"
proof -
  have "take_bit p x + (x AND NOT (mask p)) = take_bit p x OR (x AND NOT (mask p))"
    by (rule disjunctive_add) (auto simp: bit_simps)
  also have "\<dots> = x" by (rule bit_eqI) (auto simp: bit_simps)
  finally show ?thesis by (simp add: algebra_simps)
qed

lemma eio_page_align_eq:
  assumes "p < 64"
  shows "eio_page_align (2 ^ p) addr len =
    (addr - take_bit p addr,
     (len + take_bit p addr + mask p) - take_bit p (len + take_bit p addr + mask p))"
proof -
  have "(2 :: u64) ^ p - 1 = mask p" by (simp add: mask_eq_exp_minus_1)
  moreover have "mask p AND addr = take_bit p addr" by (simp add: take_bit_eq_mask and.commute)
  ultimately show ?thesis by (simp add: eio_page_align_def Let_def and_not_mask_word)
qed

lemma unat_mask: "p \<le> 64 \<Longrightarrow> unat (mask p :: u64) = 2 ^ p - 1"
proof -
  assume "p \<le> 64"
  then have "unat (mask p :: u64) = mask p" by (intro bit_eqI) (auto simp: bit_simps)
  then show "unat (mask p :: u64) = 2 ^ p - 1" by (simp only: mask_eq_exp_minus_1)
qed

lemma page_align_values:
  assumes "p < 64" "unat addr + unat len + 2 ^ p \<le> 2 ^ 64"
    and "eio_page_align (2 ^ p) addr len = (a', l')"
  shows "unat a' = unat addr div 2 ^ p * 2 ^ p"
    "unat l' = (unat len + unat addr mod 2 ^ p + (2 ^ p - 1)) div 2 ^ p * 2 ^ p"
proof -
  have t: "unat (take_bit p addr) = unat addr mod 2 ^ p" by (rule unat_take_bit)
  have m: "unat (mask p :: u64) = 2 ^ p - 1" using assms(1) by (simp add: unat_mask)
  have le: "unat addr mod 2 ^ p \<le> unat addr" by simp
  have pos: "0 < (2 :: nat) ^ p" by simp
  have l1: "unat len + unat addr mod 2 ^ p < 2 ^ 64" using assms(2) le pos by linarith
  have l2: "unat len + unat addr mod 2 ^ p + (2 ^ p - 1) < 2 ^ 64" using assms(2) le pos by linarith
  have "unat (len + take_bit p addr) = unat len + unat addr mod 2 ^ p"
    using l1 t unat_add_lem [of len "take_bit p addr"] by simp
  moreover then have "unat (len + take_bit p addr + mask p) = unat len + unat addr mod 2 ^ p + (2 ^ p - 1)"
    using l2 m unat_add_lem [of "len + take_bit p addr" "mask p"] by simp
  ultimately show "unat a' = unat addr div 2 ^ p * 2 ^ p"
    "unat l' = (unat len + unat addr mod 2 ^ p + (2 ^ p - 1)) div 2 ^ p * 2 ^ p"
    using assms(3) [unfolded eio_page_align_eq [OF assms(1)]] unat_round_down [of addr p]
      unat_round_down [of "len + take_bit p addr + mask p" p] by auto
qed

lemma page_range:
  fixes a l P :: nat
  assumes "0 < P"
  defines "s \<equiv> a div P * P" and "n \<equiv> (l + a mod P + (P - 1)) div P * P"
  shows "s \<le> a \<and> a < s + P \<and> a + l \<le> s + n \<and> s + n < a + l + P"
proof -
  have a: "a = s + a mod P" by (simp add: s_def)
  have am: "a mod P < P" using assms(1) by simp
  define x where "x = l + a mod P + (P - 1)"
  have x: "x = n + x mod P" "x mod P < P" using assms(1) by (simp_all add: n_def x_def)
  then show ?thesis using a am assms(1) unfolding x_def by linarith
qed

lemma page_align_covers_helper:
  assumes "p < 64" "unat addr + unat len + 2 ^ p \<le> 2 ^ 64"
    and "eio_page_align (2 ^ p) addr len = (a', l')"
  shows "2 ^ p dvd unat a' \<and> 2 ^ p dvd unat l' \<and> unat a' \<le> unat addr \<and> unat addr < unat a' + 2 ^ p \<and>
    unat addr + unat len \<le> unat a' + unat l' \<and> unat a' + unat l' < unat addr + unat len + 2 ^ p"
  using page_align_values [OF assms] page_range [of "2 ^ p" "unat addr" "unat len"] by simp

section \<open>Touching pages\<close>

lemma mtouch_loop_eq:
  "\<forall>j. \<not> cancelled j \<Longrightarrow> 0 < page \<Longrightarrow>
   set (mtouch_loop cancelled i page addr endp) =
     insert addr {addr + int m * page | m. addr + int m * page < endp}"
proof (induction cancelled i page addr endp rule: mtouch_loop.induct)
  case (1 cancelled i page addr endp)
  show ?case
  proof (cases "addr + page < endp")
    case True
    then have IH: "set (mtouch_loop cancelled (Suc i) page (addr + page) endp) =
        insert (addr + page) {addr + page + int m * page | m. addr + page + int m * page < endp}"
      using "1.IH" "1.prems" by blast
    have "mtouch_loop cancelled i page addr endp = addr # mtouch_loop cancelled (Suc i) page (addr + page) endp"
      using True "1.prems" by (subst mtouch_loop.simps) simp
    then have "set (mtouch_loop cancelled i page addr endp) =
        insert addr (insert (addr + page) {addr + page + int m * page | m. addr + page + int m * page < endp})"
      by (simp only: list.set IH)
    also have "\<dots> = insert addr {addr + int m * page | m. addr + int m * page < endp}"
    proof (intro equalityI subsetI)
      fix x assume "x \<in> insert addr (insert (addr + page) {addr + page + int m * page | m. addr + page + int m * page < endp})"
      then consider "x = addr" | "x = addr + page" | m where "x = addr + page + int m * page" "x < endp" by blast
      then show "x \<in> insert addr {addr + int m * page | m. addr + int m * page < endp}"
      proof cases
        case 2
        with True show ?thesis by (auto intro!: exI [of _ 1])
      next
        case 3
        then show ?thesis by (auto intro!: exI [of _ "Suc m"] simp: algebra_simps)
      qed simp
    next
      fix x assume "x \<in> insert addr {addr + int m * page | m. addr + int m * page < endp}"
      then consider "x = addr" | m where "x = addr + int m * page" "x < endp" by blast
      then show "x \<in> insert addr (insert (addr + page) {addr + page + int m * page | m. addr + page + int m * page < endp})"
      proof cases
        case 2
        show ?thesis
        proof (cases m)
          case (Suc m')
          with 2 have "x = addr + page + int m' * page" "x < endp" by (simp_all add: algebra_simps)
          then show ?thesis by blast
        qed (use 2 in simp)
      qed simp
    qed
    finally show ?thesis .
  next
    case False
    have "x = addr" if "x = addr + int m * page" "x < endp" for x m
    proof (cases m)
      case (Suc m')
      have "0 \<le> int m' * page" using "1.prems"(2) by simp
      with that False Suc show ?thesis by (simp add: algebra_simps)
    qed (use that in simp)
    then have "{addr + int m * page | m. addr + int m * page < endp} \<subseteq> {addr}" by auto
    then show ?thesis using False by (subst mtouch_loop.simps) auto
  qed
qed

lemma eio__sendfile_total:
  assumes "copy_kern k ofd ifd src sink" "0 \<le> offset" "unat todo < n"
  shows "\<exists>r. eio__sendfile n k malloc ofd ifd offset todo s = Some r"
proof -
  obtain r s1 where l: "sf_loop n k ofd ifd offset todo 0 s = Some (r, s1)"
    using sf_loop_total [OF assms(1,3)] by fast
  show ?thesis
  proof (cases r)
    case (Inl v)
    with l show ?thesis by (simp add: eio__sendfile_def)
  next
    case (Inr b)
    then obtain r1 o1 t1 where b: "r = Inr (r1, o1, t1)" by (cases b) auto
    from sf_loop_copies [OF assms(1) l assms(2)] b have "o1 = offset" "t1 = todo" by auto
    moreover obtain r2 where "sf_emul n k ofd ifd offset todo 0 (s1\<lparr>os_errno := ENOMEM\<rparr>) = Some r2"
      using sf_emul_total [OF assms(1), of todo n] assms(3) by fastforce
    ultimately show ?thesis using l b by (simp add: eio__sendfile_def Let_def)
  qed
qed

lemma sint_nonneg_u64: "uint w < 2 ^ 63 \<Longrightarrow> sint w = uint w" for w :: u64
proof -
  assume "uint w < 2 ^ 63"
  moreover have "- (2 ^ 63) \<le> uint w" using uint_ge_0 [of w] by (rule order_trans [rotated]) simp
  ultimately have "signed_take_bit 63 (uint w) = uint w" by (intro signed_take_bit_int_eq_self)
  then show "sint w = uint w" by (simp add: sint_uint)
qed

section \<open>Properties\<close>

text \<open>
  C19: \<open>eio__sendfile\<close> returns, whether the system call works, works in pieces or is emulated, and has
  then appended to the output exactly the piece of the input file at the offset whose length it
  returns; when it returns an error nothing has been written.
\<close>

theorem sendfile_copies:
  assumes "copy_kern k ofd ifd src sink" "0 \<le> offset" "unat todo < n"
  shows "\<exists>res s' m. eio__sendfile n k malloc ofd ifd offset todo s = Some (res, s') \<and>
    copied src sink offset m s s' \<and> int m \<le> uint todo \<and> (res = int m \<or> res < 0 \<and> m = 0)"
proof -
  obtain res s' where r: "eio__sendfile n k malloc ofd ifd offset todo s = Some (res, s')"
    using eio__sendfile_total [OF assms] by fast
  from eio__sendfile_copies [OF assms(1,2) r] r show ?thesis by blast
qed

text \<open>A system without \<open>sendfile\<close> that reads at most three bytes at a time.\<close>

definition witness_kern :: "(string \<times> string) kern" where
  "witness_kern c w = (case (c, w) of
     (S_pread fd n offset, inp, out) \<Rightarrow>
       (let d = take (min (unat n) 3) (drop (nat offset) inp) in (\<lparr>sr_res = int (length d), sr_errno = 0, sr_data = d\<rparr>, w))
   | (S_write fd d, inp, out) \<Rightarrow> (\<lparr>sr_res = int (length d), sr_errno = 0, sr_data = []\<rparr>, (inp, out @ d))
   | _ \<Rightarrow> (\<lparr>sr_res = -1, sr_errno = ENOSYS, sr_data = []\<rparr>, w))"

lemma witness_copy_kern: "copy_kern witness_kern 1 0 fst snd"
proof -
  have le: "int (length (take (min (unat n) 3) (drop m xs))) \<le> uint n" for n :: u64 and m and xs :: string
  proof -
    have "length (take (min (unat n) 3) (drop m xs)) \<le> unat n" by simp
    then show ?thesis unfolding uint_nat of_nat_le_iff .
  qed
  have tk: "take (length (take j ys)) ys = take j ys" for j and ys :: string
    by (simp add: min_def)
  show ?thesis
    unfolding copy_kern_def
  proof (intro conjI allI impI; clarsimp simp: witness_kern_def Let_def split: prod.splits)
    show "int (min (length a - m) (min (unat n) 3)) \<le> uint n" for n :: u64 and a :: string and m
      using le [of n m a] by simp
  qed (auto simp: min_def order_trans [OF _ uint_ge_0])
qed

lemma sendfile_copies_witness:
  "\<exists>res s' m. eio__sendfile 8 witness_kern True 1 0 2 7 \<lparr>os_w = (''hello world'', []), os_errno = 0\<rparr> = Some (res, s') \<and>
     copied fst snd 2 m \<lparr>os_w = (''hello world'', []), os_errno = 0\<rparr> s' \<and> int m \<le> 7 \<and> (res = int m \<or> res < 0 \<and> m = 0)"
  using sendfile_copies [OF witness_copy_kern, of 2 7 8 True "\<lparr>os_w = (''hello world'', []), os_errno = 0\<rparr>"] by simp

text \<open>
  C35: \<open>eio_page_align\<close> gives the smallest range of whole pages around the given range, as long as that
  range ends below the top of the address space.
\<close>

theorem page_align_covers:
  assumes "p < 64" "unat addr + unat len + 2 ^ p \<le> 2 ^ 64"
    and "eio_page_align (2 ^ p) addr len = (a', l')"
  shows "2 ^ p dvd unat a' \<and> 2 ^ p dvd unat l' \<and> unat a' \<le> unat addr \<and> unat addr < unat a' + 2 ^ p \<and>
    unat addr + unat len \<le> unat a' + unat l' \<and> unat a' + unat l' < unat addr + unat len + 2 ^ p"
  using assms by (rule page_align_covers_helper)

lemma page_align_covers_witness:
  "2 ^ 12 dvd unat (0x12000 :: u64) \<and> 2 ^ 12 dvd unat (0x2000 :: u64) \<and> unat (0x12000 :: u64) \<le> unat (0x12345 :: u64) \<and>
   unat (0x12345 :: u64) < unat (0x12000 :: u64) + 2 ^ 12 \<and>
   unat (0x12345 :: u64) + unat (0x1000 :: u64) \<le> unat (0x12000 :: u64) + unat (0x2000 :: u64) \<and>
   unat (0x12000 :: u64) + unat (0x2000 :: u64) < unat (0x12345 :: u64) + unat (0x1000 :: u64) + 2 ^ 12"
  by (rule page_align_covers) (simp_all add: eio_page_align_def)

text \<open>
  \<open>eio__mtouch\<close> accesses the first byte of each page that holds a byte of the range, and of no page
  past it, unless it is cancelled.
\<close>

theorem mtouch_touches_pages:
  assumes "p < 63" "unat addr + unat len + 2 ^ p \<le> 2 ^ 63" "\<forall>i. \<not> cancelled i"
    and "unat addr \<le> b" "b < unat addr + unat len"
  shows "int (b div 2 ^ p * 2 ^ p) \<in> set (fst (eio__mtouch cancelled (2 ^ p) addr len flags))"
proof -
  obtain a' l' where al: "eio_page_align (2 ^ p) addr len = (a', l')" by fastforce
  have P: "2 ^ p dvd unat a'" "unat a' \<le> unat addr" "unat addr + unat len \<le> unat a' + unat l'"
    "unat a' + unat l' < 2 ^ 63"
    using page_align_covers_helper [OF _ _ al] assms(1,2) by auto
  have "unat (a' + l') = unat a' + unat l'" using P(4) unat_add_lem [of a' l'] by simp
  then have u: "uint (a' + l') = int (unat a' + unat l')" by (simp only: uint_nat)
  have s: "sint a' = int (unat a')" "sint (a' + l') = int (unat a' + unat l')"
  proof -
    have lt: "int x < 2 ^ 63" if "x < 2 ^ 63" for x :: nat using that by simp
    have "unat a' < 2 ^ 63" using P(4) by linarith
    then have "int (unat a' + unat l') < 2 ^ 63" "int (unat a') < 2 ^ 63" using lt P(4) by blast+
    then have "uint a' < 2 ^ 63" "uint (a' + l') < 2 ^ 63" unfolding u by (simp_all only: uint_nat)
    then show "sint a' = int (unat a')" "sint (a' + l') = int (unat a' + unat l')"
      using sint_nonneg_u64 u by (simp_all only: uint_nat)
  qed
  have "uint ((2 :: u64) ^ p) = 2 ^ p" using assms(1) by (intro bit_eqI) (auto simp: bit_simps)
  then have pg: "sint ((2 :: u64) ^ p) = 2 ^ p"
    using sint_nonneg_u64 [of "2 ^ p"] power_strict_increasing [of p 63 "2 :: int"] assms(1) by simp
  define q where "q = (b div 2 ^ p * 2 ^ p - unat a') div 2 ^ p"
  have ge: "unat a' \<le> b div 2 ^ p * 2 ^ p"
  proof -
    from P(1) obtain c where c: "unat a' = 2 ^ p * c" by blast
    have "unat a' \<le> b" using P(2) assms(4) by linarith
    then have "c \<le> b div 2 ^ p" unfolding c by (metis div_le_mono nonzero_mult_div_cancel_left power_not_zero zero_neq_numeral)
    then show ?thesis unfolding c by (metis mult.commute mult_le_mono1)
  qed
  have "2 ^ p dvd b div 2 ^ p * 2 ^ p - unat a'" using P(1) by (simp add: dvd_diff_nat)
  then have "b div 2 ^ p * 2 ^ p = unat a' + q * 2 ^ p" using ge by (simp add: q_def)
  then have b: "int (b div 2 ^ p * 2 ^ p) = int (unat a') + int q * 2 ^ p"
    by (metis of_nat_add of_nat_mult of_nat_numeral of_nat_power)
  have "b div 2 ^ p * 2 ^ p \<le> b" by simp
  then have lt: "int (b div 2 ^ p * 2 ^ p) < int (unat a' + unat l')" using P(3) assms(5) by linarith
  have "int (unat a') < int (unat a' + unat l')" using P assms(4,5) by linarith
  then have "fst (eio__mtouch cancelled (2 ^ p) addr len flags) =
      mtouch_loop cancelled 0 (2 ^ p) (int (unat a')) (int (unat a' + unat l'))"
    by (simp only: eio__mtouch_def al Let_def prod.case s pg fst_conv if_True)
  moreover have "(0 :: int) < 2 ^ p" by simp
  ultimately show ?thesis
    using mtouch_loop_eq [OF assms(3), of "2 ^ p" 0 "int (unat a')" "int (unat a' + unat l')"] lt b by auto
qed

lemma mtouch_touches_pages_witness:
  "0x13000 \<in> set (fst (eio__mtouch (\<lambda>_. False) (2 ^ 12) 0x12345 0x1000 0))"
  using mtouch_touches_pages [of 12 "0x12345" "0x1000" "\<lambda>_. False" "0x13000" 0] by simp

end
