(* ===== verification/Execute.thy ===== *)
theory Execute
  imports SysEmul
begin

unbundle bit_operations_syntax

text \<open>
  What a worker thread does with a request: \<open>eio_execute\<close> of \<open>libeio/eio.c\<close>, the build with the
  \<open>at\<close> variants of the system calls.  A null pointer that would be followed is a fault (\<open>None\<close>).
  The functions that resolve paths, open handles and read directories run on their own arguments
  (\<open>Realpath\<close>, \<open>Scandir\<close>); everything else runs on the system \<open>ex_kern\<close>.
\<close>

section \<open>The environment\<close>

text \<open>
  \<open>ex_malloc\<close> is the allocator, \<open>ex_page\<close> the page size, \<open>ex_fuel\<close> bounds the rounds of \<open>sendfile\<close>,
  \<open>ex_buf\<close> tells whether its buffer can be allocated, \<open>ex_cancelled i\<close> is the flag of the request after
  access \<open>i\<close> of \<open>eio_mtouch\<close>, \<open>ex_addr\<close> the address of a buffer, \<open>ex_errno\<close> the \<open>errno\<close> that resolving
  a path or opening a handle leaves behind when it succeeds, and \<open>ex_feed\<close> the function a custom
  request runs.
\<close>

record 'w exec_env =
  ex_kern :: "'w kern"
  ex_malloc :: "nat \<Rightarrow> string option"
  ex_page :: u64
  ex_fuel :: nat
  ex_buf :: bool
  ex_cancelled :: "nat \<Rightarrow> bool"
  ex_addr :: "eio_mem \<Rightarrow> u64"
  ex_wd :: wd_env
  ex_scan :: scandir_env
  ex_errno :: int
  ex_feed :: "eio_req \<Rightarrow> 'w os \<Rightarrow> eio_req \<times> 'w os"

definition AT_SYMLINK_NOFOLLOW :: int where "AT_SYMLINK_NOFOLLOW = 0x100"
definition AT_REMOVEDIR :: int where "AT_REMOVEDIR = 0x200"
definition O_RDONLY :: int where "O_RDONLY = 0"
definition sizeof_stat :: nat where "sizeof_stat = 144"
definition sizeof_statvfs :: nat where "sizeof_statvfs = 112"

text \<open>The string a path pointer refers to.\<close>

fun mem_path :: "eio_mem \<Rightarrow> string option" where
  "mem_path (MBytes s) = Some s"
| "mem_path _ = None"

definition SINGLEDOT :: "eio_mem \<Rightarrow> bool" where
  "SINGLEDOT m = (case m of MBytes s \<Rightarrow> c_at s 0 = CHR ''.'' \<and> c_at s 1 = NUL | _ \<Rightarrow> False)"

definition set_result :: "eio_req \<Rightarrow> int \<times> 'w os \<Rightarrow> (eio_req \<times> 'w os) option" where
  "set_result req rs = (case rs of (r, s) \<Rightarrow> Some (req\<lparr>rq_result := r\<rparr>, s))"

definition set_result_buf :: "eio_req \<Rightarrow> int \<times> string \<times> 'w os \<Rightarrow> (eio_req \<times> 'w os) option" where
  "set_result_buf req rs =
     (case rs of (r, d, s) \<Rightarrow> Some (req\<lparr>rq_result := r, rq_ptr2 := fill d (rq_ptr2 req)\<rparr>, s))"

definition with_alloc ::
    "'w exec_env \<Rightarrow> nat \<Rightarrow> eio_req \<Rightarrow> 'w os \<Rightarrow> (eio_req \<Rightarrow> 'w os \<Rightarrow> (eio_req \<times> 'w os) option) \<Rightarrow>
     (eio_req \<times> 'w os) option" where
  "with_alloc env len req s f =
     (case ALLOC (ex_malloc env) len req s of ((req, s), go_on) \<Rightarrow> if go_on then f req s else Some (req, s))"

section \<open>Times\<close>

text \<open>The conversion of a floating point number to an integer type truncates towards zero.\<close>

definition c_trunc :: "rat \<Rightarrow> int" where
  "c_trunc x = (if 0 \<le> x then \<lfloor>x\<rfloor> else \<lceil>x\<rceil>)"

definition timespec :: "rat \<Rightarrow> int \<times> int" where
  "timespec nv = (c_trunc nv, c_trunc ((nv - of_int (c_trunc nv)) * 10 ^ 9))"

definition utime_times :: "eio_req \<Rightarrow> ((int \<times> int) \<times> (int \<times> int)) option" where
  "utime_times req =
     (if rq_nv1 req \<noteq> -1 \<or> rq_nv2 req \<noteq> -1 then Some (timespec (rq_nv1 req), timespec (rq_nv2 req)) else None)"

section \<open>Requests on a path\<close>

text \<open>The requests from \<open>EIO_OPEN\<close> on, with the descriptor of the directory.\<close>

definition exec_path :: "'w exec_env \<Rightarrow> int \<Rightarrow> eio_req \<Rightarrow> 'w os \<Rightarrow> (eio_req \<times> 'w os) option" where
  "exec_path env dirfd req s =
     (let k = ex_kern env; p1 = rq_ptr1 req; p2 = rq_ptr2 req; n1 = rq_int1 req; n2 = rq_int2 req in
      case rq_type req of
        EIO_STAT \<Rightarrow> with_alloc env sizeof_stat req s
          (\<lambda>req s. set_result_buf req (call k (S_fstatat dirfd p1 0) s))
      | EIO_LSTAT \<Rightarrow> with_alloc env sizeof_stat req s
          (\<lambda>req s. set_result_buf req (call k (S_fstatat dirfd p1 AT_SYMLINK_NOFOLLOW) s))
      | EIO_CHOWN \<Rightarrow> set_result req (call1 k (S_fchownat dirfd p1 n2 (rq_int3 req) 0) s)
      | EIO_CHMOD \<Rightarrow> set_result req (call1 k (S_fchmodat dirfd p1 n2 0) s)
      | EIO_TRUNCATE \<Rightarrow> set_result req (eio__truncateat k dirfd p1 (rq_offs req) s)
      | EIO_OPEN \<Rightarrow> set_result req (call1 k (S_openat dirfd p1 n1 n2) s)
      | EIO_SLURP \<Rightarrow>
          (case call1 k (S_openat dirfd p1 (O_RDONLY OR O_CLOEXEC) 0) s of (fd, s) \<Rightarrow>
            Some (eio__slurp k (ex_malloc env) fd req s))
      | EIO_UNLINK \<Rightarrow> set_result req (call1 k (S_unlinkat dirfd p1 0) s)
      | EIO_RMDIR \<Rightarrow>
          (case rq_wd req of
             WD pwd \<Rightarrow> if SINGLEDOT p1 then set_result req (call1 k (S_rmdir (pwd_str pwd)) s)
                       else set_result req (call1 k (S_unlinkat dirfd p1 AT_REMOVEDIR) s)
           | _ \<Rightarrow> set_result req (call1 k (S_unlinkat dirfd p1 AT_REMOVEDIR) s))
      | EIO_MKDIR \<Rightarrow> set_result req (call1 k (S_mkdirat dirfd p1 n2) s)
      | EIO_RENAME \<Rightarrow>
          (case WD2FD (rq_wd3 req) of
             None \<Rightarrow> None
           | Some newdirfd \<Rightarrow>
               set_result req (eio__renameat2 k dirfd
                 (case rq_wd req of WD pwd \<Rightarrow> if SINGLEDOT p1 then MBytes (pwd_str pwd) else p1 | _ \<Rightarrow> p1)
                 newdirfd p2 n2 s))
      | EIO_LINK \<Rightarrow>
          (case WD2FD (rq_wd3 req) of
             None \<Rightarrow> None
           | Some newdirfd \<Rightarrow> set_result req (call1 k (S_linkat dirfd p1 newdirfd p2 0) s))
      | EIO_SYMLINK \<Rightarrow> set_result req (call1 k (S_symlinkat p1 dirfd p2) s)
      | EIO_MKNOD \<Rightarrow> set_result req (call1 k (S_mknodat dirfd p1 n2 (rq_offs req)) s)
      | EIO_STATVFS \<Rightarrow> with_alloc env sizeof_statvfs req s
          (\<lambda>req s. set_result_buf req (eio__statvfsat k dirfd p1 s))
      | EIO_READLINK \<Rightarrow> with_alloc env EIO_PATH_MAX req s
          (\<lambda>req s. case set_result_buf req (call k (S_readlinkat dirfd p1 EIO_PATH_MAX) s) of
             None \<Rightarrow> None
           | Some (req, s) \<Rightarrow>
               if rq_result req = int EIO_PATH_MAX
               then Some (req\<lparr>rq_result := -1\<rparr>, s\<lparr>os_errno := ENAMETOOLONG\<rparr>) else Some (req, s))
      | EIO_UTIME \<Rightarrow> set_result req (call1 k (S_utimensat dirfd p1 (utime_times req) 0) s)
      | _ \<Rightarrow> set_result req (EIO_ENOSYS s))"

section \<open>The other requests\<close>

text \<open>The requests after the ones on paths in the switch.\<close>

definition exec_other :: "'w exec_env \<Rightarrow> eio_req \<Rightarrow> 'w os \<Rightarrow> (eio_req \<times> 'w os) option" where
  "exec_other env req s =
     (let k = ex_kern env; fd = rq_int1 req; n2 = rq_int2 req; p2 = rq_ptr2 req in
      case rq_type req of
        EIO_REALPATH \<Rightarrow>
          (case eio__realpath (path_env.truncate (ex_wd env)) (rq_wd req) (mem_path (rq_ptr1 req)) of
             None \<Rightarrow> None
           | Some (Inl e) \<Rightarrow> Some (req\<lparr>rq_result := -1\<rparr>, s\<lparr>os_errno := e\<rparr>)
           | Some (Inr str) \<Rightarrow>
               with_alloc env (length str) (req\<lparr>rq_result := int (length str)\<rparr>) (s\<lparr>os_errno := ex_errno env\<rparr>)
                 (\<lambda>req s. Some (req\<lparr>rq_ptr2 := fill str (rq_ptr2 req)\<rparr>, s)))
      | EIO_FSTAT \<Rightarrow> with_alloc env sizeof_stat req s (\<lambda>req s. set_result_buf req (call k (S_fstat fd) s))
      | EIO_FSTATVFS \<Rightarrow> with_alloc env sizeof_statvfs req s
          (\<lambda>req s. set_result_buf req (call k (S_fstatvfs fd) s))
      | EIO_FUTIME \<Rightarrow> set_result req (call1 k (S_futimens fd (utime_times req)) s)
      | EIO_FCHOWN \<Rightarrow> set_result req (call1 k (S_fchown fd n2 (rq_int3 req)) s)
      | EIO_FCHMOD \<Rightarrow> set_result req (call1 k (S_fchmod fd n2) s)
      | EIO_FTRUNCATE \<Rightarrow> set_result req (call1 k (S_ftruncate fd (rq_offs req)) s)
      | EIO_CLOSE \<Rightarrow> set_result req (call1 k (S_close fd) s)
      | EIO_DUP2 \<Rightarrow> set_result req (call1 k (S_dup2 fd n2) s)
      | EIO_SYNC \<Rightarrow> Some (req\<lparr>rq_result := 0\<rparr>, snd (call1 k S_sync s))
      | EIO_FSYNC \<Rightarrow> set_result req (call1 k (S_fsync fd) s)
      | EIO_FDATASYNC \<Rightarrow> set_result req (call1 k (S_fdatasync fd) s)
      | EIO_SYNCFS \<Rightarrow> set_result req (eio__syncfs k fd s)
      | EIO_SYNC_FILE_RANGE \<Rightarrow>
          set_result req (eio__sync_file_range k fd (rq_offs req) (rq_size req) n2 s)
      | EIO_MSYNC \<Rightarrow> set_result req (eio__msync k (ex_page env) (ex_addr env p2) (rq_size req) fd s)
      | EIO_MTOUCH \<Rightarrow> Some (req\<lparr>rq_result := 0\<rparr>, s)
      | EIO_MLOCK \<Rightarrow> set_result req (eio__mlock k (ex_page env) (ex_addr env p2) (rq_size req) s)
      | EIO_MLOCKALL \<Rightarrow> set_result req (eio__mlockall k fd s)
      | EIO_FALLOCATE \<Rightarrow> set_result req (eio__fallocate k fd n2 (rq_offs req) (rq_size req) s)
      | EIO_READDIR \<Rightarrow>
          (case eio__scandir (ex_scan env) req of
             None \<Rightarrow> None | Some (e, req) \<Rightarrow> Some (req, s\<lparr>os_errno := e\<rparr>))
      | EIO_BUSY \<Rightarrow>
          (let sec = c_trunc (rq_nv1 req)
           in set_result req (call1 k (S_select sec (c_trunc ((rq_nv1 req - of_int sec) * 10 ^ 6))) s))
      | EIO_NOP \<Rightarrow> Some (req\<lparr>rq_result := 0\<rparr>, s)
      | EIO_CUSTOM \<Rightarrow> (if rq_feed req = None then None else Some (ex_feed env req s))
      | _ \<Rightarrow> set_result req (EIO_ENOSYS s))"

text \<open>The requests before them.\<close>

definition exec_head :: "'w exec_env \<Rightarrow> eio_req \<Rightarrow> 'w os \<Rightarrow> (eio_req \<times> 'w os) option" where
  "exec_head env req s =
     (let k = ex_kern env; fd = rq_int1 req; n2 = rq_int2 req; p2 = rq_ptr2 req in
      case rq_type req of
        EIO_WD_OPEN \<Rightarrow>
          (case eio__wd_open_sync (ex_wd env) (rq_wd req) (mem_path (rq_ptr1 req)) of
             None \<Rightarrow> None
           | Some (wd, cl) \<Rightarrow>
               Some (req\<lparr>rq_wd := wd, rq_result := (if wd = EIO_INVALID_WD then -1 else 0)\<rparr>,
                     s\<lparr>os_errno := ex_errno env\<rparr>))
      | EIO_WD_CLOSE \<Rightarrow>
          Some (req\<lparr>rq_result := 0\<rparr>,
                fold (\<lambda>fd s. snd (call1 k (S_close fd) s)) (eio_wd_close_sync (rq_wd req)) s)
      | EIO_SEEK \<Rightarrow> Some (eio__lseek k req s)
      | EIO_READ \<Rightarrow> with_alloc env (unat (rq_size req)) req s
          (\<lambda>req s. set_result_buf req
             (if rq_offs req \<ge> 0 then call k (S_pread fd (rq_size req) (rq_offs req)) s
              else call k (S_read fd (rq_size req)) s))
      | EIO_WRITE \<Rightarrow> set_result req
          (if rq_offs req \<ge> 0 then call1 k (S_pwrite fd p2 (rq_size req) (rq_offs req)) s
           else call1 k (S_write_mem fd p2 (rq_size req)) s)
      | EIO_FCNTL \<Rightarrow> set_result_buf req (call k (S_fcntl fd n2 p2) s)
      | EIO_IOCTL \<Rightarrow> set_result_buf req (call k (S_ioctl fd n2 p2) s)
      | EIO_READAHEAD \<Rightarrow> set_result req (call1 k (S_readahead fd (rq_offs req) (rq_size req)) s)
      | EIO_SENDFILE \<Rightarrow>
          (case eio__sendfile (ex_fuel env) k (ex_buf env) fd n2 (rq_offs req) (rq_size req) s of
             None \<Rightarrow> None | Some rs \<Rightarrow> set_result req rs)
      | _ \<Rightarrow> exec_other env req s)"

text \<open>The accesses of an \<open>EIO_MTOUCH\<close> request; they change nothing the model keeps.\<close>

definition exec_touches :: "'w exec_env \<Rightarrow> eio_req \<Rightarrow> int list" where
  "exec_touches env req =
     fst (eio__mtouch (ex_cancelled env) (ex_page env) (ex_addr env (rq_ptr2 req)) (rq_size req) (rq_int1 req))"

section \<open>The whole function\<close>

definition eio_execute :: "'w exec_env \<Rightarrow> eio_req \<Rightarrow> 'w os \<Rightarrow> (eio_req \<times> 'w os) option" where
  "eio_execute env req s =
     (if rq_cancelled req then Some (req\<lparr>rq_result := -1, rq_errorno := ECANCELED\<rparr>, s)
      else if rq_wd req = EIO_INVALID_WD then Some (req\<lparr>rq_result := -1, rq_errorno := ENOENT\<rparr>, s)
      else
        (case (if type_code (rq_type req) \<ge> type_code EIO_OPEN
               then (case WD2FD (rq_wd req) of None \<Rightarrow> None | Some dirfd \<Rightarrow> exec_path env dirfd req s)
               else exec_head env req s) of
           None \<Rightarrow> None
         | Some (req, s) \<Rightarrow> Some (req\<lparr>rq_errorno := os_errno s\<rparr>, s)))"

end
