(* ===== verification/Wrappers.thy ===== *)
theory Wrappers
  imports Execute
begin

unbundle bit_operations_syntax

text \<open>
  The convenience wrappers at the end of \<open>libeio/eio.c\<close> that build a request and submit it.  A wrapper
  ends with the request it hands to \<open>eio_submit\<close> (whose effect on the pool is \<open>etp_submit\<close> of \<open>Pool\<close>),
  or returns the null pointer; then the copies of paths that are left allocated are listed.
\<close>

section \<open>The macros\<close>

text \<open>Whether \<open>calloc\<close> of the request and \<open>strdup\<close> of the first and the second path succeed.\<close>

record alloc_env =
  ae_req :: bool
  ae_path :: bool
  ae_path2 :: bool

datatype wrap_res = Sent eio_req | Returned_null "string list"

definition REQ ::
    "alloc_env \<Rightarrow> eio_type \<Rightarrow> int \<Rightarrow> finish_fn option \<Rightarrow> ptr \<Rightarrow> (eio_req \<Rightarrow> wrap_res) \<Rightarrow> wrap_res" where
  "REQ al rtype pri cb data k =
     (if \<not> ae_req al then Returned_null []
      else k (calloc_req\<lparr>rq_type := rtype, rq_pri := of_int pri, rq_finish := cb, rq_data := data,
                        rq_destroy := Some D_eio_api_destroy\<rparr>))"

definition PATH :: "alloc_env \<Rightarrow> string \<Rightarrow> (eio_req \<Rightarrow> wrap_res) \<Rightarrow> eio_req \<Rightarrow> wrap_res" where
  "PATH al path k req =
     (let req = req\<lparr>rq_flags := rq_flags req OR EIO_FLAG_PTR1_FREE\<rparr> in
      if \<not> ae_path al then Returned_null [] else k (req\<lparr>rq_ptr1 := MBytes path\<rparr>))"

section \<open>The wrappers\<close>

definition eio_wd_open :: "alloc_env \<Rightarrow> string \<Rightarrow> int \<Rightarrow> finish_fn option \<Rightarrow> ptr \<Rightarrow> wrap_res" where
  "eio_wd_open al path pri cb data =
     REQ al EIO_WD_OPEN pri cb data (PATH al path Sent)"

definition eio_wd_close :: "alloc_env \<Rightarrow> eio_wd \<Rightarrow> int \<Rightarrow> finish_fn option \<Rightarrow> ptr \<Rightarrow> wrap_res" where
  "eio_wd_close al wd pri cb data =
     REQ al EIO_WD_CLOSE pri cb data (\<lambda>req. Sent (req\<lparr>rq_wd := wd\<rparr>))"

definition eio_nop :: "alloc_env \<Rightarrow> int \<Rightarrow> finish_fn option \<Rightarrow> ptr \<Rightarrow> wrap_res" where
  "eio_nop al pri cb data =
     REQ al EIO_NOP pri cb data Sent"

definition eio_busy :: "alloc_env \<Rightarrow> rat \<Rightarrow> int \<Rightarrow> finish_fn option \<Rightarrow> ptr \<Rightarrow> wrap_res" where
  "eio_busy al delay pri cb data =
     REQ al EIO_BUSY pri cb data (\<lambda>req. Sent (req\<lparr>rq_nv1 := delay\<rparr>))"

definition eio_sync :: "alloc_env \<Rightarrow> int \<Rightarrow> finish_fn option \<Rightarrow> ptr \<Rightarrow> wrap_res" where
  "eio_sync al pri cb data =
     REQ al EIO_SYNC pri cb data Sent"

definition eio_fsync :: "alloc_env \<Rightarrow> int \<Rightarrow> int \<Rightarrow> finish_fn option \<Rightarrow> ptr \<Rightarrow> wrap_res" where
  "eio_fsync al fd pri cb data =
     REQ al EIO_FSYNC pri cb data (\<lambda>req. Sent (req\<lparr>rq_int1 := fd\<rparr>))"

definition eio_msync :: "alloc_env \<Rightarrow> eio_mem \<Rightarrow> u64 \<Rightarrow> int \<Rightarrow> int \<Rightarrow> finish_fn option \<Rightarrow> ptr \<Rightarrow> wrap_res" where
  "eio_msync al addr len flags pri cb data =
     REQ al EIO_MSYNC pri cb data (\<lambda>req. Sent (req\<lparr>rq_ptr2 := addr, rq_size := len, rq_int1 := flags\<rparr>))"

definition eio_fdatasync :: "alloc_env \<Rightarrow> int \<Rightarrow> int \<Rightarrow> finish_fn option \<Rightarrow> ptr \<Rightarrow> wrap_res" where
  "eio_fdatasync al fd pri cb data =
     REQ al EIO_FDATASYNC pri cb data (\<lambda>req. Sent (req\<lparr>rq_int1 := fd\<rparr>))"

definition eio_syncfs :: "alloc_env \<Rightarrow> int \<Rightarrow> int \<Rightarrow> finish_fn option \<Rightarrow> ptr \<Rightarrow> wrap_res" where
  "eio_syncfs al fd pri cb data =
     REQ al EIO_SYNCFS pri cb data (\<lambda>req. Sent (req\<lparr>rq_int1 := fd\<rparr>))"

definition eio_sync_file_range :: "alloc_env \<Rightarrow> int \<Rightarrow> int \<Rightarrow> u64 \<Rightarrow> int \<Rightarrow> int \<Rightarrow> finish_fn option \<Rightarrow> ptr \<Rightarrow> wrap_res" where
  "eio_sync_file_range al fd offset nbytes flags pri cb data =
     REQ al EIO_SYNC_FILE_RANGE pri cb data (\<lambda>req. Sent (req\<lparr>rq_int1 := fd, rq_offs := offset, rq_size := nbytes, rq_int2 := flags\<rparr>))"

definition eio_mtouch :: "alloc_env \<Rightarrow> eio_mem \<Rightarrow> u64 \<Rightarrow> int \<Rightarrow> int \<Rightarrow> finish_fn option \<Rightarrow> ptr \<Rightarrow> wrap_res" where
  "eio_mtouch al addr len flags pri cb data =
     REQ al EIO_MTOUCH pri cb data (\<lambda>req. Sent (req\<lparr>rq_ptr2 := addr, rq_size := len, rq_int1 := flags\<rparr>))"

definition eio_mlock :: "alloc_env \<Rightarrow> eio_mem \<Rightarrow> u64 \<Rightarrow> int \<Rightarrow> finish_fn option \<Rightarrow> ptr \<Rightarrow> wrap_res" where
  "eio_mlock al addr len pri cb data =
     REQ al EIO_MLOCK pri cb data (\<lambda>req. Sent (req\<lparr>rq_ptr2 := addr, rq_size := len\<rparr>))"

definition eio_mlockall :: "alloc_env \<Rightarrow> int \<Rightarrow> int \<Rightarrow> finish_fn option \<Rightarrow> ptr \<Rightarrow> wrap_res" where
  "eio_mlockall al flags pri cb data =
     REQ al EIO_MLOCKALL pri cb data (\<lambda>req. Sent (req\<lparr>rq_int1 := flags\<rparr>))"

definition eio_fallocate :: "alloc_env \<Rightarrow> int \<Rightarrow> int \<Rightarrow> int \<Rightarrow> u64 \<Rightarrow> int \<Rightarrow> finish_fn option \<Rightarrow> ptr \<Rightarrow> wrap_res" where
  "eio_fallocate al fd mode offset len pri cb data =
     REQ al EIO_FALLOCATE pri cb data (\<lambda>req. Sent (req\<lparr>rq_int1 := fd, rq_int2 := mode, rq_offs := offset, rq_size := len\<rparr>))"

definition eio_close :: "alloc_env \<Rightarrow> int \<Rightarrow> int \<Rightarrow> finish_fn option \<Rightarrow> ptr \<Rightarrow> wrap_res" where
  "eio_close al fd pri cb data =
     REQ al EIO_CLOSE pri cb data (\<lambda>req. Sent (req\<lparr>rq_int1 := fd\<rparr>))"

definition eio_readahead :: "alloc_env \<Rightarrow> int \<Rightarrow> int \<Rightarrow> u64 \<Rightarrow> int \<Rightarrow> finish_fn option \<Rightarrow> ptr \<Rightarrow> wrap_res" where
  "eio_readahead al fd offset len pri cb data =
     REQ al EIO_READAHEAD pri cb data (\<lambda>req. Sent (req\<lparr>rq_int1 := fd, rq_offs := offset, rq_size := len\<rparr>))"

definition eio_seek :: "alloc_env \<Rightarrow> int \<Rightarrow> int \<Rightarrow> int \<Rightarrow> int \<Rightarrow> finish_fn option \<Rightarrow> ptr \<Rightarrow> wrap_res" where
  "eio_seek al fd offset whence pri cb data =
     REQ al EIO_SEEK pri cb data (\<lambda>req. Sent (req\<lparr>rq_int1 := fd, rq_offs := offset, rq_int2 := whence\<rparr>))"

definition eio_read :: "alloc_env \<Rightarrow> int \<Rightarrow> eio_mem \<Rightarrow> u64 \<Rightarrow> int \<Rightarrow> int \<Rightarrow> finish_fn option \<Rightarrow> ptr \<Rightarrow> wrap_res" where
  "eio_read al fd buf len offset pri cb data =
     REQ al EIO_READ pri cb data (\<lambda>req. Sent (req\<lparr>rq_int1 := fd, rq_offs := offset, rq_size := len, rq_ptr2 := buf\<rparr>))"

definition eio_write :: "alloc_env \<Rightarrow> int \<Rightarrow> eio_mem \<Rightarrow> u64 \<Rightarrow> int \<Rightarrow> int \<Rightarrow> finish_fn option \<Rightarrow> ptr \<Rightarrow> wrap_res" where
  "eio_write al fd buf len offset pri cb data =
     REQ al EIO_WRITE pri cb data (\<lambda>req. Sent (req\<lparr>rq_int1 := fd, rq_offs := offset, rq_size := len, rq_ptr2 := buf\<rparr>))"

definition eio_fcntl :: "alloc_env \<Rightarrow> int \<Rightarrow> int \<Rightarrow> eio_mem \<Rightarrow> int \<Rightarrow> finish_fn option \<Rightarrow> ptr \<Rightarrow> wrap_res" where
  "eio_fcntl al fd cmd arg pri cb data =
     REQ al EIO_IOCTL pri cb data (\<lambda>req. Sent (req\<lparr>rq_int1 := fd, rq_int2 := cmd, rq_ptr2 := arg\<rparr>))"

definition eio_ioctl :: "alloc_env \<Rightarrow> int \<Rightarrow> int \<Rightarrow> eio_mem \<Rightarrow> int \<Rightarrow> finish_fn option \<Rightarrow> ptr \<Rightarrow> wrap_res" where
  "eio_ioctl al fd request buf pri cb data =
     REQ al EIO_IOCTL pri cb data (\<lambda>req. Sent (req\<lparr>rq_int1 := fd, rq_int2 := request, rq_ptr2 := buf\<rparr>))"

definition eio_fstat :: "alloc_env \<Rightarrow> int \<Rightarrow> int \<Rightarrow> finish_fn option \<Rightarrow> ptr \<Rightarrow> wrap_res" where
  "eio_fstat al fd pri cb data =
     REQ al EIO_FSTAT pri cb data (\<lambda>req. Sent (req\<lparr>rq_int1 := fd\<rparr>))"

definition eio_fstatvfs :: "alloc_env \<Rightarrow> int \<Rightarrow> int \<Rightarrow> finish_fn option \<Rightarrow> ptr \<Rightarrow> wrap_res" where
  "eio_fstatvfs al fd pri cb data =
     REQ al EIO_FSTATVFS pri cb data (\<lambda>req. Sent (req\<lparr>rq_int1 := fd\<rparr>))"

definition eio_futime :: "alloc_env \<Rightarrow> int \<Rightarrow> rat \<Rightarrow> rat \<Rightarrow> int \<Rightarrow> finish_fn option \<Rightarrow> ptr \<Rightarrow> wrap_res" where
  "eio_futime al fd atime mtime pri cb data =
     REQ al EIO_FUTIME pri cb data (\<lambda>req. Sent (req\<lparr>rq_int1 := fd, rq_nv1 := atime, rq_nv2 := mtime\<rparr>))"

definition eio_ftruncate :: "alloc_env \<Rightarrow> int \<Rightarrow> int \<Rightarrow> int \<Rightarrow> finish_fn option \<Rightarrow> ptr \<Rightarrow> wrap_res" where
  "eio_ftruncate al fd offset pri cb data =
     REQ al EIO_FTRUNCATE pri cb data (\<lambda>req. Sent (req\<lparr>rq_int1 := fd, rq_offs := offset\<rparr>))"

definition eio_fchmod :: "alloc_env \<Rightarrow> int \<Rightarrow> int \<Rightarrow> int \<Rightarrow> finish_fn option \<Rightarrow> ptr \<Rightarrow> wrap_res" where
  "eio_fchmod al fd mode pri cb data =
     REQ al EIO_FCHMOD pri cb data (\<lambda>req. Sent (req\<lparr>rq_int1 := fd, rq_int2 := mode\<rparr>))"

definition eio_fchown :: "alloc_env \<Rightarrow> int \<Rightarrow> int \<Rightarrow> int \<Rightarrow> int \<Rightarrow> finish_fn option \<Rightarrow> ptr \<Rightarrow> wrap_res" where
  "eio_fchown al fd uid gid pri cb data =
     REQ al EIO_FCHOWN pri cb data (\<lambda>req. Sent (req\<lparr>rq_int1 := fd, rq_int2 := uid, rq_int3 := gid\<rparr>))"

definition eio_dup2 :: "alloc_env \<Rightarrow> int \<Rightarrow> int \<Rightarrow> int \<Rightarrow> finish_fn option \<Rightarrow> ptr \<Rightarrow> wrap_res" where
  "eio_dup2 al fd fd2 pri cb data =
     REQ al EIO_DUP2 pri cb data (\<lambda>req. Sent (req\<lparr>rq_int1 := fd, rq_int2 := fd2\<rparr>))"

definition eio_sendfile :: "alloc_env \<Rightarrow> int \<Rightarrow> int \<Rightarrow> int \<Rightarrow> u64 \<Rightarrow> int \<Rightarrow> finish_fn option \<Rightarrow> ptr \<Rightarrow> wrap_res" where
  "eio_sendfile al out_fd in_fd in_offset len pri cb data =
     REQ al EIO_SENDFILE pri cb data (\<lambda>req. Sent (req\<lparr>rq_int1 := out_fd, rq_int2 := in_fd, rq_offs := in_offset, rq_size := len\<rparr>))"

definition eio_open :: "alloc_env \<Rightarrow> string \<Rightarrow> int \<Rightarrow> int \<Rightarrow> int \<Rightarrow> finish_fn option \<Rightarrow> ptr \<Rightarrow> wrap_res" where
  "eio_open al path flags mode pri cb data =
     REQ al EIO_OPEN pri cb data (PATH al path (\<lambda>req. Sent (req\<lparr>rq_int1 := flags, rq_int2 := mode\<rparr>)))"

definition eio_utime :: "alloc_env \<Rightarrow> string \<Rightarrow> rat \<Rightarrow> rat \<Rightarrow> int \<Rightarrow> finish_fn option \<Rightarrow> ptr \<Rightarrow> wrap_res" where
  "eio_utime al path atime mtime pri cb data =
     REQ al EIO_UTIME pri cb data (PATH al path (\<lambda>req. Sent (req\<lparr>rq_nv1 := atime, rq_nv2 := mtime\<rparr>)))"

definition eio_truncate :: "alloc_env \<Rightarrow> string \<Rightarrow> int \<Rightarrow> int \<Rightarrow> finish_fn option \<Rightarrow> ptr \<Rightarrow> wrap_res" where
  "eio_truncate al path offset pri cb data =
     REQ al EIO_TRUNCATE pri cb data (PATH al path (\<lambda>req. Sent (req\<lparr>rq_offs := offset\<rparr>)))"

definition eio_chown :: "alloc_env \<Rightarrow> string \<Rightarrow> int \<Rightarrow> int \<Rightarrow> int \<Rightarrow> finish_fn option \<Rightarrow> ptr \<Rightarrow> wrap_res" where
  "eio_chown al path uid gid pri cb data =
     REQ al EIO_CHOWN pri cb data (PATH al path (\<lambda>req. Sent (req\<lparr>rq_int2 := uid, rq_int3 := gid\<rparr>)))"

definition eio_chmod :: "alloc_env \<Rightarrow> string \<Rightarrow> int \<Rightarrow> int \<Rightarrow> finish_fn option \<Rightarrow> ptr \<Rightarrow> wrap_res" where
  "eio_chmod al path mode pri cb data =
     REQ al EIO_CHMOD pri cb data (PATH al path (\<lambda>req. Sent (req\<lparr>rq_int2 := mode\<rparr>)))"

definition eio_mkdir :: "alloc_env \<Rightarrow> string \<Rightarrow> int \<Rightarrow> int \<Rightarrow> finish_fn option \<Rightarrow> ptr \<Rightarrow> wrap_res" where
  "eio_mkdir al path mode pri cb data =
     REQ al EIO_MKDIR pri cb data (PATH al path (\<lambda>req. Sent (req\<lparr>rq_int2 := mode\<rparr>)))"

definition eio__1path :: "alloc_env \<Rightarrow> eio_type \<Rightarrow> string \<Rightarrow> int \<Rightarrow> finish_fn option \<Rightarrow> ptr \<Rightarrow> wrap_res" where
  "eio__1path al type path pri cb data =
     REQ al type pri cb data (PATH al path Sent)"

definition eio_readlink :: "alloc_env \<Rightarrow> string \<Rightarrow> int \<Rightarrow> finish_fn option \<Rightarrow> ptr \<Rightarrow> wrap_res" where
  "eio_readlink al path pri cb data =
     eio__1path al EIO_READLINK path pri cb data"

definition eio_realpath :: "alloc_env \<Rightarrow> string \<Rightarrow> int \<Rightarrow> finish_fn option \<Rightarrow> ptr \<Rightarrow> wrap_res" where
  "eio_realpath al path pri cb data =
     eio__1path al EIO_REALPATH path pri cb data"

definition eio_stat :: "alloc_env \<Rightarrow> string \<Rightarrow> int \<Rightarrow> finish_fn option \<Rightarrow> ptr \<Rightarrow> wrap_res" where
  "eio_stat al path pri cb data =
     eio__1path al EIO_STAT path pri cb data"

definition eio_lstat :: "alloc_env \<Rightarrow> string \<Rightarrow> int \<Rightarrow> finish_fn option \<Rightarrow> ptr \<Rightarrow> wrap_res" where
  "eio_lstat al path pri cb data =
     eio__1path al EIO_LSTAT path pri cb data"

definition eio_statvfs :: "alloc_env \<Rightarrow> string \<Rightarrow> int \<Rightarrow> finish_fn option \<Rightarrow> ptr \<Rightarrow> wrap_res" where
  "eio_statvfs al path pri cb data =
     eio__1path al EIO_STATVFS path pri cb data"

definition eio_unlink :: "alloc_env \<Rightarrow> string \<Rightarrow> int \<Rightarrow> finish_fn option \<Rightarrow> ptr \<Rightarrow> wrap_res" where
  "eio_unlink al path pri cb data =
     eio__1path al EIO_UNLINK path pri cb data"

definition eio_rmdir :: "alloc_env \<Rightarrow> string \<Rightarrow> int \<Rightarrow> finish_fn option \<Rightarrow> ptr \<Rightarrow> wrap_res" where
  "eio_rmdir al path pri cb data =
     eio__1path al EIO_RMDIR path pri cb data"

definition eio_readdir :: "alloc_env \<Rightarrow> string \<Rightarrow> int \<Rightarrow> int \<Rightarrow> finish_fn option \<Rightarrow> ptr \<Rightarrow> wrap_res" where
  "eio_readdir al path flags pri cb data =
     REQ al EIO_READDIR pri cb data (PATH al path (\<lambda>req. Sent (req\<lparr>rq_int1 := flags\<rparr>)))"

definition eio_mknod :: "alloc_env \<Rightarrow> string \<Rightarrow> int \<Rightarrow> int \<Rightarrow> int \<Rightarrow> finish_fn option \<Rightarrow> ptr \<Rightarrow> wrap_res" where
  "eio_mknod al path mode dev pri cb data =
     REQ al EIO_MKNOD pri cb data (PATH al path (\<lambda>req. Sent (req\<lparr>rq_int2 := mode, rq_offs := dev\<rparr>)))"

definition eio__2path :: "alloc_env \<Rightarrow> eio_type \<Rightarrow> string \<Rightarrow> string \<Rightarrow> int \<Rightarrow> finish_fn option \<Rightarrow> ptr \<Rightarrow> wrap_res" where
  "eio__2path al type path new_path pri cb data =
     REQ al type pri cb data (PATH al path (\<lambda>req.
        let req = req\<lparr>rq_flags := rq_flags req OR EIO_FLAG_PTR2_FREE\<rparr> in
        if \<not> ae_path2 al then Returned_null [path] else Sent (req\<lparr>rq_ptr2 := MBytes new_path\<rparr>)))"

definition eio_link :: "alloc_env \<Rightarrow> string \<Rightarrow> string \<Rightarrow> int \<Rightarrow> finish_fn option \<Rightarrow> ptr \<Rightarrow> wrap_res" where
  "eio_link al path new_path pri cb data =
     eio__2path al EIO_LINK path new_path pri cb data"

definition eio_symlink :: "alloc_env \<Rightarrow> string \<Rightarrow> string \<Rightarrow> int \<Rightarrow> finish_fn option \<Rightarrow> ptr \<Rightarrow> wrap_res" where
  "eio_symlink al path new_path pri cb data =
     eio__2path al EIO_SYMLINK path new_path pri cb data"

definition eio_rename :: "alloc_env \<Rightarrow> string \<Rightarrow> string \<Rightarrow> int \<Rightarrow> finish_fn option \<Rightarrow> ptr \<Rightarrow> wrap_res" where
  "eio_rename al path new_path pri cb data =
     eio__2path al EIO_RENAME path new_path pri cb data"

definition eio_slurp :: "alloc_env \<Rightarrow> string \<Rightarrow> eio_mem \<Rightarrow> u64 \<Rightarrow> int \<Rightarrow> int \<Rightarrow> finish_fn option \<Rightarrow> ptr \<Rightarrow> wrap_res" where
  "eio_slurp al path buf len offset pri cb data =
     REQ al EIO_SLURP pri cb data (PATH al path (\<lambda>req. Sent (req\<lparr>rq_offs := offset, rq_size := len, rq_ptr2 := buf\<rparr>)))"

definition eio_custom :: "alloc_env \<Rightarrow> feed_fn \<Rightarrow> int \<Rightarrow> finish_fn option \<Rightarrow> ptr \<Rightarrow> wrap_res" where
  "eio_custom al execute pri cb data =
     REQ al EIO_CUSTOM pri cb data (\<lambda>req. Sent (req\<lparr>rq_feed := Some execute\<rparr>))"

definition eio_grp :: "alloc_env \<Rightarrow> finish_fn option \<Rightarrow> ptr \<Rightarrow> wrap_res" where
  "eio_grp al cb data = (let pri = EIO_PRI_MAX in REQ al EIO_GROUP pri cb data Sent)"

end
