(* ===== verification/Execution.thy ===== *)
theory Execution
  imports Wrappers
begin

unbundle bit_operations_syntax

text \<open>
  What executing requests guarantees: descriptors opened on the way are closed again, nothing but the
  documented cases can fail to return, times are converted to valid ones, and the wrappers and
  \<open>eio_execute\<close> together perform the system call they are named after.
\<close>

section \<open>Descriptors\<close>

text \<open>A system that keeps a log of the calls and their results.\<close>

definition logged :: "'w kern \<Rightarrow> ('w \<times> (syscall \<times> int) list) kern" where
  "logged k c wl = (case wl of (w, lg) \<Rightarrow> case k c w of (r, w') \<Rightarrow> (r, (w', lg @ [(c, sr_res r)])))"

text \<open>How often a descriptor was opened and not closed again.\<close>

fun fd_delta :: "syscall \<times> int \<Rightarrow> int \<Rightarrow> int" where
  "fd_delta (S_openat d p f m, r) fd = (if r = fd \<and> 0 \<le> r then 1 else 0)"
| "fd_delta (S_close c, r) fd = (if c = fd then -1 else 0)"
| "fd_delta _ fd = 0"

definition held :: "('w \<times> (syscall \<times> int) list) os \<Rightarrow> int \<Rightarrow> int" where
  "held s fd = (\<Sum>c \<leftarrow> snd (os_w s). fd_delta c fd)"

lemma held_call:
  "call (logged k) c s = (r, d, s') \<Longrightarrow> held s' fd = held s fd + fd_delta (c, r) fd"
  by (auto simp: call_def logged_def held_def split: prod.splits)

lemma held_call1:
  "call1 (logged k) c s = (r, s') \<Longrightarrow> held s' fd = held s fd + fd_delta (c, r) fd"
  by (auto simp: call1_def held_call split: prod.splits)

lemma held_errno [simp]: "held (s\<lparr>os_errno := e\<rparr>) = held s"
  by (simp add: held_def fun_eq_iff)

lemma held_silent_close: "held (silent_close (logged k) c s) fd = held s fd - (if c = fd then 1 else 0)"
  by (auto simp: silent_close_def held_call1 split: prod.splits)

lemma held_sf_loop:
  "sf_loop n (logged k) ofd ifd offset todo written s = Some (r, s') \<Longrightarrow> held s' = held s"
proof (induction n arbitrary: offset todo written s)
  case (Suc n)
  then show ?case
    by (auto simp: Let_def fun_eq_iff held_call1 split: prod.splits if_splits)
qed simp

lemma held_sf_emul:
  "sf_emul n (logged k) ofd ifd offset todo res0 s = Some (res, s') \<Longrightarrow> held s' = held s"
proof (induction n arbitrary: offset todo res0 s)
  case 0
  then show ?case by (auto split: if_splits)
next
  case (Suc n)
  then show ?case
    by (auto simp: Let_def fun_eq_iff held_call1 held_call split: prod.splits if_splits)
qed

lemma held_sendfile:
  "eio__sendfile n (logged k) m ofd ifd offset todo s = Some (res, s') \<Longrightarrow> held s' = held s"
  by (auto simp: eio__sendfile_def Let_def split: if_splits option.splits sum.splits prod.splits
      dest!: held_sf_loop held_sf_emul)

lemma held_truncateat: "eio__truncateat (logged k) d p l s = (r, s') \<Longrightarrow> held s' = held s"
  by (auto simp: eio__truncateat_def fun_eq_iff held_silent_close held_call1 split: prod.splits if_splits)

lemma held_statvfsat: "eio__statvfsat (logged k) d p s = (r, b, s') \<Longrightarrow> held s' = held s"
  by (auto simp: eio__statvfsat_def fun_eq_iff held_silent_close held_call1 held_call split: prod.splits if_splits)

lemma ALLOC_total:
  assumes "rq_ptr2 req \<noteq> MNull \<or> (\<forall>n. mallocb n \<noteq> None)"
  shows "\<exists>req'. ALLOC mallocb len req s = ((req', s), True)"
proof (cases "rq_ptr2 req = MNull")
  case True
  with assms obtain b where "mallocb len = Some b" by (metis option.exhaust)
  with True show ?thesis by (simp add: ALLOC_def Let_def)
qed (simp add: ALLOC_def)

lemma held_slurp_size:
  "slurp_size (logged k) fd req s = (req', s') \<Longrightarrow> held s' = held s \<and> rq_ptr2 req' = rq_ptr2 req"
  by (auto simp: slurp_size_def Let_def fun_eq_iff held_call1 split: prod.splits if_splits)

lemma held_slurp:
  assumes "eio__slurp (logged k) mallocb fd0 req s = (req', s')" "rq_ptr2 req \<noteq> MNull \<or> (\<forall>n. mallocb n \<noteq> None)"
  shows "held s' fd = held s fd - (if 0 \<le> fd0 \<and> fd0 = fd then 1 else 0)"
proof (cases "fd0 < 0")
  case False
  obtain req1 s1 where 1: "slurp_size (logged k) fd0 (req\<lparr>rq_result := fd0\<rparr>) s = (req1, s1)" by fastforce
  from held_slurp_size [OF 1] have h: "held s1 = held s" "rq_ptr2 req1 = rq_ptr2 req" by simp_all
  with assms(2) obtain req2 where 2: "ALLOC mallocb (unat (rq_size req1)) req1 s1 = ((req2, s1), True)"
    using ALLOC_total [of req1] by metis
  obtain res buf s2 where 3: "call (logged k) (S_pread fd0 (rq_size req2) (rq_offs req2)) s1 = (res, buf, s2)"
    by (metis prod_cases3)
  have "s' = silent_close (logged k) fd0 s2" using assms(1) False 1 2 3 by (simp add: eio__slurp_def)
  then show ?thesis using False h held_call [OF 3] by (simp add: held_silent_close)
qed (use assms(1) in \<open>simp add: eio__slurp_def\<close>)

lemma held_slurp_leak:
  assumes "eio__slurp (logged k) mallocb fd0 req s = (req', s')" "rq_ptr2 req = MNull" "\<forall>n. mallocb n = None"
  shows "held s' fd = held s fd"
proof (cases "fd0 < 0")
  case False
  obtain req1 s1 where 1: "slurp_size (logged k) fd0 (req\<lparr>rq_result := fd0\<rparr>) s = (req1, s1)" by fastforce
  from held_slurp_size [OF 1] assms have "held s1 = held s" "rq_ptr2 req1 = MNull" by simp_all
  with assms(1,3) False 1 show ?thesis by (auto simp: eio__slurp_def ALLOC_def)
qed (use assms(1) in \<open>simp add: eio__slurp_def\<close>)

lemma held_alloc: "ALLOC m len req s = ((req', s'), b) \<Longrightarrow> held s' = held s"
  by (auto simp: ALLOC_def Let_def split: if_splits option.splits)

lemma held_with_alloc:
  assumes "with_alloc env len req s f = Some (req', s')"
    and "\<And>req s req' s'. f req s = Some (req', s') \<Longrightarrow> held s' = held s"
  shows "held s' = held s"
proof -
  obtain req1 s1 b where a: "ALLOC (ex_malloc env) len req s = ((req1, s1), b)" by (metis surj_pair)
  with assms(1) have "(if b then f req1 s1 else Some (req1, s1)) = Some (req', s')" by (simp add: with_alloc_def)
  with assms(2) held_alloc [OF a] show ?thesis by (auto split: if_splits)
qed

text \<open>The calls that neither open nor close.\<close>

fun plain :: "syscall \<Rightarrow> bool" where
  "plain (S_openat d p f m) = False"
| "plain (S_close fd) = False"
| "plain c = True"

lemma fd_delta_plain: "plain c \<Longrightarrow> fd_delta (c, r) fd = 0"
  by (cases c) auto

lemma held_set_result:
  "set_result req (call1 (logged k) c s) = Some (req', s') \<Longrightarrow> plain c \<Longrightarrow> held s' = held s"
  by (auto simp: set_result_def fun_eq_iff held_call1 fd_delta_plain split: prod.splits)

lemma held_set_result_buf:
  "set_result_buf req (call (logged k) c s) = Some (req', s') \<Longrightarrow> plain c \<Longrightarrow> held s' = held s"
  by (auto simp: set_result_buf_def fun_eq_iff held_call fd_delta_plain split: prod.splits)

lemma held_set_result_any:
  "set_result req rs = Some (req', s') \<Longrightarrow> (\<And>r s'. rs = (r, s') \<Longrightarrow> held s' = h) \<Longrightarrow> held s' = h"
  by (cases rs) (auto simp: set_result_def)

lemma held_set_result_buf_any:
  "set_result_buf req rs = Some (req', s') \<Longrightarrow> (\<And>r d s'. rs = (r, d, s') \<Longrightarrow> held s' = h) \<Longrightarrow> held s' = h"
  by (cases rs) (auto simp: set_result_buf_def)

lemma held_ENOSYS: "EIO_ENOSYS s = (r, s') \<Longrightarrow> held s' = held s"
  by (auto simp: EIO_ENOSYS_def EIO_ERRNO_def)

lemma held_readlink:
  "(case set_result_buf req (call (logged k) c s) of None \<Rightarrow> None
    | Some (req, s) \<Rightarrow> if rq_result req = n then Some (req\<lparr>rq_result := -1\<rparr>, s\<lparr>os_errno := e\<rparr>) else Some (req, s))
   = Some (req', s') \<Longrightarrow> plain c \<Longrightarrow> held s' = held s"
  by (auto split: option.splits if_splits dest!: held_set_result_buf)

lemma held_call1_plain: "call1 (logged k) c s = (r, s') \<Longrightarrow> plain c \<Longrightarrow> held s' = held s"
  by (auto simp: fun_eq_iff held_call1 fd_delta_plain)

lemma held_syncfs: "eio__syncfs (logged k) fd s = (r, s') \<Longrightarrow> held s' = held s"
  by (auto simp: eio__syncfs_def split: prod.splits if_splits dest!: held_call1_plain)

lemma held_sync_file_range: "eio__sync_file_range (logged k) fd off n f s = (r, s') \<Longrightarrow> held s' = held s"
  by (auto simp: eio__sync_file_range_def split: prod.splits if_splits dest!: held_call1_plain)

lemma held_lseek: "eio__lseek (logged k) req s = (req', s') \<Longrightarrow> held s' = held s"
  by (auto simp: eio__lseek_def Let_def split: prod.splits dest!: held_call1_plain)

lemma held_snd_call1: "plain c \<Longrightarrow> held (snd (call1 (logged k) c s)) = held s"
  by (metis held_call1_plain prod.collapse)

lemma held_sendfile_result:
  "eio__sendfile n (logged k) m ofd ifd offset todo s = Some (a, b) \<Longrightarrow>
   set_result req (a, b) = Some (req', s') \<Longrightarrow> held s' = held s"
  by (auto simp: set_result_def dest: held_sendfile)

lemma held_alloc_realpath:
  assumes "with_alloc env len req (s\<lparr>os_errno := e\<rparr>) (\<lambda>req s. Some (f req, s)) = Some (req', s')"
  shows "held s' = held s"
  using held_with_alloc [OF assms] by simp

lemma held_exec_path:
  assumes run: "exec_path env dirfd req s = Some (req', s')" and k: "ex_kern env = logged k"
    and ty: "rq_type req \<noteq> EIO_OPEN"
    and m: "rq_type req = EIO_SLURP \<Longrightarrow> rq_ptr2 req \<noteq> MNull \<or> (\<forall>n. ex_malloc env n \<noteq> None)"
  shows "held s' = held s"
proof (cases "rq_type req = EIO_SLURP")
  case True
  obtain fd s1 where o: "call1 (logged k) (S_openat dirfd (rq_ptr1 req) (O_RDONLY OR O_CLOEXEC) 0) s = (fd, s1)" by fastforce
  have sl: "eio__slurp (logged k) (ex_malloc env) fd req s1 = (req', s')"
    using run k True o by (simp add: exec_path_def)
  show ?thesis
  proof
    fix x
    show "held s' x = held s x"
      using held_slurp [OF sl m [OF True], of x] held_call1 [OF o, of x] by (auto split: if_splits)
  qed
next
  case False
  show ?thesis
    apply (insert run k ty False, cases "rq_type req";
        auto simp: exec_path_def Let_def eio__renameat2_def split: option.splits eio_wd.splits if_splits;
        ((erule held_set_result, simp) | (erule held_with_alloc, erule held_set_result_buf, simp)
          | (erule held_with_alloc, erule held_readlink, simp)
          | (erule held_with_alloc, erule held_set_result_buf_any, erule held_statvfsat)
          | (erule held_set_result_any, erule held_truncateat)
          | (erule held_set_result_any, erule held_ENOSYS))?)
   done
qed

lemma held_exec_head:
  assumes run: "exec_head env req s = Some (req', s')" and k: "ex_kern env = logged k"
    and ty: "rq_type req \<notin> {EIO_CLOSE, EIO_WD_CLOSE, EIO_CUSTOM}"
  shows "held s' = held s"
proof -
  have rd: "held t = held s" if "(if c then call (logged k) (S_pread a b d) s else call (logged k) (S_read a b) s) = (r, b', t)"
    for c a b d r b' t and s :: "('a \<times> (syscall \<times> int) list) os"
    using that by (auto simp: fun_eq_iff held_call split: if_splits)
  have wr: "held t = held s" if "(if c then call1 (logged k) (S_pwrite a m b d) s else call1 (logged k) (S_write_mem a m b) s) = (r, t)"
    for c a m b d r t and s :: "('a \<times> (syscall \<times> int) list) os"
    using that by (auto simp: fun_eq_iff held_call1 split: if_splits)
  have st: "set_result_buf req (if c then call (logged k) (S_pread a b d) s else call (logged k) (S_read a b) s) = Some (req', t)
      \<Longrightarrow> held t = held s" for c a b d req req' t and s :: "('a \<times> (syscall \<times> int) list) os"
    by (erule held_set_result_buf_any) (erule rd)
  have rp: "Some (f req, s) = Some (req', t) \<Longrightarrow> held t = held s" for f req req' t and s :: "('a \<times> (syscall \<times> int) list) os"
    by simp
  show ?thesis
    apply (insert run k ty, cases "rq_type req";
        auto simp: exec_head_def exec_other_def Let_def eio__fallocate_def eio__mlockall_def eio__mlock_def eio__msync_def
          split: option.splits sum.splits prod.splits;
       ((erule held_set_result, simp) | (erule held_with_alloc, erule held_set_result_buf, simp)
          | (erule held_set_result_buf, simp)
          | (erule held_with_alloc, erule st)
          | (erule held_set_result_any, erule wr)
          | erule held_lseek | erule (1) held_sendfile_result | (rule held_snd_call1, simp)
          | erule held_alloc_realpath
          | (erule held_set_result_any, erule held_sync_file_range)
          | (erule held_set_result_any, erule held_syncfs)
          | (erule held_set_result_any, erule held_ENOSYS))?)
    done
qed


lemma held_eio_execute:
  assumes "eio_execute env req s = Some (req', s')" "ex_kern env = logged k"
    and "rq_type req \<notin> {EIO_OPEN, EIO_CLOSE, EIO_WD_CLOSE, EIO_CUSTOM}"
    and "rq_type req = EIO_SLURP \<Longrightarrow> rq_ptr2 req \<noteq> MNull \<or> (\<forall>n. ex_malloc env n \<noteq> None)"
  shows "held s' = held s"
  using assms
  by (auto simp: eio_execute_def split: if_splits option.splits dest!: held_exec_path held_exec_head)

section \<open>Wrappers and execution together\<close>

definition all_ok :: alloc_env where
  "all_ok = \<lparr>ae_req = True, ae_path = True, ae_path2 = True\<rparr>"

text \<open>
  A wrapper submits a request whose execution is one system call: the result of the call becomes the
  result of the request, and \<open>errno\<close> its error number.
\<close>

definition performs :: "'w exec_env \<Rightarrow> 'w os \<Rightarrow> wrap_res \<Rightarrow> syscall \<Rightarrow> bool" where
  "performs env s wr c \<longleftrightarrow>
     (case wr of
        Sent req \<Rightarrow>
          eio_execute env req s =
            (case call1 (ex_kern env) c s of (r, s') \<Rightarrow> Some (req\<lparr>rq_result := r, rq_errorno := os_errno s'\<rparr>, s'))
      | Returned_null lost \<Rightarrow> False)"

lemma performs_other:
  "type_code (rq_type req) < type_code EIO_OPEN \<Longrightarrow> \<not> rq_cancelled req \<Longrightarrow> rq_wd req \<noteq> EIO_INVALID_WD \<Longrightarrow>
   exec_head env req s = set_result req (call1 (ex_kern env) c s) \<Longrightarrow> performs env s (Sent req) c"
  by (auto simp: performs_def eio_execute_def set_result_def split: prod.splits)

lemma performs_path:
  "type_code EIO_OPEN \<le> type_code (rq_type req) \<Longrightarrow> \<not> rq_cancelled req \<Longrightarrow> rq_wd req = EIO_CWD \<Longrightarrow>
   exec_path env AT_FDCWD req s = set_result req (call1 (ex_kern env) c s) \<Longrightarrow> performs env s (Sent req) c"
  by (auto simp: performs_def eio_execute_def set_result_def WD2FD_def split: prod.splits)

lemmas wrapper_defs = REQ_def PATH_def all_ok_def calloc_req_def Let_def

lemma fd_wrappers:
  "performs env s (eio_close all_ok fd pri cb data) (S_close fd)"
  "performs env s (eio_dup2 all_ok fd fd2 pri cb data) (S_dup2 fd fd2)"
  "performs env s (eio_fsync all_ok fd pri cb data) (S_fsync fd)"
  "performs env s (eio_fdatasync all_ok fd pri cb data) (S_fdatasync fd)"
  "performs env s (eio_fallocate all_ok fd mode offset n pri cb data) (S_fallocate fd mode offset n)"
  "performs env s (eio_readahead all_ok fd offset n pri cb data) (S_readahead fd offset n)"
  "performs env s (eio_ftruncate all_ok fd offset pri cb data) (S_ftruncate fd offset)"
  "performs env s (eio_fchmod all_ok fd mode pri cb data) (S_fchmod fd mode)"
  "performs env s (eio_fchown all_ok fd uid gid pri cb data) (S_fchown fd uid gid)"
  "performs env s (eio_mlockall all_ok flags pri cb data) (S_mlockall flags)"
  unfolding eio_close_def eio_dup2_def eio_fsync_def eio_fdatasync_def eio_fallocate_def eio_readahead_def
    eio_ftruncate_def eio_fchmod_def eio_fchown_def eio_mlockall_def wrapper_defs
  by (simp_all, (rule performs_other, simp_all add: exec_head_def exec_other_def Let_def eio__fallocate_def eio__mlockall_def)+)

lemma write_wrapper:
  "performs env s (eio_write all_ok fd buf n offset pri cb data)
     (if 0 \<le> offset then S_pwrite fd buf n offset else S_write_mem fd buf n)"
proof (cases "0 \<le> offset")
  case True
  then show ?thesis unfolding eio_write_def wrapper_defs
    by (simp, intro performs_other) (simp_all add: exec_head_def exec_other_def)
next
  case False
  then show ?thesis unfolding eio_write_def wrapper_defs
    by (simp, intro performs_other) (simp_all add: exec_head_def exec_other_def)
qed

lemma path_wrappers:
  "performs env s (eio_open all_ok path flags mode pri cb data) (S_openat AT_FDCWD (MBytes path) flags mode)"
  "performs env s (eio_chmod all_ok path mode pri cb data) (S_fchmodat AT_FDCWD (MBytes path) mode 0)"
  "performs env s (eio_chown all_ok path uid gid pri cb data) (S_fchownat AT_FDCWD (MBytes path) uid gid 0)"
  "performs env s (eio_mkdir all_ok path mode pri cb data) (S_mkdirat AT_FDCWD (MBytes path) mode)"
  "performs env s (eio_mknod all_ok path mode dev pri cb data) (S_mknodat AT_FDCWD (MBytes path) mode dev)"
  "performs env s (eio_unlink all_ok path pri cb data) (S_unlinkat AT_FDCWD (MBytes path) 0)"
  "performs env s (eio_rmdir all_ok path pri cb data) (S_unlinkat AT_FDCWD (MBytes path) AT_REMOVEDIR)"
  "performs env s (eio_link all_ok path path2 pri cb data) (S_linkat AT_FDCWD (MBytes path) AT_FDCWD (MBytes path2) 0)"
  "performs env s (eio_symlink all_ok path path2 pri cb data) (S_symlinkat (MBytes path) AT_FDCWD (MBytes path2))"
  "performs env s (eio_rename all_ok path path2 pri cb data)
     (S_renameat2 AT_FDCWD (MBytes path) AT_FDCWD (MBytes path2) 0)"
  unfolding eio_open_def eio_chmod_def eio_chown_def eio_mkdir_def eio_mknod_def eio_unlink_def eio_rmdir_def
    eio_link_def eio_symlink_def eio_rename_def eio__1path_def eio__2path_def wrapper_defs
  by (simp_all, (rule performs_path, simp_all add: exec_path_def Let_def WD2FD_def eio__renameat2_def)+)

section \<open>Times\<close>

lemma c_trunc_frac:
  "0 \<le> x \<Longrightarrow> 0 \<le> x - of_int (c_trunc x) \<and> x - of_int (c_trunc x) < 1"
  "x < 0 \<Longrightarrow> -1 < x - of_int (c_trunc x) \<and> x - of_int (c_trunc x) \<le> 0"
  by (auto simp: c_trunc_def) linarith+

section \<open>Every request returns\<close>

lemma set_result_Some [simp]: "set_result req rs \<noteq> None" "set_result_buf req bs \<noteq> None"
  by (cases rs; simp add: set_result_def) (cases bs; simp add: set_result_buf_def)

lemma with_alloc_total:
  "(\<And>req s. f req s \<noteq> None) \<Longrightarrow> with_alloc env n req s f \<noteq> None"
  by (simp add: with_alloc_def split: prod.splits)

lemma eio_wd_total: "we_malloc wenv \<Longrightarrow> short_dirs (path_env.truncate wenv) wd \<Longrightarrow> wd \<noteq> EIO_INVALID_WD \<Longrightarrow>
    \<exists>r. eio__wd_open_sync wenv wd path = Some r"
proof -
  assume a: "we_malloc wenv" "short_dirs (path_env.truncate wenv) wd" "wd \<noteq> EIO_INVALID_WD"
  obtain r where "eio__realpath (path_env.truncate wenv) wd path = Some r"
    using eio__realpath_total_helper [OF a(2)] by blast
  moreover obtain fd where "WD2FD wd = Some fd" using a(3) by (cases wd) (auto simp: WD2FD_def)
  ultimately show ?thesis using a(1)
    by (auto simp: eio__wd_open_sync_def Let_def split: sum.splits prod.splits)
qed

text \<open>What a request must have so that executing it cannot fault or hang.\<close>

definition runnable :: "'w exec_env \<Rightarrow> eio_req \<Rightarrow> bool" where
  "runnable env req \<longleftrightarrow>
     (rq_type req = EIO_CUSTOM \<longrightarrow> rq_feed req \<noteq> None) \<and>
     (rq_type req \<in> {EIO_RENAME, EIO_LINK} \<longrightarrow> rq_wd3 req \<noteq> EIO_INVALID_WD) \<and>
     (rq_type req \<in> {EIO_WD_OPEN, EIO_REALPATH} \<longrightarrow>
        we_malloc (ex_wd env) \<and> short_dirs (path_env.truncate (ex_wd env)) (rq_wd req)) \<and>
     (rq_type req = EIO_SENDFILE \<longrightarrow>
        0 \<le> rq_offs req \<and> unat (rq_size req) < ex_fuel env \<and>
        (\<exists>src sink. copy_kern (ex_kern env) (rq_int1 req) (rq_int2 req) src sink)) \<and>
     (rq_type req = EIO_READDIR \<longrightarrow> (\<exists>es. scan_good (ex_scan env) es))"

lemma WD2FD_Some: "wd \<noteq> EIO_INVALID_WD \<Longrightarrow> \<exists>fd. WD2FD wd = Some fd"
  by (cases wd) (auto simp: WD2FD_def)

lemma exec_path_total:
  assumes "runnable env req"
  shows "exec_path env dirfd req s \<noteq> None"
proof -
  have rl: "(case set_result_buf req bs of None \<Rightarrow> None
      | Some (req, s) \<Rightarrow> if rq_result req = n then Some (f req, g s) else Some (req, s)) \<noteq> None"
    for req bs n f g by (cases bs) (auto simp: set_result_buf_def)
  have w3: "rq_type req \<in> {EIO_RENAME, EIO_LINK} \<Longrightarrow> \<exists>fd. WD2FD (rq_wd3 req) = Some fd"
    using assms WD2FD_Some by (auto simp: runnable_def)
  show ?thesis
    by (insert w3, cases "rq_type req"; simp add: exec_path_def Let_def split: eio_wd.splits del: not_None_eq;
        ((rule with_alloc_total, (rule rl | simp del: not_None_eq))
          | (elim exE, simp split: eio_wd.splits del: not_None_eq)
          | simp split: prod.splits)?)
qed

lemma exec_head_total:
  assumes r: "runnable env req" and wd: "rq_wd req \<noteq> EIO_INVALID_WD"
  shows "exec_head env req s \<noteq> None"
proof -
  have custom: "rq_type req = EIO_CUSTOM \<Longrightarrow> rq_feed req \<noteq> None" using r by (simp add: runnable_def)
  have wdo: "rq_type req = EIO_WD_OPEN \<Longrightarrow> \<exists>r. eio__wd_open_sync (ex_wd env) (rq_wd req) (mem_path (rq_ptr1 req)) = Some r"
    using r wd eio_wd_total by (simp add: runnable_def)
  have rp: "rq_type req = EIO_REALPATH \<Longrightarrow>
      \<exists>r. eio__realpath (path_env.truncate (ex_wd env)) (rq_wd req) (mem_path (rq_ptr1 req)) = Some r"
    using r eio__realpath_total_helper by (fastforce simp: runnable_def)
  have sf: "rq_type req = EIO_SENDFILE \<Longrightarrow>
      \<exists>r. eio__sendfile (ex_fuel env) (ex_kern env) (ex_buf env) (rq_int1 req) (rq_int2 req) (rq_offs req) (rq_size req) s = Some r"
    using r eio__sendfile_total by (auto simp: runnable_def)
  have sc: "rq_type req = EIO_READDIR \<Longrightarrow> \<exists>r. eio__scandir (ex_scan env) req = Some r"
    using r eio__scandir_good by (fastforce simp: runnable_def)
  have rd: "set_result_buf req (if c then x else y) \<noteq> None" for c req and x y :: "int \<times> string \<times> 'a os" by simp
  show ?thesis
  proof (cases "rq_type req \<in> {EIO_CUSTOM, EIO_WD_OPEN, EIO_REALPATH, EIO_SENDFILE, EIO_READDIR}")
    case True
    then consider "rq_type req = EIO_CUSTOM" | "rq_type req = EIO_WD_OPEN" | "rq_type req = EIO_REALPATH"
      | "rq_type req = EIO_SENDFILE" | "rq_type req = EIO_READDIR" by blast
    then show ?thesis
    proof cases
      case 1
      with custom show ?thesis by (simp add: exec_head_def exec_other_def)
    next
      case 2
      with wdo show ?thesis by (auto simp: exec_head_def exec_other_def)
    next
      case 3
      with rp show ?thesis
        by (auto simp: exec_head_def exec_other_def split: sum.splits intro!: with_alloc_total [simplified])
    next
      case 4
      then obtain rs where
        "eio__sendfile (ex_fuel env) (ex_kern env) (ex_buf env) (rq_int1 req) (rq_int2 req) (rq_offs req) (rq_size req) s = Some rs"
        using sf by blast
      with 4 show ?thesis by (simp add: exec_head_def exec_other_def del: not_None_eq)
    next
      case 5
      with sc show ?thesis by (auto simp: exec_head_def exec_other_def)
    qed
  next
    case False
    show ?thesis
      by (insert False, cases "rq_type req"; simp add: exec_head_def exec_other_def Let_def del: not_None_eq;
          (rule with_alloc_total, simp del: not_None_eq)?)
  qed
qed

lemma eio_execute_total:
  assumes "runnable env req"
  shows "eio_execute env req s \<noteq> None"
proof (cases "rq_cancelled req \<or> rq_wd req = EIO_INVALID_WD")
  case False
  obtain fd where "WD2FD (rq_wd req) = Some fd" using False WD2FD_Some by blast
  with False exec_path_total [OF assms, of fd s] exec_head_total [OF assms, of s] show ?thesis
    by (auto simp: eio_execute_def)
qed (auto simp: eio_execute_def)

lemma timespec_nonneg:
  assumes "0 \<le> nv"
  shows "0 \<le> snd (timespec nv)" "snd (timespec nv) < 10 ^ 9"
    "of_int (fst (timespec nv)) + of_int (snd (timespec nv)) / 10 ^ 9 \<le> nv"
    "nv < of_int (fst (timespec nv)) + (of_int (snd (timespec nv)) + 1) / 10 ^ 9"
proof -
  define f where "f = (nv - of_int (c_trunc nv)) * 10 ^ 9"
  have f: "0 \<le> f" "f < 10 ^ 9" using c_trunc_frac(1) [OF assms] by (simp_all add: f_def)
  have t: "fst (timespec nv) = c_trunc nv" "snd (timespec nv) = \<lfloor>f\<rfloor>"
    using f by (simp_all add: timespec_def f_def c_trunc_def)
  have "f / 10 ^ 9 = nv - of_int (c_trunc nv)" unfolding f_def by (rule nonzero_mult_div_cancel_right) simp
  then have nv: "nv = of_int (c_trunc nv) + f / 10 ^ 9" by linarith
  show "0 \<le> snd (timespec nv)" "snd (timespec nv) < 10 ^ 9" using f by (simp_all add: t floor_less_iff)
  have "of_int \<lfloor>f\<rfloor> \<le> f" "f < of_int \<lfloor>f\<rfloor> + 1" by linarith+
  then have d: "of_int \<lfloor>f\<rfloor> / 10 ^ 9 \<le> f / 10 ^ 9" "f / 10 ^ 9 < (of_int \<lfloor>f\<rfloor> + 1) / (10 ^ 9 :: rat)"
    by (simp_all add: divide_right_mono divide_strict_right_mono)
  show "of_int (fst (timespec nv)) + of_int (snd (timespec nv)) / 10 ^ 9 \<le> nv"
    unfolding t by (subst (2) nv) (use d in linarith)
  show "nv < of_int (fst (timespec nv)) + (of_int (snd (timespec nv)) + 1) / 10 ^ 9"
    unfolding t by (subst nv) (use d in linarith)
qed

lemma second_path_lost:
  "eio__2path \<lparr>ae_req = True, ae_path = True, ae_path2 = False\<rparr> type path new_path pri cb data = Returned_null [path]"
  by (simp add: eio__2path_def REQ_def PATH_def Let_def)

section \<open>What execution leaves alone\<close>

text \<open>What executing a request leaves alone: everything but the members that hold its arguments and results.\<close>

definition bookkeeping :: "eio_req \<Rightarrow> eio_req" where
  "bookkeeping r = r\<lparr>rq_wd := EIO_CWD, rq_result := 0, rq_offs := 0, rq_size := 0, rq_ptr1 := MNull, rq_ptr2 := MNull,
     rq_int1 := 0, rq_errorno := 0, rq_flags := 0\<rparr>"

lemma keeps_set_result:
  "set_result req rs = Some (y, s') \<Longrightarrow> bookkeeping y = bookkeeping req"
  "set_result_buf req rb = Some (y, s') \<Longrightarrow> bookkeeping y = bookkeeping req"
  by (auto simp: set_result_def set_result_buf_def bookkeeping_def split: prod.splits)

lemma keeps_ALLOC: "ALLOC m len req s = ((y, s'), g) \<Longrightarrow> bookkeeping y = bookkeeping req"
  by (auto simp: ALLOC_def bookkeeping_def Let_def split: if_splits option.splits)

lemma keeps_with_alloc:
  assumes "with_alloc env len req s f = Some (y, s')"
    and "\<And>x t y t'. f x t = Some (y, t') \<Longrightarrow> bookkeeping y = bookkeeping x"
  shows "bookkeeping y = bookkeeping req"
  using assms keeps_ALLOC by (fastforce simp: with_alloc_def split: prod.splits if_splits)

lemma keeps_slurp: "eio__slurp k m fd req s = (y, s') \<Longrightarrow> bookkeeping y = bookkeeping req"
proof -
  have size: "slurp_size k fd req s = (y, s') \<Longrightarrow> bookkeeping y = bookkeeping req" for req s y s'
    by (auto simp: slurp_size_def bookkeeping_def Let_def split: prod.splits if_splits)
  assume "eio__slurp k m fd req s = (y, s')"
  then show ?thesis
    by (auto simp: eio__slurp_def Let_def split: prod.splits if_splits
        dest!: size keeps_ALLOC) (auto simp: bookkeeping_def)
qed

lemma keeps_scandir: "eio__scandir env req = Some (e, y) \<Longrightarrow> bookkeeping y = bookkeeping req"
  by (auto simp: eio__scandir_def bookkeeping_def Let_def split: sum.splits prod.splits if_splits option.splits)

lemma keeps_path:
  assumes "exec_path env dirfd req s = Some (y, s')"
  shows "bookkeeping y = bookkeeping req"
  using assms unfolding exec_path_def Let_def
  by (cases "rq_type req")
     (auto dest!: keeps_set_result keeps_slurp keeps_with_alloc
       split: prod.splits option.splits eio_wd.splits if_splits simp: bookkeeping_def)

lemma keeps_other:
  assumes "exec_other env req s = Some (y, s')" "rq_type req \<noteq> EIO_CUSTOM"
  shows "bookkeeping y = bookkeeping req"
  using assms unfolding exec_other_def Let_def
  by (cases "rq_type req")
     (auto dest!: keeps_set_result keeps_scandir keeps_with_alloc
       split: prod.splits option.splits sum.splits if_splits simp: bookkeeping_def)

lemma keeps_head:
  assumes "exec_head env req s = Some (y, s')" "rq_type req \<noteq> EIO_CUSTOM"
  shows "bookkeeping y = bookkeeping req"
  using assms unfolding exec_head_def Let_def
  by (cases "rq_type req")
     (auto dest!: keeps_set_result keeps_other keeps_with_alloc
       split: prod.splits option.splits if_splits simp: bookkeeping_def eio__lseek_def)

lemma keeps_execute:
  assumes "eio_execute env req s = Some (y, s')" "rq_type req \<noteq> EIO_CUSTOM"
  shows "bookkeeping y = bookkeeping req"
proof -
  have "bookkeeping (r\<lparr>rq_errorno := e\<rparr>) = bookkeeping r" "bookkeeping (r\<lparr>rq_result := e\<rparr>) = bookkeeping r" for r e
    by (simp_all add: bookkeeping_def)
  note upd = this
  show ?thesis
    using assms
    by (auto simp: eio_execute_def upd dest!: keeps_path keeps_head split: if_splits option.splits)
qed

lemma bookkeepingD:
  assumes "bookkeeping y = bookkeeping x"
  shows "rq_next y = rq_next x" "rq_pri y = rq_pri x" "rq_type y = rq_type x" "rq_data y = rq_data x"
    "rq_cancelled y = rq_cancelled x" "rq_finish y = rq_finish x" "rq_destroy y = rq_destroy x" "rq_grp y = rq_grp x"
  using arg_cong [OF assms, of rq_next] arg_cong [OF assms, of rq_pri] arg_cong [OF assms, of rq_type]
    arg_cong [OF assms, of rq_data] arg_cong [OF assms, of rq_cancelled] arg_cong [OF assms, of rq_finish]
    arg_cong [OF assms, of rq_destroy] arg_cong [OF assms, of rq_grp]
  by (simp_all add: bookkeeping_def)

section \<open>Properties\<close>


definition witness_exec :: "(unit \<times> (syscall \<times> int) list) exec_env" where
  "witness_exec = \<lparr>
     ex_kern = logged (\<lambda>c w. (\<lparr>sr_res = 5, sr_errno = 0, sr_data = []\<rparr>, w)),
     ex_malloc = (\<lambda>n. Some (replicate n CHR ''?'')), ex_page = 4096, ex_fuel = 1, ex_buf = True,
     ex_cancelled = (\<lambda>_. False), ex_addr = (\<lambda>_. 0), ex_wd = witness_wd_env, ex_scan = witness_env,
     ex_errno = 0, ex_feed = (\<lambda>req s. (req, s))\<rparr>"

definition witness_slurp :: eio_req where
  "witness_slurp = calloc_req\<lparr>rq_type := EIO_SLURP, rq_ptr1 := MBytes ''f'', rq_size := 3\<rparr>"

definition witness_os :: "(unit \<times> (syscall \<times> int) list) os" where
  "witness_os = \<lparr>os_w = ((), []), os_errno = 0\<rparr>"

lemmas witness_exec_simps = witness_exec_def witness_slurp_def witness_os_def calloc_req_def eio_execute_def
  WD2FD_def exec_path_def call1_def call_def logged_def eio__slurp_def slurp_size_def ALLOC_def silent_close_def
  AT_FDCWD_def O_RDONLY_def O_CLOEXEC_def


text \<open>
  When the buffer for reading a whole file cannot be allocated, the descriptor that was opened for
  it stays open.
\<close>

theorem slurp_loses_descriptor:
  assumes "rq_type req = EIO_SLURP" "\<not> rq_cancelled req" "rq_wd req = EIO_CWD" "rq_ptr2 req = MNull"
    and "ex_kern env = logged k" "\<forall>n. ex_malloc env n = None"
    and "call1 (logged k) (S_openat AT_FDCWD (rq_ptr1 req) (O_RDONLY OR O_CLOEXEC) 0) s = (fd, s1)" "0 \<le> fd"
    and "eio_execute env req s = Some (req', s')"
  shows "held s' fd = held s fd + 1"
proof -
  obtain req2 s2 where sl: "eio__slurp (logged k) (ex_malloc env) fd req s1 = (req2, s2)" by fastforce
  have "s' = s2"
    using assms(9) assms(1-3,5,7) sl by (auto simp: eio_execute_def WD2FD_def exec_path_def)
  then show ?thesis
    using held_slurp_leak [OF sl assms(4,6), of fd] held_call1 [OF assms(7), of fd] assms(8) by simp
qed

lemma slurp_loses_descriptor_witness:
  "\<exists>req' s'. eio_execute (witness_exec\<lparr>ex_malloc := \<lambda>_. None\<rparr>) witness_slurp witness_os = Some (req', s') \<and>
     held s' 5 = held witness_os 5 + 1"
proof -
  let ?env = "witness_exec\<lparr>ex_malloc := \<lambda>_. None\<rparr>" and ?k = "\<lambda>c w. (\<lparr>sr_res = 5, sr_errno = 0, sr_data = []\<rparr>, w)"
  have "runnable ?env witness_slurp" by (simp add: runnable_def witness_slurp_def)
  then obtain req' s' where e: "eio_execute ?env witness_slurp witness_os = Some (req', s')"
    using eio_execute_total by (metis option.exhaust surj_pair)
  obtain s1 where o: "call1 (logged ?k) (S_openat AT_FDCWD (rq_ptr1 witness_slurp) (O_RDONLY OR O_CLOEXEC) 0) witness_os = (5, s1)"
    by (simp add: call1_def call_def logged_def witness_os_def)
  have "held s' 5 = held witness_os 5 + 1"
    by (rule slurp_loses_descriptor [OF _ _ _ _ _ _ o _ e]) (simp_all add: witness_slurp_def calloc_req_def witness_exec_def)
  with e show ?thesis by blast
qed

text \<open>
  The convenience wrappers and the worker agree on where the arguments are kept: executing the
  request a wrapper submits is the system call of that name on the arguments of the wrapper, and the
  result and the error number of the request are those of the call.
\<close>

theorem wrappers_reach_system:
  "performs env s (eio_close all_ok fd pri cb data) (S_close fd) \<and>
   performs env s (eio_dup2 all_ok fd fd2 pri cb data) (S_dup2 fd fd2) \<and>
   performs env s (eio_fsync all_ok fd pri cb data) (S_fsync fd) \<and>
   performs env s (eio_fdatasync all_ok fd pri cb data) (S_fdatasync fd) \<and>
   performs env s (eio_fallocate all_ok fd mode offset n pri cb data) (S_fallocate fd mode offset n) \<and>
   performs env s (eio_readahead all_ok fd offset n pri cb data) (S_readahead fd offset n) \<and>
   performs env s (eio_write all_ok fd buf n offset pri cb data)
     (if 0 \<le> offset then S_pwrite fd buf n offset else S_write_mem fd buf n) \<and>
   performs env s (eio_ftruncate all_ok fd offset pri cb data) (S_ftruncate fd offset) \<and>
   performs env s (eio_fchmod all_ok fd mode pri cb data) (S_fchmod fd mode) \<and>
   performs env s (eio_fchown all_ok fd uid gid pri cb data) (S_fchown fd uid gid) \<and>
   performs env s (eio_mlockall all_ok flags pri cb data) (S_mlockall flags) \<and>
   performs env s (eio_open all_ok path flags mode pri cb data) (S_openat AT_FDCWD (MBytes path) flags mode) \<and>
   performs env s (eio_chmod all_ok path mode pri cb data) (S_fchmodat AT_FDCWD (MBytes path) mode 0) \<and>
   performs env s (eio_chown all_ok path uid gid pri cb data) (S_fchownat AT_FDCWD (MBytes path) uid gid 0) \<and>
   performs env s (eio_mkdir all_ok path mode pri cb data) (S_mkdirat AT_FDCWD (MBytes path) mode) \<and>
   performs env s (eio_mknod all_ok path mode dev pri cb data) (S_mknodat AT_FDCWD (MBytes path) mode dev) \<and>
   performs env s (eio_unlink all_ok path pri cb data) (S_unlinkat AT_FDCWD (MBytes path) 0) \<and>
   performs env s (eio_rmdir all_ok path pri cb data) (S_unlinkat AT_FDCWD (MBytes path) AT_REMOVEDIR) \<and>
   performs env s (eio_link all_ok path path2 pri cb data)
     (S_linkat AT_FDCWD (MBytes path) AT_FDCWD (MBytes path2) 0) \<and>
   performs env s (eio_symlink all_ok path path2 pri cb data) (S_symlinkat (MBytes path) AT_FDCWD (MBytes path2)) \<and>
   performs env s (eio_rename all_ok path path2 pri cb data)
     (S_renameat2 AT_FDCWD (MBytes path) AT_FDCWD (MBytes path2) 0)"
  by (intro conjI fd_wrappers path_wrappers write_wrapper)

text \<open>
  The wrapper \<open>eio_fcntl\<close> is the one exception: the request it submits makes the worker call
  \<open>ioctl\<close> with the \<open>fcntl\<close> command as the request code.
\<close>

theorem eio_fcntl_calls_ioctl:
  "\<exists>req. eio_fcntl all_ok fd cmd arg pri cb data = Sent req \<and>
     eio_execute env req s =
       (case call (ex_kern env) (S_ioctl fd cmd arg) s of (r, d, s') \<Rightarrow>
          Some (req\<lparr>rq_result := r, rq_ptr2 := fill d arg, rq_errorno := os_errno s'\<rparr>, s'))"
  unfolding eio_fcntl_def wrapper_defs
  by (auto simp: eio_execute_def exec_head_def exec_other_def set_result_buf_def split: prod.splits)



text \<open>
  A time that is not negative is handed to the system as valid seconds and nanoseconds, the largest
  ones that do not exceed it.
\<close>

theorem utime_time_valid:
  assumes "0 \<le> nv"
  shows "0 \<le> snd (timespec nv) \<and> snd (timespec nv) < 10 ^ 9 \<and>
    of_int (fst (timespec nv)) + of_int (snd (timespec nv)) / 10 ^ 9 \<le> nv \<and>
    nv < of_int (fst (timespec nv)) + (of_int (snd (timespec nv)) + 1) / 10 ^ 9"
  using timespec_nonneg [OF assms] by blast

lemma utime_time_valid_witness:
  "0 \<le> snd (timespec (5 / 2)) \<and> snd (timespec (5 / 2)) < 10 ^ 9 \<and>
    of_int (fst (timespec (5 / 2))) + of_int (snd (timespec (5 / 2))) / 10 ^ 9 \<le> (5 / 2 :: rat) \<and>
    5 / 2 < of_int (fst (timespec (5 / 2))) + (of_int (snd (timespec (5 / 2))) + 1) / (10 ^ 9 :: rat)"
  by (rule utime_time_valid) simp

text \<open>
  A time before the epoch that is not a whole number of seconds is handed over with a negative
  number of nanoseconds, which the system rejects.
\<close>

theorem utime_before_epoch_invalid:
  assumes "nv < 0" "nv - of_int \<lceil>nv\<rceil> \<le> - 1 / 10 ^ 9"
  shows "snd (timespec nv) < 0"
proof -
  have "(nv - of_int \<lceil>nv\<rceil>) * 10 ^ 9 \<le> - 1" using assms(2) by (simp add: field_simps)
  then have "\<lceil>(nv - of_int \<lceil>nv\<rceil>) * 10 ^ 9\<rceil> \<le> - 1" by (simp add: ceiling_le_iff)
  then show ?thesis using assms(1) \<open>(nv - of_int \<lceil>nv\<rceil>) * 10 ^ 9 \<le> - 1\<close> by (simp add: timespec_def c_trunc_def)
qed

lemma utime_before_epoch_invalid_witness: "snd (timespec (- 3 / 2)) < 0"
proof -
  have "\<lceil>- 3 / 2 :: rat\<rceil> = - 1" by (rule ceiling_unique) simp_all
  then show ?thesis by (intro utime_before_epoch_invalid) simp_all
qed

end
