(* ===== verification/Handles.thy ===== *)
theory Handles
  imports Request
begin

text \<open>
  The request handles of the extension, the first section of \<open>php8/php_eio.c\<close>.  libeio frees a
  request as soon as it is finished, and the address may be used again for the next request, while
  PHP variables that hold its resource may live on.  A resource therefore points to a handle: a
  reference-counted object whose \<open>req\<close> member libeio's destroy hook resets.  The table
  \<open>php_eio_handles\<close> maps the address of a request to its handle.

  The state is the heap of requests, the heap of handles, the table, the flag
  \<open>php_eio_handles_ready\<close> and the list of resources of the Zend engine.  As everywhere, \<open>None\<close> is
  the use of a freed object.  The theorems: no operation in any order uses a freed object, the
  handles that are allocated are exactly those still referred to, and a resource whose request was
  destroyed never yields a request again, even when the address is used again.
\<close>

section \<open>State\<close>

record php_eio_handle =
  h_req :: ptr
  h_refs :: u32
  h_orig_destroy :: "destroy_fn option"

text \<open>
  A resource of the Zend engine: its pointer, and its type, one of the two the extension registers
  or -1 (\<open>Le_closed\<close>) once its destructor ran.
\<close>

datatype le = Le_eio_grp | Le_eio_req | Le_closed

record zend_resource =
  res_ptr :: ptr
  res_type :: le

record hstate =
  hs_reqs :: req_heap
  hs_handles :: "addr \<Rightarrow> php_eio_handle option"
  hs_table :: "(addr \<times> addr) list"
  hs_ready :: bool
  hs_res :: "zend_resource list"

definition hs_init :: hstate where
  "hs_init = \<lparr> hs_reqs = (\<lambda>_. None), hs_handles = (\<lambda>_. None), hs_table = [], hs_ready = True,
               hs_res = [] \<rparr>"

text \<open>The operations of the Zend hash table on the table, which keeps the order of insertion.\<close>

definition zend_hash_index_add_ptr :: "'k \<Rightarrow> 'v \<Rightarrow> ('k \<times> 'v) list \<Rightarrow> ('k \<times> 'v) list" where
  "zend_hash_index_add_ptr k v t = (if map_of t k = None then t @ [(k, v)] else t)"

definition zend_hash_index_del :: "'k \<Rightarrow> ('k \<times> 'v) list \<Rightarrow> ('k \<times> 'v) list" where
  "zend_hash_index_del k t = filter (\<lambda>e. fst e \<noteq> k) t"

section \<open>Operations\<close>

text \<open>Writing a handle; a fault when it is not allocated.\<close>

definition upd_h :: "addr \<Rightarrow> (php_eio_handle \<Rightarrow> php_eio_handle) \<Rightarrow> hstate \<Rightarrow> hstate option" where
  "upd_h h f s =
     (case hs_handles s h of
        None \<Rightarrow> None
      | Some hn \<Rightarrow> Some (s\<lparr>hs_handles := (hs_handles s)(h \<mapsto> f hn)\<rparr>))"

definition php_eio_handle_release :: "addr \<Rightarrow> hstate \<Rightarrow> hstate option" where
  "php_eio_handle_release h s = do {
     s \<leftarrow> upd_h h (\<lambda>hn. hn\<lparr>h_refs := h_refs hn - 1\<rparr>) s;
     hn \<leftarrow> hs_handles s h;
     (if h_refs hn = 0 then Some (s\<lparr>hs_handles := (hs_handles s)(h := None)\<rparr>) else Some s) }"

text \<open>
  The destroy callback libeio sets, \<open>eio_api_destroy\<close>, frees the request.  The program installs no
  other function but the hook below, so calling one is a fault.
\<close>

definition call_orig_destroy :: "destroy_fn \<Rightarrow> addr \<Rightarrow> hstate \<Rightarrow> hstate option" where
  "call_orig_destroy f req s =
     (case f of
        D_eio_api_destroy \<Rightarrow>
          (if hs_reqs s req = None then None else Some (s\<lparr>hs_reqs := (hs_reqs s)(req := None)\<rparr>))
      | _ \<Rightarrow> None)"

definition php_eio_req_destroy_hook :: "addr \<Rightarrow> hstate \<Rightarrow> hstate option" where
  "php_eio_req_destroy_hook req s = do {
     (orig_destroy, s) \<leftarrow>
       (case (if hs_ready s then map_of (hs_table s) req else None) of
          None \<Rightarrow> Some (None, s)
        | Some h \<Rightarrow> do {
            hn \<leftarrow> hs_handles s h;
            s \<leftarrow> upd_h h (\<lambda>hn. hn\<lparr>h_req := None\<rparr>) s;
            s \<leftarrow> php_eio_handle_release h
                   (s\<lparr>hs_table := zend_hash_index_del req (hs_table s)\<rparr>);
            Some (h_orig_destroy hn, s) });
     (case orig_destroy of
        None \<Rightarrow> Some s
      | Some f \<Rightarrow>
          if f \<noteq> D_php_eio_req_destroy_hook then call_orig_destroy f req s else Some s) }"

text \<open>
  \<open>php_eio_handle_ref\<close>; \<open>new\<close> is the address \<open>pemalloc\<close> answers with when a handle has to be made
  (\<open>pemalloc\<close> does not return when there is no memory).
\<close>

definition php_eio_handle_ref :: "addr \<Rightarrow> addr \<Rightarrow> hstate \<Rightarrow> (addr \<times> hstate) option" where
  "php_eio_handle_ref new req s = do {
     (h, s) \<leftarrow>
       (case map_of (hs_table s) req of
          Some h \<Rightarrow> Some (h, s)
        | None \<Rightarrow> do {
            r \<leftarrow> hs_reqs s req;
            let hn = \<lparr>h_req = Some req, h_refs = 1, h_orig_destroy = rq_destroy r\<rparr>;
            reqs \<leftarrow> upd_req (hs_reqs s) req
                      (\<lambda>r. r\<lparr>rq_destroy := Some D_php_eio_req_destroy_hook\<rparr>);
            Some (new, s\<lparr>hs_handles := (hs_handles s)(new \<mapsto> hn),
                         hs_table := zend_hash_index_add_ptr req new (hs_table s),
                         hs_reqs := reqs\<rparr>) });
     s \<leftarrow> upd_h h (\<lambda>hn. hn\<lparr>h_refs := h_refs hn + 1\<rparr>) s;
     Some (h, s) }"

text \<open>\<open>zend_register_resource\<close> appends a resource; its index stands for the \<open>zend_resource *\<close>.\<close>

definition php_eio_register_resource ::
    "addr \<Rightarrow> addr \<Rightarrow> le \<Rightarrow> hstate \<Rightarrow> (nat \<times> hstate) option" where
  "php_eio_register_resource new req le s = do {
     (h, s) \<leftarrow> php_eio_handle_ref new req s;
     Some (length (hs_res s), s\<lparr>hs_res := hs_res s @ [\<lparr>res_ptr = Some h, res_type = le\<rparr>]\<rparr>) }"

text \<open>\<open>zend_fetch_resource\<close>: the pointer when the type is the one asked for, null otherwise.\<close>

definition zend_fetch_resource :: "nat \<Rightarrow> le \<Rightarrow> hstate \<Rightarrow> ptr option" where
  "zend_fetch_resource i le s =
     (if i < length (hs_res s)
      then Some (if res_type (hs_res s ! i) = le then res_ptr (hs_res s ! i) else None)
      else None)"

definition php_eio_fetch_req :: "nat \<Rightarrow> le \<Rightarrow> hstate \<Rightarrow> ptr option" where
  "php_eio_fetch_req i le s = do {
     p \<leftarrow> zend_fetch_resource i le s;
     (case p of None \<Rightarrow> Some None | Some h \<Rightarrow> do { hn \<leftarrow> hs_handles s h; Some (h_req hn) }) }"

text \<open>
  \<open>php_eio_handle_dtor\<close> gets a copy of the resource from the engine, which has marked the resource
  itself as closed and cleared its pointer before the call (\<open>zend_resource_dtor\<close>).
\<close>

definition php_eio_handle_dtor :: "zend_resource \<Rightarrow> hstate \<Rightarrow> hstate option" where
  "php_eio_handle_dtor res s =
     (case res_ptr res of None \<Rightarrow> Some s | Some h \<Rightarrow> php_eio_handle_release h s)"

definition zend_resource_dtor :: "nat \<Rightarrow> hstate \<Rightarrow> hstate option" where
  "zend_resource_dtor i s =
     (if i < length (hs_res s) then
        (if res_type (hs_res s ! i) = Le_closed then Some s
         else php_eio_handle_dtor (hs_res s ! i)
                (s\<lparr>hs_res := (hs_res s)[i := \<lparr>res_ptr = None, res_type = Le_closed\<rparr>]\<rparr>))
      else None)"

text \<open>The body of the loop of \<open>php_eio_handles_reset\<close>, the loop, and the function.\<close>

definition reset_one :: "addr \<Rightarrow> hstate \<Rightarrow> hstate option" where
  "reset_one h s = do {
     hn \<leftarrow> hs_handles s h;
     reqs \<leftarrow> (case h_req hn of
                None \<Rightarrow> Some (hs_reqs s)
              | Some r \<Rightarrow> upd_req (hs_reqs s) r (\<lambda>q. q\<lparr>rq_destroy := h_orig_destroy hn\<rparr>));
     s \<leftarrow> upd_h h (\<lambda>hn. hn\<lparr>h_req := None\<rparr>) (s\<lparr>hs_reqs := reqs\<rparr>);
     php_eio_handle_release h s }"

fun reset_all :: "(addr \<times> addr) list \<Rightarrow> hstate \<Rightarrow> hstate option" where
  "reset_all [] s = Some s"
| "reset_all (e # es) s = do { s \<leftarrow> reset_one (snd e) s; reset_all es s }"

definition php_eio_handles_reset :: "hstate \<Rightarrow> hstate option" where
  "php_eio_handles_reset s =
     (if \<not> hs_ready s then Some s
      else do { s \<leftarrow> reset_all (hs_table s) s; Some (s\<lparr>hs_table := []\<rparr>) })"

text \<open>The part of \<open>PHP_MSHUTDOWN_FUNCTION(eio)\<close> that is about the handles.\<close>

definition mshutdown_handles :: "hstate \<Rightarrow> hstate option" where
  "mshutdown_handles s =
     (if hs_ready s
      then do { s \<leftarrow> php_eio_handles_reset s; Some (s\<lparr>hs_ready := False, hs_table := []\<rparr>) }
      else Some s)"

text \<open>\<open>EIO_DESTROY (req)\<close> of libeio, with the two functions \<open>req->destroy\<close> may hold.\<close>

definition EIO_DESTROY_req :: "addr \<Rightarrow> hstate \<Rightarrow> hstate option" where
  "EIO_DESTROY_req req s = do {
     r \<leftarrow> hs_reqs s req;
     (case rq_destroy r of
        None \<Rightarrow> Some s
      | Some f \<Rightarrow>
          if f = D_php_eio_req_destroy_hook then php_eio_req_destroy_hook req s
          else call_orig_destroy f req s) }"

section \<open>Runs\<close>

text \<open>
  What may happen, in any order: libeio makes a request at a free address, a resource is registered
  for a live request, PHP drops a resource, libeio destroys a request, a fork or the shutdown of the
  module invalidates the handles.  A resource is registered only while the module is up, at an
  address \<open>malloc\<close> may answer with, and while fewer than \<open>2 ^ 32 - 2\<close> resources are open (each of
  them takes more than 24 bytes of memory, so more than 96 GB are needed to get there).
\<close>

datatype hop =
    Create addr eio_req
  | Register addr addr le
  | Close nat
  | Destroy addr
  | Reset
  | Shutdown

definition open_res :: "hstate \<Rightarrow> nat" where
  "open_res s = length (filter (\<lambda>x. res_ptr x \<noteq> None) (hs_res s))"

fun enabled :: "hop \<Rightarrow> hstate \<Rightarrow> bool" where
  "enabled (Create a r) s \<longleftrightarrow> hs_reqs s a = None \<and> rq_destroy r = Some D_eio_api_destroy"
| "enabled (Register new a le) s \<longleftrightarrow>
     hs_ready s \<and> hs_reqs s a \<noteq> None \<and> hs_handles s new = None \<and> le \<noteq> Le_closed \<and>
     open_res s < 2 ^ 32 - 2"
| "enabled (Close i) s \<longleftrightarrow> i < length (hs_res s)"
| "enabled (Destroy a) s \<longleftrightarrow> hs_reqs s a \<noteq> None"
| "enabled Reset s \<longleftrightarrow> True"
| "enabled Shutdown s \<longleftrightarrow> True"

fun run :: "hop \<Rightarrow> hstate \<Rightarrow> hstate option" where
  "run (Create a r) s = Some (s\<lparr>hs_reqs := (hs_reqs s)(a \<mapsto> r)\<rparr>)"
| "run (Register new a le) s = map_option snd (php_eio_register_resource new a le s)"
| "run (Close i) s = zend_resource_dtor i s"
| "run (Destroy a) s = EIO_DESTROY_req a s"
| "run Reset s = php_eio_handles_reset s"
| "run Shutdown s = mshutdown_handles s"

inductive hstep :: "hstate \<Rightarrow> hstate \<Rightarrow> bool" where
  hstepI: "enabled op s \<Longrightarrow> run op s = Some s' \<Longrightarrow> hstep s s'"

inductive_cases hstepE: "hstep s s'"


section \<open>The invariant\<close>

text \<open>The number of resources that point to a handle.\<close>

definition refs_of :: "addr \<Rightarrow> zend_resource list \<Rightarrow> nat" where
  "refs_of h X = count (mset (map res_ptr X)) (Some h)"

definition opens :: "zend_resource list \<Rightarrow> nat" where
  "opens X = length (filter (\<lambda>x. res_ptr x \<noteq> None) X)"

text \<open>
  Every entry of the table is a live request with an allocated handle that points back to it and
  keeps libeio's callback; every allocated handle that points to a request is the one of its table
  entry, and its count is the number of resources that point to it, and one more while the request
  lives; a resource points to an allocated handle; the destroy callback of a request is the hook
  when it has a handle and libeio's when it has none.
\<close>

definition hinv ::
    "req_heap \<Rightarrow> (addr \<Rightarrow> php_eio_handle option) \<Rightarrow> (addr \<times> addr) list \<Rightarrow> zend_resource list \<Rightarrow> bool"
  where
  "hinv R H T X \<longleftrightarrow>
     distinct (map fst T) \<and>
     (\<forall>r h. (r, h) \<in> set T \<longrightarrow>
        R r \<noteq> None \<and>
        (\<exists>hn. H h = Some hn \<and> h_req hn = Some r \<and> h_orig_destroy hn = Some D_eio_api_destroy)) \<and>
     (\<forall>h hn. H h = Some hn \<longrightarrow>
        (\<forall>r. h_req hn = Some r \<longrightarrow> (r, h) \<in> set T) \<and>
        unat (h_refs hn) = refs_of h X + (if h_req hn = None then 0 else 1) \<and>
        h_refs hn \<noteq> 0) \<and>
     (\<forall>x \<in> set X. (\<forall>h. res_ptr x = Some h \<longrightarrow> H h \<noteq> None) \<and>
        (res_type x = Le_closed \<longleftrightarrow> res_ptr x = None)) \<and>
     (\<forall>r q. R r = Some q \<longrightarrow>
        rq_destroy q = Some (if r \<in> fst ` set T then D_php_eio_req_destroy_hook
                             else D_eio_api_destroy)) \<and>
     opens X < 2 ^ 32 - 1"

definition hgood :: "hstate \<Rightarrow> bool" where
  "hgood s \<longleftrightarrow> hinv (hs_reqs s) (hs_handles s) (hs_table s) (hs_res s) \<and>
              (\<not> hs_ready s \<longrightarrow> hs_table s = [])"

lemma refs_of_append [simp]:
  "refs_of h (X @ [x]) = refs_of h X + (if res_ptr x = Some h then 1 else 0)"
  by (simp add: refs_of_def)

lemma refs_of_le_opens: "refs_of h X \<le> opens X"
  by (induction X) (auto simp: refs_of_def opens_def)

lemma refs_of_close:
  assumes "i < length X" "res_ptr x = None"
  shows "refs_of h X = refs_of h (X[i := x]) + (if res_ptr (X ! i) = Some h then 1 else 0)"
proof -
  have "res_ptr (X ! i) \<in># mset (map res_ptr X)"
    using nth_mem [OF assms(1)] by simp
  then obtain n where "count (image_mset res_ptr (mset X)) (res_ptr (X ! i)) = Suc n"
    by (metis count_eq_zero_iff mset_map not0_implies_Suc)
  then show ?thesis
    using assms by (auto simp: refs_of_def map_update mset_update)
qed

lemma opens_close: "res_ptr x = None \<Longrightarrow> opens (X[i := x]) \<le> opens X"
proof (induction X arbitrary: i)
  case (Cons y X)
  then show ?case by (cases i) (auto simp: opens_def intro: le_SucI)
qed simp

lemma refs_of_pos: "x \<in> set X \<Longrightarrow> res_ptr x = Some h \<Longrightarrow> 0 < refs_of h X"
  by (force simp: refs_of_def count_greater_zero_iff)

lemma in_del [simp]: "(r, h) \<in> set (zend_hash_index_del a t) \<longleftrightarrow> (r, h) \<in> set t \<and> r \<noteq> a"
  by (auto simp: zend_hash_index_del_def)

lemma fst_del [simp]: "fst ` set (zend_hash_index_del a t) = fst ` set t - {a}"
  by (auto simp: zend_hash_index_del_def)

lemma distinct_del: "distinct (map fst t) \<Longrightarrow> distinct (map fst (zend_hash_index_del a t))"
  by (auto simp: zend_hash_index_del_def distinct_map intro: inj_on_subset)

lemma unat_dec_h: "(w :: u32) \<noteq> 0 \<Longrightarrow> unat (w - 1) = unat w - 1"
  by (simp add: unat_minus_one)

text \<open>Dropping one reference of a handle: \<open>None\<close> when it was the last.\<close>

definition dropped :: "php_eio_handle \<Rightarrow> php_eio_handle option" where
  "dropped hn = (if h_refs hn = 1 then None else Some (hn\<lparr>h_refs := h_refs hn - 1\<rparr>))"

lemma release_eq:
  "hs_handles s h = Some hn \<Longrightarrow>
   php_eio_handle_release h s = Some (s\<lparr>hs_handles := (hs_handles s)(h := dropped hn)\<rparr>)"
  by (auto simp: php_eio_handle_release_def upd_h_def dropped_def)

lemma dropped_Some:
  "dropped hn = Some hn' \<Longrightarrow> h_refs hn \<noteq> 0 \<Longrightarrow>
   h_req hn' = h_req hn \<and> unat (h_refs hn') = unat (h_refs hn) - 1 \<and> h_refs hn' \<noteq> 0"
  by (auto simp: dropped_def unat_dec_h split: if_splits)

lemma dropped_None: "dropped hn = None \<longleftrightarrow> h_refs hn = 1"
  by (simp add: dropped_def)


text \<open>Access to the parts of the invariant.\<close>

lemma hinv_entryD:
  "hinv R H T X \<Longrightarrow> (r, h) \<in> set T \<Longrightarrow>
   R r \<noteq> None \<and> (\<exists>hn. H h = Some hn \<and> h_req hn = Some r \<and>
     h_orig_destroy hn = Some D_eio_api_destroy)"
  unfolding hinv_def by blast

lemma hinv_entry:
  assumes "hinv R H T X" "(r, h) \<in> set T"
  obtains hn where "H h = Some hn" "h_req hn = Some r"
    "h_orig_destroy hn = Some D_eio_api_destroy" "R r \<noteq> None"
  using assms unfolding hinv_def by blast

lemma hinv_handle:
  assumes "hinv R H T X" "H h = Some hn"
  shows "unat (h_refs hn) = refs_of h X + (if h_req hn = None then 0 else 1)" "h_refs hn \<noteq> 0"
    and "h_req hn = Some r \<Longrightarrow> (r, h) \<in> set T"
  using assms unfolding hinv_def by blast+

lemma hinv_key:
  assumes "hinv R H T X" "(r, h) \<in> set T" "H h = Some hn"
  shows "h_req hn = Some r" "h_orig_destroy hn = Some D_eio_api_destroy" "R r \<noteq> None"
  using hinv_entry [OF assms(1,2)] assms(3) by auto

lemma hinv_resD:
  "hinv R H T X \<Longrightarrow> x \<in> set X \<Longrightarrow>
   (\<forall>h. res_ptr x = Some h \<longrightarrow> H h \<noteq> None) \<and> (res_type x = Le_closed \<longleftrightarrow> res_ptr x = None)"
  unfolding hinv_def by blast

lemma hinv_destroyD:
  "hinv R H T X \<Longrightarrow> R r = Some q \<Longrightarrow>
   rq_destroy q = Some (if r \<in> fst ` set T then D_php_eio_req_destroy_hook else D_eio_api_destroy)"
  unfolding hinv_def by blast

lemma hinv_basicD: "hinv R H T X \<Longrightarrow> distinct (map fst T) \<and> opens X < 2 ^ 32 - 1"
  by (simp add: hinv_def)

lemma hinvI:
  assumes "distinct (map fst T)" "opens X < 2 ^ 32 - 1"
    and "\<And>r h. (r, h) \<in> set T \<Longrightarrow> R r \<noteq> None \<and>
      (\<exists>hn. H h = Some hn \<and> h_req hn = Some r \<and> h_orig_destroy hn = Some D_eio_api_destroy)"
    and "\<And>h hn. H h = Some hn \<Longrightarrow> (\<forall>r. h_req hn = Some r \<longrightarrow> (r, h) \<in> set T) \<and>
      unat (h_refs hn) = refs_of h X + (if h_req hn = None then 0 else 1) \<and> h_refs hn \<noteq> 0"
    and "\<And>x. x \<in> set X \<Longrightarrow> (\<forall>h. res_ptr x = Some h \<longrightarrow> H h \<noteq> None) \<and>
      (res_type x = Le_closed \<longleftrightarrow> res_ptr x = None)"
    and "\<And>r q. R r = Some q \<Longrightarrow> rq_destroy q = Some (if r \<in> fst ` set T
      then D_php_eio_req_destroy_hook else D_eio_api_destroy)"
  shows "hinv R H T X"
  unfolding hinv_def using assms by blast

lemma hinv_map_of:
  "hinv R H T X \<Longrightarrow> map_of T r = Some h \<longleftrightarrow> (r, h) \<in> set T"
  by (auto simp: hinv_def)

text \<open>A table entry is taken out: its handle loses the request and one reference.\<close>

lemma hinv_unlink:
  assumes inv: "hinv R H T X" and e: "(r, h) \<in> set T" and hn: "H h = Some hn"
    and m: "\<And>q. m = Some q \<Longrightarrow> rq_destroy q = Some D_eio_api_destroy"
  shows "hinv (R(r := m)) (H(h := dropped (hn\<lparr>h_req := None\<rparr>))) (zend_hash_index_del r T) X"
proof -
  note k = hinv_key [OF inv e hn] and c = hinv_handle [OF inv hn]
  have cnt: "unat (h_refs hn) = refs_of h X + 1" using c(1) k(1) by simp
  have other: "r' \<noteq> r \<Longrightarrow> (r', h') \<in> set T \<Longrightarrow> h' \<noteq> h" for r' h'
    using hinv_entryD [OF inv, of r' h'] k(1) hn by auto
  have x: "H h' \<noteq> None" "h' = h \<Longrightarrow> h_refs hn \<noteq> 1"
    if "x \<in> set X" "res_ptr x = Some h'" for x h'
    using that inv refs_of_pos [OF that] cnt by (auto simp: hinv_def)
  have H: "unat (h_refs hn') = refs_of h' X + (if h_req hn' = None then 0 else 1)
      \<and> h_refs hn' \<noteq> 0 \<and> (\<forall>r'. h_req hn' = Some r' \<longrightarrow> (r', h') \<in> set T \<and> r' \<noteq> r)"
    if h': "(H(h := dropped (hn\<lparr>h_req := None\<rparr>))) h' = Some hn'" for h' hn'
  proof (cases "h' = h")
    case True
    with h' dropped_Some [of "hn\<lparr>h_req := None\<rparr>" hn'] c(2) cnt show ?thesis by auto
  next
    case False
    then have h2: "H h' = Some hn'" using h' by simp
    have "r' \<noteq> r" if "h_req hn' = Some r'" for r'
      using hinv_handle(3) [OF inv h2 that] e False
      by (metis hinv_map_of [OF inv] option.inject)
    with hinv_handle [OF inv h2] show ?thesis by blast
  qed
  show ?thesis
    unfolding hinv_def
  proof (intro conjI allI impI ballI)
    show "distinct (map fst (zend_hash_index_del r T))"
      using inv by (intro distinct_del) (simp add: hinv_def)
  next
    fix r' h' assume a: "(r', h') \<in> set (zend_hash_index_del r T)"
    show "(R(r := m)) r' \<noteq> None" using a hinv_entryD [OF inv, of r' h'] by auto
    show "\<exists>hn'. (H(h := dropped (hn\<lparr>h_req := None\<rparr>))) h' = Some hn' \<and> h_req hn' = Some r' \<and>
            h_orig_destroy hn' = Some D_eio_api_destroy"
      using a hinv_entryD [OF inv, of r' h'] other [of r' h'] by auto
  next
    fix r' q assume "(R(r := m)) r' = Some q"
    then show "rq_destroy q = Some (if r' \<in> fst ` set (zend_hash_index_del r T)
        then D_php_eio_req_destroy_hook else D_eio_api_destroy)"
      using inv m [of q] by (auto simp: hinv_def split: if_splits)
  next
    fix x h' assume "x \<in> set X" "res_ptr x = Some h'"
    with x [of x h'] show "(H(h := dropped (hn\<lparr>h_req := None\<rparr>))) h' \<noteq> None"
      by (auto simp: dropped_def)
  next
    fix x assume "x \<in> set X"
    with inv show "(res_type x = Le_closed) = (res_ptr x = None)" by (simp add: hinv_def)
  next
    show "opens X < 2 ^ 32 - 1" using inv by (simp add: hinv_def)
  qed (use H in auto)
qed

text \<open>A resource is closed.\<close>

lemma hinv_close:
  assumes inv: "hinv R H T X" and i: "i < length X" "res_ptr (X ! i) = Some h"
    and hn: "H h = Some hn"
  shows "hinv R (H(h := dropped hn)) T (X[i := \<lparr>res_ptr = None, res_type = Le_closed\<rparr>])"
    (is "hinv R ?H T ?X")
proof -
  note c = hinv_handle [OF inv hn]
  have r: "refs_of h' X = refs_of h' ?X + (if h' = h then 1 else 0)" for h'
    using refs_of_close [OF i(1), of "\<lparr>res_ptr = None, res_type = Le_closed\<rparr>" h'] i(2) by auto
  have in_X: "x \<in> set ?X \<Longrightarrow> x \<in> set X \<or> res_ptr x = None \<and> res_type x = Le_closed" for x
    using set_update_subset_insert [of X i "\<lparr>res_ptr = None, res_type = Le_closed\<rparr>"] by auto
  have one: "h_refs hn = 1 \<longleftrightarrow> unat (h_refs hn) = 1" by (simp add: word_unat_eq_iff)
  have not_last: "h_refs hn \<noteq> 1" if "0 < refs_of h ?X \<or> h_req hn \<noteq> None"
    using that c(1) r [of h] one by (auto split: if_splits)
  show ?thesis
    unfolding hinv_def
  proof (intro conjI allI impI ballI)
    fix r' h' assume "(r', h') \<in> set T"
    from hinv_entry [OF inv this] obtain hn' where
      e: "H h' = Some hn'" "h_req hn' = Some r'" "h_orig_destroy hn' = Some D_eio_api_destroy" "R r' \<noteq> None" .
    show "R r' \<noteq> None" by (rule e(4))
    show "\<exists>hn. ?H h' = Some hn \<and> h_req hn = Some r' \<and> h_orig_destroy hn = Some D_eio_api_destroy"
      using e hn not_last by (auto simp: dropped_def)
  next
    fix h' hn' assume h': "?H h' = Some hn'"
    have "unat (h_refs hn') = refs_of h' ?X + (if h_req hn' = None then 0 else 1)
      \<and> h_refs hn' \<noteq> 0 \<and> (\<forall>r'. h_req hn' = Some r' \<longrightarrow> (r', h') \<in> set T)"
    proof (cases "h' = h")
      case True
      with h' dropped_Some [of hn hn'] c r [of h] show ?thesis by auto
    next
      case False
      then have h2: "H h' = Some hn'" using h' by simp
      show ?thesis using hinv_handle [OF inv h2] r [of h'] False by auto
    qed
    then show "unat (h_refs hn') = refs_of h' ?X + (if h_req hn' = None then 0 else 1)"
      "h_refs hn' \<noteq> 0" "\<And>r'. h_req hn' = Some r' \<Longrightarrow> (r', h') \<in> set T"
      by blast+
  next
    fix x h' assume x: "x \<in> set ?X" "res_ptr x = Some h'"
    then have "H h' \<noteq> None" using in_X [OF x(1)] inv by (auto simp: hinv_def)
    then show "?H h' \<noteq> None"
      using refs_of_pos [OF x] not_last by (auto simp: dropped_def)
  next
    fix x assume "x \<in> set ?X"
    from in_X [OF this] show "(res_type x = Le_closed) = (res_ptr x = None)"
      using inv by (auto simp: hinv_def)
  next
    show "opens ?X < 2 ^ 32 - 1"
      using inv opens_close [of "\<lparr>res_ptr = None, res_type = Le_closed\<rparr>" X i] by (simp add: hinv_def)
  qed (use inv in \<open>simp_all add: hinv_def\<close>)
qed


text \<open>A request without a handle gets one, and a resource for it.\<close>

lemma hinv_new:
  assumes inv: "hinv R H T X" and r: "R r = Some q" and nt: "map_of T r = None"
    and new: "H new = None" and le: "le \<noteq> Le_closed" and few: "opens X < 2 ^ 32 - 2"
  shows "hinv (R(r \<mapsto> q\<lparr>rq_destroy := Some D_php_eio_req_destroy_hook\<rparr>))
      (H(new \<mapsto> \<lparr>h_req = Some r, h_refs = 2, h_orig_destroy = rq_destroy q\<rparr>))
      (T @ [(r, new)]) (X @ [\<lparr>res_ptr = Some new, res_type = le\<rparr>])"
proof -
  have r0: "refs_of new X = 0"
    using new inv
    by (auto simp: refs_of_def hinv_def count_eq_zero_iff)
  have T_new: "(r', new) \<notin> set T" for r' using hinv_entryD [OF inv] new by fastforce
  have r_T: "r \<notin> fst ` set T" using nt by (simp add: map_of_eq_None_iff)
  then have d: "rq_destroy q = Some D_eio_api_destroy" using inv r by (auto simp: hinv_def)
  show ?thesis
    using inv r r0 T_new r_T d le few new
    unfolding hinv_def by (auto simp: opens_def)
qed

text \<open>A request that has a handle gets another resource.\<close>

lemma hinv_again:
  assumes inv: "hinv R H T X" and e: "(r, h) \<in> set T" and hn: "H h = Some hn"
    and le: "le \<noteq> Le_closed" and few: "opens X < 2 ^ 32 - 2"
  shows "hinv R (H(h \<mapsto> hn\<lparr>h_refs := h_refs hn + 1\<rparr>)) T (X @ [\<lparr>res_ptr = Some h, res_type = le\<rparr>])"
proof -
  note k = hinv_key [OF inv e hn] and c = hinv_handle [OF inv hn]
  have "unat (h_refs hn) + 1 < 2 ^ 32"
    using c(1) refs_of_le_opens [of h X] few k(1) by simp
  then have w: "unat (h_refs hn + 1) = unat (h_refs hn) + 1"
    by (simp add: unat_word_ariths)
  then have "h_refs hn + 1 \<noteq> 0" by (metis add_is_0 one_neq_zero unat_0)
  then have w': "unat (h_refs hn + 1) = refs_of h X + 2 \<and> h_refs hn + 1 \<noteq> 0"
    using w c(1) k(1) by simp
  show ?thesis
  proof (rule hinvI)
    show "opens (X @ [\<lparr>res_ptr = Some h, res_type = le\<rparr>]) < 2 ^ 32 - 1"
      using few by (simp add: opens_def)
  next
    fix r' h' assume e': "(r', h') \<in> set T"
    show "R r' \<noteq> None \<and> (\<exists>hn'. (H(h \<mapsto> hn\<lparr>h_refs := h_refs hn + 1\<rparr>)) h' = Some hn' \<and>
        h_req hn' = Some r' \<and> h_orig_destroy hn' = Some D_eio_api_destroy)"
      using hinv_entryD [OF inv e'] hn by auto
  next
    fix h' hn' assume "(H(h \<mapsto> hn\<lparr>h_refs := h_refs hn + 1\<rparr>)) h' = Some hn'"
    then show "(\<forall>r. h_req hn' = Some r \<longrightarrow> (r, h') \<in> set T) \<and> unat (h_refs hn') =
        refs_of h' (X @ [\<lparr>res_ptr = Some h, res_type = le\<rparr>]) + (if h_req hn' = None then 0 else 1) \<and>
        h_refs hn' \<noteq> 0"
      using w' k(1) e hinv_handle [OF inv, of h' hn'] by (auto split: if_splits)
  next
    fix x assume "x \<in> set (X @ [\<lparr>res_ptr = Some h, res_type = le\<rparr>])"
    then show "(\<forall>h'. res_ptr x = Some h' \<longrightarrow> (H(h \<mapsto> hn\<lparr>h_refs := h_refs hn + 1\<rparr>)) h' \<noteq> None) \<and>
        (res_type x = Le_closed) = (res_ptr x = None)"
      using hinv_resD [OF inv, of x] le by auto
  qed (use hinv_basicD [OF inv] hinv_destroyD [OF inv] in blast)+
qed

lemma hinv_create:
  assumes inv: "hinv R H T X" and "R a = None" "rq_destroy q = Some D_eio_api_destroy"
  shows "hinv (R(a \<mapsto> q)) H T X"
proof -
  have "a \<notin> fst ` set T" using hinv_entryD [OF inv] assms(2) by fastforce
  then show ?thesis
    using hinv_basicD [OF inv] hinv_entryD [OF inv] hinv_handle [OF inv] hinv_resD [OF inv]
      hinv_destroyD [OF inv] assms(3)
    by (intro hinvI) (simp_all split: if_splits)
qed

section \<open>The operations keep the invariant and do not fault\<close>

lemma run_Create:
  "hgood s \<Longrightarrow> enabled (Create a q) s \<Longrightarrow> \<exists>s'. run (Create a q) s = Some s' \<and> hgood s'"
  by (auto simp: hgood_def intro: hinv_create)

lemma php_eio_register_resource_new:
  "map_of (hs_table s) r = None \<Longrightarrow> hs_reqs s r = Some q \<Longrightarrow>
   php_eio_register_resource new r le s = Some (length (hs_res s), s\<lparr>
     hs_reqs := (hs_reqs s)(r \<mapsto> q\<lparr>rq_destroy := Some D_php_eio_req_destroy_hook\<rparr>),
     hs_handles := (hs_handles s)(new \<mapsto>
       \<lparr>h_req = Some r, h_refs = 2, h_orig_destroy = rq_destroy q\<rparr>),
     hs_table := hs_table s @ [(r, new)],
     hs_res := hs_res s @ [\<lparr>res_ptr = Some new, res_type = le\<rparr>]\<rparr>)"
  by (simp add: php_eio_register_resource_def php_eio_handle_ref_def upd_h_def upd_req_def
      zend_hash_index_add_ptr_def Let_def)

lemma php_eio_register_resource_again:
  "map_of (hs_table s) r = Some h \<Longrightarrow> hs_handles s h = Some hn \<Longrightarrow>
   php_eio_register_resource new r le s = Some (length (hs_res s), s\<lparr>
     hs_handles := (hs_handles s)(h \<mapsto> hn\<lparr>h_refs := h_refs hn + 1\<rparr>),
     hs_res := hs_res s @ [\<lparr>res_ptr = Some h, res_type = le\<rparr>]\<rparr>)"
  by (simp add: php_eio_register_resource_def php_eio_handle_ref_def upd_h_def)

lemma run_Register:
  assumes g: "hgood s" and en: "enabled (Register new a le) s"
  shows "\<exists>s'. run (Register new a le) s = Some s' \<and> hgood s'"
proof -
  from en obtain q where q: "hs_reqs s a = Some q" by auto
  have inv: "hinv (hs_reqs s) (hs_handles s) (hs_table s) (hs_res s)"
    using g by (simp add: hgood_def)
  have few: "opens (hs_res s) < 2 ^ 32 - 2" using en by (simp add: open_res_def opens_def)
  show ?thesis
  proof (cases "map_of (hs_table s) a")
    case None
    show ?thesis
      using hinv_new [OF inv q None _ _ few] en
      by (simp add: php_eio_register_resource_new [OF None q] hgood_def)
  next
    case (Some h)
    then have e: "(a, h) \<in> set (hs_table s)" by (simp add: hinv_map_of [OF inv])
    then obtain hn where hn: "hs_handles s h = Some hn" using hinv_entryD [OF inv e] by auto
    show ?thesis
      using hinv_again [OF inv e hn _ few] en
      by (simp add: php_eio_register_resource_again [OF Some hn] hgood_def)
  qed
qed

lemma run_Close:
  assumes g: "hgood s" and en: "enabled (Close i) s"
  shows "\<exists>s'. run (Close i) s = Some s' \<and> hgood s'"
proof (cases "res_type (hs_res s ! i) = Le_closed")
  case True
  then show ?thesis using assms by (simp add: zend_resource_dtor_def)
next
  case False
  have inv: "hinv (hs_reqs s) (hs_handles s) (hs_table s) (hs_res s)"
    using g by (simp add: hgood_def)
  have i: "i < length (hs_res s)" using en by simp
  then obtain h where h: "res_ptr (hs_res s ! i) = Some h"
    using hinv_resD [OF inv nth_mem [OF i]] False by auto
  then obtain hn where hn: "hs_handles s h = Some hn"
    using hinv_resD [OF inv nth_mem [OF i]] by auto
  show ?thesis
    using hinv_close [OF inv i h hn] g i False h
    by (simp add: zend_resource_dtor_def php_eio_handle_dtor_def release_eq hn hgood_def)
qed

text \<open>What the destroy hook does to a request that has a handle.\<close>

lemma EIO_DESTROY_handle:
  assumes inv: "hinv (hs_reqs s) (hs_handles s) (hs_table s) (hs_res s)"
    and e: "(r, h) \<in> set (hs_table s)" and hn: "hs_handles s h = Some hn" and up: "hs_ready s"
  shows "EIO_DESTROY_req r s = Some (s\<lparr>
     hs_reqs := (hs_reqs s)(r := None),
     hs_handles := (hs_handles s)(h := dropped (hn\<lparr>h_req := None\<rparr>)),
     hs_table := zend_hash_index_del r (hs_table s)\<rparr>)"
proof -
  note k = hinv_key [OF inv e hn]
  obtain q where q: "hs_reqs s r = Some q" using k(3) by auto
  moreover have "rq_destroy q = Some D_php_eio_req_destroy_hook"
    using hinv_destroyD [OF inv q] e by (auto simp: rev_image_eqI)
  moreover have "map_of (hs_table s) r = Some h" using e by (simp add: hinv_map_of [OF inv])
  ultimately show ?thesis
    using up hn k(2)
    by (simp add: EIO_DESTROY_req_def php_eio_req_destroy_hook_def upd_h_def release_eq
        call_orig_destroy_def)
qed

lemma EIO_DESTROY_plain:
  assumes inv: "hinv (hs_reqs s) (hs_handles s) (hs_table s) (hs_res s)"
    and "r \<notin> fst ` set (hs_table s)" "hs_reqs s r \<noteq> None"
  shows "EIO_DESTROY_req r s = Some (s\<lparr>hs_reqs := (hs_reqs s)(r := None)\<rparr>)"
proof -
  obtain q where q: "hs_reqs s r = Some q" using assms(3) by auto
  with hinv_destroyD [OF inv q] assms(2) show ?thesis by (simp add: EIO_DESTROY_req_def call_orig_destroy_def)
qed

lemma hinv_free:
  assumes inv: "hinv R H T X" and "r \<notin> fst ` set T"
  shows "hinv (R(r := None)) H T X"
proof -
  have "(r', h) \<in> set T \<Longrightarrow> r' \<noteq> r" for r' h using assms(2) by force
  then show ?thesis
    using hinv_basicD [OF inv] hinv_entryD [OF inv] hinv_handle [OF inv] hinv_resD [OF inv]
      hinv_destroyD [OF inv]
    by (intro hinvI) (simp_all split: if_splits)
qed

lemma run_Destroy:
  assumes g: "hgood s" and en: "enabled (Destroy r) s"
  shows "\<exists>s'. run (Destroy r) s = Some s' \<and> hgood s'"
proof -
  have inv: "hinv (hs_reqs s) (hs_handles s) (hs_table s) (hs_res s)"
    using g by (simp add: hgood_def)
  show ?thesis
  proof (cases "r \<in> fst ` set (hs_table s)")
    case True
    then obtain h where e: "(r, h) \<in> set (hs_table s)" by auto
    then obtain hn where hn: "hs_handles s h = Some hn" using hinv_entryD [OF inv e] by auto
    have up: "hs_ready s" using g e by (auto simp: hgood_def)
    show ?thesis
      using hinv_unlink [OF inv e hn, of None] up
      by (simp add: EIO_DESTROY_handle [OF inv e hn up] hgood_def)
  next
    case False
    show ?thesis
      using EIO_DESTROY_plain [OF inv False] en hinv_free [OF inv False] g
      by (simp add: hgood_def)
  qed
qed

text \<open>One round of the loop of \<open>php_eio_handles_reset\<close>, on the rest of the table.\<close>

lemma reset_one_ok:
  assumes inv: "hinv (hs_reqs s) (hs_handles s) ((r, h) # es) (hs_res s)"
  shows "\<exists>s'. reset_one h s = Some s' \<and>
     hinv (hs_reqs s') (hs_handles s') es (hs_res s') \<and> hs_ready s' = hs_ready s \<and>
     hs_res s' = hs_res s \<and> dom (hs_reqs s') = dom (hs_reqs s)"
proof -
  have e: "(r, h) \<in> set ((r, h) # es)" by simp
  then obtain hn where hn: "hs_handles s h = Some hn" using hinv_entryD [OF inv e] by auto
  note k = hinv_key [OF inv e hn]
  obtain q where q: "hs_reqs s r = Some q" using k(3) by auto
  have del: "zend_hash_index_del r ((r, h) # es) = es"
    using inv by (auto simp: zend_hash_index_del_def hinv_def rev_image_eqI intro!: filter_True)
  show ?thesis
    using hinv_unlink [OF inv e hn, of "Some (q\<lparr>rq_destroy := h_orig_destroy hn\<rparr>)"] k hn q
    by (auto simp: reset_one_def upd_h_def release_eq upd_req_def del insert_absorb)
qed

lemma reset_all_ok:
  "hinv (hs_reqs s) (hs_handles s) es (hs_res s) \<Longrightarrow>
   \<exists>s'. reset_all es s = Some s' \<and> hinv (hs_reqs s') (hs_handles s') [] (hs_res s') \<and>
     hs_ready s' = hs_ready s \<and> hs_res s' = hs_res s \<and> dom (hs_reqs s') = dom (hs_reqs s)"
proof (induction es arbitrary: s)
  case Nil
  then show ?case by simp
next
  case (Cons e es)
  obtain r h where "e = (r, h)" by (cases e)
  with reset_one_ok [of s r h es] Cons.prems Cons.IH show ?case by fastforce
qed

lemma php_eio_handles_reset_ok:
  assumes "hgood s"
  shows "\<exists>s'. php_eio_handles_reset s = Some s' \<and> hgood s' \<and> hs_table s' = [] \<and>
     hs_ready s' = hs_ready s \<and> hs_res s' = hs_res s \<and> dom (hs_reqs s') = dom (hs_reqs s)"
proof (cases "hs_ready s")
  case True
  have "hinv (hs_reqs s) (hs_handles s) (hs_table s) (hs_res s)"
    using assms by (simp add: hgood_def)
  from reset_all_ok [OF this] obtain s' where "reset_all (hs_table s) s = Some s'"
    "hinv (hs_reqs s') (hs_handles s') [] (hs_res s')" "hs_ready s' = hs_ready s"
    "hs_res s' = hs_res s" "dom (hs_reqs s') = dom (hs_reqs s)"
    by blast
  then show ?thesis using True by (simp add: php_eio_handles_reset_def hgood_def)
next
  case False
  then show ?thesis using assms by (auto simp: php_eio_handles_reset_def hgood_def)
qed

lemma run_Shutdown:
  assumes "hgood s"
  shows "\<exists>s'. run Shutdown s = Some s' \<and> hgood s'"
  using php_eio_handles_reset_ok [OF assms] assms
  by (auto simp: mshutdown_handles_def hgood_def)

lemma run_good:
  assumes "hgood s" "enabled op s"
  shows "\<exists>s'. run op s = Some s' \<and> hgood s'"
proof (cases op)
  case Reset
  then show ?thesis using php_eio_handles_reset_ok [OF assms(1)] by auto
next
  case Shutdown
  then show ?thesis using run_Shutdown [OF assms(1)] by simp
qed (use assms run_Create run_Register run_Close run_Destroy in blast)+

lemma hgood_init: "hgood hs_init"
  by (simp add: hgood_def hinv_def hs_init_def opens_def)

interpretation handles: trans_sys "\<lambda>s. s = hs_init" hstep hgood
  by unfold_locales (auto simp: hgood_init elim!: hstepE dest: run_good)


section \<open>A stale resource stays stale\<close>

text \<open>No new handle, and no handle comes to point to another request.\<close>

definition shrinks :: "hstate \<Rightarrow> hstate \<Rightarrow> bool" where
  "shrinks s s' \<longleftrightarrow> (\<forall>h hn'. hs_handles s' h = Some hn' \<longrightarrow>
     (\<exists>hn. hs_handles s h = Some hn \<and> (h_req hn' = None \<or> h_req hn' = h_req hn)))"

lemma shrinks_refl: "hs_handles s' = hs_handles s \<Longrightarrow> shrinks s s'"
  by (simp add: shrinks_def)

lemma shrinks_trans: "shrinks s s' \<Longrightarrow> shrinks s' s'' \<Longrightarrow> shrinks s s''"
  unfolding shrinks_def by metis

lemma dropped_req: "dropped hn = Some hn' \<Longrightarrow> h_req hn' = h_req hn"
  by (auto simp: dropped_def split: if_splits)

lemma shrinks_drop:
  "hs_handles s h = Some hn0 \<Longrightarrow> h_req hn = None \<or> h_req hn = h_req hn0 \<Longrightarrow>
   hs_handles s' = (hs_handles s)(h := dropped hn) \<Longrightarrow> shrinks s s'"
  by (auto simp: shrinks_def dest: dropped_req split: if_splits)

lemma reset_one_shrinks:
  assumes "reset_one h s = Some s'" shows "shrinks s s'"
proof -
  obtain hn where hn: "hs_handles s h = Some hn"
    using assms by (auto simp: reset_one_def split: Option.bind_splits)
  show ?thesis
    using assms hn
    by (intro shrinks_drop [of s h hn "hn\<lparr>h_req := None\<rparr>"])
       (auto simp: reset_one_def upd_h_def release_eq split: Option.bind_splits)
qed

lemma reset_all_shrinks: "reset_all es s = Some s' \<Longrightarrow> shrinks s s'"
proof (induction es arbitrary: s)
  case Nil
  then show ?case by (simp add: shrinks_refl)
next
  case (Cons e es)
  then show ?case
    by (auto split: Option.bind_splits intro: shrinks_trans reset_one_shrinks)
qed

lemma reset_shrinks: "php_eio_handles_reset s = Some s' \<Longrightarrow> shrinks s s'"
  using reset_all_shrinks [of "hs_table s" s]
  by (auto simp: php_eio_handles_reset_def shrinks_def split: if_splits Option.bind_splits)

text \<open>A resource that yields no request.\<close>

definition dead :: "nat \<Rightarrow> hstate \<Rightarrow> bool" where
  "dead i s \<longleftrightarrow> i < length (hs_res s) \<and>
     (\<forall>h hn. res_ptr (hs_res s ! i) = Some h \<longrightarrow> hs_handles s h = Some hn \<longrightarrow> h_req hn = None)"

lemma hgood_inv: "hgood s \<Longrightarrow> hinv (hs_reqs s) (hs_handles s) (hs_table s) (hs_res s)"
  by (simp add: hgood_def)

lemma dead_fetch: "hgood s \<Longrightarrow> dead i s \<Longrightarrow> php_eio_fetch_req i le s = Some None"
  using hinv_resD [OF hgood_inv, of s "hs_res s ! i"]
  by (auto simp: dead_def php_eio_fetch_req_def zend_fetch_resource_def split: option.splits)

lemma dead_shrinks: "dead i s \<Longrightarrow> shrinks s s' \<Longrightarrow> hs_res s' = hs_res s \<Longrightarrow> dead i s'"
  unfolding dead_def shrinks_def by (metis option.inject)

lemma dead_Register:
  assumes g: "hgood s" and en: "enabled (Register new a le) s" and d: "dead i s"
    and s': "run (Register new a le) s = Some s'"
  shows "dead i s'"
proof -
  obtain q where q: "hs_reqs s a = Some q" using en by auto
  have i: "i < length (hs_res s)" using d by (simp add: dead_def)
  have not_new: "res_ptr (hs_res s ! i) \<noteq> Some new"
    using hinv_resD [OF hgood_inv [OF g] nth_mem [OF i]] en by auto
  show ?thesis
  proof (cases "map_of (hs_table s) a")
    case None
    then show ?thesis
      using s' d i not_new
      by (auto simp: php_eio_register_resource_new [OF None q] dead_def nth_append)
  next
    case (Some h)
    obtain hn where hn: "hs_handles s h = Some hn" "h_req hn = Some a"
      using hinv_entryD [OF hgood_inv [OF g], of a h] Some by (auto simp: hinv_map_of [OF hgood_inv [OF g]])
    then show ?thesis
      using s' d i
      by (auto simp: php_eio_register_resource_again [OF Some hn(1)] dead_def nth_append
          split: if_splits)
  qed
qed

lemma dead_Close:
  assumes g: "hgood s" and en: "enabled (Close j) s" and d: "dead i s"
    and s': "run (Close j) s = Some s'"
  shows "dead i s'"
proof (cases "res_type (hs_res s ! j) = Le_closed")
  case True
  then show ?thesis using s' d en by (simp add: zend_resource_dtor_def)
next
  case False
  have j: "j < length (hs_res s)" using en by simp
  obtain h hn where h: "res_ptr (hs_res s ! j) = Some h" "hs_handles s h = Some hn"
    using hinv_resD [OF hgood_inv [OF g] nth_mem [OF j]] False by auto
  have s'_eq: "s' = s\<lparr>hs_res := (hs_res s)[j := \<lparr>res_ptr = None, res_type = Le_closed\<rparr>],
      hs_handles := (hs_handles s)(h := dropped hn)\<rparr>"
    using s' False j h by (simp add: zend_resource_dtor_def php_eio_handle_dtor_def release_eq)
  show ?thesis
    using d h j by (auto simp: s'_eq dead_def nth_list_update dest!: dropped_req split: if_splits)
qed

lemma Destroy_effect:
  assumes g: "hgood s" and s': "run (Destroy r) s = Some s'" and en: "enabled (Destroy r) s"
  shows "hs_reqs s' = (hs_reqs s)(r := None) \<and> hs_res s' = hs_res s \<and> shrinks s s' \<and>
    (\<forall>h hn. hs_handles s' h = Some hn \<longrightarrow> h_req hn \<noteq> Some r)"
proof (cases "r \<in> fst ` set (hs_table s)")
  case True
  note inv = hgood_inv [OF g]
  from True obtain h where e: "(r, h) \<in> set (hs_table s)" by auto
  then obtain hn where hn: "hs_handles s h = Some hn" using hinv_entryD [OF inv e] by auto
  have up: "hs_ready s" using g e by (auto simp: hgood_def)
  have eq: "s' = s\<lparr>hs_reqs := (hs_reqs s)(r := None),
     hs_handles := (hs_handles s)(h := dropped (hn\<lparr>h_req := None\<rparr>)),
     hs_table := zend_hash_index_del r (hs_table s)\<rparr>"
    using s' by (simp add: EIO_DESTROY_handle [OF inv e hn up])
  have "h_req hn' \<noteq> Some r" if "hs_handles s' h' = Some hn'" for h' hn'
  proof (cases "h' = h")
    case True
    then show ?thesis using that by (auto simp: eq dest: dropped_req)
  next
    case False
    then have "hs_handles s h' = Some hn'" using that by (simp add: eq)
    with False e show ?thesis
      using hinv_handle(3) [OF inv, of h' hn' r] by (metis hinv_map_of [OF inv] option.inject)
  qed
  then show ?thesis
    using shrinks_drop [of s h hn "hn\<lparr>h_req := None\<rparr>" s'] hn by (simp add: eq)
next
  case False
  have eq: "s' = s\<lparr>hs_reqs := (hs_reqs s)(r := None)\<rparr>"
    using s' EIO_DESTROY_plain [OF hgood_inv [OF g] False] en by simp
  show ?thesis
    using False hinv_handle(3) [OF hgood_inv [OF g], of _ _ r]
    by (force simp: eq shrinks_refl)
qed

lemma dead_step:
  assumes g: "hgood s" and d: "dead i s" and "hstep s s'"
  shows "dead i s'"
proof -
  obtain op where op: "enabled op s" "run op s = Some s'" using assms(3) by (rule hstepE)
  show ?thesis
  proof (cases op)
    case (Create a q)
    then show ?thesis using op d by (auto simp: dead_def)
  next
    case (Destroy r)
    then show ?thesis using Destroy_effect [OF g] op dead_shrinks [OF d] by blast
  next
    case Reset
    then show ?thesis
      using op php_eio_handles_reset_ok [OF g] dead_shrinks [OF d] reset_shrinks by fastforce
  next
    case Shutdown
    then obtain s2 where "s' = s \<or> php_eio_handles_reset s = Some s2 \<and>
        s' = s2\<lparr>hs_ready := False, hs_table := []\<rparr>"
      using op by (auto simp: mshutdown_handles_def split: if_splits Option.bind_splits)
    then show ?thesis
      using php_eio_handles_reset_ok [OF g] dead_shrinks [OF d, of s2] reset_shrinks [of s s2] d
      by (auto simp: dead_def)
  qed (use op dead_Register [OF g _ d] dead_Close [OF g _ d] in blast)+
qed

lemma dead_steps:
  "hstep\<^sup>*\<^sup>* s s' \<Longrightarrow> hgood s \<Longrightarrow> dead i s \<Longrightarrow> hgood s' \<and> dead i s'"
  by (induction rule: rtranclp_induct) (auto intro: dead_step handles.step_inv)


section \<open>Properties\<close>

text \<open>
  C12: no sequence of creations, registrations, closes, destructions, forks and shutdowns uses a
  freed handle or request, or frees one twice: in every state that can be reached, every operation
  that may happen runs to its end.
\<close>

theorem handles_no_fault:
  assumes "hstep\<^sup>*\<^sup>* hs_init s" "enabled op s"
  shows "\<exists>s'. run op s = Some s'"
  using run_good [OF handles.reach_inv [OF refl assms(1)] assms(2)] by blast


text \<open>
  C7: once libeio destroyed a request, a resource that stood for it yields null for ever, whatever
  happens later and even when the address of the request is used again for another request.
\<close>

theorem stale_resource_yields_null:
  assumes "hstep\<^sup>*\<^sup>* hs_init s" "php_eio_fetch_req i le s = Some (Some r)"
    and "hs_reqs s r \<noteq> None" "run (Destroy r) s = Some s1" "hstep\<^sup>*\<^sup>* s1 s2"
  shows "php_eio_fetch_req i le' s2 = Some None"
proof -
  have g: "hgood s" by (rule handles.reach_inv [OF refl assms(1)])
  have en: "enabled (Destroy r) s" using assms(3) by simp
  note eff = Destroy_effect [OF g assms(4) en]
  have "hstep s s1" using en assms(4) by (rule hstepI)
  then have g1: "hgood s1" using g by (rule handles.step_inv)
  obtain h hn where h: "i < length (hs_res s)" "res_ptr (hs_res s ! i) = Some h"
      "hs_handles s h = Some hn" "h_req hn = Some r"
    using assms(2)
    by (auto simp: php_eio_fetch_req_def zend_fetch_resource_def
        split: if_splits option.splits Option.bind_splits)
  then have "dead i s1"
    using eff unfolding dead_def shrinks_def by (metis option.inject)
  from dead_steps [OF assms(5) g1 this] show ?thesis using dead_fetch by blast
qed


section \<open>Runs on concrete inputs\<close>

fun runs :: "hop list \<Rightarrow> hstate \<Rightarrow> hstate option" where
  "runs [] s = Some s"
| "runs (op # ops) s = (if enabled op s then do { s \<leftarrow> run op s; runs ops s } else None)"

lemma runs_steps: "runs ops s = Some s' \<Longrightarrow> hstep\<^sup>*\<^sup>* s s'"
  by (induction ops arbitrary: s)
     (auto split: if_splits Option.bind_splits intro: hstepI converse_rtranclp_into_rtranclp)

lemmas run_eval =
  hs_init_def php_eio_register_resource_def php_eio_handle_ref_def upd_h_def upd_req_def
  zend_hash_index_add_ptr_def zend_hash_index_del_def open_res_def php_eio_fetch_req_def
  zend_fetch_resource_def EIO_DESTROY_req_def php_eio_req_destroy_hook_def
  php_eio_handle_release_def call_orig_destroy_def Let_def calloc_req_def

definition demo_req :: eio_req where
  "demo_req = calloc_req\<lparr>rq_destroy := Some D_eio_api_destroy\<rparr>"

definition demo_state :: hstate where
  "demo_state = the (runs [Create 1 demo_req, Register 5 1 Le_eio_req] hs_init)"

lemma demo_state_eq: "runs [Create 1 demo_req, Register 5 1 Le_eio_req] hs_init = Some demo_state"
  by (simp add: demo_state_def demo_req_def run_eval)

lemma demo_reach: "hstep\<^sup>*\<^sup>* hs_init demo_state"
  by (rule runs_steps [OF demo_state_eq])

theorem handles_no_fault_witness: "\<exists>s'. run (Destroy 1) demo_state = Some s'"
  by (rule handles_no_fault [OF demo_reach])
     (simp add: demo_state_def demo_req_def run_eval)


definition demo_reused :: "hstate option" where
  "demo_reused = runs [Create 1 demo_req, Register 6 1 Le_eio_req] (the (run (Destroy 1) demo_state))"

theorem stale_resource_yields_null_witness:
  "php_eio_fetch_req 0 Le_eio_req (the demo_reused) = Some None \<and>
   php_eio_fetch_req 1 Le_eio_req (the demo_reused) = Some (Some 1)"
proof -
  have "runs [Create 1 demo_req, Register 6 1 Le_eio_req] (the (run (Destroy 1) demo_state)) =
      Some (the demo_reused)"
    by (simp add: demo_reused_def demo_state_def demo_req_def run_eval)
  then have 2: "hstep\<^sup>*\<^sup>* (the (run (Destroy 1) demo_state)) (the demo_reused)"
    by (rule runs_steps)
  have "php_eio_fetch_req 0 Le_eio_req (the demo_reused) = Some None"
    by (rule stale_resource_yields_null [OF demo_reach, of 0 Le_eio_req 1, OF _ _ _ 2])
       (simp_all add: demo_state_def demo_req_def run_eval)
  moreover have "php_eio_fetch_req 1 Le_eio_req (the demo_reused) = Some (Some 1)"
    by (simp add: demo_reused_def demo_state_def demo_req_def run_eval)
  ultimately show ?thesis ..
qed

end
