(* ===== verification/PhpEvents.thy ===== *)
theory PhpEvents
  imports PoolSystem
begin

text \<open>
  The event descriptor of the extension and its start-up, in \<open>php8/php_eio.c\<close>: the eventfd or pipe
  by which a worker wakes up the PHP side, the two callbacks libeio calls on it, the initialisation
  after a fork, and the event loop.  The kernel is an argument, a function from a call to its result
  and the next state.  The module state is what the poll callbacks of the pool act on, so the system
  of \<open>PoolSystem\<close> runs with the real callbacks: the descriptor is readable exactly while results
  wait.
\<close>

section \<open>The kernel and the module state\<close>

text \<open>
  The calls; \<open>V_write\<close> and \<open>V_read\<close> have the descriptor and the number of bytes (of the counter value 1
  and of a buffer).
\<close>

datatype evcall =
    V_getpid
  | V_eventfd nat bool
  | V_pipe
  | V_setfl_nonblock int
  | V_setfd_cloexec int
  | V_close int
  | V_write int nat
  | V_read int nat
  | V_poll int

record evres =
  er_res :: int
  er_errno :: int
  er_fds :: "int \<times> int"

type_synonym 'w evkern = "evcall \<Rightarrow> 'w \<Rightarrow> evres \<times> 'w"

text \<open>\<open>php_eio_pipe_t\<close>: the two descriptors and the number of bytes to write.\<close>

record php_eio_pipe_t =
  pp_fd0 :: int
  pp_fd1 :: int
  pp_len :: int

text \<open>
  \<open>php_eio_pid\<close>, \<open>php_eio_pipe\<close>, the state of the kernel, how often \<open>eio_init\<close> ran (what it does to the
  pool is \<open>etp_init\<close>), and how often the stack limits were set for the running thread.
\<close>

record 'w modst =
  mo_pid :: int
  mo_pipe :: php_eio_pipe_t
  mo_w :: 'w
  mo_inits :: nat

definition modst0 :: "'w \<Rightarrow> 'w modst" where
  "modst0 w = \<lparr>mo_pid = 0, mo_pipe = \<lparr>pp_fd0 = 0, pp_fd1 = 0, pp_len = 0\<rparr>, mo_w = w, mo_inits = 0\<rparr>"

text \<open>The version of the kernel headers: whether there is \<open>eventfd\<close>, and whether it takes flags.\<close>

record ev_config =
  HAVE_EVENTFD :: bool
  EFD_FLAGS :: bool

definition ev_call :: "'w evkern \<Rightarrow> evcall \<Rightarrow> 'w modst \<Rightarrow> evres \<times> 'w modst" where
  "ev_call k c m = (case k c (mo_w m) of (r, w) \<Rightarrow> (r, m\<lparr>mo_w := w\<rparr>))"

section \<open>The descriptor\<close>

text \<open>True when one of the two \<open>fcntl\<close> failed; the second is not tried after a failure.\<close>

definition php_eio_fd_prepare :: "'w evkern \<Rightarrow> int \<Rightarrow> 'w modst \<Rightarrow> bool \<times> 'w modst" where
  "php_eio_fd_prepare k fd m =
     (case ev_call k (V_setfl_nonblock fd) m of (r, m) \<Rightarrow>
       if er_res r \<noteq> 0 then (True, m)
       else (case ev_call k (V_setfd_cloexec fd) m of (r, m) \<Rightarrow> (er_res r \<noteq> 0, m)))"

text \<open>Without the flags of \<open>eventfd\<close> the code prepares the descriptor that is in the pipe so far.\<close>

definition php_eio_eventfd :: "ev_config \<Rightarrow> 'w evkern \<Rightarrow> 'w modst \<Rightarrow> int \<times> 'w modst" where
  "php_eio_eventfd cf k m =
     (if \<not> HAVE_EVENTFD cf then (-1, m)
      else if EFD_FLAGS cf then (case ev_call k (V_eventfd 0 True) m of (r, m) \<Rightarrow> (er_res r, m))
      else
        (case ev_call k (V_eventfd 0 False) m of (r, m) \<Rightarrow>
          if er_res r \<ge> 0 then (er_res r, snd (php_eio_fd_prepare k (pp_fd0 (mo_pipe m)) m))
          else (er_res r, m)))"

definition php_eio_pipe_new :: "ev_config \<Rightarrow> 'w evkern \<Rightarrow> 'w modst \<Rightarrow> int \<times> 'w modst" where
  "php_eio_pipe_new cf k m =
     (case php_eio_eventfd cf k m of (fd, m) \<Rightarrow>
       let m = m\<lparr>mo_pipe := (mo_pipe m)\<lparr>pp_fd0 := fd\<rparr>\<rparr> in
       if fd \<ge> 0 then (0, m\<lparr>mo_pipe := (mo_pipe m)\<lparr>pp_fd1 := fd, pp_len := 8\<rparr>\<rparr>)
       else
         (case ev_call k V_pipe m of (r, m) \<Rightarrow>
           if er_res r \<noteq> 0 then (-1, m)
           else
             (let m = m\<lparr>mo_pipe := (mo_pipe m)\<lparr>pp_fd0 := fst (er_fds r), pp_fd1 := snd (er_fds r)\<rparr>\<rparr>;
                  (bad, m) = (case php_eio_fd_prepare k (pp_fd0 (mo_pipe m)) m of (bad, m) \<Rightarrow>
                     if bad then (True, m) else php_eio_fd_prepare k (pp_fd1 (mo_pipe m)) m)
              in if bad then
                   (-1, snd (ev_call k (V_close (pp_fd1 (mo_pipe m)))
                          (snd (ev_call k (V_close (pp_fd0 (mo_pipe m))) m))))
                 else (0, m\<lparr>mo_pipe := (mo_pipe m)\<lparr>pp_len := 1\<rparr>\<rparr>))))"

definition php_eio_pipe_destroy :: "'w evkern \<Rightarrow> 'w modst \<Rightarrow> 'w modst" where
  "php_eio_pipe_destroy k m =
     (let m = snd (ev_call k (V_close (pp_fd0 (mo_pipe m))) m);
          m = (if pp_fd1 (mo_pipe m) \<noteq> pp_fd0 (mo_pipe m)
               then snd (ev_call k (V_close (pp_fd1 (mo_pipe m))) m) else m)
      in m\<lparr>mo_pipe := (mo_pipe m)\<lparr>pp_len := 0\<rparr>\<rparr>)"

section \<open>The callbacks\<close>

definition EINVAL :: int where "EINVAL = 22"

definition php_eio_want_poll_callback :: "'w evkern \<Rightarrow> 'w modst \<Rightarrow> 'w modst" where
  "php_eio_want_poll_callback k m =
     (case ev_call k (V_write (pp_fd1 (mo_pipe m)) (nat (pp_len (mo_pipe m)))) m of (r, m) \<Rightarrow>
       if er_res r < 0 \<and> er_errno r = EINVAL \<and> pp_len (mo_pipe m) \<noteq> 8 then
         (let m = m\<lparr>mo_pipe := (mo_pipe m)\<lparr>pp_len := 8\<rparr>\<rparr>
          in snd (ev_call k (V_write (pp_fd1 (mo_pipe m)) (nat (pp_len (mo_pipe m)))) m))
       else m)"

definition php_eio_done_poll_callback :: "'w evkern \<Rightarrow> 'w modst \<Rightarrow> 'w modst" where
  "php_eio_done_poll_callback k m = snd (ev_call k (V_read (pp_fd0 (mo_pipe m)) 9) m)"

section \<open>Start and end\<close>

text \<open>
  \<open>php_eio_init\<close>; the flag tells that \<open>php_error_docref\<close> reported an \<open>E_ERROR\<close>, which does not return to
  the caller.  \<open>eio_init\<close> returns what \<open>etp_init\<close> returns, which is always 0, so its failure branch is
  never taken.
\<close>

definition php_eio_init :: "ev_config \<Rightarrow> 'w evkern \<Rightarrow> 'w modst \<Rightarrow> bool \<times> 'w modst" where
  "php_eio_init cf k m =
     (case ev_call k V_getpid m of (r, m) \<Rightarrow>
       let cur_pid = er_res r in
       if mo_pid m \<le> 0 \<or> (mo_pid m > 0 \<and> cur_pid \<noteq> mo_pid m) then
         (case php_eio_pipe_new cf k m of (e, m) \<Rightarrow>
           if e \<noteq> 0 then (True, m)
           else (False, m\<lparr>mo_inits := mo_inits m + 1, mo_pid := cur_pid\<rparr>))
       else (False, m))"

definition PHP_EIO_IS_INIT :: "ev_config \<Rightarrow> 'w evkern \<Rightarrow> 'w modst \<Rightarrow> bool \<times> 'w modst" where
  "PHP_EIO_IS_INIT cf k m =
     (if mo_pid m \<le> 0 \<or> pp_len (mo_pipe m) = 0 then php_eio_init cf k m else (False, m))"

text \<open>The part of \<open>PHP_MSHUTDOWN_FUNCTION(eio)\<close> that is about the descriptor.\<close>

definition mshutdown_pipe :: "'w evkern \<Rightarrow> 'w modst \<Rightarrow> 'w modst" where
  "mshutdown_pipe k m = (if pp_len (mo_pipe m) \<noteq> 0 then php_eio_pipe_destroy k m else m)"

section \<open>The event loop\<close>

text \<open>
  \<open>php_eio_event_loop\<close>: while there are requests, wait for the descriptor and poll.  \<open>poll_round\<close> is
  \<open>eio_poll\<close>; it works on the pool, whose callback state is the module state.
\<close>

definition wait_readable :: "'w evkern \<Rightarrow> 'w modst etp_pool \<Rightarrow> 'w modst etp_pool" where
  "wait_readable k p = p\<lparr>p_io := snd (ev_call k (V_poll (pp_fd0 (mo_pipe (p_io p)))) (p_io p))\<rparr>"

partial_function (option) php_eio_event_loop ::
    "'w evkern \<Rightarrow> ('w modst etp_pool \<Rightarrow> (int \<times> 'w modst etp_pool) option) \<Rightarrow> 'w modst etp_pool \<Rightarrow>
     'w modst etp_pool option" where
  "php_eio_event_loop k poll_round p =
     (if etp_nreqs p = 0 then Some p
      else do {
        (r, p) \<leftarrow> poll_round (wait_readable k p);
        php_eio_event_loop k poll_round p })"

section \<open>What the kernel promises\<close>

text \<open>
  An eventfd (\<open>readable w fd\<close> reads off the state of the kernel whether \<open>poll\<close> reports the descriptor):
  writing 8 bytes makes it readable, whether the counter is raised or already at its maximum, and
  reading with room for 8 bytes sets the counter back.
\<close>

definition eventfd_kern :: "'w evkern \<Rightarrow> ('w \<Rightarrow> int \<Rightarrow> bool) \<Rightarrow> int \<Rightarrow> bool" where
  "eventfd_kern k readable fd \<longleftrightarrow>
     (\<forall>w. readable (snd (k (V_write fd 8) w)) fd) \<and>
     (\<forall>w. \<not> readable (snd (k (V_read fd 9) w)) fd)"

text \<open>
  A pipe, by the number of bytes in it: writing one byte into an empty pipe leaves one, and reading up
  to nine from a pipe with one leaves none.
\<close>

definition pipe_kern :: "'w evkern \<Rightarrow> ('w \<Rightarrow> int \<Rightarrow> nat) \<Rightarrow> int \<Rightarrow> int \<Rightarrow> bool" where
  "pipe_kern k bytes fd0 fd1 \<longleftrightarrow>
     (\<forall>w. bytes w fd0 = 0 \<longrightarrow> er_res (fst (k (V_write fd1 1) w)) = 1 \<and>
           bytes (snd (k (V_write fd1 1) w)) fd0 = 1) \<and>
     (\<forall>w. bytes w fd0 = 1 \<longrightarrow> bytes (snd (k (V_read fd0 9) w)) fd0 = 0)"

text \<open>The signal: whether the descriptor is readable, for a module that was set up.\<close>

definition efd_signal :: "('w \<Rightarrow> int \<Rightarrow> bool) \<Rightarrow> int \<Rightarrow> 'w modst \<Rightarrow> bool option" where
  "efd_signal readable fd m =
     (if pp_fd0 (mo_pipe m) = fd \<and> pp_fd1 (mo_pipe m) = fd \<and> pp_len (mo_pipe m) = 8
      then Some (readable (mo_w m) fd) else None)"

definition pipe_signal :: "('w \<Rightarrow> int \<Rightarrow> nat) \<Rightarrow> int \<Rightarrow> int \<Rightarrow> 'w modst \<Rightarrow> bool option" where
  "pipe_signal bytes fd0 fd1 m =
     (if pp_fd0 (mo_pipe m) = fd0 \<and> pp_fd1 (mo_pipe m) = fd1 \<and> pp_len (mo_pipe m) = 1 \<and>
         bytes (mo_w m) fd0 \<le> 1
      then Some (bytes (mo_w m) fd0 = 1) else None)"

lemma ev_call_eq: "ev_call k c m = (fst (k c (mo_w m)), m\<lparr>mo_w := snd (k c (mo_w m))\<rparr>)"
  by (simp add: ev_call_def case_prod_beta)

lemma efd_want:
  "eventfd_kern k readable fd \<Longrightarrow> efd_signal readable fd m \<noteq> None \<Longrightarrow>
   efd_signal readable fd (php_eio_want_poll_callback k m) = Some True"
  by (auto simp: efd_signal_def eventfd_kern_def php_eio_want_poll_callback_def ev_call_eq
      split: if_splits)

lemma efd_done:
  "eventfd_kern k readable fd \<Longrightarrow> efd_signal readable fd m \<noteq> None \<Longrightarrow>
   efd_signal readable fd (php_eio_done_poll_callback k m) = Some False"
  by (auto simp: efd_signal_def eventfd_kern_def php_eio_done_poll_callback_def ev_call_eq
      split: if_splits)

lemma pipe_want:
  "pipe_kern k bytes fd0 fd1 \<Longrightarrow> pipe_signal bytes fd0 fd1 m = Some False \<Longrightarrow>
   pipe_signal bytes fd0 fd1 (php_eio_want_poll_callback k m) = Some True"
  by (auto simp: pipe_signal_def pipe_kern_def php_eio_want_poll_callback_def ev_call_eq
      split: if_splits)

lemma pipe_done:
  "pipe_kern k bytes fd0 fd1 \<Longrightarrow> pipe_signal bytes fd0 fd1 m = Some True \<Longrightarrow>
   pipe_signal bytes fd0 fd1 (php_eio_done_poll_callback k m) = Some False"
  by (auto simp: pipe_signal_def pipe_kern_def php_eio_done_poll_callback_def ev_call_eq
      split: if_splits)

text \<open>Starting with a working \<open>eventfd\<close>, the signal is set up, and down when the counter is new.\<close>

lemma php_eio_init_eventfd:
  assumes "HAVE_EVENTFD cf" "EFD_FLAGS cf" "mo_pid m \<le> 0"
    and "er_res (fst (k (V_eventfd 0 True) (snd (k V_getpid (mo_w m))))) = fd" "0 \<le> fd"
    and "\<not> readable (snd (k (V_eventfd 0 True) (snd (k V_getpid (mo_w m))))) fd"
  shows "fst (php_eio_init cf k m) = False \<and>
    efd_signal readable fd (snd (php_eio_init cf k m)) = Some False"
  using assms
  by (simp add: php_eio_init_def php_eio_pipe_new_def php_eio_eventfd_def ev_call_eq efd_signal_def Let_def)

section \<open>The event loop returns\<close>

text \<open>
  The loop ends with no request outstanding when every round returns and leaves fewer of them.
\<close>

lemma event_loop_returns:
  assumes round: "\<And>p. good p \<Longrightarrow> etp_nreqs p \<noteq> 0 \<Longrightarrow> \<exists>r p'. poll_round (wait_readable k p) = Some (r, p') \<and>
      good p' \<and> unat (etp_nreqs p') < unat (etp_nreqs p)"
  shows "good p \<Longrightarrow> \<exists>p'. php_eio_event_loop k poll_round p = Some p' \<and> etp_nreqs p' = 0 \<and> good p'"
proof (induction "unat (etp_nreqs p)" arbitrary: p rule: less_induct)
  case less
  show ?case
  proof (cases "etp_nreqs p = 0")
    case True
    then show ?thesis using less.prems by (simp add: php_eio_event_loop.simps)
  next
    case False
    from round [OF less.prems False] obtain r p1 where
      p1: "poll_round (wait_readable k p) = Some (r, p1)" "good p1" "unat (etp_nreqs p1) < unat (etp_nreqs p)"
      by blast
    from less.hyps [OF p1(3,2)] show ?thesis
      using False p1(1) by (simp add: php_eio_event_loop.simps [of k poll_round p])
  qed
qed

section \<open>Properties\<close>

text \<open>
  C14: the event descriptor is readable exactly while results wait to be polled, in every state the
  pool and its threads can reach with the real callbacks on an eventfd: a PHP event loop that waits
  for the descriptor misses no result and is not woken without one.
\<close>

theorem event_fd_readable_iff_results:
  assumes "eventfd_kern k readable fd" "efd_signal readable fd m = Some False"
    and "pool_reachable (php_eio_want_poll_callback k) (php_eio_done_poll_callback k) m s"
  shows "readable (mo_w (p_io (pool s))) fd \<longleftrightarrow> q_size (res_queue (pool s)) \<noteq> 0"
proof -
  have "efd_signal readable fd (p_io (pool s)) = Some (q_size (res_queue (pool s)) \<noteq> 0)"
    using assms
    by (intro signal_iff_results [of _ "php_eio_want_poll_callback k" "php_eio_done_poll_callback k" m])
       (auto intro: efd_want efd_done)
  then show ?thesis by (simp add: efd_signal_def split: if_splits)
qed

text \<open>
  The same for a pipe: with one byte written for every first result and up to nine read after the
  last, the pipe holds one byte exactly while results wait.
\<close>

theorem event_pipe_readable_iff_results:
  assumes "pipe_kern k bytes fd0 fd1" "pipe_signal bytes fd0 fd1 m = Some False"
    and "pool_reachable (php_eio_want_poll_callback k) (php_eio_done_poll_callback k) m s"
  shows "bytes (mo_w (p_io (pool s))) fd0 = (if q_size (res_queue (pool s)) = 0 then 0 else 1)"
proof -
  have "pipe_signal bytes fd0 fd1 (p_io (pool s)) = Some (q_size (res_queue (pool s)) \<noteq> 0)"
    using assms
    by (intro signal_iff_results [of _ "php_eio_want_poll_callback k" "php_eio_done_poll_callback k" m])
       (auto intro: pipe_want pipe_done)
  then show ?thesis by (auto simp: pipe_signal_def split: if_splits)
qed


section \<open>A kernel to run with\<close>

text \<open>An eventfd at descriptor 5 whose counter is the state, and a pipe from 6 to 5.\<close>

fun demo_efd :: "nat evkern" where
  "demo_efd (V_eventfd n b) w = (\<lparr>er_res = 5, er_errno = 0, er_fds = (0, 0)\<rparr>, 0)"
| "demo_efd V_getpid w = (\<lparr>er_res = 77, er_errno = 0, er_fds = (0, 0)\<rparr>, w)"
| "demo_efd (V_write fd n) w = (\<lparr>er_res = 8, er_errno = 0, er_fds = (0, 0)\<rparr>, w + 1)"
| "demo_efd (V_read fd n) w = (\<lparr>er_res = 8, er_errno = 0, er_fds = (0, 0)\<rparr>, 0)"
| "demo_efd _ w = (\<lparr>er_res = 0, er_errno = 0, er_fds = (0, 0)\<rparr>, w)"

fun demo_pipe :: "nat evkern" where
  "demo_pipe (V_write fd n) w = (\<lparr>er_res = int n, er_errno = 0, er_fds = (0, 0)\<rparr>, w + n)"
| "demo_pipe (V_read fd n) w = (\<lparr>er_res = int (min w n), er_errno = 0, er_fds = (0, 0)\<rparr>, w - n)"
| "demo_pipe V_pipe w = (\<lparr>er_res = 0, er_errno = 0, er_fds = (5, 6)\<rparr>, 0)"
| "demo_pipe V_getpid w = (\<lparr>er_res = 77, er_errno = 0, er_fds = (0, 0)\<rparr>, w)"
| "demo_pipe _ w = (\<lparr>er_res = 0, er_errno = 0, er_fds = (0, 0)\<rparr>, w)"

definition demo_mod :: "nat modst" where
  "demo_mod = snd (php_eio_init \<lparr>HAVE_EVENTFD = True, EFD_FLAGS = True\<rparr> demo_efd (modst0 0))"

definition demo_mod_pipe :: "nat modst" where
  "demo_mod_pipe = snd (php_eio_init \<lparr>HAVE_EVENTFD = False, EFD_FLAGS = False\<rparr> demo_pipe (modst0 0))"

definition demo_run :: "nat evkern \<Rightarrow> nat modst \<Rightarrow> nat modst sys" where
  "demo_run k m = the (PoolSystem.run (php_eio_want_poll_callback k) (php_eio_done_poll_callback k)
      one_request (pool_start m))"

theorem event_fd_readable_iff_results_witness:
  "mo_w (p_io (pool (demo_run demo_efd demo_mod))) = 1 \<and>
   q_size (res_queue (pool (demo_run demo_efd demo_mod))) \<noteq> 0"
proof -
  have "map_option (\<lambda>s. mo_w (p_io (pool s))) (PoolSystem.run (php_eio_want_poll_callback demo_efd)
      (php_eio_done_poll_callback demo_efd) one_request (pool_start demo_mod)) = Some 1"
    by code_simp
  then have s: "PoolSystem.run (php_eio_want_poll_callback demo_efd) (php_eio_done_poll_callback demo_efd)
      one_request (pool_start demo_mod) = Some (demo_run demo_efd demo_mod)"
    and one: "mo_w (p_io (pool (demo_run demo_efd demo_mod))) = 1"
    by (auto simp: demo_run_def)
  have k: "eventfd_kern demo_efd (\<lambda>w fd. w \<noteq> 0) 5" by (simp add: eventfd_kern_def)
  have m: "efd_signal (\<lambda>w fd. w \<noteq> 0) 5 demo_mod = Some False" by code_simp
  from event_fd_readable_iff_results [OF k m run_reachable [OF pool_reachable_start s]] one
  show ?thesis by simp
qed

theorem event_pipe_readable_iff_results_witness:
  "mo_w (p_io (pool (demo_run demo_pipe demo_mod_pipe))) = 1 \<and>
   q_size (res_queue (pool (demo_run demo_pipe demo_mod_pipe))) \<noteq> 0"
proof -
  have "map_option (\<lambda>s. mo_w (p_io (pool s))) (PoolSystem.run (php_eio_want_poll_callback demo_pipe)
      (php_eio_done_poll_callback demo_pipe) one_request (pool_start demo_mod_pipe)) = Some 1"
    by code_simp
  then have s: "PoolSystem.run (php_eio_want_poll_callback demo_pipe) (php_eio_done_poll_callback demo_pipe)
      one_request (pool_start demo_mod_pipe) = Some (demo_run demo_pipe demo_mod_pipe)"
    and one: "mo_w (p_io (pool (demo_run demo_pipe demo_mod_pipe))) = 1"
    by (auto simp: demo_run_def)
  have k: "pipe_kern demo_pipe (\<lambda>w fd. w) 5 6" by (simp add: pipe_kern_def)
  have m: "pipe_signal (\<lambda>w fd. w) 5 6 demo_mod_pipe = Some False" by code_simp
  from event_pipe_readable_iff_results [OF k m run_reachable [OF pool_reachable_start s]] one
  show ?thesis by (metis zero_neq_one)
qed

end
