(* ===== verification/PhpCallback.thy ===== *)
theory PhpCallback
  imports Handles Execution
begin

unbundle bit_operations_syntax

text \<open>
  The callback side of \<open>php8/php_eio.c\<close>: the objects that hold a user's callback and data between the
  call of an \<open>eio_*\<close> function and the completion of its request, and the two functions libeio calls
  when a request is done, \<open>php_eio_res_cb\<close> and \<open>php_eio_res_cb_custom\<close>.  Values of PHP are modelled with
  their reference counts: dropping a reference that is not there, and using a freed object, is the
  fault \<open>None\<close>.  The engine is an argument: which values are callable, what a user function does, and
  the addresses its allocator answers with.
\<close>

section \<open>Values and their reference counts\<close>

text \<open>
  \<open>Z_OBJ\<close> is an object, \<open>Z_CNT\<close> a string or array of the program with a reference count, \<open>Z_RES\<close> a
  resource by its index; \<open>Z_STR\<close> and \<open>Z_ARR\<close> are values built here, which nobody else refers to.
\<close>

datatype zkey = Key string | Idx nat

datatype zval =
    Z_UNDEF | Z_NULL | Z_LONG int | Z_STR string
  | Z_OBJ addr | Z_CNT addr | Z_RES nat
  | Z_ARR "(zkey \<times> zval) list"

datatype rcobj = RVal addr | RRes nat

fun rc_key :: "zval \<Rightarrow> rcobj option" where
  "rc_key (Z_OBJ a) = Some (RVal a)"
| "rc_key (Z_CNT a) = Some (RVal a)"
| "rc_key (Z_RES i) = Some (RRes i)"
| "rc_key _ = None"

record php_eio_func_info =
  fi_func :: "nat option"
  fi_ce :: "nat option"
  fi_obj :: zval
  fi_closure :: zval

definition func_info0 :: php_eio_func_info where
  "func_info0 = \<lparr>fi_func = None, fi_ce = None, fi_obj = Z_UNDEF, fi_closure = Z_UNDEF\<rparr>"

record php_eio_cb_t =
  cb_func :: php_eio_func_info
  cb_arg :: zval

record php_eio_cb_custom_t =
  cc_arg :: zval
  cc_locked :: bool
  cc_func_exec :: php_eio_func_info
  cc_func :: php_eio_func_info

text \<open>
  The state: requests and handles, reference counts, the two heaps of callback objects, the heap of
  values made for results of custom requests, the heap of string buffers, the number of live error
  messages of \<open>zend_is_callable_ex\<close>, whether an exception is pending, the number of warnings, the
  descriptors marked close-on-exec, whose stack the engine's stack limit is for, and the record of
  the calls of user functions so far: function, object and parameters.
\<close>

record phpst =
  ps_h :: hstate
  ps_rc :: "rcobj \<Rightarrow> nat"
  ps_cb :: "addr \<Rightarrow> php_eio_cb_t option"
  ps_cc :: "addr \<Rightarrow> php_eio_cb_custom_t option"
  ps_zv :: "addr \<Rightarrow> zval option"
  ps_buf :: "addr \<Rightarrow> string option"
  ps_errs :: nat
  ps_exc :: bool
  ps_warn :: nat
  ps_cloexec :: "int list"
  ps_stack :: nat
  ps_calls :: "(nat \<times> zval \<times> zval list) list"

text \<open>\<open>ZVAL_COPY\<close> adds a reference, \<open>zval_ptr_dtor\<close> drops one; the last one closes a resource.\<close>

definition zval_addref :: "zval \<Rightarrow> phpst \<Rightarrow> phpst" where
  "zval_addref z s =
     (case rc_key z of
        None \<Rightarrow> s
      | Some k \<Rightarrow> s\<lparr>ps_rc := (ps_rc s)(k := ps_rc s k + 1)\<rparr>)"

definition zval_ptr_dtor :: "zval \<Rightarrow> phpst \<Rightarrow> phpst option" where
  "zval_ptr_dtor z s =
     (case rc_key z of
        None \<Rightarrow> Some s
      | Some k \<Rightarrow>
          if ps_rc s k = 0 then None
          else
            (let s = s\<lparr>ps_rc := (ps_rc s)(k := ps_rc s k - 1)\<rparr> in
             if ps_rc s k = 0 then
               (case k of
                  RVal a \<Rightarrow> Some s
                | RRes i \<Rightarrow> map_option (\<lambda>h. s\<lparr>ps_h := h\<rparr>) (zend_resource_dtor i (ps_h s)))
             else Some s))"

section \<open>The engine\<close>

text \<open>What \<open>zend_is_callable_ex\<close> fills in, and whether it leaves an error message.\<close>

record fcall_cache =
  fcc_scope :: "nat option"
  fcc_handler :: nat
  fcc_object :: "addr option"
  fcc_static :: bool

record zstat =
  st_dev :: int
  st_ino :: int
  st_mode :: int
  st_nlink :: int
  st_uid :: int
  st_size :: int
  st_gid :: int
  st_rdev :: int
  st_blksize :: int
  st_blocks :: int
  st_atime :: int
  st_mtime :: int
  st_ctime :: int

record zstatvfs =
  f_bsize :: int
  f_frsize :: int
  f_blocks :: int
  f_bfree :: int
  f_bavail :: int
  f_files :: int
  f_ffree :: int
  f_favail :: int
  f_fsid :: int
  f_flag :: int
  f_namemax :: int

text \<open>
  \<open>pe_call f obj params\<close> runs the user function \<open>f\<close>, with its own references to the parameters, and
  gives the value it returns (\<open>Z_UNDEF\<close> after an exception).
\<close>

record php_env =
  pe_callable :: "zval \<Rightarrow> fcall_cache option \<times> bool"
  pe_call :: "nat \<Rightarrow> zval \<Rightarrow> zval list \<Rightarrow> phpst \<Rightarrow> (zval \<times> phpst) option"
  pe_cb_addr :: "phpst \<Rightarrow> addr"
  pe_handle_addr :: "phpst \<Rightarrow> addr"
  pe_zv_addr :: "phpst \<Rightarrow> addr"
  pe_stat :: "eio_mem \<Rightarrow> zstat"
  pe_statvfs :: "eio_mem \<Rightarrow> zstatvfs"
  pe_cloexec_ok :: "int \<Rightarrow> bool"

definition call_user :: "php_env \<Rightarrow> nat \<Rightarrow> zval \<Rightarrow> zval list \<Rightarrow> phpst \<Rightarrow> (zval \<times> phpst) option" where
  "call_user env f obj params s =
     pe_call env f obj params (s\<lparr>ps_calls := ps_calls s @ [(f, obj, params)]\<rparr>)"

text \<open>\<open>zend_call_known_function\<close> without a place for the return value destroys it.\<close>

definition zend_call_known_function ::
    "php_env \<Rightarrow> nat \<Rightarrow> zval \<Rightarrow> zval list \<Rightarrow> phpst \<Rightarrow> phpst option" where
  "zend_call_known_function env f obj params s = do {
     (retval, s) \<leftarrow> call_user env f obj params s;
     zval_ptr_dtor retval s }"

section \<open>Function infos\<close>

text \<open>
  \<open>php_eio_import_func_info\<close>; \<open>None\<close> is \<open>FAILURE\<close>.  The message is stored in the parameter \<open>error\<close>, a copy
  of the caller's variable: on failure it is lost to the caller and stays allocated.
\<close>

definition php_eio_import_func_info ::
    "php_env \<Rightarrow> zval option \<Rightarrow> phpst \<Rightarrow> php_eio_func_info option \<times> phpst" where
  "php_eio_import_func_info env zcb s =
     (case zcb of
        None \<Rightarrow> (Some func_info0, s)
      | Some z \<Rightarrow>
          (let (fcc, error) = pe_callable env z;
               s = (if error then s\<lparr>ps_errs := ps_errs s + 1\<rparr> else s)
           in case fcc of
                None \<Rightarrow> (None, s)
              | Some fcc \<Rightarrow>
                  let s = (if error then s\<lparr>ps_errs := ps_errs s - 1\<rparr> else s);
                      (closure, s) = (case z of Z_OBJ a \<Rightarrow> (z, zval_addref z s) | _ \<Rightarrow> (Z_UNDEF, s));
                      (obj, s) = (case fcc_object fcc of
                          Some a \<Rightarrow> if \<not> fcc_static fcc then (Z_OBJ a, zval_addref (Z_OBJ a) s) else (Z_UNDEF, s)
                        | None \<Rightarrow> (Z_UNDEF, s))
                  in (Some \<lparr>fi_func = Some (fcc_handler fcc), fi_ce = fcc_scope fcc,
                            fi_obj = obj, fi_closure = closure\<rparr>, s)))"

text \<open>The infos are members of the callback objects, so \<open>self\<close> is \<open>FALSE\<close> in every call.\<close>

definition php_eio_func_info_free ::
    "php_eio_func_info \<Rightarrow> phpst \<Rightarrow> (php_eio_func_info \<times> phpst) option" where
  "php_eio_func_info_free pf s = do {
     s \<leftarrow> (if fi_obj pf \<noteq> Z_UNDEF then zval_ptr_dtor (fi_obj pf) s else Some s);
     s \<leftarrow> (if fi_closure pf \<noteq> Z_UNDEF then zval_ptr_dtor (fi_closure pf) s else Some s);
     Some (pf\<lparr>fi_obj := Z_UNDEF, fi_closure := Z_UNDEF\<rparr>, s) }"

section \<open>Callback objects\<close>

definition php_eio_free_eio_cb :: "ptr \<Rightarrow> phpst \<Rightarrow> phpst option" where
  "php_eio_free_eio_cb eio_cb s =
     (case eio_cb of
        None \<Rightarrow> Some s
      | Some a \<Rightarrow> do {
          cb \<leftarrow> ps_cb s a;
          s \<leftarrow> (if cb_arg cb \<noteq> Z_UNDEF then zval_ptr_dtor (cb_arg cb) s else Some s);
          (pf, s) \<leftarrow> php_eio_func_info_free (cb_func cb) s;
          Some (s\<lparr>ps_cb := (ps_cb s)(a := None)\<rparr>) })"

definition php_eio_free_eio_cb_custom :: "ptr \<Rightarrow> phpst \<Rightarrow> phpst option" where
  "php_eio_free_eio_cb_custom eio_cb s =
     (case eio_cb of
        None \<Rightarrow> Some s
      | Some a \<Rightarrow> do {
          cb \<leftarrow> ps_cc s a;
          s \<leftarrow> (if cc_arg cb \<noteq> Z_UNDEF then zval_ptr_dtor (cc_arg cb) s else Some s);
          (pf, s) \<leftarrow> php_eio_func_info_free (cc_func cb) s;
          (pf, s) \<leftarrow> php_eio_func_info_free (cc_func_exec cb) s;
          Some (s\<lparr>ps_cc := (ps_cc s)(a := None)\<rparr>) })"

text \<open>
  The value that is copied into an object, with its reference.  \<open>ecalloc\<close> does not return when there is
  no memory.
\<close>

definition copy_arg :: "zval option \<Rightarrow> phpst \<Rightarrow> zval \<times> phpst" where
  "copy_arg data s = (case data of Some z \<Rightarrow> (z, zval_addref z s) | None \<Rightarrow> (Z_UNDEF, s))"

definition php_eio_new_eio_cb ::
    "php_env \<Rightarrow> zval option \<Rightarrow> zval option \<Rightarrow> phpst \<Rightarrow> ptr \<times> phpst" where
  "php_eio_new_eio_cb env cb data s =
     (let a = pe_cb_addr env s;
          s = s\<lparr>ps_cb := (ps_cb s)(a \<mapsto> \<lparr>cb_func = func_info0, cb_arg = Z_UNDEF\<rparr>)\<rparr>
      in case php_eio_import_func_info env cb s of
           (None, s) \<Rightarrow> (None, s\<lparr>ps_exc := True, ps_cb := (ps_cb s)(a := None)\<rparr>)
         | (Some pf, s) \<Rightarrow>
             (case copy_arg data s of (arg, s) \<Rightarrow>
               (Some a, s\<lparr>ps_cb := (ps_cb s)(a \<mapsto> \<lparr>cb_func = pf, cb_arg = arg\<rparr>)\<rparr>)))"

definition php_eio_new_eio_cb_custom ::
    "php_env \<Rightarrow> zval option \<Rightarrow> zval option \<Rightarrow> zval option \<Rightarrow> phpst \<Rightarrow> (ptr \<times> phpst) option" where
  "php_eio_new_eio_cb_custom env cb cb_exec data s =
     (let a = pe_cb_addr env s;
          s = s\<lparr>ps_cc := (ps_cc s)(a \<mapsto> \<lparr>cc_arg = Z_UNDEF, cc_locked = False,
                                          cc_func_exec = func_info0, cc_func = func_info0\<rparr>)\<rparr>
      in case php_eio_import_func_info env cb_exec s of
           (None, s) \<Rightarrow> Some (None, s\<lparr>ps_exc := True, ps_cc := (ps_cc s)(a := None)\<rparr>)
         | (Some pf_exec, s) \<Rightarrow>
             (case php_eio_import_func_info env cb s of
                (None, s) \<Rightarrow> do {
                  (pf, s) \<leftarrow> php_eio_func_info_free pf_exec (s\<lparr>ps_exc := True\<rparr>);
                  Some (None, s\<lparr>ps_cc := (ps_cc s)(a := None)\<rparr>) }
              | (Some pf, s) \<Rightarrow>
                  (case copy_arg data s of (arg, s) \<Rightarrow>
                    Some (Some a, s\<lparr>ps_cc := (ps_cc s)(a \<mapsto> \<lparr>cc_arg = arg, cc_locked = False,
                                      cc_func_exec = pf_exec, cc_func = pf\<rparr>)\<rparr>))))"


section \<open>Custom requests\<close>

text \<open>Writing a member of a request, and of a custom callback object.\<close>

definition upd_rq :: "addr \<Rightarrow> (eio_req \<Rightarrow> eio_req) \<Rightarrow> phpst \<Rightarrow> phpst option" where
  "upd_rq req f s =
     map_option (\<lambda>R. s\<lparr>ps_h := (ps_h s)\<lparr>hs_reqs := R\<rparr>\<rparr>) (upd_req (hs_reqs (ps_h s)) req f)"

definition upd_cc :: "addr \<Rightarrow> (php_eio_cb_custom_t \<Rightarrow> php_eio_cb_custom_t) \<Rightarrow> phpst \<Rightarrow> phpst option" where
  "upd_cc a f s =
     (case ps_cc s a of None \<Rightarrow> None | Some c \<Rightarrow> Some (s\<lparr>ps_cc := (ps_cc s)(a \<mapsto> f c)\<rparr>))"

definition EIO_CB_CUSTOM_IS_LOCKED :: "ptr \<Rightarrow> phpst \<Rightarrow> bool option" where
  "EIO_CB_CUSTOM_IS_LOCKED eio_cb s =
     (case eio_cb of None \<Rightarrow> Some False | Some a \<Rightarrow> map_option cc_locked (ps_cc s a))"

text \<open>
  \<open>php_eio_custom_execute\<close>, in a build without ZTS and with the stack limit: the engine's limit is set
  for the running thread first and set back at the end only.  The value the user function returns is
  moved into a new block, which the result member of the request points to.
\<close>

definition php_eio_custom_execute :: "php_env \<Rightarrow> nat \<Rightarrow> addr \<Rightarrow> phpst \<Rightarrow> phpst option" where
  "php_eio_custom_execute env thread req s = do {
     r \<leftarrow> hs_reqs (ps_h s) req;
     let stack_limit = ps_stack s;
     let s = s\<lparr>ps_stack := thread\<rparr>;
     (case rq_data r of
        None \<Rightarrow> Some s
      | Some a \<Rightarrow>
          if rq_cancelled r then php_eio_free_eio_cb_custom (Some a) s
          else do {
            s \<leftarrow> upd_cc a (\<lambda>c. c\<lparr>cc_locked := True\<rparr>) s;
            s \<leftarrow> upd_rq req (\<lambda>r. r\<lparr>rq_result := -1\<rparr>) s;
            c \<leftarrow> ps_cc s a;
            s \<leftarrow> (case fi_func (cc_func_exec c) of
                None \<Rightarrow> Some s
              | Some f \<Rightarrow> do {
                  let (zarg, s) = (if cc_arg c \<noteq> Z_UNDEF then (cc_arg c, zval_addref (cc_arg c) s)
                                   else (Z_NULL, s));
                  (retval, s) \<leftarrow> call_user env f (fi_obj (cc_func_exec c)) [zarg] s;
                  s \<leftarrow> (if retval \<noteq> Z_UNDEF then do {
                         let z = pe_zv_addr env s;
                         s \<leftarrow> upd_rq req (\<lambda>r. r\<lparr>rq_ptr2 := MUser z\<rparr>) (s\<lparr>ps_zv := (ps_zv s)(z \<mapsto> retval)\<rparr>);
                         upd_rq req (\<lambda>r. r\<lparr>rq_result := 0\<rparr>) s }
                       else Some s);
                  zval_ptr_dtor zarg s });
            Some (s\<lparr>ps_stack := stack_limit\<rparr>) }) }"

text \<open>The value the result member of a custom request points to.\<close>

definition EIO_BUF_ZVAL_P :: "addr \<Rightarrow> phpst \<Rightarrow> zval option option" where
  "EIO_BUF_ZVAL_P req s = do {
     r \<leftarrow> hs_reqs (ps_h s) req;
     (case rq_ptr2 r of
        MNull \<Rightarrow> Some None
      | MUser z \<Rightarrow> map_option Some (ps_zv s z)
      | _ \<Rightarrow> None) }"

definition register_res :: "php_env \<Rightarrow> addr \<Rightarrow> le \<Rightarrow> phpst \<Rightarrow> (nat \<times> phpst) option" where
  "register_res env req le s = do {
     (i, h) \<leftarrow> php_eio_register_resource (pe_handle_addr env s) req le (ps_h s);
     Some (i, s\<lparr>ps_h := h, ps_rc := (ps_rc s)(RRes i := 1)\<rparr>) }"

text \<open>
  \<open>php_eio_res_cb_custom\<close>.  The \<open>$result\<close> parameter is made with \<open>ZVAL_ZVAL (.., .., 0, 0)\<close>, which
  copies the value without a reference.
\<close>

definition php_eio_res_cb_custom :: "php_env \<Rightarrow> addr \<Rightarrow> phpst \<Rightarrow> (int \<times> phpst) option" where
  "php_eio_res_cb_custom env req s = do {
     r \<leftarrow> hs_reqs (ps_h s) req;
     locked \<leftarrow> EIO_CB_CUSTOM_IS_LOCKED (rq_data r) s;
     (if \<not> locked \<and> rq_cancelled r
      then map_option (\<lambda>s. (0, s)) (php_eio_free_eio_cb_custom (rq_data r) s)
      else
        (case rq_data r of
           None \<Rightarrow> Some (0, s)
         | Some a \<Rightarrow> do {
             c \<leftarrow> ps_cc s a;
             s \<leftarrow> (case fi_func (cc_func c) of
                 None \<Rightarrow> Some s
               | Some f \<Rightarrow> do {
                   let (p0, s) = (if cc_arg c \<noteq> Z_UNDEF then (cc_arg c, zval_addref (cc_arg c) s)
                                  else (Z_NULL, s));
                   b \<leftarrow> EIO_BUF_ZVAL_P req s;
                   let p1 = (case b of Some z \<Rightarrow> z | None \<Rightarrow> Z_NULL);
                   (i, s) \<leftarrow> register_res env req Le_eio_req s;
                   s \<leftarrow> zend_call_known_function env f (fi_obj (cc_func c)) [p0, p1, Z_RES i] s;
                   s \<leftarrow> zval_ptr_dtor p0 s;
                   s \<leftarrow> zval_ptr_dtor p1 s;
                   zval_ptr_dtor (Z_RES i) s });
             b \<leftarrow> EIO_BUF_ZVAL_P req s;
             r \<leftarrow> hs_reqs (ps_h s) req;
             s \<leftarrow> (case b of
                 None \<Rightarrow> Some s
               | Some z \<Rightarrow> do {
                   s \<leftarrow> zval_ptr_dtor z s;
                   (case rq_ptr2 r of
                      MUser a \<Rightarrow> Some (s\<lparr>ps_zv := (ps_zv s)(a := None)\<rparr>)
                    | _ \<Rightarrow> None) });
             s \<leftarrow> php_eio_free_eio_cb_custom (Some a) s;
             Some (0, s) })) }"

section \<open>The results of the other requests\<close>

definition stat_array :: "zstat \<Rightarrow> zval" where
  "stat_array b = Z_ARR (map (\<lambda>(k, v). (Key k, Z_LONG v))
     [(''dev'', st_dev b), (''ino'', st_ino b), (''mode'', st_mode b), (''nlink'', st_nlink b),
      (''uid'', st_uid b), (''size'', st_size b), (''gid'', st_gid b), (''rdev'', st_rdev b),
      (''blksize'', st_blksize b), (''blocks'', st_blocks b), (''atime'', st_atime b),
      (''mtime'', st_mtime b), (''ctime'', st_ctime b)])"

definition statvfs_array :: "zstatvfs \<Rightarrow> zval" where
  "statvfs_array b = Z_ARR (map (\<lambda>(k, v). (Key k, Z_LONG v))
     [(''bsize'', f_bsize b), (''frsize'', f_frsize b), (''blocks'', f_blocks b), (''bfree'', f_bfree b),
      (''bavail'', f_bavail b), (''files'', f_files b), (''ffree'', f_ffree b), (''favail'', f_favail b),
      (''fsid'', f_fsid b), (''flag'', f_flag b), (''namemax'', f_namemax b)])"

definition names_array :: "string list \<Rightarrow> zval" where
  "names_array ns = Z_ARR (map (\<lambda>(i, n). (Idx i, Z_STR n)) (enumerate 0 ns))"

definition dents_array :: "(string \<times> int \<times> int) list \<Rightarrow> zval" where
  "dents_array ds = Z_ARR (map (\<lambda>(i, n, t, ino).
     (Idx i, Z_ARR [(Key ''name'', Z_STR n), (Key ''type'', Z_LONG t), (Key ''inode'', Z_LONG ino)]))
     (enumerate 0 ds))"

text \<open>The bytes of a buffer; \<open>ZVAL_STRINGL\<close> copies as many as it is told.\<close>

definition buf_bytes :: "eio_mem \<Rightarrow> string option" where
  "buf_bytes m = (case m of MBytes b \<Rightarrow> Some b | _ \<Rightarrow> None)"

definition zval_stringl :: "eio_mem \<Rightarrow> nat \<Rightarrow> zval option" where
  "zval_stringl m n = (case buf_bytes m of
     None \<Rightarrow> None | Some b \<Rightarrow> if n \<le> length b then Some (Z_STR (take n b)) else None)"

text \<open>The \<open>$result\<close> argument: the part of \<open>php_eio_res_cb\<close> from the test of the result to the end of the switch.\<close>

definition result_arg :: "php_env \<Rightarrow> addr \<Rightarrow> phpst \<Rightarrow> (zval \<times> phpst) option" where
  "result_arg env req s = do {
     r \<leftarrow> hs_reqs (ps_h s) req;
     let result = rq_result r;
     (if result < 0 then Some (Z_LONG result, s)
      else
        (case rq_type r of
           EIO_OPEN \<Rightarrow>
             Some (Z_LONG result,
                   if pe_cloexec_ok env result then s\<lparr>ps_cloexec := result # ps_cloexec s\<rparr>
                   else s\<lparr>ps_warn := ps_warn s + 1\<rparr>)
         | EIO_READ \<Rightarrow>
             (if result \<noteq> -1 then do { z \<leftarrow> zval_stringl (rq_ptr2 r) (unat (rq_size r)); Some (z, s) }
              else Some (Z_NULL, s))
         | EIO_READLINK \<Rightarrow> do { z \<leftarrow> zval_stringl (rq_ptr2 r) (nat result); Some (z, s) }
         | EIO_REALPATH \<Rightarrow> do { z \<leftarrow> zval_stringl (rq_ptr2 r) (nat result); Some (z, s) }
         | EIO_STAT \<Rightarrow> Some (stat_array (pe_stat env (rq_ptr2 r)), s)
         | EIO_LSTAT \<Rightarrow> Some (stat_array (pe_stat env (rq_ptr2 r)), s)
         | EIO_FSTAT \<Rightarrow> Some (stat_array (pe_stat env (rq_ptr2 r)), s)
         | EIO_STATVFS \<Rightarrow> Some (statvfs_array (pe_statvfs env (rq_ptr2 r)), s)
         | EIO_FSTATVFS \<Rightarrow> Some (statvfs_array (pe_statvfs env (rq_ptr2 r)), s)
         | EIO_READDIR \<Rightarrow>
             (if rq_int1 r AND (EIO_READDIR_DENTS OR EIO_READDIR_DIRS_FIRST) \<noteq> 0 then
                (let (ns, ds) = php_eio_set_readdir_dent_and_names r
                 in Some (Z_ARR [(Key ''names'', names_array ns), (Key ''dents'', dents_array ds)], s))
              else Some (Z_ARR [(Key ''names'', names_array (php_eio_set_readdir_names r))], s))
         | EIO_WRITE \<Rightarrow>
             (case rq_ptr2 r of
                MNull \<Rightarrow> Some (Z_LONG result, s)
              | MUser a \<Rightarrow>
                  (if ps_buf s a = None then None
                   else do {
                     s \<leftarrow> upd_rq req (\<lambda>r. r\<lparr>rq_ptr2 := MNull\<rparr>) (s\<lparr>ps_buf := (ps_buf s)(a := None)\<rparr>);
                     Some (Z_LONG result, s) })
              | _ \<Rightarrow> None)
         | _ \<Rightarrow> Some (Z_LONG result, s))) }"

definition php_eio_res_cb :: "php_env \<Rightarrow> addr \<Rightarrow> phpst \<Rightarrow> (int \<times> phpst) option" where
  "php_eio_res_cb env req s = do {
     r \<leftarrow> hs_reqs (ps_h s) req;
     (case rq_data r of
        None \<Rightarrow> Some (0, s)
      | Some a \<Rightarrow>
          if rq_cancelled r then map_option (\<lambda>s. (0, s)) (php_eio_free_eio_cb (Some a) s)
          else do {
            cb \<leftarrow> ps_cb s a;
            (case fi_func (cb_func cb) of
               None \<Rightarrow> map_option (\<lambda>s. (0, s)) (php_eio_free_eio_cb (Some a) s)
             | Some f \<Rightarrow> do {
                 let (p0, s) = (if cb_arg cb \<noteq> Z_UNDEF then (cb_arg cb, zval_addref (cb_arg cb) s)
                                else (Z_NULL, s));
                 (p1, s) \<leftarrow> result_arg env req s;
                 (i, s) \<leftarrow> register_res env req Le_eio_req s;
                 s \<leftarrow> zend_call_known_function env f (fi_obj (cb_func cb)) [p0, p1, Z_RES i] s;
                 s \<leftarrow> php_eio_free_eio_cb (Some a) s;
                 s \<leftarrow> zval_ptr_dtor p0 s;
                 s \<leftarrow> zval_ptr_dtor p1 s;
                 s \<leftarrow> zval_ptr_dtor (Z_RES i) s;
                 Some (0, s) }) }) }"

section \<open>References of callback objects\<close>

text \<open>A value that is no resource, and the references a value and a callback object hold.\<close>

definition no_res :: "zval \<Rightarrow> bool" where
  "no_res z \<longleftrightarrow> (\<forall>i. z \<noteq> Z_RES i)"

definition weight :: "zval \<Rightarrow> rcobj \<Rightarrow> nat" where
  "weight z k = (if rc_key z = Some k then 1 else 0)"

definition func_refs :: "php_eio_func_info \<Rightarrow> rcobj \<Rightarrow> nat" where
  "func_refs f k = weight (fi_obj f) k + weight (fi_closure f) k"

definition cb_refs :: "php_eio_cb_t \<Rightarrow> rcobj \<Rightarrow> nat" where
  "cb_refs c k = weight (cb_arg c) k + func_refs (cb_func c) k"

definition func_ok :: "php_eio_func_info \<Rightarrow> bool" where
  "func_ok f \<longleftrightarrow> no_res (fi_obj f) \<and> no_res (fi_closure f)"

text \<open>References dropped and added all at once.\<close>

definition drop_refs :: "(rcobj \<Rightarrow> nat) \<Rightarrow> phpst \<Rightarrow> phpst" where
  "drop_refs n s = s\<lparr>ps_rc := (\<lambda>k. ps_rc s k - n k)\<rparr>"

definition add_refs :: "(rcobj \<Rightarrow> nat) \<Rightarrow> phpst \<Rightarrow> phpst" where
  "add_refs n s = s\<lparr>ps_rc := (\<lambda>k. ps_rc s k + n k)\<rparr>"

lemma add_refs_simps [simp]:
  "ps_h (add_refs n s) = ps_h s" "ps_cb (add_refs n s) = ps_cb s" "ps_cc (add_refs n s) = ps_cc s"
  "ps_zv (add_refs n s) = ps_zv s" "ps_rc (add_refs n s) k = ps_rc s k + n k"
  "ps_errs (add_refs n s) = ps_errs s" "ps_stack (add_refs n s) = ps_stack s"
  "ps_calls (add_refs n s) = ps_calls s"
  by (simp_all add: add_refs_def)

lemma drop_refs_simps [simp]:
  "ps_h (drop_refs n s) = ps_h s" "ps_cb (drop_refs n s) = ps_cb s" "ps_cc (drop_refs n s) = ps_cc s"
  "ps_zv (drop_refs n s) = ps_zv s" "ps_rc (drop_refs n s) k = ps_rc s k - n k"
  "ps_errs (drop_refs n s) = ps_errs s" "ps_stack (drop_refs n s) = ps_stack s"
  "ps_calls (drop_refs n s) = ps_calls s"
  by (simp_all add: drop_refs_def)

lemma zval_addref_eq: "zval_addref z s = add_refs (weight z) s"
  by (auto simp: zval_addref_def add_refs_def weight_def fun_eq_iff split: option.splits
      intro!: phpst.equality)

lemma zval_ptr_dtor_eq:
  assumes "no_res z" "\<forall>k. weight z k \<le> ps_rc s k"
  shows "zval_ptr_dtor z s = Some (drop_refs (weight z) s)"
proof (cases "rc_key z")
  case None
  then show ?thesis by (simp add: zval_ptr_dtor_def drop_refs_def weight_def)
next
  case (Some k)
  then obtain a where "k = RVal a" using assms(1) by (cases z) (auto simp: no_res_def)
  moreover have "0 < ps_rc s k" using spec [OF assms(2), of k] Some by (simp add: weight_def)
  moreover have "(\<lambda>j. ps_rc s j - weight z j) = (ps_rc s)(k := ps_rc s k - 1)"
    using Some by (auto simp: weight_def fun_eq_iff)
  ultimately show ?thesis using Some
    by (simp add: zval_ptr_dtor_def drop_refs_def Let_def)
qed

lemma drop_refs_drop: "drop_refs m (drop_refs n s) = drop_refs (\<lambda>k. n k + m k) s"
  by (simp add: drop_refs_def)

lemma add_refs_add: "add_refs m (add_refs n s) = add_refs (\<lambda>k. n k + m k) s"
  by (simp add: add_refs_def add.assoc)

lemma add_refs_0 [simp]: "add_refs (\<lambda>_. 0) s = s" by (simp add: add_refs_def)
lemma weight_UNDEF [simp]: "weight Z_UNDEF = (\<lambda>_. 0)" "weight Z_NULL = (\<lambda>_. 0)"
  by (auto simp: weight_def)
lemma no_res_simps [simp]: "no_res Z_UNDEF" "no_res Z_NULL" "no_res (Z_OBJ a)" "no_res (Z_CNT a)"
  "no_res (Z_LONG n)" "\<not> no_res (Z_RES i)"
  by (simp_all add: no_res_def)

lemma dtor_if_undef:
  "no_res z \<Longrightarrow> \<forall>k. weight z k \<le> ps_rc s k \<Longrightarrow>
   (if z \<noteq> Z_UNDEF then zval_ptr_dtor z s else Some s) = Some (drop_refs (weight z) s)"
  by (auto simp: zval_ptr_dtor_eq) (simp add: drop_refs_def)

lemma func_info_free_eq:
  assumes "func_ok f" "\<forall>k. func_refs f k \<le> ps_rc s k"
  shows "php_eio_func_info_free f s =
    Some (f\<lparr>fi_obj := Z_UNDEF, fi_closure := Z_UNDEF\<rparr>, drop_refs (func_refs f) s)"
proof -
  have w: "weight (fi_obj f) k + weight (fi_closure f) k \<le> ps_rc s k" for k
    using assms(2) by (simp add: func_refs_def)
  have 1: "\<forall>k. weight (fi_obj f) k \<le> ps_rc s k" using w add_leD1 by blast
  have 2: "\<forall>k. weight (fi_closure f) k \<le> ps_rc (drop_refs (weight (fi_obj f)) s) k"
    using w 1 by (simp add: le_diff_conv2 add.commute)
  show ?thesis
    using assms(1)
    by (simp add: php_eio_func_info_free_def func_ok_def dtor_if_undef [OF _ 1] dtor_if_undef [OF _ 2]
        drop_refs_drop func_refs_def [abs_def] del: not_None_eq)
qed

lemma free_eio_cb_eq:
  assumes cb: "ps_cb s a = Some c" and ok: "func_ok (cb_func c)" "no_res (cb_arg c)"
    and refs: "\<forall>k. cb_refs c k \<le> ps_rc s k"
  shows "php_eio_free_eio_cb (Some a) s =
    Some ((drop_refs (cb_refs c) s)\<lparr>ps_cb := (ps_cb s)(a := None)\<rparr>)"
proof -
  have w: "weight (cb_arg c) k + func_refs (cb_func c) k \<le> ps_rc s k" for k
    using refs by (simp add: cb_refs_def)
  have 1: "\<forall>k. weight (cb_arg c) k \<le> ps_rc s k" using w add_leD1 by blast
  have 2: "\<forall>k. func_refs (cb_func c) k \<le> ps_rc (drop_refs (weight (cb_arg c)) s) k"
    using w 1 by (simp add: le_diff_conv2 add.commute)
  show ?thesis
    using cb ok
    by (simp add: php_eio_free_eio_cb_def dtor_if_undef [OF _ 1] func_info_free_eq [OF _ 2]
        drop_refs_drop cb_refs_def [abs_def])
qed

lemma free_eio_cb_freed: "ps_cb s a = None \<Longrightarrow> php_eio_free_eio_cb (Some a) s = None"
  by (simp add: php_eio_free_eio_cb_def)

lemma import_func_info_eq:
  assumes "php_eio_import_func_info env zcb s = (Some f, s')"
  shows "s' = add_refs (func_refs f) s \<and> func_ok f"
  using assms
  by (auto simp: php_eio_import_func_info_def func_info0_def func_refs_def [abs_def] func_ok_def
      zval_addref_eq add_refs_add add.commute Let_def
      split: option.splits prod.splits if_splits zval.splits)

lemma new_eio_cb_eq:
  assumes "php_eio_new_eio_cb env cb data s = (Some a, s')" "\<forall>z. data = Some z \<longrightarrow> no_res z"
  shows "\<exists>c. a = pe_cb_addr env s \<and> s' = (add_refs (cb_refs c) s)\<lparr>ps_cb := (ps_cb s)(a \<mapsto> c)\<rparr> \<and>
    func_ok (cb_func c) \<and> no_res (cb_arg c)"
proof -
  let ?s0 = "s\<lparr>ps_cb := (ps_cb s)(pe_cb_addr env s \<mapsto> \<lparr>cb_func = func_info0, cb_arg = Z_UNDEF\<rparr>)\<rparr>"
  obtain f s1 where i: "php_eio_import_func_info env cb ?s0 = (Some f, s1)"
    using assms(1) by (auto simp: php_eio_new_eio_cb_def Let_def split: prod.splits option.splits)
  note e = import_func_info_eq [OF i]
  obtain z where z: "copy_arg data s1 = (z, add_refs (weight z) s1)" "no_res z"
    using assms(2) by (cases data) (auto simp: copy_arg_def zval_addref_eq)
  have "a = pe_cb_addr env s \<and>
      s' = (add_refs (cb_refs \<lparr>cb_func = f, cb_arg = z\<rparr>) s)\<lparr>ps_cb := (ps_cb s)(a \<mapsto> \<lparr>cb_func = f, cb_arg = z\<rparr>)\<rparr>"
    using assms(1) i z e
    by (auto simp: php_eio_new_eio_cb_def Let_def add_refs_def cb_refs_def add.commute add.left_commute)
  then show ?thesis using e z by (intro exI [of _ "\<lparr>cb_func = f, cb_arg = z\<rparr>"]) simp
qed


section \<open>The result argument\<close>

text \<open>What making the result argument leaves alone.\<close>

lemma buf_result_no_key: "zval_stringl m n = Some z \<Longrightarrow> rc_key z = None"
  by (auto simp: zval_stringl_def split: option.splits if_splits)

text \<open>A request apart from its destroy callback.\<close>

definition no_dest :: "eio_req option \<Rightarrow> eio_req option" where
  "no_dest q = map_option (\<lambda>q. q\<lparr>rq_destroy := None\<rparr>) q"

text \<open>A request apart from its destroy callback and its buffer.\<close>

definition req_rest :: "eio_req \<Rightarrow> eio_req" where
  "req_rest r = r\<lparr>rq_destroy := None, rq_ptr2 := MNull\<rparr>"

lemma result_arg_frame:
  assumes "result_arg env req s = Some (z, s')"
  shows "rc_key z = None \<and> ps_rc s' = ps_rc s \<and> ps_cb s' = ps_cb s \<and> ps_errs s' = ps_errs s \<and>
    ps_calls s' = ps_calls s \<and>
    (\<exists>f. ps_h s' = (ps_h s)\<lparr>hs_reqs := (hs_reqs (ps_h s))(req := map_option f (hs_reqs (ps_h s) req))\<rparr> \<and>
         (\<forall>r. req_rest (f r) = req_rest r \<and>
              rq_destroy (f r) = rq_destroy r \<and> rq_data (f r) = rq_data r \<and> rq_type (f r) = rq_type r \<and>
              rq_grp_first (f r) = rq_grp_first r \<and> rq_cancelled (f r) = rq_cancelled r))"
proof -
  obtain r where r: "hs_reqs (ps_h s) req = Some r"
    using assms by (auto simp: result_arg_def split: Option.bind_splits)
  have same: ?thesis if "rc_key z = None" "ps_rc s' = ps_rc s" "ps_cb s' = ps_cb s" "ps_h s' = ps_h s"
      "ps_errs s' = ps_errs s" "ps_calls s' = ps_calls s"
    using that r by (intro conjI exI [of _ id]) (auto simp: fun_upd_idem)
  show ?thesis
  proof (cases "rq_result r < 0 \<or> rq_type r \<noteq> EIO_WRITE")
    case True
    then show ?thesis
      using assms r
      by (intro same; cases "rq_type r")
         (auto simp: result_arg_def Let_def stat_array_def statvfs_array_def dest: buf_result_no_key
           split: if_splits Option.bind_splits prod.splits)
  next
    case False
    then show ?thesis
    proof (cases "rq_ptr2 r = MNull")
      case True
      with False show ?thesis using assms r by (intro same) (auto simp: result_arg_def Let_def)
    next
      case f: False
      then show ?thesis
        using False assms r
        by (intro conjI exI [of _ "\<lambda>r. r\<lparr>rq_ptr2 := MNull\<rparr>"])
           (auto simp: result_arg_def Let_def upd_rq_def upd_req_def req_rest_def split: eio_mem.splits if_splits)
    qed
  qed
qed


text \<open>It does not look at the reference counts.\<close>

lemma result_arg_add:
  "map_option fst (result_arg env req (add_refs n s)) = map_option fst (result_arg env req s)"
proof (cases "hs_reqs (ps_h s) req")
  case None
  then show ?thesis by (simp add: result_arg_def)
next
  case (Some r)
  have buf: "ps_buf (add_refs n s) = ps_buf s" by (simp add: add_refs_def)
  show ?thesis
  proof (cases "rq_type r = EIO_WRITE")
    case True
    then show ?thesis using Some
      by (simp add: result_arg_def Let_def upd_rq_def upd_req_def buf split: eio_mem.splits)
  next
    case False
    then show ?thesis using Some
      by (cases "rq_type r") (simp_all add: result_arg_def Let_def case_prod_beta split: bind_split)
  qed
qed

text \<open>Changing requests but not their destroy callbacks keeps the handles good.\<close>

lemma hgood_same_destroy:
  assumes g: "hgood h" and R: "\<And>x. map_option rq_destroy (R x) = map_option rq_destroy (hs_reqs h x)"
  shows "hgood (h\<lparr>hs_reqs := R\<rparr>)"
proof -
  note inv = hgood_inv [OF g]
  have "hinv R (hs_handles h) (hs_table h) (hs_res h)"
  proof (rule hinvI)
    fix r h' assume "(r, h') \<in> set (hs_table h)"
    then show "R r \<noteq> None \<and>
      (\<exists>hn. hs_handles h h' = Some hn \<and> h_req hn = Some r \<and> h_orig_destroy hn = Some D_eio_api_destroy)"
      using hinv_entryD [OF inv] R [of r] by (metis option.map_disc_iff)
  next
    fix r q assume "R r = Some q"
    then obtain q' where "hs_reqs h r = Some q'" "rq_destroy q' = rq_destroy q"
      using R [of r] by (cases "hs_reqs h r") auto
    then show "rq_destroy q = Some (if r \<in> fst ` set (hs_table h) then D_php_eio_req_destroy_hook
        else D_eio_api_destroy)"
      using hinv_destroyD [OF inv, of r q'] by simp
  qed (use hinv_basicD [OF inv] hinv_handle [OF inv] hinv_resD [OF inv] in blast)+
  then show ?thesis using g by (simp add: hgood_def)
qed

lemma hgood_upd:
  assumes "hgood h" "\<And>r. rq_destroy (f r) = rq_destroy r"
  shows "hgood (h\<lparr>hs_reqs := (hs_reqs h)(req := map_option f (hs_reqs h req))\<rparr>)"
  by (rule hgood_same_destroy [OF assms(1)]) (use assms(2) in \<open>auto simp: option.map_comp comp_def\<close>)

text \<open>A resource is registered for a live request, and closed again.\<close>

lemma register_res_ok:
  assumes g: "hgood (ps_h s)" and en: "enabled (Register (pe_handle_addr env s) req le) (ps_h s)"
  shows "\<exists>i h'. register_res env req le s = Some (i, s\<lparr>ps_h := h', ps_rc := (ps_rc s)(RRes i := 1)\<rparr>) \<and>
    hgood h' \<and> i < length (hs_res h') \<and> hs_reqs h' req \<noteq> None \<and>
    php_eio_fetch_req i le h' = Some (Some req) \<and>
    (\<forall>r. map_option (\<lambda>q. q\<lparr>rq_destroy := None\<rparr>) (hs_reqs h' r) =
         map_option (\<lambda>q. q\<lparr>rq_destroy := None\<rparr>) (hs_reqs (ps_h s) r))"
proof -
  let ?h = "ps_h s" and ?new = "pe_handle_addr env s"
  obtain h' where r: "run (Register ?new req le) ?h = Some h'" "hgood h'"
    using run_Register [OF g en] by blast
  then obtain i where i: "php_eio_register_resource ?new req le ?h = Some (i, h')" by auto
  note inv = hgood_inv [OF g]
  obtain q where q: "hs_reqs ?h req = Some q" using en by auto
  have "i < length (hs_res h') \<and> hs_reqs h' req \<noteq> None \<and>
      php_eio_fetch_req i le h' = Some (Some req) \<and>
      (\<forall>r. map_option (\<lambda>q. q\<lparr>rq_destroy := None\<rparr>) (hs_reqs h' r) =
         map_option (\<lambda>q. q\<lparr>rq_destroy := None\<rparr>) (hs_reqs ?h r))"
  proof (cases "map_of (hs_table ?h) req")
    case None
    then show ?thesis
      using i q by (auto simp: php_eio_register_resource_new [OF None q] php_eio_fetch_req_def zend_fetch_resource_def)
  next
    case (Some a)
    then obtain hn where hn: "hs_handles ?h a = Some hn" "h_req hn = Some req"
      using hinv_entryD [OF inv, of req a] by (auto simp: hinv_map_of [OF inv])
    then show ?thesis
      using i q
      by (auto simp: php_eio_register_resource_again [OF Some hn(1)] php_eio_fetch_req_def zend_fetch_resource_def)
  qed
  then show ?thesis using i r(2) by (intro exI [of _ i] exI [of _ h']) (simp add: register_res_def)
qed

lemma dtor_res_ok:
  assumes g: "hgood (ps_h s)" and "i < length (hs_res (ps_h s))" "ps_rc s (RRes i) = 1"
  shows "\<exists>h'. zval_ptr_dtor (Z_RES i) s = Some (s\<lparr>ps_h := h', ps_rc := (ps_rc s)(RRes i := 0)\<rparr>) \<and> hgood h'"
proof -
  obtain h' where "zend_resource_dtor i (ps_h s) = Some h'" "hgood h'"
    using run_Close [OF g, of i] assms(2) by auto
  then show ?thesis using assms(3) by (intro exI [of _ h']) (simp add: zval_ptr_dtor_def Let_def)
qed


text \<open>Registering a resource, and closing it, touch the handles, the list of resources and the count of the resource only.\<close>

lemma register_res_frame:
  assumes "register_res env req le s = Some (i, s')"
  shows "s' = s\<lparr>ps_h := ps_h s', ps_rc := (ps_rc s)(RRes i := 1)\<rparr> \<and> hs_ready (ps_h s') = hs_ready (ps_h s) \<and>
    open_res (ps_h s') = Suc (open_res (ps_h s)) \<and>
    dom (hs_handles (ps_h s')) \<subseteq> insert (pe_handle_addr env s) (dom (hs_handles (ps_h s))) \<and>
    i = length (hs_res (ps_h s)) \<and> (\<exists>h. hs_res (ps_h s') = hs_res (ps_h s) @ [\<lparr>res_ptr = Some h, res_type = le\<rparr>])"
  using assms
  by (auto simp: register_res_def php_eio_register_resource_def php_eio_handle_ref_def upd_h_def open_res_def
      split: option.splits Option.bind_splits if_splits)

lemma zend_resource_dtor_frame:
  "zend_resource_dtor i h = Some h' \<Longrightarrow>
   hs_reqs h' = hs_reqs h \<and> hs_ready h' = hs_ready h \<and> dom (hs_handles h') \<subseteq> dom (hs_handles h) \<and>
   (res_type (hs_res h ! i) \<noteq> Le_closed \<longrightarrow> hs_res h' = (hs_res h)[i := \<lparr>res_ptr = None, res_type = Le_closed\<rparr>])"
  by (auto simp: zend_resource_dtor_def php_eio_handle_dtor_def php_eio_handle_release_def upd_h_def
      split: if_splits option.splits Option.bind_splits)

lemma dtor_res_reqs: "zval_ptr_dtor z s = Some s' \<Longrightarrow> hs_reqs (ps_h s') = hs_reqs (ps_h s)"
  by (auto simp: zval_ptr_dtor_def Let_def dest: zend_resource_dtor_frame
      split: option.splits if_splits rcobj.splits)

section \<open>The whole life of a callback\<close>

text \<open>An engine whose user functions leave everything as it is.\<close>

definition quiet_env :: "php_env \<Rightarrow> bool" where
  "quiet_env env \<longleftrightarrow> (\<forall>f obj params s. pe_call env f obj params s = Some (Z_NULL, s))"

text \<open>
  The state of the handles when a callback runs: up, for a live request, with room, and the allocator
  will answer with a free address.
\<close>

definition cb_ready :: "php_env \<Rightarrow> hstate \<Rightarrow> addr \<Rightarrow> bool" where
  "cb_ready env h req \<longleftrightarrow> hgood h \<and> hs_ready h \<and> hs_reqs h req \<noteq> None \<and> open_res h < 2 ^ 32 - 2 \<and>
     (\<forall>s. hs_handles (ps_h s) = hs_handles h \<longrightarrow> hs_handles h (pe_handle_addr env s) = None)"

text \<open>The handles are up as before, and as many resources are open.\<close>

definition handles_kept :: "hstate \<Rightarrow> hstate \<Rightarrow> bool" where
  "handles_kept h h' \<longleftrightarrow> hs_ready h' = hs_ready h \<and> open_res h' = open_res h \<and>
     (finite (dom (hs_handles h)) \<longrightarrow> finite (dom (hs_handles h')))"

text \<open>The call of the user function the completion makes: with the data, the result and the resource.\<close>

definition user_calls :: "php_eio_cb_t \<Rightarrow> zval \<Rightarrow> nat \<Rightarrow> (nat \<times> zval \<times> zval list) list" where
  "user_calls c p1 i =
     (case fi_func (cb_func c) of
        None \<Rightarrow> []
      | Some f \<Rightarrow> [(f, fi_obj (cb_func c),
          [if cb_arg c = Z_UNDEF then Z_NULL else cb_arg c, p1, Z_RES i])])"

lemma same_rest:
  "map_option (\<lambda>q. q\<lparr>rq_destroy := None\<rparr>) a = map_option (\<lambda>q. q\<lparr>rq_destroy := None\<rparr>) b \<Longrightarrow>
   map_option req_rest a = map_option req_rest b"
  using arg_cong [where f = "map_option (rq_ptr2_update (\<lambda>_. MNull))"] by (cases a; cases b) (force simp: req_rest_def)+

lemma register_then_close:
  assumes reg: "register_res env req Le_eio_req s = Some (i, s')"
    and d: "zval_ptr_dtor (Z_RES i) t = Some (t\<lparr>ps_h := h', ps_rc := rc\<rparr>)" "ps_h t = ps_h s'" "ps_rc t (RRes i) = 1"
  shows "handles_kept (ps_h s) h'"
proof -
  note fr = register_res_frame [OF reg]
  have close: "zend_resource_dtor i (ps_h s') = Some h'"
    using d by (auto simp: zval_ptr_dtor_def Let_def dest: arg_cong [where f = ps_h])
  obtain h where h: "hs_res (ps_h s') = hs_res (ps_h s) @ [\<lparr>res_ptr = Some h, res_type = Le_eio_req\<rparr>]" using fr by blast
  then have "hs_res h' = hs_res (ps_h s) @ [\<lparr>res_ptr = None, res_type = Le_closed\<rparr>]"
    using zend_resource_dtor_frame [OF close] fr by simp
  then have "open_res h' = open_res (ps_h s)" by (simp add: open_res_def)
  moreover have "finite (dom (hs_handles h'))" if "finite (dom (hs_handles (ps_h s)))"
    using zend_resource_dtor_frame [OF close] fr that by (meson finite_insert finite_subset)
  ultimately show ?thesis
    using zend_resource_dtor_frame [OF close] fr by (simp add: handles_kept_def)
qed

lemma res_cb_balance:
  assumes q: "quiet_env env" and c: "ps_cb s a = Some c" "func_ok (cb_func c)" "no_res (cb_arg c)"
    and refs: "\<forall>k. cb_refs c k \<le> ps_rc s k"
    and h: "cb_ready env (ps_h s) req" and r: "hs_reqs (ps_h s) req = Some r" "rq_data r = Some a" "\<not> rq_cancelled r"
    and res: "result_arg env req s = Some (p1, s2')"
  shows "\<exists>s' i. php_eio_res_cb env req s = Some (0, s') \<and> ps_cb s' = (ps_cb s)(a := None) \<and>
    (\<forall>v. ps_rc s' (RVal v) = ps_rc s (RVal v) - cb_refs c (RVal v)) \<and> hgood (ps_h s') \<and>
    ps_errs s' = ps_errs s \<and> ps_calls s' = ps_calls s @ user_calls c p1 i \<and>
    handles_kept (ps_h s) (ps_h s') \<and> map_option req_rest (hs_reqs (ps_h s') req) = Some (req_rest r) \<and>
    (\<forall>x. x \<noteq> req \<longrightarrow> no_dest (hs_reqs (ps_h s') x) = no_dest (hs_reqs (ps_h s) x))"
proof (cases "fi_func (cb_func c)")
  case None
  then show ?thesis
    using free_eio_cb_eq [OF c refs] r c(1) h
    by (simp add: php_eio_res_cb_def cb_ready_def user_calls_def handles_kept_def)
next
  case (Some f)
  let ?w = "weight (cb_arg c)"
  define s1 where "s1 = add_refs ?w s"
  have p0: "(if cb_arg c \<noteq> Z_UNDEF then (cb_arg c, zval_addref (cb_arg c) s) else (Z_NULL, s)) =
      (if cb_arg c = Z_UNDEF then Z_NULL else cb_arg c, s1)"
    by (simp add: s1_def zval_addref_eq)
  let ?p0 = "if cb_arg c = Z_UNDEF then Z_NULL else cb_arg c"
  obtain s2 where res: "result_arg env req s1 = Some (p1, s2)"
    using res result_arg_add [of env req ?w s] by (auto simp: s1_def)
  note fr = result_arg_frame [OF this]
  then obtain g where g: "ps_h s2 = (ps_h s)\<lparr>hs_reqs := (hs_reqs (ps_h s))(req := map_option g (hs_reqs (ps_h s) req))\<rparr>"
    "\<And>r. rq_destroy (g r) = rq_destroy r" "\<And>r. req_rest (g r) = req_rest r"
    by (auto simp: s1_def)
  have "hgood (ps_h s2)" unfolding g(1) by (rule hgood_upd) (use h g(2) in \<open>auto simp: cb_ready_def\<close>)
  moreover have "enabled (Register (pe_handle_addr env s2) req Le_eio_req) (ps_h s2)"
  proof -
    have "hs_handles (ps_h s2) (pe_handle_addr env s2) = None" using h g(1) by (simp add: cb_ready_def)
    then show ?thesis using h g(1) r(1) by (simp add: cb_ready_def open_res_def)
  qed
  ultimately obtain i h3 where reg: "register_res env req Le_eio_req s2 =
      Some (i, s2\<lparr>ps_h := h3, ps_rc := (ps_rc s2)(RRes i := 1)\<rparr>)" and h3: "hgood h3" "i < length (hs_res h3)"
    and same: "\<And>r. map_option (\<lambda>q. q\<lparr>rq_destroy := None\<rparr>) (hs_reqs h3 r) =
         map_option (\<lambda>q. q\<lparr>rq_destroy := None\<rparr>) (hs_reqs (ps_h s2) r)"
    using register_res_ok by blast
  define s3a where "s3a = s2\<lparr>ps_h := h3, ps_rc := (ps_rc s2)(RRes i := 1)\<rparr>"
  define s3 where "s3 = s3a\<lparr>ps_calls := ps_calls s3a @ user_calls c p1 i\<rparr>"
  have call: "zend_call_known_function env f (fi_obj (cb_func c)) [?p0, p1, Z_RES i] s3a = Some s3"
    using q Some by (simp add: zend_call_known_function_def call_user_def quiet_env_def zval_ptr_dtor_def
        user_calls_def s3_def)
  have no_i: "cb_refs c (RRes i) = 0"
    using c(2,3) by (auto simp: cb_refs_def func_refs_def weight_def func_ok_def no_res_def elim!: rc_key.elims)
  have w_i: "?w (RRes i) = 0" using no_i by (simp add: cb_refs_def)
  have rc3: "ps_rc s3 k = (if k = RRes i then 1 else ps_rc s k + ?w k)" for k
    using fr by (simp add: s3_def s3a_def s1_def)
  have cb3: "ps_cb s3 a = Some c" "ps_cb s3 = ps_cb s" using fr c(1) by (simp_all add: s3_def s3a_def s1_def)
  have le3: "\<forall>k. cb_refs c k \<le> ps_rc s3 k" using refs no_i rc3 by (auto simp: trans_le_add1)
  define s4 where "s4 = (drop_refs (cb_refs c) s3)\<lparr>ps_cb := (ps_cb s3)(a := None)\<rparr>"
  have free: "php_eio_free_eio_cb (Some a) s3 = Some s4"
    using free_eio_cb_eq [OF cb3(1) c(2,3) le3] by (simp add: s4_def)
  have d0: "zval_ptr_dtor ?p0 s4 = Some (drop_refs ?w s4)"
  proof (cases "cb_arg c = Z_UNDEF")
    case True
    then show ?thesis by (simp add: zval_ptr_dtor_def drop_refs_def)
  next
    case False
    have "\<forall>k. ?w k \<le> ps_rc s4 k"
    proof
      fix k
      have "cb_refs c k + ?w k \<le> ps_rc s3 k" if "k \<noteq> RRes i" using that refs rc3 by simp
      then show "?w k \<le> ps_rc s4 k" using w_i by (cases "k = RRes i") (auto simp: s4_def)
    qed
    then show ?thesis using zval_ptr_dtor_eq [OF c(3)] False by simp
  qed
  have d1: "zval_ptr_dtor p1 (drop_refs ?w s4) = Some (drop_refs ?w s4)"
    using fr by (simp add: zval_ptr_dtor_def)
  have d5: "hgood (ps_h (drop_refs ?w s4))" "i < length (hs_res (ps_h (drop_refs ?w s4)))"
      "ps_rc (drop_refs ?w s4) (RRes i) = 1"
    using h3 no_i w_i rc3 by (simp_all add: s4_def s3_def s3a_def)
  from dtor_res_ok [OF d5] obtain h5 where d2: "zval_ptr_dtor (Z_RES i) (drop_refs ?w s4) =
      Some ((drop_refs ?w s4)\<lparr>ps_h := h5, ps_rc := (ps_rc (drop_refs ?w s4))(RRes i := 0)\<rparr>)" "hgood h5" by blast
  define s6 where "s6 = (drop_refs ?w s4)\<lparr>ps_h := h5, ps_rc := (ps_rc (drop_refs ?w s4))(RRes i := 0)\<rparr>"
  have run: "php_eio_res_cb env req s = Some (0, s6)"
    using r c(1) Some res reg call free d0 d1 d2(1)
    by (simp add: php_eio_res_cb_def p0 s3a_def s6_def)
  have cb6: "ps_cb s6 = (ps_cb s)(a := None)" by (simp add: s6_def s4_def cb3(2))
  have rc6: "\<forall>v. ps_rc s6 (RVal v) = ps_rc s (RVal v) - cb_refs c (RVal v)" by (simp add: s6_def s4_def rc3)
  have log6: "ps_errs s6 = ps_errs s" "ps_calls s6 = ps_calls s @ user_calls c p1 i"
    using fr by (simp_all add: s6_def s4_def s3_def s3a_def s1_def)
  have R5: "hs_reqs h5 = hs_reqs h3" using dtor_res_reqs [OF d2(1)] by (simp add: s4_def s3_def s3a_def)
  have rest: "map_option req_rest (hs_reqs h5 req) = Some (req_rest r)"
    using same_rest [OF same [of req]] g(1,3) r(1) R5 by simp
  have others: "\<forall>x. x \<noteq> req \<longrightarrow> no_dest (hs_reqs h5 x) = no_dest (hs_reqs (ps_h s) x)"
    using same R5 g(1) by (simp add: no_dest_def)
  have "ps_h (drop_refs ?w s4) = ps_h (s2\<lparr>ps_h := h3, ps_rc := (ps_rc s2)(RRes i := 1)\<rparr>)"
    by (simp add: s4_def s3_def s3a_def)
  from register_then_close [OF reg d2(1) this d5(3)] have kept: "handles_kept (ps_h s) h5"
    using g(1) by (simp add: handles_kept_def open_res_def)
  have h6: "ps_h s6 = h5" by (simp add: s6_def)
  show ?thesis
    by (intro exI [of _ s6] exI [of _ i] conjI run cb6 rc6 log6; (unfold h6)?; fact d2(2) kept rest others)
qed

section \<open>Custom callbacks\<close>

definition cc_refs :: "php_eio_cb_custom_t \<Rightarrow> rcobj \<Rightarrow> nat" where
  "cc_refs c k = weight (cc_arg c) k + func_refs (cc_func c) k + func_refs (cc_func_exec c) k"

definition cc_ok :: "php_eio_cb_custom_t \<Rightarrow> bool" where
  "cc_ok c \<longleftrightarrow> no_res (cc_arg c) \<and> func_ok (cc_func c) \<and> func_ok (cc_func_exec c)"

lemma free_eio_cb_custom_eq:
  assumes c: "ps_cc s a = Some c" "cc_ok c" and refs: "\<forall>k. cc_refs c k \<le> ps_rc s k"
  shows "php_eio_free_eio_cb_custom (Some a) s =
    Some ((drop_refs (cc_refs c) s)\<lparr>ps_cc := (ps_cc s)(a := None)\<rparr>)"
proof -
  have w: "weight (cc_arg c) k + func_refs (cc_func c) k + func_refs (cc_func_exec c) k \<le> ps_rc s k" for k
    using refs by (simp add: cc_refs_def)
  have 1: "\<forall>k. weight (cc_arg c) k \<le> ps_rc s k" using w add_leD1 by blast
  let ?s1 = "drop_refs (weight (cc_arg c)) s"
  have 2: "\<forall>k. func_refs (cc_func c) k \<le> ps_rc ?s1 k"
    using w 1 by (metis add_leD1 add_le_imp_le_diff add.commute drop_refs_simps(5))
  let ?s2 = "drop_refs (func_refs (cc_func c)) ?s1"
  have 3: "\<forall>k. func_refs (cc_func_exec c) k \<le> ps_rc ?s2 k"
  proof
    fix k
    show "func_refs (cc_func_exec c) k \<le> ps_rc ?s2 k" using w [of k] by simp
  qed
  show ?thesis
    using c
    by (simp add: php_eio_free_eio_cb_custom_def cc_ok_def dtor_if_undef [OF _ 1] func_info_free_eq [OF _ 2]
        func_info_free_eq [OF _ 3, unfolded drop_refs_drop] drop_refs_drop cc_refs_def [abs_def])
qed

lemma no_res_no_key: "no_res z \<Longrightarrow> weight z (RRes i) = 0"
  by (auto simp: weight_def no_res_def elim!: rc_key.elims)

lemma cc_refs_no_res: "cc_ok c \<Longrightarrow> cc_refs c (RRes i) = 0"
  by (simp add: cc_ok_def cc_refs_def func_refs_def func_ok_def no_res_no_key)

text \<open>
  The completion of a custom request that ran, up to the end of the user's callback: the first
  reference to the result has been dropped.
\<close>

lemma res_cb_custom_first:
  assumes q: "quiet_env env" and h: "cb_ready env (ps_h s) req"
    and r: "hs_reqs (ps_h s) req = Some r" "rq_data r = Some a" "rq_ptr2 r = MUser z"
    and v: "ps_zv s z = Some v" "no_res v" "rc_key v \<noteq> None \<longrightarrow> ps_rc s (the (rc_key v)) = 1"
    and c: "ps_cc s a = Some c" "cc_ok c" "cc_locked c" "fi_func (cc_func c) = Some f"
    and refs: "\<forall>k. cc_refs c k + weight v k \<le> ps_rc s k"
  shows "\<exists>s'. php_eio_res_cb_custom env req s = do {
      s \<leftarrow> zval_ptr_dtor v s';
      s \<leftarrow> php_eio_free_eio_cb_custom (Some a) (s\<lparr>ps_zv := (ps_zv s)(z := None)\<rparr>);
      Some (0, s) } \<and>
    ps_cc s' = ps_cc s \<and> (\<forall>k. (\<forall>i. k \<noteq> RRes i) \<longrightarrow> ps_rc s' k = ps_rc s k - weight v k)"
proof -
  let ?w = "weight (cc_arg c)" and ?p0 = "if cc_arg c = Z_UNDEF then Z_NULL else cc_arg c"
  define s1 where "s1 = add_refs ?w s"
  have b1: "EIO_BUF_ZVAL_P req s1 = Some (Some v)" using r v(1) by (simp add: EIO_BUF_ZVAL_P_def s1_def)
  have "hs_handles (ps_h s1) (pe_handle_addr env s1) = None" using h by (simp add: cb_ready_def s1_def)
  then have en: "enabled (Register (pe_handle_addr env s1) req Le_eio_req) (ps_h s1)"
    using h r(1) by (simp add: cb_ready_def s1_def)
  have "hgood (ps_h s1)" using h by (simp add: cb_ready_def s1_def)
  from register_res_ok [OF this en] obtain i h2 where reg:
    "register_res env req Le_eio_req s1 = Some (i, s1\<lparr>ps_h := h2, ps_rc := (ps_rc s1)(RRes i := 1)\<rparr>)"
    and h2: "hgood h2" "i < length (hs_res h2)"
    and same: "\<And>r. map_option (\<lambda>q. q\<lparr>rq_destroy := None\<rparr>) (hs_reqs h2 r) =
         map_option (\<lambda>q. q\<lparr>rq_destroy := None\<rparr>) (hs_reqs (ps_h s1) r)" by blast
  define s2a where "s2a = s1\<lparr>ps_h := h2, ps_rc := (ps_rc s1)(RRes i := 1)\<rparr>"
  define s2 where "s2 = s2a\<lparr>ps_calls := ps_calls s2a @ [(f, fi_obj (cc_func c), [?p0, v, Z_RES i])]\<rparr>"
  have call: "zend_call_known_function env f (fi_obj (cc_func c)) [?p0, v, Z_RES i] s2a = Some s2"
    using q by (simp add: zend_call_known_function_def call_user_def quiet_env_def zval_ptr_dtor_def s2_def)
  have rc2: "ps_rc s2 k = (if k = RRes i then 1 else ps_rc s k + ?w k)" for k by (simp add: s2_def s2a_def s1_def)
  have arg: "no_res (cc_arg c)" using c(2) by (simp add: cc_ok_def)
  define s3 where "s3 = drop_refs ?w s2"
  have rc3: "ps_rc s3 k = (if k = RRes i then 1 else ps_rc s k)" for k
    using no_res_no_key [OF arg] by (simp add: s3_def rc2)
  have d0: "zval_ptr_dtor ?p0 s2 = Some s3"
  proof (cases "cc_arg c = Z_UNDEF")
    case True
    then show ?thesis by (simp add: zval_ptr_dtor_def s3_def drop_refs_def)
  next
    case False
    have "\<forall>k. ?w k \<le> ps_rc s2 k" using no_res_no_key [OF arg] by (simp add: rc2)
    then show ?thesis using zval_ptr_dtor_eq [OF arg] False by (simp add: s3_def)
  qed
  define s4 where "s4 = drop_refs (weight v) s3"
  have "\<forall>k. weight v k \<le> ps_rc s3 k"
    using refs no_res_no_key [OF v(2)] by (auto simp: rc3 intro: le_trans [OF le_add2])
  then have d1: "zval_ptr_dtor v s3 = Some s4" using zval_ptr_dtor_eq [OF v(2)] by (simp add: s4_def)
  have rc4: "ps_rc s4 k = (if k = RRes i then 1 else ps_rc s k - weight v k)" for k
    using no_res_no_key [OF v(2)] by (simp add: s4_def rc3)
  have "hgood (ps_h s4)" "i < length (hs_res (ps_h s4))" using h2 by (simp_all add: s4_def s3_def s2_def s2a_def)
  moreover have "ps_rc s4 (RRes i) = 1" by (simp only: rc4 simp_thms if_True)
  ultimately obtain h5 where
    d2: "zval_ptr_dtor (Z_RES i) s4 = Some (s4\<lparr>ps_h := h5, ps_rc := (ps_rc s4)(RRes i := 0)\<rparr>)"
    using dtor_res_ok by blast
  define s5 where "s5 = s4\<lparr>ps_h := h5, ps_rc := (ps_rc s4)(RRes i := 0)\<rparr>"
  have "hs_reqs (ps_h s5) = hs_reqs (ps_h s4)" using dtor_res_reqs [OF d2] by (simp add: s5_def)
  then have "hs_reqs (ps_h s5) = hs_reqs h2" by (simp add: s4_def s3_def s2_def s2a_def)
  with same [of req] r(1) obtain r5 where r5: "hs_reqs (ps_h s5) req = Some r5"
      "r5\<lparr>rq_destroy := None\<rparr> = r\<lparr>rq_destroy := None\<rparr>" by (auto simp: s1_def)
  have "rq_ptr2 (r5\<lparr>rq_destroy := None\<rparr>) = rq_ptr2 (r\<lparr>rq_destroy := None\<rparr>)" using r5(2) by simp
  then have "rq_ptr2 r5 = MUser z" using r(3) by simp
  note r5 = r5(1) this
  have zv5: "ps_zv s5 = ps_zv s" "ps_cc s5 = ps_cc s" by (simp_all add: s5_def s4_def s3_def s2_def s2a_def s1_def)
  have b5: "EIO_BUF_ZVAL_P req s5 = Some (Some v)" using r5 v(1) zv5 by (simp add: EIO_BUF_ZVAL_P_def)
  have "php_eio_res_cb_custom env req s = do {
      s \<leftarrow> zval_ptr_dtor v s5;
      s \<leftarrow> php_eio_free_eio_cb_custom (Some a) (s\<lparr>ps_zv := (ps_zv s)(z := None)\<rparr>);
      Some (0, s) }"
  proof (cases "cc_arg c = Z_UNDEF")
    case True
    then have "s1 = s" by (simp add: s1_def)
    then show ?thesis
      using True r c b1 call d0 d1 b5 r5 reg [folded s2a_def] d2 [folded s5_def]
      by (simp add: php_eio_res_cb_custom_def EIO_CB_CUSTOM_IS_LOCKED_def)
  next
    case False
    have "zval_addref (cc_arg c) s = s1" by (simp add: s1_def zval_addref_eq)
    then show ?thesis
      using False r c b1 call d0 d1 b5 r5 reg [folded s2a_def] d2 [folded s5_def]
      by (simp add: php_eio_res_cb_custom_def EIO_CB_CUSTOM_IS_LOCKED_def)
  qed
  then show ?thesis using zv5 rc4 by (intro exI [of _ s5]) (auto simp: s5_def)
qed


section \<open>Properties\<close>

text \<open>
  C10: from the call of an \<open>eio_*\<close> function to the completion of its request, the callback object
  and the references it takes on the callback, its object and the data are given back exactly, when
  the user's callback runs, and also when there is none.  The callback is called once, with the data,
  the result and the resource of the request, and nothing else is called.
\<close>

theorem callback_references_balanced:
  assumes "quiet_env env" "php_eio_new_eio_cb env cb data s = (Some a, s1)"
    and "\<forall>z. data = Some z \<longrightarrow> no_res z" "ps_cb s (pe_cb_addr env s) = None"
    and "cb_ready env h req" "hs_reqs h req = Some r" "rq_data r = Some a" "\<not> rq_cancelled r"
    and "result_arg env req (s1\<lparr>ps_h := h\<rparr>) = Some (p1, s2)"
  shows "\<exists>s' c i. php_eio_res_cb env req (s1\<lparr>ps_h := h\<rparr>) = Some (0, s') \<and> ps_cb s' = ps_cb s \<and>
    (\<forall>v. ps_rc s' (RVal v) = ps_rc s (RVal v)) \<and>
    ps_cb s1 a = Some c \<and> ps_calls s' = ps_calls s @ user_calls c p1 i"
proof -
  obtain c where c: "a = pe_cb_addr env s"
      "s1 = (add_refs (cb_refs c) s)\<lparr>ps_cb := (ps_cb s)(a \<mapsto> c)\<rparr>" "func_ok (cb_func c)" "no_res (cb_arg c)"
    using new_eio_cb_eq [OF assms(2,3)] by blast
  let ?s = "s1\<lparr>ps_h := h\<rparr>"
  have "\<exists>s' i. php_eio_res_cb env req ?s = Some (0, s') \<and> ps_cb s' = (ps_cb ?s)(a := None) \<and>
    (\<forall>v. ps_rc s' (RVal v) = ps_rc ?s (RVal v) - cb_refs c (RVal v)) \<and> hgood (ps_h s') \<and>
    ps_errs s' = ps_errs ?s \<and> ps_calls s' = ps_calls ?s @ user_calls c p1 i \<and>
    handles_kept (ps_h ?s) (ps_h s') \<and> map_option req_rest (hs_reqs (ps_h s') req) = Some (req_rest r) \<and>
    (\<forall>x. x \<noteq> req \<longrightarrow> no_dest (hs_reqs (ps_h s') x) = no_dest (hs_reqs (ps_h ?s) x))"
    by (rule res_cb_balance [where r = r]) (use assms c in simp_all)
  then show ?thesis using assms(4) c(1) by (auto simp: c(2) fun_upd_idem)
qed

text \<open>
  C20: the value a custom request's function returned is released twice: when nobody else holds it, the
  completion runs without a fault if and only if the value is one without a reference count, such as
  a number; a string or an array made by the function is used after it was freed.
\<close>

theorem custom_result_released_twice:
  assumes "quiet_env env" "cb_ready env (ps_h s) req"
    and "hs_reqs (ps_h s) req = Some r" "rq_data r = Some a" "rq_ptr2 r = MUser z"
    and "ps_zv s z = Some v" "no_res v" "\<forall>k. rc_key v = Some k \<longrightarrow> ps_rc s k = 1"
    and "ps_cc s a = Some c" "cc_ok c" "cc_locked c" "fi_func (cc_func c) = Some f"
    and "\<forall>k. cc_refs c k + weight v k \<le> ps_rc s k"
  shows "php_eio_res_cb_custom env req s \<noteq> None \<longleftrightarrow> rc_key v = None"
proof -
  have "rc_key v \<noteq> None \<longrightarrow> ps_rc s (the (rc_key v)) = 1" using assms(8) by auto
  from res_cb_custom_first [OF assms(1-7) this assms(9-13)] obtain s' where
    s': "php_eio_res_cb_custom env req s = do {
      s \<leftarrow> zval_ptr_dtor v s';
      s \<leftarrow> php_eio_free_eio_cb_custom (Some a) (s\<lparr>ps_zv := (ps_zv s)(z := None)\<rparr>);
      Some (0, s) }" "ps_cc s' = ps_cc s"
    and rc: "\<And>k. (\<forall>i. k \<noteq> RRes i) \<Longrightarrow> ps_rc s' k = ps_rc s k - weight v k" by blast
  show ?thesis
  proof (cases "rc_key v")
    case None
    then have w: "weight v k = 0" for k by (simp add: weight_def)
    have "\<forall>k. cc_refs c k \<le> ps_rc (s'\<lparr>ps_zv := (ps_zv s')(z := None)\<rparr>) k"
    proof
      fix k
      show "cc_refs c k \<le> ps_rc (s'\<lparr>ps_zv := (ps_zv s')(z := None)\<rparr>) k"
        using rc [of k] w assms(13) cc_refs_no_res [OF assms(10)] by (cases k) auto
    qed
    then show ?thesis
      using free_eio_cb_custom_eq [of "s'\<lparr>ps_zv := (ps_zv s')(z := None)\<rparr>" a c] assms(9,10) None
      by (simp add: s' zval_ptr_dtor_def del: not_None_eq)
  next
    case (Some k)
    then have k: "\<forall>i. k \<noteq> RRes i" using assms(7) by (cases v) auto
    then have "ps_rc s' k = 0" using rc [OF k] assms(8) Some by (simp add: weight_def)
    then show ?thesis using Some by (simp add: s' zval_ptr_dtor_def)
  qed
qed

text \<open>
  C29: a short read hands uninitialised memory to the script: the string an \<open>eio_read\<close> callback gets
  has as many bytes as were asked for, and behind the bytes that were read it holds what \<open>malloc\<close>
  left in the block.
\<close>

theorem short_read_exposes_heap:
  assumes "rq_type req = EIO_READ" "\<not> rq_cancelled req" "rq_wd req \<noteq> EIO_INVALID_WD" "rq_ptr2 req = MNull"
    and "ex_malloc xe (unat (rq_size req)) = Some block" "length block = unat (rq_size req)"
    and "eio_execute xe req os = Some (req', os')"
    and "0 \<le> rq_result req'" "hs_reqs (ps_h s) r = Some req'"
    and "\<And>off w. length (sr_data (fst (ex_kern xe (S_pread (rq_int1 req) (rq_size req) off) w))) =
           nat (sr_res (fst (ex_kern xe (S_pread (rq_int1 req) (rq_size req) off) w)))"
    and "0 \<le> rq_offs req" "rq_result req' \<le> uint (rq_size req)"
  shows "\<exists>read. length read = nat (rq_result req') \<and>
    result_arg env r s = Some (Z_STR (read @ drop (length read) block), s)"
proof -
  define read where "read = sr_data (fst (ex_kern xe (S_pread (rq_int1 req) (rq_size req) (rq_offs req)) (os_w os)))"
  have ty: "type_code (rq_type req) < type_code EIO_OPEN" using assms(1) by simp
  have "exec_head xe req os = Some (req', os') \<or> (\<exists>q. exec_head xe req os = Some q \<and> req' = fst q\<lparr>rq_errorno := os_errno (snd q)\<rparr>)"
    using assms(7) ty assms(2,3)
    by (auto simp: eio_execute_def split: if_splits option.splits)
  then have r': "rq_ptr2 req' = MBytes (read @ drop (length read) block)" "rq_type req' = EIO_READ"
      "rq_size req' = rq_size req"
      "rq_result req' = sr_res (fst (ex_kern xe (S_pread (rq_int1 req) (rq_size req) (rq_offs req)) (os_w os)))"
    using assms(1,4,5,11)
    by (auto simp: exec_head_def with_alloc_def ALLOC_def set_result_buf_def call_def fill_def read_def Let_def
        split: prod.splits)
  have l: "length read = nat (rq_result req')" using assms(10) r'(4) by (simp add: read_def)
  have "length (read @ drop (length read) block) = unat (rq_size req)"
  proof -
    have "nat (rq_result req') \<le> unat (rq_size req)" using assms(12) by (simp add: nat_le_iff flip: uint_nat)
    then show ?thesis using assms(6) l by simp
  qed
  then show ?thesis
    using l assms(8,9) r'
    by (intro exI [of _ read]) (simp add: result_arg_def Let_def zval_stringl_def buf_bytes_def)
qed


section \<open>Concrete inputs\<close>

text \<open>Everything is callable, functions do nothing, and the allocators have one free address each.\<close>

definition demo_env :: php_env where
  "demo_env = \<lparr>
     pe_callable = (\<lambda>z. (Some \<lparr>fcc_scope = None, fcc_handler = 7, fcc_object = None, fcc_static = False\<rparr>, False)),
     pe_call = (\<lambda>f obj params s. Some (Z_NULL, s)),
     pe_cb_addr = (\<lambda>_. 40), pe_handle_addr = (\<lambda>_. 50), pe_zv_addr = (\<lambda>_. 60),
     pe_stat = (\<lambda>_. \<lparr>st_dev = 0, st_ino = 0, st_mode = 0, st_nlink = 0, st_uid = 0, st_size = 0, st_gid = 0,
                    st_rdev = 0, st_blksize = 0, st_blocks = 0, st_atime = 0, st_mtime = 0, st_ctime = 0\<rparr>),
     pe_statvfs = (\<lambda>_. \<lparr>f_bsize = 0, f_frsize = 0, f_blocks = 0, f_bfree = 0, f_bavail = 0, f_files = 0,
                       f_ffree = 0, f_favail = 0, f_fsid = 0, f_flag = 0, f_namemax = 0\<rparr>),
     pe_cloexec_ok = (\<lambda>_. True) \<rparr>"

definition phpst0 :: "hstate \<Rightarrow> phpst" where
  "phpst0 h = \<lparr>ps_h = h, ps_rc = (\<lambda>k. if k = RVal 3 then 1 else 0), ps_cb = (\<lambda>_. None), ps_cc = (\<lambda>_. None),
     ps_zv = (\<lambda>_. None), ps_buf = (\<lambda>_. None), ps_errs = 0, ps_exc = False, ps_warn = 0, ps_cloexec = [],
     ps_stack = 0, ps_calls = []\<rparr>"

text \<open>One live request, of the given contents.\<close>

definition one_req :: "eio_req \<Rightarrow> hstate" where
  "one_req r = hs_init\<lparr>hs_reqs := [1 \<mapsto> r\<lparr>rq_destroy := Some D_eio_api_destroy\<rparr>]\<rparr>"

lemma one_req_ready: "pe_handle_addr env = (\<lambda>_. 50) \<Longrightarrow> cb_ready env (one_req r) 1"
  by (simp add: cb_ready_def one_req_def hgood_def hinv_def hs_init_def opens_def open_res_def)

lemma demo_quiet: "quiet_env demo_env" by (simp add: quiet_env_def demo_env_def)

theorem callback_references_balanced_witness:
  "\<exists>s'. php_eio_res_cb demo_env 1
      ((snd (php_eio_new_eio_cb demo_env (Some (Z_OBJ 3)) (Some (Z_CNT 3)) (phpst0 hs_init)))
         \<lparr>ps_h := one_req (calloc_req\<lparr>rq_data := Some 40\<rparr>)\<rparr>) = Some (0, s') \<and>
    ps_rc s' (RVal 3) = 1"
proof -
  let ?n = "php_eio_new_eio_cb demo_env (Some (Z_OBJ 3)) (Some (Z_CNT 3)) (phpst0 hs_init)"
  have new: "?n = (Some 40, snd ?n)"
    by (simp add: php_eio_new_eio_cb_def php_eio_import_func_info_def demo_env_def copy_arg_def Let_def)
  have ready: "cb_ready demo_env (one_req (calloc_req\<lparr>rq_data := Some 40\<rparr>)) 1"
    by (rule one_req_ready) (simp add: demo_env_def)
  obtain s' where "php_eio_res_cb demo_env 1 ((snd ?n)\<lparr>ps_h := one_req (calloc_req\<lparr>rq_data := Some 40\<rparr>)\<rparr>) = Some (0, s')"
      "\<forall>v. ps_rc s' (RVal v) = ps_rc (phpst0 hs_init) (RVal v)"
    using callback_references_balanced [OF demo_quiet new _ _ ready,
        of "calloc_req\<lparr>rq_data := Some 40, rq_destroy := Some D_eio_api_destroy\<rparr>"]
    by (auto simp: one_req_def calloc_req_def result_arg_def phpst0_def)
  then show ?thesis by (intro exI [of _ s']) (simp add: phpst0_def)
qed

text \<open>A custom request that ran and returned a number, and one that returned a string of its own.\<close>

definition custom_done :: "zval \<Rightarrow> phpst" where
  "custom_done v = (phpst0 (one_req (calloc_req\<lparr>rq_data := Some 40, rq_ptr2 := MUser 60\<rparr>)))\<lparr>
     ps_zv := [60 \<mapsto> v],
     ps_cc := [40 \<mapsto> \<lparr>cc_arg = Z_UNDEF, cc_locked = True, cc_func_exec = func_info0,
                     cc_func = func_info0\<lparr>fi_func := Some 7\<rparr>\<rparr>]\<rparr>"

lemma custom_done_simps:
  "ps_h (custom_done v) = one_req (calloc_req\<lparr>rq_data := Some 40, rq_ptr2 := MUser 60\<rparr>)"
  "ps_zv (custom_done v) 60 = Some v" "ps_rc (custom_done v) k = (if k = RVal 3 then 1 else 0)"
  "ps_cc (custom_done v) 40 = Some \<lparr>cc_arg = Z_UNDEF, cc_locked = True, cc_func_exec = func_info0,
     cc_func = func_info0\<lparr>fi_func := Some 7\<rparr>\<rparr>"
  by (simp_all add: custom_done_def phpst0_def)

theorem custom_result_released_twice_witness:
  "php_eio_res_cb_custom demo_env 1 (custom_done (Z_LONG 5)) \<noteq> None \<and>
   php_eio_res_cb_custom demo_env 1 (custom_done (Z_CNT 3)) = None"
proof -
  have ready: "cb_ready demo_env (ps_h (custom_done v)) 1" for v
    unfolding custom_done_simps by (rule one_req_ready) (simp add: demo_env_def)
  have "php_eio_res_cb_custom demo_env 1 (custom_done v) \<noteq> None \<longleftrightarrow> rc_key v = None"
    if "v = Z_LONG 5 \<or> v = Z_CNT 3" for v
    by (rule custom_result_released_twice [OF demo_quiet ready,
          where a = 40 and z = 60 and f = 7 and r = "calloc_req\<lparr>rq_data := Some 40, rq_ptr2 := MUser 60,
            rq_destroy := Some D_eio_api_destroy\<rparr>"
            and c = "\<lparr>cc_arg = Z_UNDEF, cc_locked = True, cc_func_exec = func_info0,
               cc_func = func_info0\<lparr>fi_func := Some 7\<rparr>\<rparr>"])
       (use that in \<open>auto simp: custom_done_simps one_req_def cc_ok_def func_ok_def func_info0_def cc_refs_def
          func_refs_def weight_def calloc_req_def\<close>)
  from this [of "Z_LONG 5"] this [of "Z_CNT 3"] show ?thesis by (simp del: not_None_eq)
qed

text \<open>A read of four bytes of which the kernel has two.\<close>

definition two_bytes :: "(unit \<times> (syscall \<times> int) list) exec_env" where
  "two_bytes = witness_exec\<lparr>ex_kern := (\<lambda>c w. (\<lparr>sr_res = 2, sr_errno = 0, sr_data = ''ab''\<rparr>, w)),
     ex_malloc := (\<lambda>_. Some ''????'')\<rparr>"

definition read_four :: eio_req where
  "read_four = calloc_req\<lparr>rq_type := EIO_READ, rq_size := 4\<rparr>"

definition after_read :: phpst where
  "after_read = phpst0 (hs_init\<lparr>hs_reqs := [1 \<mapsto> fst (the (eio_execute two_bytes read_four witness_os))]\<rparr>)"

theorem short_read_exposes_heap_witness:
  "\<exists>read. length read = 2 \<and> result_arg demo_env 1 after_read = Some (Z_STR (read @ ''??''), after_read)"
proof -
  let ?r = "fst (the (eio_execute two_bytes read_four witness_os))"
  have ex: "eio_execute two_bytes read_four witness_os = Some (read_four\<lparr>rq_result := 2,
      rq_ptr2 := MBytes ''ab??'', rq_flags := EIO_FLAG_PTR2_FREE\<rparr>, witness_os)"
    by (simp add: two_bytes_def read_four_def witness_exec_simps exec_head_def with_alloc_def set_result_buf_def
        fill_def)
  have s: "hs_reqs (ps_h after_read) 1 = Some ?r" by (simp add: phpst0_def after_read_def)
  have "\<exists>read. length read = nat (rq_result ?r) \<and>
      result_arg demo_env 1 after_read = Some (Z_STR (read @ drop (length read) ''????''), after_read)"
    by (rule short_read_exposes_heap [of read_four two_bytes "''????''" witness_os ?r witness_os after_read 1,
          OF _ _ _ _ _ _ _ _ s])
       (simp_all add: ex, simp_all add: read_four_def two_bytes_def witness_exec_def calloc_req_def)
  then obtain bs where "length bs = 2"
    "result_arg demo_env 1 after_read = Some (Z_STR (bs @ drop (length bs) ''????''), after_read)"
    by (auto simp: ex)
  then show ?thesis by (intro exI [of _ bs]) simp
qed

end
