(* ===== verification/PhpApi.thy ===== *)
theory PhpApi
  imports PhpCallback PhpEvents Grp
begin

unbundle bit_operations_syntax

text \<open>
  The functions the extension offers to PHP, the \<open>PHP_FUNCTION\<close>s of \<open>php8/php_eio.c\<close>, and the start
  and end of the module.  A function gets its parsed parameters (\<open>None\<close> for a parameter that was left
  out or null), checks and converts them as C does, makes the callback object and hands a request to
  libeio; its result is a value of PHP.  \<open>ap_sent\<close> collects the requests handed over, in order; what
  then happens to them is \<open>etp_submit\<close> of the pool.  The build is one without \<open>EIO_DEBUG\<close>.
\<close>

section \<open>State and environment\<close>

record 'w phpapi =
  ap_s :: phpst
  ap_mod :: "'w modst"
  ap_sent :: "addr list"

text \<open>\<open>R_FATAL\<close>: the engine ended the script with a fatal error.\<close>

datatype php_ret = R_NULL | R_FALSE | R_TRUE | R_LONG int | R_STR string | R_RES nat | R_FATAL

type_synonym 'w api = "'w phpapi \<Rightarrow> (php_ret \<times> 'w phpapi) option"

text \<open>
  What a value is to \<open>php_eio_zval_to_fd\<close>.  For a stream: whether it is a memory or temp stream, whether
  it is still valid, and for each of the three casts \<open>None\<close> when the stream cannot be cast that way,
  else the outcome of the cast; \<open>pst_lval\<close> is what the integer member of the value reads as.
\<close>

record php_stream =
  pst_memory :: bool
  pst_valid :: bool
  pst_select :: "int option option"
  pst_fd :: "int option option"
  pst_stdio :: "int option option"
  pst_lval :: int

record php_socket =
  sck_error :: int
  sck_blocking :: bool
  sck_fd :: int

datatype fd_kind = K_stream php_stream | K_no_stream | K_socket php_socket | K_long int | K_other

record 'w api_env =
  ax_php :: php_env
  ax_cf :: ev_config
  ax_kern :: "'w evkern"
  ax_alloc :: alloc_env
  ax_req_addr :: "phpst \<Rightarrow> addr"
  ax_buf_addr :: "phpst \<Rightarrow> addr"
  ax_access :: "string \<Rightarrow> bool"
  ax_kind :: "zval \<Rightarrow> fd_kind"
  ax_string :: "zval \<Rightarrow> addr \<times> string"
  ax_strerror :: "int \<Rightarrow> string"
  ax_fuel :: nat

section \<open>Conversions\<close>

text \<open>A \<open>zend_long\<close> passed as \<open>int\<close>, \<open>unsigned int\<close> (also \<open>mode_t\<close>, \<open>uid_t\<close>, \<open>gid_t\<close>) or \<open>size_t\<close>.\<close>

definition c_int :: "int \<Rightarrow> int" where "c_int n = sint (word_of_int n :: u32)"
definition c_uint :: "int \<Rightarrow> int" where "c_uint n = uint (word_of_int n :: u32)"
definition c_size :: "int \<Rightarrow> u64" where "c_size n = word_of_int n"

lemma c_int_id: "- (2 ^ 31) \<le> n \<Longrightarrow> n < 2 ^ 31 \<Longrightarrow> c_int n = n"
  by (simp add: c_int_def sint_sbintrunc' signed_take_bit_int_eq_self)

lemma c_int_range: "- (2 ^ 31) \<le> c_int n \<and> c_int n < 2 ^ 31"
  using sint_range_size [of "word_of_int n :: u32"] by (simp add: c_int_def word_size)

text \<open>\<open>S_IRUSR | S_IWUSR | S_IRGRP | S_IROTH\<close>\<close>

definition default_mode :: int where "default_mode = 0x100 OR 0x80 OR 0x20 OR 0x04"

text \<open>\<open>EIO_CHECK_PATH_LEN\<close>: a string of PHP with a NUL byte is longer than the C string in it.\<close>

definition bad_path_len :: "string \<Rightarrow> bool" where
  "bad_path_len path \<longleftrightarrow> length (c_string path) \<noteq> length path"

definition fix_readdir_flags :: "int \<Rightarrow> int" where
  "fix_readdir_flags flags =
     (if flags AND (EIO_READDIR_DIRS_FIRST OR EIO_READDIR_STAT_ORDER) \<noteq> 0
      then flags OR EIO_READDIR_DENTS else flags)"

definition EINPROGRESS :: int where "EINPROGRESS = 115"

text \<open>The descriptor, or -1, and whether an exception was thrown.\<close>

definition cast_fd :: "int option \<Rightarrow> int \<times> bool" where
  "cast_fd r = (case r of None \<Rightarrow> (-1, False) | Some fd \<Rightarrow> if fd < 0 then (-1, False) else (fd, False))"

definition php_eio_zval_to_fd :: "fd_kind \<Rightarrow> int \<times> bool" where
  "php_eio_zval_to_fd pfd =
     (case pfd of
        K_stream st \<Rightarrow>
          (if pst_memory st then (-1, True)
           else if \<not> pst_valid st then (-1, True)
           else (case pst_select st of
              Some r \<Rightarrow> cast_fd r
            | None \<Rightarrow> (case pst_fd st of
                Some r \<Rightarrow> cast_fd r
              | None \<Rightarrow> (case pst_stdio st of
                  Some r \<Rightarrow> cast_fd r
                | None \<Rightarrow> (c_int (pst_lval st), False)))))
      | K_no_stream \<Rightarrow> (-1, True)
      | K_socket sock \<Rightarrow>
          (if sck_error sock \<noteq> 0 \<and> \<not> (\<not> sck_blocking sock \<and> sck_error sock = EINPROGRESS)
           then (-1, False) else (sck_fd sock, False))
      | K_long n \<Rightarrow> (let fd = c_int n in if fd < 0 then (-1, True) else (fd, False))
      | K_other \<Rightarrow> (-1, True))"

section \<open>The common parts of the functions\<close>

definition warn :: "'w phpapi \<Rightarrow> 'w phpapi" where
  "warn s = s\<lparr>ap_s := (ap_s s)\<lparr>ps_warn := ps_warn (ap_s s) + 1\<rparr>\<rparr>"

text \<open>\<open>PHP_EIO_INIT\<close>\<close>

definition with_init :: "'w api_env \<Rightarrow> 'w phpapi \<Rightarrow> 'w api \<Rightarrow> (php_ret \<times> 'w phpapi) option" where
  "with_init env s f =
     (case PHP_EIO_IS_INIT (ax_cf env) (ax_kern env) (ap_mod s) of (fatal, m) \<Rightarrow>
        let s = s\<lparr>ap_mod := m\<rparr> in if fatal then Some (R_FATAL, s) else f s)"

definition zval_fd :: "'w api_env \<Rightarrow> zval \<Rightarrow> 'w phpapi \<Rightarrow> int \<times> 'w phpapi" where
  "zval_fd env z s =
     (case php_eio_zval_to_fd (ax_kind env z) of (fd, exc) \<Rightarrow>
        (fd, if exc then s\<lparr>ap_s := (ap_s s)\<lparr>ps_exc := True\<rparr>\<rparr> else s))"

definition with_fd ::
    "'w api_env \<Rightarrow> zval \<Rightarrow> 'w phpapi \<Rightarrow> (int \<Rightarrow> 'w api) \<Rightarrow> (php_ret \<times> 'w phpapi) option" where
  "with_fd env zfd s f =
     (case zval_fd env zfd s of (fd, s) \<Rightarrow> if fd < 0 then Some (R_FALSE, s) else f fd s)"

definition with_fd2 ::
    "'w api_env \<Rightarrow> zval \<Rightarrow> zval \<Rightarrow> 'w phpapi \<Rightarrow> (int \<Rightarrow> int \<Rightarrow> 'w api) \<Rightarrow>
     (php_ret \<times> 'w phpapi) option" where
  "with_fd2 env zfd zfd2 s f =
     (case zval_fd env zfd s of (fd, s) \<Rightarrow>
      case zval_fd env zfd2 s of (fd2, s) \<Rightarrow>
        if fd < 0 \<or> fd2 < 0 then Some (R_FALSE, s) else f fd fd2 s)"

definition with_cb ::
    "'w api_env \<Rightarrow> zval option \<Rightarrow> zval option \<Rightarrow> 'w phpapi \<Rightarrow> (ptr \<Rightarrow> 'w api) \<Rightarrow>
     (php_ret \<times> 'w phpapi) option" where
  "with_cb env zcb data s f =
     (case php_eio_new_eio_cb (ax_php env) zcb data (ap_s s) of (cb, p) \<Rightarrow> f cb (s\<lparr>ap_s := p\<rparr>))"

text \<open>The request a wrapper of libeio made is at a new address and has been handed over.\<close>

definition sent :: "'w api_env \<Rightarrow> wrap_res \<Rightarrow> 'w phpapi \<Rightarrow> ptr \<times> 'w phpapi" where
  "sent env w s =
     (case w of
        Returned_null _ \<Rightarrow> (None, s)
      | Sent r \<Rightarrow>
          (let a = ax_req_addr env (ap_s s); h = ps_h (ap_s s)
           in (Some a, s\<lparr>ap_s := (ap_s s)\<lparr>ps_h := h\<lparr>hs_reqs := (hs_reqs h)(a \<mapsto> r)\<rparr>\<rparr>,
                         ap_sent := ap_sent s @ [a]\<rparr>)))"

text \<open>\<open>PHP_EIO_RET_REQ_RESOURCE\<close>\<close>

definition PHP_EIO_RET_REQ_RESOURCE ::
    "'w api_env \<Rightarrow> le \<Rightarrow> ptr \<Rightarrow> 'w phpapi \<Rightarrow> (php_ret \<times> 'w phpapi) option" where
  "PHP_EIO_RET_REQ_RESOURCE env le req s =
     (case req of
        None \<Rightarrow> Some (R_FALSE, s)
      | Some a \<Rightarrow> do {
          (i, p) \<leftarrow> register_res (ax_php env) a le (ap_s s);
          Some (R_RES i, s\<lparr>ap_s := p\<rparr>) })"

definition request :: "'w api_env \<Rightarrow> wrap_res \<Rightarrow> 'w api" where
  "request env w s =
     (case sent env w s of (req, s) \<Rightarrow> PHP_EIO_RET_REQ_RESOURCE env Le_eio_req req s)"

section \<open>Functions that make a request\<close>

definition PHP_eio_open ::
    "'w api_env \<Rightarrow> string \<Rightarrow> int \<Rightarrow> int \<Rightarrow> int \<Rightarrow> zval option \<Rightarrow> zval option \<Rightarrow> 'w api" where
  "PHP_eio_open env path flags mode pri zcb data s =
     with_init env s (\<lambda>s.
       if bad_path_len path then Some (R_FALSE, s) else
       with_cb env zcb data s (\<lambda>cb s.
         request env (eio_open (ax_alloc env) (c_string path) (c_int flags) (c_uint (if mode = 0 then default_mode else mode)) (c_int pri) (Some F_php_eio_res_cb) cb) s))"

definition PHP_eio_truncate ::
    "'w api_env \<Rightarrow> string \<Rightarrow> int \<Rightarrow> int \<Rightarrow> zval option \<Rightarrow> zval option \<Rightarrow> 'w api" where
  "PHP_eio_truncate env path offset pri zcb data s =
     with_init env s (\<lambda>s.
       with_cb env zcb data s (\<lambda>cb s.
         request env (eio_truncate (ax_alloc env) (c_string path) (if offset < 0 then 0 else offset) (c_int pri) (Some F_php_eio_res_cb) cb) s))"

definition PHP_eio_chown ::
    "'w api_env \<Rightarrow> string \<Rightarrow> int \<Rightarrow> int \<Rightarrow> int \<Rightarrow> zval option \<Rightarrow> zval option \<Rightarrow> 'w api" where
  "PHP_eio_chown env path uid gid pri zcb data s =
     with_init env s (\<lambda>s.
       if bad_path_len path then Some (R_FALSE, s) else
       if uid < 0 \<and> gid < 0 then Some (R_FALSE, warn s) else
       with_cb env zcb data s (\<lambda>cb s.
         request env (eio_chown (ax_alloc env) (c_string path) (c_uint uid) (c_uint gid) (c_int pri) (Some F_php_eio_res_cb) cb) s))"

definition PHP_eio_chmod ::
    "'w api_env \<Rightarrow> string \<Rightarrow> int \<Rightarrow> int \<Rightarrow> zval option \<Rightarrow> zval option \<Rightarrow> 'w api" where
  "PHP_eio_chmod env path mode pri zcb data s =
     with_init env s (\<lambda>s.
       with_cb env zcb data s (\<lambda>cb s.
         request env (eio_chmod (ax_alloc env) (c_string path) (c_uint mode) (c_int pri) (Some F_php_eio_res_cb) cb) s))"

definition PHP_eio_mkdir ::
    "'w api_env \<Rightarrow> string \<Rightarrow> int \<Rightarrow> int \<Rightarrow> zval option \<Rightarrow> zval option \<Rightarrow> 'w api" where
  "PHP_eio_mkdir env path mode pri zcb data s =
     with_init env s (\<lambda>s.
       with_cb env zcb data s (\<lambda>cb s.
         request env (eio_mkdir (ax_alloc env) (c_string path) (c_uint mode) (c_int pri) (Some F_php_eio_res_cb) cb) s))"

definition PHP_eio_rmdir ::
    "'w api_env \<Rightarrow> string \<Rightarrow> int \<Rightarrow> zval option \<Rightarrow> zval option \<Rightarrow> 'w api" where
  "PHP_eio_rmdir env path pri zcb data s =
     with_init env s (\<lambda>s.
       if bad_path_len path then Some (R_FALSE, s) else
       with_cb env zcb data s (\<lambda>cb s.
         request env (eio_rmdir (ax_alloc env) (c_string path) (c_int pri) (Some F_php_eio_res_cb) cb) s))"

definition PHP_eio_unlink ::
    "'w api_env \<Rightarrow> string \<Rightarrow> int \<Rightarrow> zval option \<Rightarrow> zval option \<Rightarrow> 'w api" where
  "PHP_eio_unlink env path pri zcb data s =
     with_init env s (\<lambda>s.
       if \<not> ax_access env (c_string path) then Some (R_TRUE, s) else
       with_cb env zcb data s (\<lambda>cb s.
         request env (eio_unlink (ax_alloc env) (c_string path) (c_int pri) (Some F_php_eio_res_cb) cb) s))"

definition PHP_eio_utime ::
    "'w api_env \<Rightarrow> string \<Rightarrow> rat \<Rightarrow> rat \<Rightarrow> int \<Rightarrow> zval option \<Rightarrow> zval option \<Rightarrow> 'w api" where
  "PHP_eio_utime env path atime mtime pri zcb data s =
     with_init env s (\<lambda>s.
       if bad_path_len path then Some (R_FALSE, s) else
       with_cb env zcb data s (\<lambda>cb s.
         request env (eio_utime (ax_alloc env) (c_string path) atime mtime (c_int pri) (Some F_php_eio_res_cb) cb) s))"

definition PHP_eio_mknod ::
    "'w api_env \<Rightarrow> string \<Rightarrow> int \<Rightarrow> int \<Rightarrow> int \<Rightarrow> zval option \<Rightarrow> zval option \<Rightarrow> 'w api" where
  "PHP_eio_mknod env path mode dev pri zcb data s =
     with_init env s (\<lambda>s.
       if bad_path_len path then Some (R_FALSE, s) else
       with_cb env zcb data s (\<lambda>cb s.
         request env (eio_mknod (ax_alloc env) (c_string path) (c_uint mode) dev (c_int pri) (Some F_php_eio_res_cb) cb) s))"

definition PHP_eio_link ::
    "'w api_env \<Rightarrow> string \<Rightarrow> string \<Rightarrow> int \<Rightarrow> zval option \<Rightarrow> zval option \<Rightarrow> 'w api" where
  "PHP_eio_link env path new_path pri zcb data s =
     with_init env s (\<lambda>s.
       if bad_path_len path then Some (R_FALSE, s) else
       if bad_path_len new_path then Some (R_FALSE, s) else
       with_cb env zcb data s (\<lambda>cb s.
         request env (eio_link (ax_alloc env) (c_string path) (c_string new_path) (c_int pri) (Some F_php_eio_res_cb) cb) s))"

definition PHP_eio_symlink ::
    "'w api_env \<Rightarrow> string \<Rightarrow> string \<Rightarrow> int \<Rightarrow> zval option \<Rightarrow> zval option \<Rightarrow> 'w api" where
  "PHP_eio_symlink env path new_path pri zcb data s =
     with_init env s (\<lambda>s.
       if bad_path_len path then Some (R_FALSE, s) else
       if bad_path_len new_path then Some (R_FALSE, s) else
       with_cb env zcb data s (\<lambda>cb s.
         request env (eio_symlink (ax_alloc env) (c_string path) (c_string new_path) (c_int pri) (Some F_php_eio_res_cb) cb) s))"

definition PHP_eio_rename ::
    "'w api_env \<Rightarrow> string \<Rightarrow> string \<Rightarrow> int \<Rightarrow> zval option \<Rightarrow> zval option \<Rightarrow> 'w api" where
  "PHP_eio_rename env path new_path pri zcb data s =
     with_init env s (\<lambda>s.
       if bad_path_len path then Some (R_FALSE, s) else
       if bad_path_len new_path then Some (R_FALSE, s) else
       with_cb env zcb data s (\<lambda>cb s.
         request env (eio_rename (ax_alloc env) (c_string path) (c_string new_path) (c_int pri) (Some F_php_eio_res_cb) cb) s))"

definition PHP_eio_close ::
    "'w api_env \<Rightarrow> zval \<Rightarrow> int \<Rightarrow> zval option \<Rightarrow> zval option \<Rightarrow> 'w api" where
  "PHP_eio_close env zfd pri zcb data s =
     with_init env s (\<lambda>s.
       with_fd env zfd s (\<lambda>fd s.
       with_cb env zcb data s (\<lambda>cb s.
         request env (eio_close (ax_alloc env) fd (c_int pri) (Some F_php_eio_res_cb) cb) s)))"

definition PHP_eio_sync ::
    "'w api_env \<Rightarrow> int \<Rightarrow> zval option \<Rightarrow> zval option \<Rightarrow> 'w api" where
  "PHP_eio_sync env pri zcb data s =
     with_init env s (\<lambda>s.
       with_cb env zcb data s (\<lambda>cb s.
         request env (eio_sync (ax_alloc env) (c_int pri) (Some F_php_eio_res_cb) cb) s))"

definition PHP_eio_fsync ::
    "'w api_env \<Rightarrow> zval \<Rightarrow> int \<Rightarrow> zval option \<Rightarrow> zval option \<Rightarrow> 'w api" where
  "PHP_eio_fsync env zfd pri zcb data s =
     with_init env s (\<lambda>s.
       with_fd env zfd s (\<lambda>fd s.
       with_cb env zcb data s (\<lambda>cb s.
         request env (eio_fsync (ax_alloc env) fd (c_int pri) (Some F_php_eio_res_cb) cb) s)))"

definition PHP_eio_fdatasync ::
    "'w api_env \<Rightarrow> zval \<Rightarrow> int \<Rightarrow> zval option \<Rightarrow> zval option \<Rightarrow> 'w api" where
  "PHP_eio_fdatasync env zfd pri zcb data s =
     with_init env s (\<lambda>s.
       with_fd env zfd s (\<lambda>fd s.
       with_cb env zcb data s (\<lambda>cb s.
         request env (eio_fdatasync (ax_alloc env) fd (c_int pri) (Some F_php_eio_res_cb) cb) s)))"

definition PHP_eio_futime ::
    "'w api_env \<Rightarrow> zval \<Rightarrow> rat \<Rightarrow> rat \<Rightarrow> int \<Rightarrow> zval option \<Rightarrow> zval option \<Rightarrow> 'w api" where
  "PHP_eio_futime env zfd atime mtime pri zcb data s =
     with_init env s (\<lambda>s.
       with_fd env zfd s (\<lambda>fd s.
       with_cb env zcb data s (\<lambda>cb s.
         request env (eio_futime (ax_alloc env) fd atime mtime (c_int pri) (Some F_php_eio_res_cb) cb) s)))"

definition PHP_eio_ftruncate ::
    "'w api_env \<Rightarrow> zval \<Rightarrow> int \<Rightarrow> int \<Rightarrow> zval option \<Rightarrow> zval option \<Rightarrow> 'w api" where
  "PHP_eio_ftruncate env zfd offset pri zcb data s =
     with_init env s (\<lambda>s.
       with_fd env zfd s (\<lambda>fd s.
       with_cb env zcb data s (\<lambda>cb s.
         request env (eio_ftruncate (ax_alloc env) fd (if offset < 0 then 0 else offset) (c_int pri) (Some F_php_eio_res_cb) cb) s)))"

definition PHP_eio_fchmod ::
    "'w api_env \<Rightarrow> zval \<Rightarrow> int \<Rightarrow> int \<Rightarrow> zval option \<Rightarrow> zval option \<Rightarrow> 'w api" where
  "PHP_eio_fchmod env zfd mode pri zcb data s =
     with_init env s (\<lambda>s.
       with_fd env zfd s (\<lambda>fd s.
       with_cb env zcb data s (\<lambda>cb s.
         request env (eio_fchmod (ax_alloc env) fd (c_uint mode) (c_int pri) (Some F_php_eio_res_cb) cb) s)))"

definition PHP_eio_fchown ::
    "'w api_env \<Rightarrow> zval \<Rightarrow> int \<Rightarrow> int \<Rightarrow> int \<Rightarrow> zval option \<Rightarrow> zval option \<Rightarrow> 'w api" where
  "PHP_eio_fchown env zfd uid gid pri zcb data s =
     with_init env s (\<lambda>s.
       if uid < 0 \<and> gid < 0 then Some (R_FALSE, s) else
       with_fd env zfd s (\<lambda>fd s.
       with_cb env zcb data s (\<lambda>cb s.
         request env (eio_fchown (ax_alloc env) fd (c_uint uid) (c_uint gid) (c_int pri) (Some F_php_eio_res_cb) cb) s)))"

definition PHP_eio_dup2 ::
    "'w api_env \<Rightarrow> zval \<Rightarrow> zval \<Rightarrow> int \<Rightarrow> zval option \<Rightarrow> zval option \<Rightarrow> 'w api" where
  "PHP_eio_dup2 env zfd zfd2 pri zcb data s =
     with_init env s (\<lambda>s.
       with_fd2 env zfd zfd2 s (\<lambda>fd fd2 s.
       with_cb env zcb data s (\<lambda>cb s.
         request env (eio_dup2 (ax_alloc env) fd fd2 (c_int pri) (Some F_php_eio_res_cb) cb) s)))"

definition PHP_eio_read ::
    "'w api_env \<Rightarrow> zval \<Rightarrow> int \<Rightarrow> int \<Rightarrow> int \<Rightarrow> zval option \<Rightarrow> zval option \<Rightarrow> 'w api" where
  "PHP_eio_read env zfd len offset pri zcb data s =
     with_init env s (\<lambda>s.
       with_fd env zfd s (\<lambda>fd s.
       with_cb env zcb data s (\<lambda>cb s.
         request env (eio_read (ax_alloc env) fd MNull (c_size len) offset (c_int pri) (Some F_php_eio_res_cb) cb) s)))"

definition PHP_eio_readlink ::
    "'w api_env \<Rightarrow> string \<Rightarrow> int \<Rightarrow> zval option \<Rightarrow> zval option \<Rightarrow> 'w api" where
  "PHP_eio_readlink env path pri zcb data s =
     with_init env s (\<lambda>s.
       if bad_path_len path then Some (R_FALSE, s) else
       with_cb env zcb data s (\<lambda>cb s.
         request env (eio_readlink (ax_alloc env) (c_string path) (c_int pri) (Some F_php_eio_res_cb) cb) s))"

definition PHP_eio_realpath ::
    "'w api_env \<Rightarrow> string \<Rightarrow> int \<Rightarrow> zval option \<Rightarrow> zval option \<Rightarrow> 'w api" where
  "PHP_eio_realpath env path pri zcb data s =
     with_init env s (\<lambda>s.
       if bad_path_len path then Some (R_FALSE, s) else
       with_cb env zcb data s (\<lambda>cb s.
         request env (eio_realpath (ax_alloc env) (c_string path) (c_int pri) (Some F_php_eio_res_cb) cb) s))"

definition PHP_eio_stat ::
    "'w api_env \<Rightarrow> string \<Rightarrow> int \<Rightarrow> zval option \<Rightarrow> zval option \<Rightarrow> 'w api" where
  "PHP_eio_stat env path pri zcb data s =
     with_init env s (\<lambda>s.
       if bad_path_len path then Some (R_FALSE, s) else
       with_cb env zcb data s (\<lambda>cb s.
         request env (eio_stat (ax_alloc env) (c_string path) (c_int pri) (Some F_php_eio_res_cb) cb) s))"

definition PHP_eio_lstat ::
    "'w api_env \<Rightarrow> string \<Rightarrow> int \<Rightarrow> zval option \<Rightarrow> zval option \<Rightarrow> 'w api" where
  "PHP_eio_lstat env path pri zcb data s =
     with_init env s (\<lambda>s.
       if bad_path_len path then Some (R_FALSE, s) else
       with_cb env zcb data s (\<lambda>cb s.
         request env (eio_lstat (ax_alloc env) (c_string path) (c_int pri) (Some F_php_eio_res_cb) cb) s))"

definition PHP_eio_fstat ::
    "'w api_env \<Rightarrow> zval \<Rightarrow> int \<Rightarrow> zval option \<Rightarrow> zval option \<Rightarrow> 'w api" where
  "PHP_eio_fstat env zfd pri zcb data s =
     with_init env s (\<lambda>s.
       with_fd env zfd s (\<lambda>fd s.
       with_cb env zcb data s (\<lambda>cb s.
         request env (eio_fstat (ax_alloc env) fd (c_int pri) (Some F_php_eio_res_cb) cb) s)))"

definition PHP_eio_statvfs ::
    "'w api_env \<Rightarrow> string \<Rightarrow> int \<Rightarrow> zval option \<Rightarrow> zval option \<Rightarrow> 'w api" where
  "PHP_eio_statvfs env path pri zcb data s =
     with_init env s (\<lambda>s.
       if bad_path_len path then Some (R_FALSE, s) else
       with_cb env zcb data s (\<lambda>cb s.
         request env (eio_statvfs (ax_alloc env) (c_string path) (c_int pri) (Some F_php_eio_res_cb) cb) s))"

definition PHP_eio_fstatvfs ::
    "'w api_env \<Rightarrow> zval \<Rightarrow> int \<Rightarrow> zval option \<Rightarrow> zval option \<Rightarrow> 'w api" where
  "PHP_eio_fstatvfs env zfd pri zcb data s =
     with_init env s (\<lambda>s.
       with_fd env zfd s (\<lambda>fd s.
       with_cb env zcb data s (\<lambda>cb s.
         request env (eio_fstatvfs (ax_alloc env) fd (c_int pri) (Some F_php_eio_res_cb) cb) s)))"

definition PHP_eio_readdir ::
    "'w api_env \<Rightarrow> string \<Rightarrow> int \<Rightarrow> int \<Rightarrow> zval option \<Rightarrow> zval option \<Rightarrow> 'w api" where
  "PHP_eio_readdir env path flags pri zcb data s =
     with_init env s (\<lambda>s.
       with_cb env zcb data s (\<lambda>cb s.
         request env (eio_readdir (ax_alloc env) (c_string path) (c_int (fix_readdir_flags flags)) (c_int pri) (Some F_php_eio_res_cb) cb) s))"

definition PHP_eio_sendfile ::
    "'w api_env \<Rightarrow> zval \<Rightarrow> zval \<Rightarrow> int \<Rightarrow> int \<Rightarrow> int \<Rightarrow> zval option \<Rightarrow> zval option \<Rightarrow> 'w api" where
  "PHP_eio_sendfile env zfd zfd2 offset len pri zcb data s =
     with_init env s (\<lambda>s.
       with_fd2 env zfd zfd2 s (\<lambda>fd fd2 s.
       with_cb env zcb data s (\<lambda>cb s.
         request env (eio_sendfile (ax_alloc env) fd fd2 offset (c_size len) (c_int pri) (Some F_php_eio_res_cb) cb) s)))"

definition PHP_eio_readahead ::
    "'w api_env \<Rightarrow> zval \<Rightarrow> int \<Rightarrow> int \<Rightarrow> int \<Rightarrow> zval option \<Rightarrow> zval option \<Rightarrow> 'w api" where
  "PHP_eio_readahead env zfd offset len pri zcb data s =
     with_init env s (\<lambda>s.
       with_fd env zfd s (\<lambda>fd s.
       with_cb env zcb data s (\<lambda>cb s.
         request env (eio_readahead (ax_alloc env) fd offset (c_size len) (c_int pri) (Some F_php_eio_res_cb) cb) s)))"

definition PHP_eio_seek ::
    "'w api_env \<Rightarrow> zval \<Rightarrow> int \<Rightarrow> int \<Rightarrow> int \<Rightarrow> zval option \<Rightarrow> zval option \<Rightarrow> 'w api" where
  "PHP_eio_seek env zfd offset whence pri zcb data s =
     with_init env s (\<lambda>s.
       with_fd env zfd s (\<lambda>fd s.
       with_cb env zcb data s (\<lambda>cb s.
         request env (eio_seek (ax_alloc env) fd offset (c_int whence) (c_int pri) (Some F_php_eio_res_cb) cb) s)))"

definition PHP_eio_syncfs ::
    "'w api_env \<Rightarrow> zval \<Rightarrow> int \<Rightarrow> zval option \<Rightarrow> zval option \<Rightarrow> 'w api" where
  "PHP_eio_syncfs env zfd pri zcb data s =
     with_init env s (\<lambda>s.
       with_fd env zfd s (\<lambda>fd s.
       with_cb env zcb data s (\<lambda>cb s.
         request env (eio_syncfs (ax_alloc env) fd (c_int pri) (Some F_php_eio_res_cb) cb) s)))"

definition PHP_eio_sync_file_range ::
    "'w api_env \<Rightarrow> zval \<Rightarrow> int \<Rightarrow> int \<Rightarrow> int \<Rightarrow> int \<Rightarrow> zval option \<Rightarrow> zval option \<Rightarrow> 'w api" where
  "PHP_eio_sync_file_range env zfd offset nbytes flags pri zcb data s =
     with_init env s (\<lambda>s.
       with_fd env zfd s (\<lambda>fd s.
       with_cb env zcb data s (\<lambda>cb s.
         request env (eio_sync_file_range (ax_alloc env) fd offset (c_size nbytes) (c_uint flags) (c_int pri) (Some F_php_eio_res_cb) cb) s)))"

definition PHP_eio_fallocate ::
    "'w api_env \<Rightarrow> zval \<Rightarrow> int \<Rightarrow> int \<Rightarrow> int \<Rightarrow> int \<Rightarrow> zval option \<Rightarrow> zval option \<Rightarrow> 'w api" where
  "PHP_eio_fallocate env zfd mode offset len pri zcb data s =
     with_init env s (\<lambda>s.
       with_fd env zfd s (\<lambda>fd s.
       with_cb env zcb data s (\<lambda>cb s.
         request env (eio_fallocate (ax_alloc env) fd (c_int mode) offset (c_size len) (c_int pri) (Some F_php_eio_res_cb) cb) s)))"

definition PHP_eio_busy ::
    "'w api_env \<Rightarrow> int \<Rightarrow> int \<Rightarrow> zval option \<Rightarrow> zval option \<Rightarrow> 'w api" where
  "PHP_eio_busy env delay pri zcb data s =
     with_init env s (\<lambda>s.
       with_cb env zcb data s (\<lambda>cb s.
         request env (eio_busy (ax_alloc env) (of_int delay) (c_int pri) (Some F_php_eio_res_cb) cb) s))"

definition PHP_eio_nop ::
    "'w api_env \<Rightarrow> int \<Rightarrow> zval option \<Rightarrow> zval option \<Rightarrow> 'w api" where
  "PHP_eio_nop env pri zcb data s =
     with_init env s (\<lambda>s.
       with_cb env zcb data s (\<lambda>cb s.
         request env (eio_nop (ax_alloc env) (c_int pri) (Some F_php_eio_res_cb) cb) s))"

text \<open>
  \<open>eio_write\<close>: \<open>nargs\<close> is the number of arguments.  The comparison of \<open>length\<close> with the length of the
  string is one of unsigned 64-bit integers, \<open>num_bytes\<close> is an \<open>int\<close>.  The buffer is copied after the
  request has been handed over.
\<close>

definition write_num_bytes :: "nat \<Rightarrow> int \<Rightarrow> nat \<Rightarrow> int" where
  "write_num_bytes nargs len strlen =
     (let len = (if (of_nat strlen :: u64) < c_size len then int strlen else len)
      in if nargs = 2 \<or> len \<le> 0 then c_int (int strlen) else c_int len)"

definition PHP_eio_write ::
    "'w api_env \<Rightarrow> nat \<Rightarrow> zval \<Rightarrow> zval \<Rightarrow> int \<Rightarrow> int \<Rightarrow> int \<Rightarrow> zval option \<Rightarrow> zval option \<Rightarrow> 'w api" where
  "PHP_eio_write env nargs zfd zbuf len offset pri zcb data s =
     with_init env s (\<lambda>s.
       case zval_fd env zfd s of (fd, s) \<Rightarrow>
       if fd < 0 then Some (R_FALSE, warn s)
       else
         (let (buf, str) = ax_string env zbuf;
              num_bytes = write_num_bytes nargs len (length str)
          in if num_bytes = 0 then Some (R_FALSE, warn s)
             else with_cb env zcb data s (\<lambda>cb s.
               case sent env (eio_write (ax_alloc env) fd (MUser buf) (c_size num_bytes) offset (c_int pri)
                                (Some F_php_eio_res_cb) cb) s of (req, s) \<Rightarrow>
               case req of
                 None \<Rightarrow> None
               | Some a \<Rightarrow>
                   if num_bytes < 0 then Some (R_FATAL, s)
                   else
                     (let b = ax_buf_addr env (ap_s s); p = ap_s s in do {
                        p \<leftarrow> upd_rq a (\<lambda>r. r\<lparr>rq_ptr2 := MUser b\<rparr>)
                               (p\<lparr>ps_buf := (ps_buf p)(b \<mapsto> take (nat num_bytes) str)\<rparr>);
                        PHP_EIO_RET_REQ_RESOURCE env Le_eio_req (Some a) (s\<lparr>ap_s := p\<rparr>) }))))"

definition PHP_eio_custom ::
    "'w api_env \<Rightarrow> zval \<Rightarrow> int \<Rightarrow> zval option \<Rightarrow> zval option \<Rightarrow> 'w api" where
  "PHP_eio_custom env zcb_exec pri zcb data s =
     with_init env s (\<lambda>s. do {
       (cb, p) \<leftarrow> php_eio_new_eio_cb_custom (ax_php env) zcb (Some zcb_exec) data (ap_s s);
       request env (eio_custom (ax_alloc env) E_php_eio_custom_execute (c_int pri)
                      (Some F_php_eio_res_cb_custom) cb) (s\<lparr>ap_s := p\<rparr>) })"

definition PHP_eio_grp :: "'w api_env \<Rightarrow> zval option \<Rightarrow> zval option \<Rightarrow> 'w api" where
  "PHP_eio_grp env zcb data s =
     with_init env s (\<lambda>s.
       with_cb env zcb data s (\<lambda>cb s.
         case sent env (eio_grp (ax_alloc env) (Some F_php_eio_res_cb) cb) s of (req, s) \<Rightarrow>
         PHP_EIO_RET_REQ_RESOURCE env Le_eio_grp req s))"

section \<open>Functions on requests\<close>

text \<open>The request a resource stands for, or nothing.\<close>

definition with_req ::
    "nat \<Rightarrow> le \<Rightarrow> php_ret \<Rightarrow> 'w phpapi \<Rightarrow> (addr \<Rightarrow> 'w api) \<Rightarrow> (php_ret \<times> 'w phpapi) option" where
  "with_req i le bad s f = do {
     p \<leftarrow> php_eio_fetch_req i le (ps_h (ap_s s));
     (case p of None \<Rightarrow> Some (bad, s) | Some req \<Rightarrow> f req s) }"

definition on_reqs ::
    "(req_heap \<Rightarrow> req_heap option) \<Rightarrow> phpst \<Rightarrow> phpst option" where
  "on_reqs f p = map_option (\<lambda>R. p\<lparr>ps_h := (ps_h p)\<lparr>hs_reqs := R\<rparr>\<rparr>) (f (hs_reqs (ps_h p)))"

definition PHP_eio_get_last_error :: "'w api_env \<Rightarrow> nat \<Rightarrow> 'w api" where
  "PHP_eio_get_last_error env zreq s =
     with_req zreq Le_eio_req R_FALSE s (\<lambda>req s. do {
       r \<leftarrow> hs_reqs (ps_h (ap_s s)) req;
       Some (R_STR (ax_strerror env (rq_errorno r)), s) })"

text \<open>What \<open>eio_cancel\<close> does to the request and its callback object.\<close>

definition cancel_req :: "nat \<Rightarrow> addr \<Rightarrow> phpst \<Rightarrow> phpst option" where
  "cancel_req fuel req p = do {
     r \<leftarrow> hs_reqs (ps_h p) req;
     if rq_type r \<noteq> EIO_CUSTOM then do {
       p \<leftarrow> on_reqs (etp_cancel fuel req) p;
       r \<leftarrow> hs_reqs (ps_h p) req;
       p \<leftarrow> php_eio_free_eio_cb (rq_data r) p;
       upd_rq req (\<lambda>r. r\<lparr>rq_data := None\<rparr>) p }
     else do {
       locked \<leftarrow> EIO_CB_CUSTOM_IS_LOCKED (rq_data r) p;
       if \<not> locked then do {
         p \<leftarrow> on_reqs (etp_cancel fuel req) p;
         r \<leftarrow> hs_reqs (ps_h p) req;
         p \<leftarrow> php_eio_free_eio_cb_custom (rq_data r) p;
         upd_rq req (\<lambda>r. r\<lparr>rq_data := None\<rparr>) p }
       else Some p } }"

definition php_cancel :: "nat \<Rightarrow> nat \<Rightarrow> phpst \<Rightarrow> phpst option" where
  "php_cancel fuel zreq p = do {
     req \<leftarrow> php_eio_fetch_req zreq Le_eio_req (ps_h p);
     (case req of None \<Rightarrow> Some p | Some req \<Rightarrow> cancel_req fuel req p) }"

definition PHP_eio_cancel :: "'w api_env \<Rightarrow> nat \<Rightarrow> 'w api" where
  "PHP_eio_cancel env zreq s =
     map_option (\<lambda>p. (R_NULL, s\<lparr>ap_s := p\<rparr>)) (php_cancel (ax_fuel env) zreq (ap_s s))"

definition PHP_eio_grp_add :: "'w api_env \<Rightarrow> nat \<Rightarrow> nat \<Rightarrow> 'w api" where
  "PHP_eio_grp_add env zgrp zreq s =
     with_init env s (\<lambda>s.
       with_req zgrp Le_eio_grp R_NULL s (\<lambda>grp s.
       with_req zreq Le_eio_req R_NULL s (\<lambda>req s. do {
         p \<leftarrow> upd_rq grp (\<lambda>g. g\<lparr>rq_result := 0\<rparr>) (ap_s s);
         p \<leftarrow> on_reqs (eio_grp_add grp req) p;
         Some (R_NULL, s\<lparr>ap_s := p\<rparr>) })))"

text \<open>
  The extension never sets a feeder, so no callback is reached from \<open>eio_grp_limit\<close>; the pool it is given
  here has no other part than the requests.
\<close>

definition no_cbs :: "unit eio_cbs" where
  "no_cbs = \<lparr>cb_finish = (\<lambda>_ _ _. None), cb_destroy = (\<lambda>_ _ _. None), cb_feed = (\<lambda>_ _ _. None)\<rparr>"

definition PHP_eio_grp_limit :: "'w api_env \<Rightarrow> nat \<Rightarrow> int \<Rightarrow> 'w api" where
  "PHP_eio_grp_limit env zgrp limit s =
     with_init env s (\<lambda>s.
       with_req zgrp Le_eio_grp R_NULL s (\<lambda>grp s. do {
         p \<leftarrow> on_reqs (\<lambda>R. map_option p_heap
                (eio_grp_limit no_cbs (ax_fuel env) grp (c_int limit) ((eio_pool_bss ())\<lparr>p_heap := R\<rparr>))) (ap_s s);
         Some (R_NULL, s\<lparr>ap_s := p\<rparr>) }))"

definition PHP_eio_grp_cancel :: "'w api_env \<Rightarrow> nat \<Rightarrow> 'w api" where
  "PHP_eio_grp_cancel env zgrp s =
     with_init env s (\<lambda>s.
       with_req zgrp Le_eio_grp R_NULL s (\<lambda>grp s. do {
         p \<leftarrow> upd_rq grp (\<lambda>g. g\<lparr>rq_result := -1\<rparr>) (ap_s s);
         p \<leftarrow> on_reqs (etp_grp_cancel (ax_fuel env) grp) p;
         Some (R_NULL, s\<lparr>ap_s := p\<rparr>) }))"

section \<open>Functions on the pool\<close>

definition PHP_eio_set_max_poll_time :: "rat \<Rightarrow> 'io etp_pool \<Rightarrow> php_ret \<times> 'io etp_pool" where
  "PHP_eio_set_max_poll_time nseconds p = (R_NULL, etp_set_max_poll_time p nseconds)"

definition PHP_eio_set_max_poll_reqs :: "int \<Rightarrow> 'io etp_pool \<Rightarrow> php_ret \<times> 'io etp_pool" where
  "PHP_eio_set_max_poll_reqs num p = (R_NULL, etp_set_max_poll_reqs p (word_of_int num))"

definition PHP_eio_set_min_parallel :: "int \<Rightarrow> 'io etp_pool \<Rightarrow> php_ret \<times> 'io etp_pool" where
  "PHP_eio_set_min_parallel num p = (R_NULL, etp_set_min_parallel p (word_of_int num))"

definition PHP_eio_set_max_parallel ::
    "(req_heap \<Rightarrow> addr) \<Rightarrow> int \<Rightarrow> 'io etp_pool \<Rightarrow> (php_ret \<times> 'io etp_pool) option" where
  "PHP_eio_set_max_parallel alloc num p =
     map_option (\<lambda>p. (R_NULL, p)) (etp_set_max_parallel alloc p (word_of_int num))"

definition PHP_eio_set_max_idle :: "int \<Rightarrow> 'io etp_pool \<Rightarrow> php_ret \<times> 'io etp_pool" where
  "PHP_eio_set_max_idle num p = (R_NULL, etp_set_max_idle p (word_of_int num))"

definition PHP_eio_nthreads :: "'io etp_pool \<Rightarrow> php_ret" where
  "PHP_eio_nthreads p = R_LONG (uint (etp_nthreads p))"
definition PHP_eio_nreqs :: "'io etp_pool \<Rightarrow> php_ret" where
  "PHP_eio_nreqs p = R_LONG (uint (etp_nreqs p))"
definition PHP_eio_nready :: "'io etp_pool \<Rightarrow> php_ret" where
  "PHP_eio_nready p = R_LONG (uint (etp_nready p))"
definition PHP_eio_npending :: "'io etp_pool \<Rightarrow> php_ret" where
  "PHP_eio_npending p = R_LONG (uint (etp_npending p))"

text \<open>\<open>eio_poll\<close> and \<open>eio_event_loop\<close>; \<open>poll_round\<close> is \<open>eio_poll\<close> of the library.\<close>

definition PHP_eio_poll ::
    "('io etp_pool \<Rightarrow> (int \<times> 'io etp_pool) option) \<Rightarrow> 'io etp_pool \<Rightarrow> (php_ret \<times> 'io etp_pool) option" where
  "PHP_eio_poll poll_round p = map_option (\<lambda>(r, p). (R_LONG r, p)) (poll_round p)"

definition PHP_eio_event_loop ::
    "'w evkern \<Rightarrow> ('w modst etp_pool \<Rightarrow> (int \<times> 'w modst etp_pool) option) \<Rightarrow> 'w modst etp_pool \<Rightarrow>
     (php_ret \<times> 'w modst etp_pool) option" where
  "PHP_eio_event_loop k poll_round p = map_option (\<lambda>p. (R_TRUE, p)) (php_eio_event_loop k poll_round p)"

text \<open>\<open>open_fd\<close> is \<open>php_stream_fopen_from_fd\<close>.\<close>

definition PHP_eio_get_event_stream :: "(int \<Rightarrow> nat option) \<Rightarrow> 'w modst \<Rightarrow> php_ret" where
  "PHP_eio_get_event_stream open_fd m =
     (case open_fd (pp_fd0 (mo_pipe m)) of Some i \<Rightarrow> R_RES i | None \<Rightarrow> R_NULL)"

section \<open>The module\<close>

text \<open>The constants \<open>PHP_MINIT_FUNCTION(eio)\<close> registers, with the values of Linux.\<close>

definition minit_constants :: "(string \<times> int) list" where
  "minit_constants =
     [(''EIO_SEEK_SET'', 0), (''EIO_SEEK_CUR'', 1), (''EIO_SEEK_END'', 2),
      (''EIO_PRI_MIN'', EIO_PRI_MIN), (''EIO_PRI_DEFAULT'', EIO_PRI_DEFAULT), (''EIO_PRI_MAX'', EIO_PRI_MAX),
      (''EIO_READDIR_DENTS'', EIO_READDIR_DENTS), (''EIO_READDIR_DIRS_FIRST'', EIO_READDIR_DIRS_FIRST),
      (''EIO_READDIR_STAT_ORDER'', EIO_READDIR_STAT_ORDER),
      (''EIO_READDIR_FOUND_UNKNOWN'', EIO_READDIR_FOUND_UNKNOWN),
      (''EIO_DT_UNKNOWN'', 0), (''EIO_DT_FIFO'', 1), (''EIO_DT_CHR'', 2), (''EIO_DT_MPC'', 3),
      (''EIO_DT_DIR'', 4), (''EIO_DT_NAM'', 5), (''EIO_DT_BLK'', 6), (''EIO_DT_MPB'', 7),
      (''EIO_DT_REG'', 8), (''EIO_DT_NWK'', 9), (''EIO_DT_CMP'', 9), (''EIO_DT_LNK'', 10),
      (''EIO_DT_SOCK'', 12), (''EIO_DT_DOOR'', 13), (''EIO_DT_WHT'', 14), (''EIO_DT_MAX'', 15),
      (''EIO_O_RDONLY'', 0), (''EIO_O_WRONLY'', 1), (''EIO_O_RDWR'', 2), (''EIO_O_NONBLOCK'', 0x800),
      (''EIO_O_APPEND'', 0x400), (''EIO_O_CREAT'', 0x40), (''EIO_O_TRUNC'', 0x200), (''EIO_O_EXCL'', 0x80),
      (''EIO_O_FSYNC'', 0x101000),
      (''EIO_S_IRUSR'', 0x100), (''EIO_S_IWUSR'', 0x80), (''EIO_S_IXUSR'', 0x40),
      (''EIO_S_IRGRP'', 0x20), (''EIO_S_IWGRP'', 0x10), (''EIO_S_IXGRP'', 0x08),
      (''EIO_S_IROTH'', 0x04), (''EIO_S_IWOTH'', 0x02), (''EIO_S_IXOTH'', 0x01),
      (''EIO_S_IFREG'', 0x8000), (''EIO_S_IFCHR'', 0x2000), (''EIO_S_IFBLK'', 0x6000),
      (''EIO_S_IFIFO'', 0x1000), (''EIO_S_IFSOCK'', 0xC000),
      (''EIO_SYNC_FILE_RANGE_WAIT_BEFORE'', 1), (''EIO_SYNC_FILE_RANGE_WRITE'', 2),
      (''EIO_SYNC_FILE_RANGE_WAIT_AFTER'', 4), (''EIO_FALLOC_FL_KEEP_SIZE'', 1)]"

text \<open>The table of handles is made, the descriptor set up, and the constants are registered.\<close>

definition PHP_MINIT :: "'w api_env \<Rightarrow> 'w phpapi \<Rightarrow> bool \<times> (string \<times> int) list \<times> 'w phpapi" where
  "PHP_MINIT env s =
     (let p = ap_s s; h = ps_h p;
          s = s\<lparr>ap_s := p\<lparr>ps_h := h\<lparr>hs_table := [], hs_ready := True\<rparr>\<rparr>\<rparr>
      in case PHP_EIO_IS_INIT (ax_cf env) (ax_kern env) (ap_mod s) of (fatal, m) \<Rightarrow>
           (fatal, minit_constants, s\<lparr>ap_mod := m\<rparr>))"

definition PHP_MSHUTDOWN :: "'w api_env \<Rightarrow> 'w phpapi \<Rightarrow> 'w phpapi option" where
  "PHP_MSHUTDOWN env s =
     (let s = s\<lparr>ap_mod := mshutdown_pipe (ax_kern env) (ap_mod s)\<rparr>
      in map_option (\<lambda>h. s\<lparr>ap_s := (ap_s s)\<lparr>ps_h := h\<rparr>\<rparr>) (mshutdown_handles (ps_h (ap_s s))))"

text \<open>The handler the fork of a process runs in the child.\<close>

definition php_eio_atfork_child :: "'w api_env \<Rightarrow> 'w phpapi \<Rightarrow> (bool \<times> 'w phpapi) option" where
  "php_eio_atfork_child env s = do {
     h \<leftarrow> php_eio_handles_reset (ps_h (ap_s s));
     (case php_eio_init (ax_cf env) (ax_kern env) (ap_mod s) of (fatal, m) \<Rightarrow>
        Some (fatal, s\<lparr>ap_s := (ap_s s)\<lparr>ps_h := h\<rparr>, ap_mod := m\<rparr>)) }"

text \<open>The end of a script: the workers are told to stop; the wait of 10 ms changes nothing here.\<close>

definition PHP_RSHUTDOWN :: "(req_heap \<Rightarrow> addr) \<Rightarrow> 'io etp_pool \<Rightarrow> 'io etp_pool option" where
  "PHP_RSHUTDOWN alloc p = etp_set_max_parallel alloc p 0"

section \<open>Calls that succeed\<close>

text \<open>
  The module is up, memory is there, and the allocators answer with free addresses.
\<close>

definition api_ready :: "'w api_env \<Rightarrow> 'w phpapi \<Rightarrow> bool" where
  "api_ready env s \<longleftrightarrow>
     0 < mo_pid (ap_mod s) \<and> pp_len (mo_pipe (ap_mod s)) \<noteq> 0 \<and> ax_alloc env = all_ok \<and>
     hgood (ps_h (ap_s s)) \<and> hs_ready (ps_h (ap_s s)) \<and> open_res (ps_h (ap_s s)) < 2 ^ 32 - 2 \<and>
     (\<forall>p. ps_h p = ps_h (ap_s s) \<longrightarrow> hs_reqs (ps_h p) (ax_req_addr env p) = None) \<and>
     (\<forall>p. hs_handles (ps_h p) = hs_handles (ps_h (ap_s s)) \<longrightarrow>
        hs_handles (ps_h p) (pe_handle_addr (ax_php env) p) = None)"

text \<open>One request was handed over, \<open>r\<close> up to its destroy callback.\<close>

definition made :: "'w phpapi \<Rightarrow> 'w phpapi \<Rightarrow> eio_req \<Rightarrow> bool" where
  "made s s' r \<longleftrightarrow> (\<exists>a q. ap_sent s' = ap_sent s @ [a] \<and> hs_reqs (ps_h (ap_s s')) a = Some q \<and>
     q\<lparr>rq_destroy := None\<rparr> = r\<lparr>rq_destroy := None\<rparr>)"

text \<open>Resource \<open>i\<close> stands for the request handed over last, as a request and not as a group.\<close>

definition names_sent :: "'w phpapi \<Rightarrow> nat \<Rightarrow> bool" where
  "names_sent s i \<longleftrightarrow>
     php_eio_fetch_req i Le_eio_req (ps_h (ap_s s)) = Some (Some (last (ap_sent s))) \<and>
     php_eio_fetch_req i Le_eio_grp (ps_h (ap_s s)) = Some None"

text \<open>What a function that makes a request does, once its callback object is there.\<close>

lemma sent_full:
  assumes ready: "api_ready env s" and w: "w = Sent r" "rq_destroy r = Some D_eio_api_destroy"
    and le: "le \<noteq> Le_closed"
  shows "\<exists>i h. (case sent env w s of (req, s) \<Rightarrow> PHP_EIO_RET_REQ_RESOURCE env le req s) =
      Some (R_RES i, s\<lparr>ap_s := (ap_s s)\<lparr>ps_h := h, ps_rc := (ps_rc (ap_s s))(RRes i := 1)\<rparr>,
                       ap_sent := ap_sent s @ [ax_req_addr env (ap_s s)]\<rparr>) \<and>
    hgood h \<and> hs_ready h \<and> open_res h = Suc (open_res (ps_h (ap_s s))) \<and>
    (finite (dom (hs_handles (ps_h (ap_s s)))) \<longrightarrow> finite (dom (hs_handles h))) \<and>
    (\<forall>le'. php_eio_fetch_req i le' h = Some (if le' = le then Some (ax_req_addr env (ap_s s)) else None)) \<and>
    (\<forall>x. no_dest (hs_reqs h x) = no_dest (((hs_reqs (ps_h (ap_s s)))(ax_req_addr env (ap_s s) \<mapsto> r)) x))"
proof -
  let ?p = "ap_s s" and ?a = "ax_req_addr env (ap_s s)"
  let ?p1 = "?p\<lparr>ps_h := (ps_h ?p)\<lparr>hs_reqs := (hs_reqs (ps_h ?p))(?a \<mapsto> r)\<rparr>\<rparr>"
  have fresh: "hs_reqs (ps_h ?p) ?a = None" and g: "hgood (ps_h ?p)" and up: "hs_ready (ps_h ?p)"
    using ready by (simp_all add: api_ready_def)
  then obtain h1 where h1: "Handles.run (Create ?a r) (ps_h ?p) = Some h1" "hgood h1"
    using run_Create [of "ps_h ?p" ?a r] w(2) by auto
  then have g1: "hgood (ps_h ?p1)" by simp
  have en: "enabled (Register (pe_handle_addr (ax_php env) ?p1) ?a le) (ps_h ?p1)"
    using ready le by (simp add: api_ready_def open_res_def)
  from register_res_ok [OF g1 en] obtain i h' where reg:
    "register_res (ax_php env) ?a le ?p1 = Some (i, ?p1\<lparr>ps_h := h', ps_rc := (ps_rc ?p1)(RRes i := 1)\<rparr>)"
    and h': "hgood h'" "i < length (hs_res h')" "php_eio_fetch_req i le h' = Some (Some ?a)"
    and same: "\<And>x. no_dest (hs_reqs h' x) = no_dest (hs_reqs (ps_h ?p1) x)" unfolding no_dest_def by blast
  have ty: "php_eio_fetch_req i le' h' = Some (if le' = le then Some ?a else None)" for le'
    using h'(2,3) by (auto simp: php_eio_fetch_req_def zend_fetch_resource_def split: if_splits)
  note fr = register_res_frame [OF reg, simplified]
  have "finite (dom (hs_handles h'))" if "finite (dom (hs_handles (ps_h ?p)))"
    using fr that by (meson finite_insert finite_subset)
  then show ?thesis
    using reg w(1) h' ty same fr up
    by (intro exI [of _ i] exI [of _ h'])
       (simp add: sent_def PHP_EIO_RET_REQ_RESOURCE_def Let_def open_res_def)
qed

lemma sent_ok:
  assumes ready: "api_ready env s" and w: "w = Sent r" "rq_destroy r = Some D_eio_api_destroy"
    and le: "le \<noteq> Le_closed"
  shows "\<exists>i s'. (case sent env w s of (req, s) \<Rightarrow> PHP_EIO_RET_REQ_RESOURCE env le req s) = Some (R_RES i, s') \<and>
    made s s' r \<and> hgood (ps_h (ap_s s')) \<and> ps_exc (ap_s s') = ps_exc (ap_s s) \<and>
    (\<forall>le'. php_eio_fetch_req i le' (ps_h (ap_s s')) = Some (if le' = le then Some (last (ap_sent s')) else None))"
proof -
  let ?a = "ax_req_addr env (ap_s s)"
  obtain i h where *: "(case sent env w s of (req, s) \<Rightarrow> PHP_EIO_RET_REQ_RESOURCE env le req s) =
      Some (R_RES i, s\<lparr>ap_s := (ap_s s)\<lparr>ps_h := h, ps_rc := (ps_rc (ap_s s))(RRes i := 1)\<rparr>, ap_sent := ap_sent s @ [?a]\<rparr>)"
    "hgood h" "\<And>le'. php_eio_fetch_req i le' h = Some (if le' = le then Some ?a else None)"
    "\<And>x. no_dest (hs_reqs h x) = no_dest (((hs_reqs (ps_h (ap_s s)))(?a \<mapsto> r)) x)"
    using sent_full [OF assms] by blast
  obtain q where "hs_reqs h ?a = Some q" "q\<lparr>rq_destroy := None\<rparr> = r\<lparr>rq_destroy := None\<rparr>"
    using *(4) [of ?a] by (auto simp: no_dest_def)
  then show ?thesis using * by (auto simp: made_def)
qed

lemma request_ok:
  assumes "api_ready env s" "w = Sent r" "rq_destroy r = Some D_eio_api_destroy"
  shows "\<exists>i s'. request env w s = Some (R_RES i, s') \<and> made s s' r \<and> names_sent s' i \<and>
    hgood (ps_h (ap_s s')) \<and> ps_exc (ap_s s') = ps_exc (ap_s s)"
  using sent_ok [OF assms, of Le_eio_req] by (auto simp: request_def names_sent_def)

lemma import_func_info_h: "ps_h (snd (php_eio_import_func_info env zcb s)) = ps_h s"
  by (auto simp: php_eio_import_func_info_def zval_addref_def Let_def split: option.splits prod.splits zval.splits)

lemma new_eio_cb_h: "ps_h (snd (php_eio_new_eio_cb env cb data s)) = ps_h s"
proof -
  let ?s0 = "s\<lparr>ps_cb := (ps_cb s)(pe_cb_addr env s \<mapsto> \<lparr>cb_func = func_info0, cb_arg = Z_UNDEF\<rparr>)\<rparr>"
  show ?thesis using import_func_info_h [of env cb ?s0]
    by (auto simp: php_eio_new_eio_cb_def copy_arg_def zval_addref_def Let_def split: option.splits prod.splits)
qed

lemma api_ready_cong:
  "api_ready env s \<Longrightarrow> ps_h p = ps_h (ap_s s) \<Longrightarrow> api_ready env (s\<lparr>ap_s := p\<rparr>)"
  by (simp add: api_ready_def)

lemma api_call_ok:
  assumes ready: "api_ready env s" and w: "\<And>cb. w cb = Sent (r cb)" "\<And>cb. rq_destroy (r cb) = Some D_eio_api_destroy"
  shows "\<exists>i s' cb. with_cb env zcb data s (\<lambda>cb s. request env (w cb) s) = Some (R_RES i, s') \<and>
    cb = fst (php_eio_new_eio_cb (ax_php env) zcb data (ap_s s)) \<and> made s s' (r cb) \<and> names_sent s' i \<and>
    hgood (ps_h (ap_s s')) \<and>
    ps_exc (ap_s s') = ps_exc (snd (php_eio_new_eio_cb (ax_php env) zcb data (ap_s s)))"
proof -
  obtain cb p where n: "php_eio_new_eio_cb (ax_php env) zcb data (ap_s s) = (cb, p)" by fastforce
  then have "api_ready env (s\<lparr>ap_s := p\<rparr>)"
    using ready new_eio_cb_h [of "ax_php env" zcb data "ap_s s"] by (intro api_ready_cong) simp_all
  from request_ok [OF this w] n show ?thesis
    by (fastforce simp: with_cb_def made_def)
qed

lemma with_init_ready: "api_ready env s \<Longrightarrow> with_init env s f = f s"
  by (simp add: with_init_def api_ready_def PHP_EIO_IS_INIT_def)

lemma c_string_id: "NUL \<notin> set path \<Longrightarrow> c_string path = path"
  by (auto simp: c_string_def takeWhile_eq_all_conv)

lemma good_path: "NUL \<notin> set path \<Longrightarrow> bad_path_len path = False"
  by (simp add: bad_path_len_def c_string_id)

text \<open>The PHP function hands over a request that performs the system call.\<close>

definition reaches ::
    "'x exec_env \<Rightarrow> 'x os \<Rightarrow> 'w phpapi \<Rightarrow> (php_ret \<times> 'w phpapi) option \<Rightarrow> syscall \<Rightarrow> bool" where
  "reaches xe os s out c \<longleftrightarrow> (\<exists>i s' r. out = Some (R_RES i, s') \<and> made s s' r \<and> performs xe os (Sent r) c)"

lemma reachesI:
  assumes "api_ready env s" "\<And>cb. performs xe os (w cb) c" "\<And>cb r. w cb = Sent r \<Longrightarrow> rq_destroy r = Some D_eio_api_destroy"
  shows "reaches xe os s (with_cb env zcb data s (\<lambda>cb s. request env (w cb) s)) c"
proof -
  define r where "r cb = (case w cb of Sent r \<Rightarrow> r | _ \<Rightarrow> undefined)" for cb
  have w: "w cb = Sent (r cb)" for cb
    using assms(2) [of cb] by (auto simp: r_def performs_def split: wrap_res.splits)
  from api_call_ok [of env s w r, OF assms(1) w assms(3) [OF w]] show ?thesis
    unfolding reaches_def using assms(2) w by metis
qed

section \<open>Properties\<close>

lemma wrapper_destroy:
  "eio_open al path n m pri fin cb = Sent r \<Longrightarrow> rq_destroy r = Some D_eio_api_destroy"
  "eio_rename al path path2 pri fin cb = Sent r \<Longrightarrow> rq_destroy r = Some D_eio_api_destroy"
  "eio_link al path path2 pri fin cb = Sent r \<Longrightarrow> rq_destroy r = Some D_eio_api_destroy"
  "eio_symlink al path path2 pri fin cb = Sent r \<Longrightarrow> rq_destroy r = Some D_eio_api_destroy"
  "eio_mkdir al path m pri fin cb = Sent r \<Longrightarrow> rq_destroy r = Some D_eio_api_destroy"
  "eio_chmod al path m pri fin cb = Sent r \<Longrightarrow> rq_destroy r = Some D_eio_api_destroy"
  "eio_mknod al path m dev pri fin cb = Sent r \<Longrightarrow> rq_destroy r = Some D_eio_api_destroy"
  "eio_rmdir al path pri fin cb = Sent r \<Longrightarrow> rq_destroy r = Some D_eio_api_destroy"
  "eio_unlink al path pri fin cb = Sent r \<Longrightarrow> rq_destroy r = Some D_eio_api_destroy"
  "eio_close al fd pri fin cb = Sent r \<Longrightarrow> rq_destroy r = Some D_eio_api_destroy"
  "eio_dup2 al fd fd2 pri fin cb = Sent r \<Longrightarrow> rq_destroy r = Some D_eio_api_destroy"
  "eio_ftruncate al fd n pri fin cb = Sent r \<Longrightarrow> rq_destroy r = Some D_eio_api_destroy"
  by (auto simp: eio_open_def eio_rename_def eio_link_def eio_symlink_def eio_mkdir_def eio_chmod_def eio_mknod_def
      eio_rmdir_def eio_unlink_def eio_close_def eio_dup2_def eio_ftruncate_def eio__1path_def eio__2path_def
      REQ_def PATH_def Let_def split: if_splits)

lemma nul_shortens: "NUL \<in> set path \<Longrightarrow> length (c_string path) < length path"
  by (induction path) (auto simp: c_string_def)

lemma api_ready_alloc: "api_ready env s \<Longrightarrow> ax_alloc env = all_ok"
  by (simp add: api_ready_def)

text \<open>
  C16: a call of a script on paths without NUL bytes, or on a descriptor, hands over one request, and
  executing it is the system call of that name on the arguments of the script: the default mode is
  put in, a negative length is cut to 0, and integers are narrowed to the types of C.
\<close>

theorem script_calls_reach_system:
  assumes ready: "api_ready env s" and path: "NUL \<notin> set path" "NUL \<notin> set path2"
    and fd: "zval_fd env zfd s = (fd, s)" "0 \<le> fd"
  shows "reaches xe os s (PHP_eio_open env path flags mode pri zcb data s)
           (S_openat AT_FDCWD (MBytes path) (c_int flags) (c_uint (if mode = 0 then 0x1A4 else mode))) \<and>
     reaches xe os s (PHP_eio_rename env path path2 pri zcb data s)
       (S_renameat2 AT_FDCWD (MBytes path) AT_FDCWD (MBytes path2) 0) \<and>
     reaches xe os s (PHP_eio_link env path path2 pri zcb data s)
       (S_linkat AT_FDCWD (MBytes path) AT_FDCWD (MBytes path2) 0) \<and>
     reaches xe os s (PHP_eio_symlink env path path2 pri zcb data s)
       (S_symlinkat (MBytes path) AT_FDCWD (MBytes path2)) \<and>
     reaches xe os s (PHP_eio_mkdir env path mode pri zcb data s) (S_mkdirat AT_FDCWD (MBytes path) (c_uint mode)) \<and>
     reaches xe os s (PHP_eio_chmod env path mode pri zcb data s) (S_fchmodat AT_FDCWD (MBytes path) (c_uint mode) 0) \<and>
     reaches xe os s (PHP_eio_mknod env path mode dev pri zcb data s)
       (S_mknodat AT_FDCWD (MBytes path) (c_uint mode) dev) \<and>
     reaches xe os s (PHP_eio_rmdir env path pri zcb data s) (S_unlinkat AT_FDCWD (MBytes path) AT_REMOVEDIR) \<and>
     (ax_access env path \<longrightarrow>
       reaches xe os s (PHP_eio_unlink env path pri zcb data s) (S_unlinkat AT_FDCWD (MBytes path) 0)) \<and>
     reaches xe os s (PHP_eio_close env zfd pri zcb data s) (S_close fd) \<and>
     reaches xe os s (PHP_eio_ftruncate env zfd offset pri zcb data s) (S_ftruncate fd (max 0 offset))"
proof -
  have "(fd < 0) = False" using fd(2) by simp
  note defs = with_init_ready [OF ready] api_ready_alloc [OF ready] good_path [OF path(1)] good_path [OF path(2)]
    c_string_id [OF path(1)] c_string_id [OF path(2)] with_fd_def fd(1) prod.case this if_False
  have m: "default_mode = 0x1A4" by (simp add: default_mode_def)
  have clamp: "(if offset < 0 then 0 else offset) = max 0 offset" by simp
  show ?thesis
    unfolding PHP_eio_open_def PHP_eio_rename_def PHP_eio_link_def PHP_eio_symlink_def PHP_eio_mkdir_def
      PHP_eio_chmod_def PHP_eio_mknod_def PHP_eio_rmdir_def PHP_eio_unlink_def PHP_eio_close_def
      PHP_eio_ftruncate_def clamp m
    by (simp only: defs not_True_eq_False cong: imp_cong, intro conjI impI)
       ((rule reachesI [OF ready], (rule fd_wrappers path_wrappers)+, erule wrapper_destroy)+)
qed

text \<open>
  A path with a NUL byte is refused by the functions that check it: the call returns false, no
  request is handed over, and nothing else changes but the state of the module.
\<close>

theorem nul_path_refused:
  assumes "NUL \<in> set path" "api_ready env s"
  shows "PHP_eio_open env path flags mode pri zcb data s = Some (R_FALSE, s) \<and>
     PHP_eio_rmdir env path pri zcb data s = Some (R_FALSE, s) \<and>
     PHP_eio_rename env other path pri zcb data s = Some (R_FALSE, s) \<and>
     PHP_eio_link env other path pri zcb data s = Some (R_FALSE, s) \<and>
     PHP_eio_symlink env other path pri zcb data s = Some (R_FALSE, s) \<and>
     PHP_eio_mknod env path mode dev pri zcb data s = Some (R_FALSE, s) \<and>
     PHP_eio_stat env path pri zcb data s = Some (R_FALSE, s) \<and>
     PHP_eio_realpath env path pri zcb data s = Some (R_FALSE, s)"
proof -
  have bad: "bad_path_len path = True"
    using assms(1) nul_shortens [of path] by (simp add: bad_path_len_def)
  show ?thesis
    unfolding PHP_eio_open_def PHP_eio_rmdir_def PHP_eio_rename_def PHP_eio_link_def PHP_eio_symlink_def
      PHP_eio_mknod_def PHP_eio_stat_def PHP_eio_realpath_def
    by (simp add: with_init_ready [OF assms(2)] bad)
qed

text \<open>
  C30: a callback that is not callable throws an exception, but the request is handed over all the same:
  here the file is unlinked although the call has failed for the script.
\<close>

theorem invalid_callback_still_sent:
  assumes ready: "api_ready env s" and bad: "pe_callable (ax_php env) z = (None, e)"
    and path: "NUL \<notin> set path" "ax_access env path"
  shows "\<exists>i s' r. PHP_eio_unlink env path pri (Some z) data s = Some (R_RES i, s') \<and> ps_exc (ap_s s') \<and>
    made s s' r \<and> rq_data r = None \<and> performs xe os (Sent r) (S_unlinkat AT_FDCWD (MBytes path) 0)"
proof -
  let ?w = "eio_unlink all_ok path (c_int pri) (Some F_php_eio_res_cb)"
  have new: "\<exists>p. php_eio_new_eio_cb (ax_php env) (Some z) data (ap_s s) = (None, p) \<and> ps_exc p"
    using bad by (simp add: php_eio_new_eio_cb_def php_eio_import_func_info_def Let_def)
  define r where "r cb = (case ?w cb of Sent r \<Rightarrow> r | _ \<Rightarrow> undefined)" for cb
  have w: "?w cb = Sent (r cb)" for cb
    using path_wrappers(6) [of _ _ path "c_int pri" "Some F_php_eio_res_cb" cb]
    by (auto simp: r_def performs_def split: wrap_res.splits)
  have "rq_data (r None) = None"
    using arg_cong [OF w [of None], of "case_wrap_res rq_data (\<lambda>_. None)"]
    by (simp add: eio_unlink_def eio__1path_def REQ_def PATH_def all_ok_def Let_def)
  moreover have "performs xe os (Sent (r None)) (S_unlinkat AT_FDCWD (MBytes path) 0)"
    unfolding w [symmetric] by (rule path_wrappers)
  moreover have "PHP_eio_unlink env path pri (Some z) data s =
      with_cb env (Some z) data s (\<lambda>cb s. request env (?w cb) s)"
    using path unfolding PHP_eio_unlink_def
    by (simp add: with_init_ready [OF ready] c_string_id api_ready_alloc [OF ready])
  ultimately show ?thesis
    using api_call_ok [of env s ?w r "Some z" data, OF ready w wrapper_destroy(9) [OF w]] new
    by fastforce
qed

text \<open>
  \<open>eio_write\<close> asks for at least one and at most all bytes of the string, those of the \<open>length\<close>
  argument when it is given, positive and not too long; this holds for strings below 2 GB.
\<close>

theorem write_num_bytes_bounds:
  assumes "strlen < 2 ^ 31" "- (2 ^ 63) \<le> len" "len < 2 ^ 63"
  shows "write_num_bytes nargs len strlen =
    (if nargs = 2 \<or> len \<le> 0 \<or> int strlen < len then int strlen else len)"
proof -
  have id: "c_int n = n" if "0 \<le> n" "n \<le> int strlen" for n
    using that assms(1) by (intro c_int_id) auto
  have u: "uint (of_nat strlen :: u64) = int strlen"
    using assms(1) by (simp add: unsigned_of_nat take_bit_nat_eq_self)
  show ?thesis
  proof (cases "0 < len")
    case True
    then have "uint (c_size len) = len"
      using assms(3) by (simp add: c_size_def uint_word_of_int_eq take_bit_int_eq_self)
    then have "(of_nat strlen :: u64) < c_size len \<longleftrightarrow> int strlen < len"
      unfolding word_less_def using u by simp
    then show ?thesis using True id [of len] id [of "int strlen"] by (auto simp: write_num_bytes_def Let_def)
  next
    case False
    then show ?thesis using id [of "int strlen"] by (auto simp: write_num_bytes_def Let_def)
  qed
qed

text \<open>
  C27: the resource a call returns is typed: it stands for the request just handed over, and not for a
  group, while the resource of \<open>eio_grp\<close> cannot be used as a request.
\<close>

theorem returned_resource_typed:
  assumes "api_ready env s"
  shows "(\<exists>i s'. PHP_eio_nop env pri zcb data s = Some (R_RES i, s') \<and> names_sent s' i) \<and>
    (\<exists>i s'. PHP_eio_grp env zcb data s = Some (R_RES i, s') \<and>
       php_eio_fetch_req i Le_eio_grp (ps_h (ap_s s')) = Some (Some (last (ap_sent s'))) \<and>
       php_eio_fetch_req i Le_eio_req (ps_h (ap_s s')) = Some None)"
proof -
  let ?w = "eio_nop all_ok (c_int pri) (Some F_php_eio_res_cb)" and ?g = "eio_grp all_ok (Some F_php_eio_res_cb)"
  have w: "?w cb = Sent (calloc_req\<lparr>rq_type := EIO_NOP, rq_pri := of_int (c_int pri),
      rq_finish := Some F_php_eio_res_cb, rq_data := cb, rq_destroy := Some D_eio_api_destroy\<rparr>)" for cb
    by (simp add: eio_nop_def REQ_def all_ok_def)
  have g: "?g cb = Sent (calloc_req\<lparr>rq_type := EIO_GROUP, rq_pri := of_int EIO_PRI_MAX,
      rq_finish := Some F_php_eio_res_cb, rq_data := cb, rq_destroy := Some D_eio_api_destroy\<rparr>)" for cb
    by (simp add: eio_grp_def REQ_def all_ok_def Let_def)
  have "\<exists>i s'. PHP_eio_nop env pri zcb data s = Some (R_RES i, s') \<and> names_sent s' i"
    using api_call_ok [of env s ?w _ zcb data, OF assms w]
    by (fastforce simp: PHP_eio_nop_def with_init_ready [OF assms] api_ready_alloc [OF assms])
  moreover obtain cb p where n: "php_eio_new_eio_cb (ax_php env) zcb data (ap_s s) = (cb, p)" by fastforce
  then have r: "api_ready env (s\<lparr>ap_s := p\<rparr>)"
    using assms new_eio_cb_h [of "ax_php env" zcb data "ap_s s"] by (intro api_ready_cong) simp_all
  have "\<exists>i s'. PHP_eio_grp env zcb data s = Some (R_RES i, s') \<and>
       php_eio_fetch_req i Le_eio_grp (ps_h (ap_s s')) = Some (Some (last (ap_sent s'))) \<and>
       php_eio_fetch_req i Le_eio_req (ps_h (ap_s s')) = Some None"
    using sent_ok [OF r g [of cb], of Le_eio_grp] n
    by (auto simp: PHP_eio_grp_def with_init_ready [OF assms] api_ready_alloc [OF assms] with_cb_def)
  ultimately show ?thesis by blast
qed


section \<open>Cancelling from within the callback\<close>

text \<open>An engine whose user functions call \<open>eio_cancel\<close> with the request they are given.\<close>

definition cancelling :: "nat \<Rightarrow> php_env \<Rightarrow> php_env" where
  "cancelling fuel env = env\<lparr>pe_call := (\<lambda>f obj params s.
     (case params ! 2 of
        Z_RES i \<Rightarrow> map_option (\<lambda>s. (Z_NULL, s)) (php_cancel fuel i s)
      | _ \<Rightarrow> Some (Z_NULL, s)))\<rparr>"

definition quiet :: "php_env \<Rightarrow> php_env" where
  "quiet env = env\<lparr>pe_call := (\<lambda>f obj params s. Some (Z_NULL, s))\<rparr>"

lemma free_eio_cb_frees: "php_eio_free_eio_cb (Some a) p = Some p' \<Longrightarrow> ps_cb p' a = None"
  by (auto simp: php_eio_free_eio_cb_def split: Option.bind_splits)

lemma cancel_frees:
  assumes "cancel_req fuel req p = Some p'" "hs_reqs (ps_h p) req = Some r" "rq_type r \<noteq> EIO_CUSTOM"
    and keep: "\<And>h. etp_cancel fuel req (hs_reqs (ps_h p)) = Some h \<Longrightarrow> map_option rq_data (h req) = Some (Some a)"
  shows "ps_cb p' a = None"
proof -
  obtain h q p1 where "etp_cancel fuel req (hs_reqs (ps_h p)) = Some h" "h req = Some q"
    "php_eio_free_eio_cb (rq_data q) (p\<lparr>ps_h := (ps_h p)\<lparr>hs_reqs := h\<rparr>\<rparr>) = Some p1"
    "upd_rq req (\<lambda>r. r\<lparr>rq_data := None\<rparr>) p1 = Some p'"
    using assms(1-3) by (auto simp: cancel_req_def on_reqs_def split: Option.bind_splits)
  moreover from this have "rq_data q = Some a" using keep by fastforce
  ultimately show ?thesis
    using free_eio_cb_frees by (auto simp: upd_rq_def)
qed

lemma result_arg_env: "result_arg (env\<lparr>pe_call := c\<rparr>) req s = result_arg env req s"
  unfolding result_arg_def by (simp cong: eio_type.case_cong if_cong)

lemma register_res_env: "register_res (env\<lparr>pe_call := c\<rparr>) req le s = register_res env req le s"
  by (simp add: register_res_def)

text \<open>The call of such a callback frees the callback object of its request.\<close>

lemma cancelling_call_frees:
  fixes fuel env
  defines "env' \<equiv> cancelling fuel env"
  assumes p1: "result_arg env' req s1 = Some (p1, s2)" and i: "register_res env' req Le_eio_req s2 = Some (i, s3)"
    and call: "zend_call_known_function env' f obj [p0, p1, Z_RES i] s3 = Some s4"
    and ready: "cb_ready (quiet env) (ps_h s1) req"
    and r: "hs_reqs (ps_h s1) req = Some r" "rq_data r = Some a" "rq_type r \<noteq> EIO_CUSTOM" "rq_grp_first r = None"
  shows "ps_cb s4 a = None"
proof -
  define s3' where "s3' = s3\<lparr>ps_calls := ps_calls s3 @ [(f, obj, [p0, p1, Z_RES i])]\<rparr>"
  have "ps_cb s' a = None" if "php_cancel fuel i s3' = Some s'" for s'
  proof -
    from result_arg_frame [OF p1] obtain g where
      h2: "ps_h s2 = (ps_h s1)\<lparr>hs_reqs := (hs_reqs (ps_h s1))(req := map_option g (hs_reqs (ps_h s1) req))\<rparr>"
      and g: "\<And>r. rq_data (g r) = rq_data r \<and> rq_type (g r) = rq_type r \<and> rq_destroy (g r) = rq_destroy r \<and>
        rq_grp_first (g r) = rq_grp_first r" by auto
    have good2: "hgood (ps_h s2)"
      unfolding h2 by (rule hgood_upd) (use ready g in \<open>auto simp: cb_ready_def\<close>)
    have en: "enabled (Register (pe_handle_addr env' s2) req Le_eio_req) (ps_h s2)"
      using ready h2 r(1) by (simp add: cb_ready_def open_res_def cancelling_def quiet_def env'_def)
    from register_res_ok [OF good2 en] obtain j h' where
      "register_res env' req Le_eio_req s2 = Some (j, s2\<lparr>ps_h := h', ps_rc := (ps_rc s2)(RRes j := 1)\<rparr>)"
      and ft': "php_eio_fetch_req j Le_eio_req h' = Some (Some req)"
      and same': "\<And>r. map_option (\<lambda>q. q\<lparr>rq_destroy := None\<rparr>) (hs_reqs h' r) =
         map_option (\<lambda>q. q\<lparr>rq_destroy := None\<rparr>) (hs_reqs (ps_h s2) r)" by blast
    with i have eq: "j = i" "ps_h s3' = h'" by (auto simp: s3'_def)
    note ft = ft' [folded eq(2), unfolded eq(1)] and same = same' [of req, folded eq(2)]
    from same obtain q where q: "hs_reqs (ps_h s3') req = Some q"
        "q\<lparr>rq_destroy := None\<rparr> = (g r)\<lparr>rq_destroy := None\<rparr>" using h2 r(1) by auto
    have q3: "rq_data q = Some a" "rq_type q \<noteq> EIO_CUSTOM" "rq_grp_first q = None"
      using arg_cong [OF q(2), of rq_data] arg_cong [OF q(2), of rq_type] arg_cong [OF q(2), of rq_grp_first]
        g r by simp_all
    have "cancel_req fuel req s3' = Some s'" using that ft by (simp add: php_cancel_def)
    then show ?thesis
    proof (rule cancel_frees [OF _ q(1) q3(2)])
      fix h assume "etp_cancel fuel req (hs_reqs (ps_h s3')) = Some h"
      then show "map_option rq_data (h req) = Some (Some a)"
        using q q3 by (cases fuel; cases "fuel - 1") (auto simp: upd_req_def split: Option.bind_splits)
    qed
  qed
  then show ?thesis
    using call by (auto simp: zend_call_known_function_def call_user_def cancelling_def env'_def s3'_def zval_ptr_dtor_def
        split: Option.bind_splits)
qed

text \<open>
  C17: a callback that cancels the request it is called for makes the extension free its callback
  object twice.  With a callback that does nothing the completion runs to its end; with one that calls
  \<open>eio_cancel\<close> on its third argument it faults.
\<close>

theorem cancel_in_callback_double_free:
  assumes c: "ps_cb s a = Some c" "func_ok (cb_func c)" "no_res (cb_arg c)" "fi_func (cb_func c) = Some f"
    and refs: "\<forall>k. cb_refs c k \<le> ps_rc s k"
    and ready: "cb_ready (quiet env) (ps_h s) req"
    and r: "hs_reqs (ps_h s) req = Some r" "rq_data r = Some a" "\<not> rq_cancelled r" "rq_type r \<noteq> EIO_CUSTOM"
      "rq_grp_first r = None"
    and res: "result_arg env req s \<noteq> None"
  shows "php_eio_res_cb (quiet env) req s \<noteq> None \<and> php_eio_res_cb (cancelling fuel env) req s = None"
proof
  obtain p1 s2 where "result_arg (quiet env) req s = Some (p1, s2)"
    using res unfolding quiet_def result_arg_env by auto
  moreover have "quiet_env (quiet env)" by (simp add: quiet_env_def quiet_def)
  ultimately show "php_eio_res_cb (quiet env) req s \<noteq> None"
    using res_cb_balance [of "quiet env" s a c req r, OF _ c(1-3) refs ready r(1-3)] by auto
next
  let ?env = "cancelling fuel env"
  define s1 where "s1 = (if cb_arg c = Z_UNDEF then s else zval_addref (cb_arg c) s)"
  define p0 where "p0 = (if cb_arg c = Z_UNDEF then Z_NULL else cb_arg c)"
  have p0: "(if cb_arg c \<noteq> Z_UNDEF then (cb_arg c, zval_addref (cb_arg c) s) else (Z_NULL, s)) = (p0, s1)"
    by (simp add: p0_def s1_def)
  have h1: "ps_h s1 = ps_h s" by (simp add: s1_def zval_addref_eq)
  have freed: "ps_cb s4 a = None"
    if "result_arg ?env req s1 = Some (p1, s2)" "register_res ?env req Le_eio_req s2 = Some (i, s3)"
      "zend_call_known_function ?env f obj [p0, p1, Z_RES i] s3 = Some s4" for p1 s2 i s3 s4 obj
    by (rule cancelling_call_frees [OF that]) (use ready r h1 in simp_all)
  show "php_eio_res_cb ?env req s = None"
    using r c(1,4) freed
    by (auto simp: php_eio_res_cb_def p0 free_eio_cb_freed split: Option.bind_split prod.splits)
qed

section \<open>Concrete inputs\<close>

definition demo_api :: "nat api_env" where
  "demo_api = \<lparr>ax_php = demo_env, ax_cf = \<lparr>HAVE_EVENTFD = True, EFD_FLAGS = True\<rparr>, ax_kern = demo_efd,
     ax_alloc = all_ok, ax_req_addr = (\<lambda>_. 1), ax_buf_addr = (\<lambda>_. 70), ax_access = (\<lambda>_. True),
     ax_kind = (\<lambda>z. case z of Z_LONG n \<Rightarrow> K_long n | _ \<Rightarrow> K_other), ax_string = (\<lambda>_. (3, ''hello'')),
     ax_strerror = (\<lambda>_. []), ax_fuel = 5\<rparr>"

definition demo_api_state :: "nat phpapi" where
  "demo_api_state = \<lparr>ap_s = phpst0 hs_init, ap_mod = demo_mod, ap_sent = []\<rparr>"

lemma demo_mod_up: "0 < mo_pid demo_mod \<and> pp_len (mo_pipe demo_mod) \<noteq> 0"
  by (simp add: demo_mod_def php_eio_init_def php_eio_pipe_new_def php_eio_eventfd_def ev_call_eq modst0_def Let_def)

lemma demo_api_ready: "api_ready (demo_api\<lparr>ax_php := env\<rparr>) demo_api_state"
  if "pe_handle_addr env = (\<lambda>_. 50)"
  using demo_mod_up hgood_init that
  by (simp add: api_ready_def demo_api_def demo_api_state_def phpst0_def hs_init_def open_res_def)

lemma demo_ready: "api_ready demo_api demo_api_state"
  using demo_api_ready [of demo_env] by (simp add: demo_api_def demo_env_def)

theorem script_calls_reach_system_witness:
  "reaches witness_exec witness_os demo_api_state
     (PHP_eio_rename demo_api ''a'' ''b'' 0 (Some (Z_OBJ 3)) None demo_api_state)
     (S_renameat2 AT_FDCWD (MBytes ''a'') AT_FDCWD (MBytes ''b'') 0)"
proof -
  have fd: "zval_fd demo_api (Z_LONG 5) demo_api_state = (5, demo_api_state)"
    by (simp add: zval_fd_def demo_api_def php_eio_zval_to_fd_def Let_def c_int_id)
  have n: "NUL \<notin> set ''a''" "NUL \<notin> set ''b''" by (simp_all add: NUL_def)
  have "(0::int) \<le> 5" by simp
  from script_calls_reach_system [OF demo_ready n fd this] show ?thesis by blast
qed

theorem nul_path_refused_witness:
  "PHP_eio_open demo_api [CHR ''a'', NUL, CHR ''b''] 0 0 0 None None demo_api_state = Some (R_FALSE, demo_api_state)"
  using nul_path_refused [of "[CHR ''a'', NUL, CHR ''b'']" demo_api demo_api_state] demo_ready by simp

theorem invalid_callback_still_sent_witness:
  "\<exists>i s' r. PHP_eio_unlink (demo_api\<lparr>ax_php := demo_env\<lparr>pe_callable := (\<lambda>_. (None, True))\<rparr>\<rparr>) ''f'' 0
      (Some (Z_LONG 1)) None demo_api_state = Some (R_RES i, s') \<and> ps_exc (ap_s s') \<and>
    made demo_api_state s' r \<and> rq_data r = None \<and>
    performs witness_exec witness_os (Sent r) (S_unlinkat AT_FDCWD (MBytes ''f'') 0)"
proof -
  let ?env = "demo_api\<lparr>ax_php := demo_env\<lparr>pe_callable := (\<lambda>_. (None, True))\<rparr>\<rparr>"
  have "api_ready ?env demo_api_state" by (rule demo_api_ready) (simp add: demo_env_def)
  then show ?thesis
    by (rule invalid_callback_still_sent [where e = True]) (simp_all add: demo_api_def NUL_def)
qed

theorem write_num_bytes_bounds_witness: "write_num_bytes 4 3 5 = 3 \<and> write_num_bytes 4 9 5 = 5"
  using write_num_bytes_bounds [of 5 3 4] write_num_bytes_bounds [of 5 9 4] by simp

theorem returned_resource_typed_witness:
  "(\<exists>i s'. PHP_eio_nop demo_api 0 None None demo_api_state = Some (R_RES i, s') \<and> names_sent s' i) \<and>
   (\<exists>i s'. PHP_eio_grp demo_api None None demo_api_state = Some (R_RES i, s') \<and>
      php_eio_fetch_req i Le_eio_req (ps_h (ap_s s')) = Some None)"
  using returned_resource_typed [OF demo_ready, of 0 None None] by blast

text \<open>A request with a callback, done, and a callback object.\<close>

definition done_req :: phpst where
  "done_req = (phpst0 (one_req (calloc_req\<lparr>rq_type := EIO_NOP, rq_data := Some 40\<rparr>)))\<lparr>
     ps_cb := [40 \<mapsto> \<lparr>cb_func = func_info0\<lparr>fi_func := Some 7\<rparr>, cb_arg = Z_UNDEF\<rparr>]\<rparr>"

theorem cancel_in_callback_double_free_witness:
  "php_eio_res_cb (quiet demo_env) 1 done_req \<noteq> None \<and> php_eio_res_cb (cancelling 5 demo_env) 1 done_req = None"
proof (rule cancel_in_callback_double_free [where a = 40 and f = 7
      and r = "calloc_req\<lparr>rq_type := EIO_NOP, rq_data := Some 40, rq_destroy := Some D_eio_api_destroy\<rparr>"
      and c = "\<lparr>cb_func = func_info0\<lparr>fi_func := Some 7\<rparr>, cb_arg = Z_UNDEF\<rparr>"])
  have "ps_h done_req = one_req (calloc_req\<lparr>rq_type := EIO_NOP, rq_data := Some 40\<rparr>)"
    by (simp add: done_req_def phpst0_def)
  then show "cb_ready (quiet demo_env) (ps_h done_req) 1"
    by (simp only:) (rule one_req_ready, simp add: quiet_def demo_env_def)
qed (simp_all add: done_req_def phpst0_def one_req_def func_ok_def func_info0_def cb_refs_def func_refs_def
    calloc_req_def result_arg_def)

end
