(* ===== verification/Lifecycle.thy ===== *)
theory Lifecycle
  imports PhpApi
begin

text \<open>
  The program put together: the functions of PHP hand requests to the pool, workers execute them, and
  \<open>eio_poll\<close> finishes them with the callbacks of \<open>php8/php_eio.c\<close>.  The pool and the extension look at
  the same requests: the heap of the pool is the one of the handles.  The state is a pool whose
  process part is the state of the extension, and the operations are the ones of the component
  theories; nothing is modelled again here but the round of a worker as a function.
\<close>

section \<open>One round of a worker\<close>

definition worker_round ::
    "('io \<Rightarrow> 'io) \<Rightarrow> 'x exec_env \<Rightarrow> 'io etp_pool \<times> 'x os \<Rightarrow> ('io etp_pool \<times> 'x os) option" where
  "worker_round want xe ps =
     (case ps of (p, os) \<Rightarrow> do {
       (req, q) \<leftarrow> reqq_shift (p_heap p) (req_queue p);
       r \<leftarrow> req;
       let p = p\<lparr>req_queue := q, nready := nready p - 1\<rparr>;
       x \<leftarrow> p_heap p r;
       if rq_type x = ETP_TYPE_QUIT then None
       else do {
         (y, os) \<leftarrow> eio_execute xe x os;
         p \<leftarrow> push_result want (p\<lparr>p_heap := (p_heap p)(r \<mapsto> y)\<rparr>) r;
         Some (p, os) } })"


section \<open>The requests are shared\<close>

definition lend :: "'w phpapi etp_pool \<Rightarrow> 'w phpapi" where
  "lend p = (let io = p_io p; s = ap_s io
     in io\<lparr>ap_s := s\<lparr>ps_h := (ps_h s)\<lparr>hs_reqs := p_heap p\<rparr>\<rparr>\<rparr>)"

definition give_back :: "'w phpapi etp_pool \<Rightarrow> 'w phpapi \<Rightarrow> 'w phpapi etp_pool" where
  "give_back p io = p\<lparr>p_heap := hs_reqs (ps_h (ap_s io)), p_io := io\<rparr>"

definition on_php :: "(phpst \<Rightarrow> (int \<times> phpst) option) \<Rightarrow> 'w phpapi etp_pool \<Rightarrow> (int \<times> 'w phpapi etp_pool) option" where
  "on_php f p = map_option (\<lambda>(r, s). (r, give_back p ((lend p)\<lparr>ap_s := s\<rparr>))) (f (ap_s (lend p)))"

definition php_cbs :: "'w api_env \<Rightarrow> 'w phpapi eio_cbs" where
  "php_cbs env = \<lparr>
     cb_finish = (\<lambda>f req p. case f of
         F_php_eio_res_cb \<Rightarrow> on_php (php_eio_res_cb (ax_php env) req) p
       | F_php_eio_res_cb_custom \<Rightarrow> on_php (php_eio_res_cb_custom (ax_php env) req) p
       | F_other _ \<Rightarrow> None),
     cb_destroy = (\<lambda>f req p. map_option snd (on_php (\<lambda>s. map_option (\<lambda>h. (0, s\<lparr>ps_h := h\<rparr>))
         (if f = D_php_eio_req_destroy_hook then php_eio_req_destroy_hook req (ps_h s)
          else call_orig_destroy f req (ps_h s))) p)),
     cb_feed = (\<lambda>_ _ _. None)\<rparr>"

definition php_want :: "'w api_env \<Rightarrow> 'w phpapi \<Rightarrow> 'w phpapi" where
  "php_want env io = io\<lparr>ap_mod := php_eio_want_poll_callback (ax_kern env) (ap_mod io)\<rparr>"

definition php_done :: "'w api_env \<Rightarrow> 'w phpapi \<Rightarrow> 'w phpapi" where
  "php_done env io = io\<lparr>ap_mod := php_eio_done_poll_callback (ax_kern env) (ap_mod io)\<rparr>"

fun submit_all ::
    "'w api_env \<Rightarrow> ('w phpapi etp_pool \<Rightarrow> addr \<times> bool) \<Rightarrow> addr list \<Rightarrow> 'w phpapi etp_pool \<Rightarrow>
     'w phpapi etp_pool option" where
  "submit_all env spawn [] p = Some p"
| "submit_all env spawn (a # as) p = do {
     p \<leftarrow> etp_submit (php_want env) spawn p a;
     submit_all env spawn as p }"

definition script_call ::
    "'w api_env \<Rightarrow> ('w phpapi etp_pool \<Rightarrow> addr \<times> bool) \<Rightarrow> 'w api \<Rightarrow> 'w phpapi etp_pool \<Rightarrow>
     (php_ret \<times> 'w phpapi etp_pool) option" where
  "script_call env spawn f p = do {
     (ret, io) \<leftarrow> f (lend p);
     p \<leftarrow> submit_all env spawn (drop (length (ap_sent (p_io p))) (ap_sent io)) (give_back p io);
     Some (ret, p) }"

section \<open>Finishing a request\<close>

abbreviation php :: "'w phpapi etp_pool \<Rightarrow> phpst" where "php p \<equiv> ap_s (lend p)"

lemma lend_simps [simp]:
  "ap_mod (lend p) = ap_mod (p_io p)" "ap_sent (lend p) = ap_sent (p_io p)"
  "hs_reqs (ps_h (ap_s (lend p))) = p_heap p"
  "ps_cb (ap_s (lend p)) = ps_cb (ap_s (p_io p))" "ps_rc (ap_s (lend p)) = ps_rc (ap_s (p_io p))"
  "ps_calls (ap_s (lend p)) = ps_calls (ap_s (p_io p))"
  by (simp_all add: lend_def Let_def)

lemma lend_give_back [simp]: "lend (give_back p io) = io"
  by (simp add: lend_def give_back_def Let_def)

lemma lend_heap:
  "lend (p\<lparr>p_heap := h\<rparr>) = (lend p)\<lparr>ap_s := (php p)\<lparr>ps_h := (ps_h (php p))\<lparr>hs_reqs := h\<rparr>\<rparr>\<rparr>"
  by (simp add: lend_def Let_def)

lemma destroy_php:
  assumes "p_heap p a = Some x" "rq_destroy x = Some f"
  shows "EIO_DESTROY (php_cbs env) a p =
    map_option (\<lambda>h. give_back p ((lend p)\<lparr>ap_s := (php p)\<lparr>ps_h := h\<rparr>\<rparr>)) (Handles.run (Destroy a) (ps_h (php p)))"
  using assms by (simp add: EIO_DESTROY_def php_cbs_def on_php_def EIO_DESTROY_req_def option.map_comp comp_def)

text \<open>\<open>eio_destroy\<close> frees the buffers, then the destroy callback frees the request.\<close>

lemma destroy_ready: "Handles.run (Destroy a) h = Some h' \<Longrightarrow> hs_ready h' = hs_ready h"
  by (auto simp: EIO_DESTROY_req_def php_eio_req_destroy_hook_def call_orig_destroy_def php_eio_handle_release_def
      upd_h_def split: option.splits Option.bind_splits if_splits destroy_fn.splits)

lemma eio_destroy_php:
  assumes g: "hgood (ps_h (php p))" and x: "p_heap p a = Some x"
  shows "\<exists>h. eio_destroy (php_cbs env) a p = Some (give_back p ((lend p)\<lparr>ap_s := (php p)\<lparr>ps_h := h\<rparr>\<rparr>)) \<and>
    hgood h \<and> hs_reqs h = (p_heap p)(a := None) \<and> handles_kept (ps_h (php p)) h"
proof -
  define y where "y = (if and (rq_flags x) EIO_FLAG_PTR1_FREE \<noteq> 0 then x\<lparr>rq_ptr1 := MNull\<rparr> else x)"
  define z where "z = (if and (rq_flags y) EIO_FLAG_PTR2_FREE \<noteq> 0 then y\<lparr>rq_ptr2 := MNull\<rparr> else y)"
  let ?p = "p\<lparr>p_heap := (p_heap p)(a \<mapsto> z)\<rparr>"
  have d: "rq_destroy z = rq_destroy x" by (simp add: z_def y_def)
  have "hgood ((ps_h (php p))\<lparr>hs_reqs := (p_heap p)(a \<mapsto> z)\<rparr>)"
    by (rule hgood_same_destroy [OF g]) (simp add: x d)
  then have g': "hgood (ps_h (php ?p))" by (simp add: lend_heap)
  have en: "enabled (Destroy a) (ps_h (php ?p))" by simp
  from run_Destroy [OF g' en] obtain h where h: "Handles.run (Destroy a) (ps_h (php ?p)) = Some h" "hgood h" by blast
  note eff = Destroy_effect [OF g' h(1) en]
  obtain f where "rq_destroy z = Some f"
    using hinv_destroyD [OF hgood_inv [OF g'], of a z] by simp
  then have "EIO_DESTROY (php_cbs env) a ?p = Some (give_back p ((lend p)\<lparr>ap_s := (php p)\<lparr>ps_h := h\<rparr>\<rparr>))"
    using destroy_php [of ?p a z f env] h(1) by (simp add: give_back_def lend_heap)
  then have run: "eio_destroy (php_cbs env) a p = Some (give_back p ((lend p)\<lparr>ap_s := (php p)\<lparr>ps_h := h\<rparr>\<rparr>))"
    using x by (simp add: eio_destroy_def wr_def upd_req_def y_def [symmetric] z_def [symmetric])
  have "dom (hs_handles h) \<subseteq> dom (hs_handles (ps_h (php p)))"
    using eff by (fastforce simp: shrinks_def lend_heap)
  then have "handles_kept (ps_h (php p)) h"
    using eff destroy_ready [OF h(1)] finite_subset by (auto simp: handles_kept_def lend_heap open_res_def)
  then show ?thesis using h(2) eff run by auto
qed

lemma req_restD:
  assumes "req_rest y = req_rest x"
  shows "rq_grp y = rq_grp x" "rq_type y = rq_type x" "rq_pri y = rq_pri x" "rq_next y = rq_next x"
  using arg_cong [OF assms, of rq_grp] arg_cong [OF assms, of rq_type] arg_cong [OF assms, of rq_pri]
    arg_cong [OF assms, of rq_next]
  by (simp_all add: req_rest_def)

lemma handles_kept_trans: "handles_kept h h' \<Longrightarrow> handles_kept h' h'' \<Longrightarrow> handles_kept h h''"
  by (simp add: handles_kept_def)

lemma eio_finish_php:
  assumes x: "p_heap p a = Some x" "rq_finish x = Some F_php_eio_res_cb" "rq_data x = Some ca" "\<not> rq_cancelled x"
      "rq_grp x = None"
    and q: "quiet_env (ax_php env)" and c: "ps_cb (php p) ca = Some c" "func_ok (cb_func c)" "no_res (cb_arg c)"
    and refs: "\<forall>k. cb_refs c k \<le> ps_rc (php p) k" and ready: "cb_ready (ax_php env) (ps_h (php p)) a"
    and res: "result_arg (ax_php env) a (php p) = Some (p1, s2)"
  shows "\<exists>s' i. eio_finish (php_cbs env) (Suc n) a p = Some (0, give_back p ((lend p)\<lparr>ap_s := s'\<rparr>)) \<and>
    ps_cb s' = (ps_cb (php p))(ca := None) \<and>
    (\<forall>v. ps_rc s' (RVal v) = ps_rc (php p) (RVal v) - cb_refs c (RVal v)) \<and> hgood (ps_h s') \<and>
    handles_kept (ps_h (php p)) (ps_h s') \<and> ps_calls s' = ps_calls (php p) @ user_calls c p1 i \<and>
    (\<forall>y. no_dest (hs_reqs (ps_h s') y) = (if y = a then None else no_dest (p_heap p y)))"
proof -
  have "hs_reqs (ps_h (php p)) a = Some x" using x(1) by simp
  from res_cb_balance [OF q c refs ready this x(3,4) res] obtain s1 i where
    s1: "php_eio_res_cb (ax_php env) a (php p) = Some (0, s1)" "ps_cb s1 = (ps_cb (php p))(ca := None)"
    "\<forall>v. ps_rc s1 (RVal v) = ps_rc (php p) (RVal v) - cb_refs c (RVal v)" "hgood (ps_h s1)"
    "ps_calls s1 = ps_calls (php p) @ user_calls c p1 i" "handles_kept (ps_h (php p)) (ps_h s1)"
    "map_option req_rest (hs_reqs (ps_h s1) a) = Some (req_rest x)"
    "\<forall>y. y \<noteq> a \<longrightarrow> no_dest (hs_reqs (ps_h s1) y) = no_dest (hs_reqs (ps_h (php p)) y)" by blast
  let ?p1 = "give_back p ((lend p)\<lparr>ap_s := s1\<rparr>)"
  obtain x1 where x1: "p_heap ?p1 a = Some x1" "req_rest x1 = req_rest x"
    using s1(7) by (auto simp: give_back_def)
  have fin: "EIO_FINISH (php_cbs env) a p = Some (0, ?p1)"
    using x s1(1) by (simp add: EIO_FINISH_def php_cbs_def on_php_def)
  have "hgood (ps_h (php ?p1))" using s1(4) by simp
  from eio_destroy_php [OF this x1(1), of env] obtain h where
    h: "eio_destroy (php_cbs env) a ?p1 = Some (give_back ?p1 ((lend ?p1)\<lparr>ap_s := (php ?p1)\<lparr>ps_h := h\<rparr>\<rparr>))"
      "hgood h" "hs_reqs h = (p_heap ?p1)(a := None)" "handles_kept (ps_h (php ?p1)) h" by blast
  have "give_back ?p1 ((lend ?p1)\<lparr>ap_s := (php ?p1)\<lparr>ps_h := h\<rparr>\<rparr>) = give_back p ((lend p)\<lparr>ap_s := s1\<lparr>ps_h := h\<rparr>\<rparr>)"
    unfolding lend_give_back by (simp add: give_back_def)
  then have run: "eio_finish (php_cbs env) (Suc n) a p = Some (0, give_back p ((lend p)\<lparr>ap_s := s1\<lparr>ps_h := h\<rparr>\<rparr>))"
    using fin x1(1) h(1) x(5) req_restD(1) [OF x1(2)] by (simp add: eio_finish.simps)
  have "handles_kept (ps_h (php p)) h" using handles_kept_trans [OF s1(6)] h(4) by simp
  then show ?thesis
    using run s1 h(2,3) by (intro exI [of _ "s1\<lparr>ps_h := h\<rparr>"] exI [of _ i]) (simp add: give_back_def no_dest_def)
qed

end
