(* ===== verification/Delivery.thy ===== *)
theory Delivery
  imports Lifecycle
begin

text \<open>
  What a script can rely on: it calls functions of the extension, workers execute what was submitted,
  and \<open>eio_poll\<close> finishes it.  Any such sequence runs without a fault, and every call of a user function
  that was asked for is made exactly once or still owed by a request in flight; what the callback
  objects hold of the values of the script is given back.
\<close>

section \<open>Calls of user functions\<close>

text \<open>
  A call without the parameters that are known only when the request is done; the call a callback
  object is there for; and the call that a script asked for when it passed \<open>zcb\<close> and \<open>data\<close>.
\<close>

definition stripped :: "nat \<times> zval \<times> zval list \<Rightarrow> nat \<times> zval \<times> zval" where
  "stripped e = (case e of (f, obj, params) \<Rightarrow> (f, obj, params ! 0))"

definition owed :: "php_eio_cb_t \<Rightarrow> (nat \<times> zval \<times> zval) list" where
  "owed c = map stripped (user_calls c Z_NULL 0)"

definition method_object :: "fcall_cache \<Rightarrow> zval" where
  "method_object fcc =
     (case fcc_object fcc of Some a \<Rightarrow> if fcc_static fcc then Z_UNDEF else Z_OBJ a | None \<Rightarrow> Z_UNDEF)"

definition data_param :: "zval option \<Rightarrow> zval" where
  "data_param data = (case data of None \<Rightarrow> Z_NULL | Some z \<Rightarrow> if z = Z_UNDEF then Z_NULL else z)"

definition asked :: "php_env \<Rightarrow> zval option \<Rightarrow> zval option \<Rightarrow> (nat \<times> zval \<times> zval) list" where
  "asked env zcb data =
     (case zcb of
        None \<Rightarrow> []
      | Some z \<Rightarrow>
          (case fst (pe_callable env z) of
             None \<Rightarrow> []
           | Some fcc \<Rightarrow> [(fcc_handler fcc, method_object fcc, data_param data)]))"

definition good_params :: "php_env \<Rightarrow> zval option \<Rightarrow> zval option \<Rightarrow> bool" where
  "good_params env zcb data \<longleftrightarrow>
     (\<forall>z. zcb = Some z \<longrightarrow> fst (pe_callable env z) \<noteq> None) \<and> (\<forall>z. data = Some z \<longrightarrow> no_res z)"

lemma owed_user_calls: "map stripped (user_calls c p1 i) = owed c"
  by (simp add: owed_def user_calls_def stripped_def split: option.splits)

lemma import_info_content:
  assumes "\<forall>z. zcb = Some z \<longrightarrow> fst (pe_callable env z) \<noteq> None"
  shows "\<exists>f s'. php_eio_import_func_info env zcb s = (Some f, s') \<and>
    owed \<lparr>cb_func = f, cb_arg = (case data of None \<Rightarrow> Z_UNDEF | Some z \<Rightarrow> z)\<rparr> = asked env zcb data"
proof (cases zcb)
  case None
  then show ?thesis
    by (simp add: php_eio_import_func_info_def owed_def asked_def user_calls_def func_info0_def)
next
  case (Some z)
  with assms obtain fcc e where f: "pe_callable env z = (Some fcc, e)" by (cases "pe_callable env z") auto
  obtain g t where i: "php_eio_import_func_info env zcb s = (g, t)" by fastforce
  then obtain f where "g = Some f" "fi_func f = Some (fcc_handler fcc)" "fi_obj f = method_object fcc"
    using Some f
    by (auto simp: php_eio_import_func_info_def method_object_def Let_def
        split: option.splits zval.splits if_splits)
  then show ?thesis
    using Some i f
    by (auto simp: owed_def asked_def user_calls_def stripped_def data_param_def split: option.splits)
qed

lemma new_eio_cb_ok:
  assumes "good_params env zcb data"
  shows "\<exists>c. php_eio_new_eio_cb env zcb data s =
      (Some (pe_cb_addr env s), (add_refs (cb_refs c) s)\<lparr>ps_cb := (ps_cb s)(pe_cb_addr env s \<mapsto> c)\<rparr>) \<and>
    func_ok (cb_func c) \<and> no_res (cb_arg c) \<and> owed c = asked env zcb data"
proof -
  let ?a = "pe_cb_addr env s" and ?arg = "case data of None \<Rightarrow> Z_UNDEF | Some z \<Rightarrow> z"
  let ?s0 = "s\<lparr>ps_cb := (ps_cb s)(?a \<mapsto> \<lparr>cb_func = func_info0, cb_arg = Z_UNDEF\<rparr>)\<rparr>"
  obtain f s1 where i: "php_eio_import_func_info env zcb ?s0 = (Some f, s1)"
      "owed \<lparr>cb_func = f, cb_arg = ?arg\<rparr> = asked env zcb data"
    using import_info_content assms unfolding good_params_def by blast
  have n: "fst (php_eio_new_eio_cb env zcb data s) = Some ?a"
    "ps_cb (snd (php_eio_new_eio_cb env zcb data s)) ?a = Some \<lparr>cb_func = f, cb_arg = ?arg\<rparr>"
    using i(1) by (auto simp: php_eio_new_eio_cb_def copy_arg_def Let_def split: option.splits)
  obtain s' where s': "php_eio_new_eio_cb env zcb data s = (Some ?a, s')" using n(1) by (metis prod.collapse)
  then show ?thesis
    using new_eio_cb_eq [OF s'] n(2) i(2) assms by (auto simp: good_params_def)
qed

section \<open>Requests in flight\<close>

text \<open>
  The types of request whose execution always returns and whose result always becomes a value: not
  the ones that read into buffers the kernel may fill in any way, custom requests and groups.
\<close>

definition plain_type :: "eio_type \<Rightarrow> bool" where
  "plain_type t \<longleftrightarrow> t \<notin> {EIO_CUSTOM, EIO_WD_OPEN, EIO_SENDFILE, EIO_READDIR, EIO_REALPATH, EIO_READ, EIO_READLINK,
     EIO_WRITE, EIO_GROUP, ETP_TYPE_QUIT}"

definition plain_req :: "eio_req \<Rightarrow> bool" where
  "plain_req x \<longleftrightarrow> rq_finish x = Some F_php_eio_res_cb \<and> \<not> rq_cancelled x \<and> rq_grp x = None \<and>
     plain_type (rq_type x) \<and> rq_wd3 x \<noteq> EIO_INVALID_WD"

lemma plain_runnable: "plain_req x \<Longrightarrow> runnable xe x"
  by (auto simp: plain_req_def plain_type_def runnable_def)

definition result_value :: "php_env \<Rightarrow> eio_req \<Rightarrow> zval" where
  "result_value env x =
     (if rq_result x < 0 then Z_LONG (rq_result x)
      else if rq_type x \<in> {EIO_STAT, EIO_LSTAT, EIO_FSTAT} then stat_array (pe_stat env (rq_ptr2 x))
      else if rq_type x \<in> {EIO_STATVFS, EIO_FSTATVFS} then statvfs_array (pe_statvfs env (rq_ptr2 x))
      else Z_LONG (rq_result x))"

lemma result_arg_plain:
  assumes "hs_reqs (ps_h s) a = Some x" "plain_type (rq_type x)"
  shows "\<exists>s'. result_arg env a s = Some (result_value env x, s')"
  using assms
  by (cases "rq_type x") (simp_all add: result_arg_def result_value_def plain_type_def Let_def cong: eio_type.case_cong)

text \<open>
  The queues and the handles write the members \<open>next\<close>, \<open>pri\<close> and \<open>destroy\<close> of a request; executing it
  neither reads nor writes them.
\<close>

definition tagged :: "ptr \<Rightarrow> u8 \<Rightarrow> destroy_fn option \<Rightarrow> eio_req \<Rightarrow> eio_req" where
  "tagged n q d r = r\<lparr>rq_next := n, rq_pri := q, rq_destroy := d\<rparr>"

abbreviation "tagged_res n q d \<equiv> map_option (\<lambda>(r, s). (tagged n q d r, s))"

lemma tagged_sel [simp]:
  "rq_type (tagged n q d r) = rq_type r" "rq_wd (tagged n q d r) = rq_wd r" "rq_wd3 (tagged n q d r) = rq_wd3 r"
  "rq_cancelled (tagged n q d r) = rq_cancelled r" "rq_ptr1 (tagged n q d r) = rq_ptr1 r"
  "rq_ptr2 (tagged n q d r) = rq_ptr2 r" "rq_int1 (tagged n q d r) = rq_int1 r" "rq_int2 (tagged n q d r) = rq_int2 r"
  "rq_int3 (tagged n q d r) = rq_int3 r" "rq_offs (tagged n q d r) = rq_offs r" "rq_size (tagged n q d r) = rq_size r"
  "rq_nv1 (tagged n q d r) = rq_nv1 r" "rq_nv2 (tagged n q d r) = rq_nv2 r" "rq_flags (tagged n q d r) = rq_flags r"
  "rq_result (tagged n q d r) = rq_result r" "rq_data (tagged n q d r) = rq_data r"
  by (simp_all add: tagged_def)

lemma tagged_upd [simp]:
  "(tagged n q d r)\<lparr>rq_result := v\<rparr> = tagged n q d (r\<lparr>rq_result := v\<rparr>)"
  "(tagged n q d r)\<lparr>rq_errorno := e\<rparr> = tagged n q d (r\<lparr>rq_errorno := e\<rparr>)"
  "(tagged n q d r)\<lparr>rq_ptr2 := m\<rparr> = tagged n q d (r\<lparr>rq_ptr2 := m\<rparr>)"
  "(tagged n q d r)\<lparr>rq_flags := fl\<rparr> = tagged n q d (r\<lparr>rq_flags := fl\<rparr>)"
  "(tagged n q d r)\<lparr>rq_offs := o1\<rparr> = tagged n q d (r\<lparr>rq_offs := o1\<rparr>)"
  "(tagged n q d r)\<lparr>rq_size := sz\<rparr> = tagged n q d (r\<lparr>rq_size := sz\<rparr>)"
  "(tagged n q d r)\<lparr>rq_wd := w\<rparr> = tagged n q d (r\<lparr>rq_wd := w\<rparr>)"
  by (simp_all add: tagged_def)

lemma tagged_set_result:
  "set_result (tagged n q d r) rs = tagged_res n q d (set_result r rs)"
  "set_result_buf (tagged n q d r) rb = tagged_res n q d (set_result_buf r rb)"
  by (simp_all add: set_result_def set_result_buf_def split: prod.splits)

lemma tagged_ALLOC:
  "ALLOC m len (tagged n q d r) s = (case ALLOC m len r s of ((y, s), b) \<Rightarrow> ((tagged n q d y, s), b))"
  by (simp add: ALLOC_def Let_def split: option.splits)

lemma tagged_with_alloc:
  assumes "\<And>r s. f (tagged n q d r) s = tagged_res n q d (f r s)"
  shows "with_alloc env len (tagged n q d r) s f = tagged_res n q d (with_alloc env len r s f)"
  using assms by (simp add: with_alloc_def tagged_ALLOC split: prod.splits)

lemma tagged_slurp_size:
  "slurp_size k fd (tagged n q d r) s = (case slurp_size k fd r s of (y, s) \<Rightarrow> (tagged n q d y, s))"
  by (cases "rq_offs r < 0"; cases "rq_size r = 0") (simp_all add: slurp_size_def Let_def split: prod.splits)

lemma tagged_slurp:
  "eio__slurp k m fd (tagged n q d r) s = (case eio__slurp k m fd r s of (y, s) \<Rightarrow> (tagged n q d y, s))"
proof -
  obtain r1 s1 where 1: "slurp_size k fd (r\<lparr>rq_result := fd\<rparr>) s = (r1, s1)" by fastforce
  obtain r2 s2 b where 2: "ALLOC m (unat (rq_size r1)) r1 s1 = ((r2, s2), b)" by (metis prod.collapse)
  obtain res buf s3 where 3: "call k (S_pread fd (rq_size r2) (rq_offs r2)) s2 = (res, buf, s3)" by (metis prod_cases3)
  from 1 2 3 show ?thesis by (simp add: eio__slurp_def Let_def tagged_slurp_size tagged_ALLOC)
qed

lemma tagged_bind: "(case tagged_res n q d x of None \<Rightarrow> None | Some (r, s) \<Rightarrow> f r s) =
    (case x of None \<Rightarrow> None | Some (r, s) \<Rightarrow> f (tagged n q d r) s)"
  by (simp split: option.splits prod.splits)

lemma tagged_path: "exec_path env dirfd (tagged n q d r) s = tagged_res n q d (exec_path env dirfd r s)"
  unfolding exec_path_def Let_def
  by (cases "rq_type r")
     (simp_all add: tagged_set_result tagged_with_alloc tagged_slurp utime_times_def tagged_bind if_distrib
       cong: if_cong option.case_cong split: prod.splits option.splits eio_wd.splits)

lemma tagged_other:
  assumes "plain_type (rq_type r)"
  shows "exec_other env (tagged n q d r) s = tagged_res n q d (exec_other env r s)"
  using assms unfolding exec_other_def Let_def plain_type_def
  by (cases "rq_type r") (simp_all add: tagged_set_result tagged_with_alloc utime_times_def split: prod.splits)

lemma tagged_head:
  assumes "plain_type (rq_type r)"
  shows "exec_head env (tagged n q d r) s = tagged_res n q d (exec_head env r s)"
  using assms tagged_other [OF assms] unfolding exec_head_def Let_def plain_type_def
  by (cases "rq_type r") (simp_all add: tagged_set_result eio__lseek_def split: prod.splits)

lemma tagged_execute:
  assumes "plain_type (rq_type r)"
  shows "eio_execute env (tagged n q d r) s = tagged_res n q d (eio_execute env r s)"
proof -
  let ?e = "\<lambda>r. if type_code EIO_OPEN \<le> type_code (rq_type r)
    then (case WD2FD (rq_wd r) of None \<Rightarrow> None | Some dirfd \<Rightarrow> exec_path env dirfd r s) else exec_head env r s"
  have "?e (tagged n q d r) = tagged_res n q d (?e r)"
    by (cases "WD2FD (rq_wd r)") (simp_all add: tagged_path tagged_head [OF assms])
  then show ?thesis
    unfolding eio_execute_def by (cases "?e r") (simp_all split: prod.splits)
qed

text \<open>What the pool and the handles leave alone in a request, and what they may not change before it is done.\<close>

definition gist where
  "gist r = (rq_data r, rq_finish r, rq_cancelled r, rq_grp r, rq_type r, rq_wd3 r)"

lemma gist_bookkeeping:
  assumes "bookkeeping y = bookkeeping x"
  shows "gist y = gist x"
  using bookkeepingD [OF assms] arg_cong [OF assms, of rq_wd3] by (simp add: gist_def bookkeeping_def)

lemma gist_plain: "gist y = gist x \<Longrightarrow> plain_req y = plain_req x"
  by (simp add: gist_def plain_req_def)

lemma gist_no_dest:
  assumes "no_dest o1 = no_dest o2"
  shows "map_option gist o1 = map_option gist o2"
  using arg_cong [OF assms, of "map_option gist"]
  by (cases o1; cases o2) (simp_all add: no_dest_def gist_def)

lemma gist_next: "same_but_next h h' \<Longrightarrow> map_option gist (h' x) = map_option gist (h x)"
proof -
  assume s: "same_but_next h h'"
  show ?thesis
  proof (cases "h x")
    case None
    then show ?thesis using s unfolding same_but_next_def by (metis map_option_is_None)
  next
    case (Some r)
    from same_but_nextD [OF s Some] obtain n where "h' x = Some (r\<lparr>rq_next := n\<rparr>)" by blast
    with Some show ?thesis by (simp add: gist_def)
  qed
qed

text \<open>The callback object of a request, and what must hold of a request in flight.\<close>

definition obj_of :: "'w phpapi etp_pool \<Rightarrow> addr \<Rightarrow> php_eio_cb_t" where
  "obj_of p a = the (ps_cb (php p) (the (rq_data (the (p_heap p a)))))"

definition in_flight :: "'w phpapi etp_pool \<Rightarrow> addr \<Rightarrow> bool" where
  "in_flight p a \<longleftrightarrow> (\<exists>x ca c. p_heap p a = Some x \<and> plain_req x \<and> rq_data x = Some ca \<and> ps_cb (php p) ca = Some c \<and>
     func_ok (cb_func c) \<and> no_res (cb_arg c))"

abbreviation data_of :: "'w phpapi etp_pool \<Rightarrow> addr \<Rightarrow> ptr" where
  "data_of p a \<equiv> rq_data (the (p_heap p a))"

definition kept_for :: "addr multiset \<Rightarrow> 'w phpapi etp_pool \<Rightarrow> 'w phpapi etp_pool \<Rightarrow> bool" where
  "kept_for M p p' \<longleftrightarrow> (\<forall>a. a \<in># M \<longrightarrow> map_option gist (p_heap p' a) = map_option gist (p_heap p a) \<and>
     (\<forall>ca. data_of p a = Some ca \<longrightarrow> ps_cb (php p') ca = ps_cb (php p) ca))"

lemma in_flight_kept:
  assumes "in_flight p a" "kept_for M p p'" "a \<in># M"
  shows "in_flight p' a" "obj_of p' a = obj_of p a" "data_of p' a = data_of p a"
proof -
  from assms(1) obtain x ca c where x: "p_heap p a = Some x" "plain_req x" "rq_data x = Some ca"
      "ps_cb (php p) ca = Some c" "func_ok (cb_func c)" "no_res (cb_arg c)" by (auto simp: in_flight_def)
  have k: "map_option gist (p_heap p' a) = Some (gist x)" "ps_cb (php p') ca = Some c"
    using assms(2,3) x by (auto simp: kept_for_def)
  then obtain y where y: "p_heap p' a = Some y" "gist y = gist x" by auto
  then have "rq_data y = Some ca" using x(3) by (simp add: gist_def)
  then show "in_flight p' a" "obj_of p' a = obj_of p a" "data_of p' a = data_of p a"
    using x k y gist_plain [OF y(2)] by (auto simp: in_flight_def obj_of_def)
qed

definition owed_by :: "'w phpapi etp_pool \<Rightarrow> addr multiset \<Rightarrow> (nat \<times> zval \<times> zval) multiset" where
  "owed_by p M = (\<Sum>a\<in>#M. mset (owed (obj_of p a)))"

definition held_by :: "'w phpapi etp_pool \<Rightarrow> addr multiset \<Rightarrow> addr \<Rightarrow> nat" where
  "held_by p M v = (\<Sum>a\<in>#M. cb_refs (obj_of p a) (RVal v))"

definition flying :: "'w phpapi etp_pool \<Rightarrow> addr multiset \<Rightarrow> bool" where
  "flying p M \<longleftrightarrow> (\<forall>a. a \<in># M \<longrightarrow> in_flight p a) \<and> inj_on (data_of p) (set_mset M)"

lemma flying_kept:
  assumes "flying p M" "kept_for M p p'"
  shows "flying p' M" "owed_by p' M = owed_by p M" "held_by p' M v = held_by p M v"
proof -
  have k: "in_flight p' a" "obj_of p' a = obj_of p a" "data_of p' a = data_of p a" if "a \<in># M" for a
    using in_flight_kept [OF _ assms(2) that] assms(1) that by (auto simp: flying_def)
  show "flying p' M" using assms(1) k by (simp add: flying_def inj_on_def)
  show "owed_by p' M = owed_by p M" "held_by p' M v = held_by p M v"
    unfolding owed_by_def held_by_def using k by (auto intro!: arg_cong [where f = sum_mset] image_mset_cong)
qed

text \<open>
  The state of the extension with the requests \<open>M\<close> in flight: \<open>n\<close> resources are open, the values have
  the references \<open>R\<close> and one for each that a callback object in flight holds, and the calls made so
  far and the ones still owed are \<open>B\<close>.
\<close>

definition php_up :: "nat \<Rightarrow> 'w phpapi etp_pool \<Rightarrow> bool" where
  "php_up n p \<longleftrightarrow> 0 < mo_pid (ap_mod (p_io p)) \<and> pp_len (mo_pipe (ap_mod (p_io p))) \<noteq> 0 \<and>
     hgood (ps_h (php p)) \<and> hs_ready (ps_h (php p)) \<and> open_res (ps_h (php p)) = n \<and>
     finite (dom (hs_handles (ps_h (php p)))) \<and> finite (dom (p_heap p)) \<and> finite (dom (ps_cb (php p)))"

text \<open>Nothing else is allocated: no request that is not in flight, no callback object without a request.\<close>

definition no_leak :: "'w phpapi etp_pool \<Rightarrow> addr multiset \<Rightarrow> bool" where
  "no_leak p M \<longleftrightarrow> dom (p_heap p) = set_mset M \<and> Some ` dom (ps_cb (php p)) = data_of p ` set_mset M"

definition app_php ::
    "nat \<Rightarrow> (addr \<Rightarrow> nat) \<Rightarrow> (nat \<times> zval \<times> zval) multiset \<Rightarrow> 'w phpapi etp_pool \<Rightarrow> addr multiset \<Rightarrow> bool" where
  "app_php n R B p M \<longleftrightarrow> php_up n p \<and> flying p M \<and> no_leak p M \<and>
     (\<forall>v. ps_rc (php p) (RVal v) = R v + held_by p M v) \<and>
     image_mset stripped (mset (ps_calls (php p))) + owed_by p M = B"

text \<open>The operations of the pool do not disturb it.\<close>

definition pool_only :: "'w phpapi etp_pool \<Rightarrow> 'w phpapi etp_pool \<Rightarrow> bool" where
  "pool_only p p' \<longleftrightarrow> ap_s (p_io p') = ap_s (p_io p) \<and>
     (0 < mo_pid (ap_mod (p_io p)) \<and> pp_len (mo_pipe (ap_mod (p_io p))) \<noteq> 0 \<longrightarrow>
      0 < mo_pid (ap_mod (p_io p')) \<and> pp_len (mo_pipe (ap_mod (p_io p'))) \<noteq> 0) \<and>
     (\<forall>x. map_option (\<lambda>r. (rq_destroy r, gist r)) (p_heap p' x) = map_option (\<lambda>r. (rq_destroy r, gist r)) (p_heap p x))"

lemma pool_only_trans: "pool_only p p' \<Longrightarrow> pool_only p' p'' \<Longrightarrow> pool_only p p''"
  by (simp add: pool_only_def)

lemma app_php_pool:
  assumes a: "app_php n R B p M" and s: "pool_only p p'"
  shows "app_php n R B p' M"
proof -
  have io: "ap_s (p_io p') = ap_s (p_io p)" using s by (simp add: pool_only_def)
  have h: "ps_h (php p') = (ps_h (php p))\<lparr>hs_reqs := p_heap p'\<rparr>" by (simp add: lend_def io Let_def)
  have dg: "map_option rq_destroy (p_heap p' x) = map_option rq_destroy (p_heap p x) \<and>
      map_option gist (p_heap p' x) = map_option gist (p_heap p x)" for x
  proof -
    have "map_option (\<lambda>r. (rq_destroy r, gist r)) (p_heap p' x) = map_option (\<lambda>r. (rq_destroy r, gist r)) (p_heap p x)"
      using s by (simp add: pool_only_def)
    then show ?thesis by (cases "p_heap p x"; cases "p_heap p' x") simp_all
  qed
  have "hgood (ps_h (php p'))"
    unfolding h using a dg by (intro hgood_same_destroy) (auto simp: app_php_def php_up_def)
  moreover have domp: "dom (p_heap p') = dom (p_heap p)"
    using dg by (auto simp: dom_def) (metis map_option_is_None option.exhaust)+
  ultimately have "php_up n p'"
    using a s h io by (auto simp: app_php_def php_up_def pool_only_def open_res_def)
  moreover have k: "kept_for M p p'" using dg io by (simp add: kept_for_def)
  moreover have "no_leak p' M"
    using a io k in_flight_kept(3) [of p _ M p'] domp
    by (auto simp: app_php_def no_leak_def flying_def)
  ultimately show ?thesis
    using a io flying_kept [of p M p'] by (simp add: app_php_def)
qed

text \<open>A request more, and a request less.\<close>

lemma kept_no_dest:
  assumes "\<And>x. x \<in># M \<Longrightarrow> no_dest (p_heap p' x) = no_dest (p_heap p x)"
    and "\<And>x cx. x \<in># M \<Longrightarrow> data_of p x = Some cx \<Longrightarrow> ps_cb (php p') cx = ps_cb (php p) cx"
  shows "kept_for M p p'"
  unfolding kept_for_def using assms gist_no_dest by blast

lemma no_dest_dom:
  assumes "\<And>x. no_dest (h' x) = no_dest (h x)"
  shows "dom h' = dom h"
  using assms by (auto simp: no_dest_def dom_def) (metis map_option_is_None option.exhaust)+

lemma app_php_add:
  assumes a: "app_php n R B p M" and new: "p_heap p a = None" "ps_cb (php p) ca = None"
    and io: "ap_mod io = ap_mod (p_io p)" "ps_cb (ap_s io) = (ps_cb (php p))(ca \<mapsto> c)"
      "\<And>v. ps_rc (ap_s io) (RVal v) = ps_rc (php p) (RVal v) + cb_refs c (RVal v)"
      "ps_calls (ap_s io) = ps_calls (php p)"
    and h: "hgood (ps_h (ap_s io))" "hs_ready (ps_h (ap_s io))" "open_res (ps_h (ap_s io)) = Suc n"
      "finite (dom (hs_handles (ps_h (ap_s io))))"
      "\<And>x. no_dest (hs_reqs (ps_h (ap_s io)) x) = no_dest (((p_heap p)(a \<mapsto> r)) x)"
    and r: "plain_req r" "rq_data r = Some ca" "func_ok (cb_func c)" "no_res (cb_arg c)"
  shows "app_php (Suc n) R (B + mset (owed c)) (give_back p io) (add_mset a M)"
proof -
  let ?p = "give_back p io"
  have fl: "flying p M" using a by (simp add: app_php_def)
  have aM: "a \<notin># M" using fl new(1) by (auto simp: flying_def in_flight_def)
  have other: "data_of p x \<noteq> Some ca" if "x \<in># M" for x
    using fl that new(2) by (auto simp: flying_def in_flight_def)
  have heap: "p_heap ?p = hs_reqs (ps_h (ap_s io))" by (simp add: give_back_def)
  have kept: "kept_for M p ?p"
  proof (rule kept_no_dest)
    fix x assume "x \<in># M"
    then show "no_dest (p_heap ?p x) = no_dest (p_heap p x)" using h(5) [of x] aM heap by auto
  next
    fix x cx assume "x \<in># M" "data_of p x = Some cx"
    then show "ps_cb (php ?p) cx = ps_cb (php p) cx" using io(2) other by auto
  qed
  note f = flying_kept [OF fl kept]
  obtain r' where r': "p_heap ?p a = Some r'" "r'\<lparr>rq_destroy := None\<rparr> = r\<lparr>rq_destroy := None\<rparr>"
    using h(5) [of a] heap by (auto simp: no_dest_def)
  have gr: "gist r' = gist r" using gist_no_dest [of "Some r'" "Some r"] r'(2) by (simp add: no_dest_def)
  then have d: "rq_data r' = Some ca" using r(2) by (simp add: gist_def)
  have ina: "in_flight ?p a" "obj_of ?p a = c"
    using r' d io(2) r gist_plain [OF gr] by (auto simp: in_flight_def obj_of_def)
  have ne: "data_of ?p x \<noteq> data_of ?p a" if "x \<in># M" for x
    using in_flight_kept(3) [OF _ kept that] fl that other [OF that] r'(1) d by (simp add: flying_def)
  have "flying ?p (add_mset a M)"
    using f(1) ina(1) ne [symmetric] ne aM by (simp add: flying_def inj_on_insert) blast
  moreover have dom_p: "dom (p_heap ?p) = dom ((p_heap p)(a \<mapsto> r))"
    by (rule no_dest_dom) (use h(5) in \<open>simp add: heap\<close>)
  moreover have "no_leak ?p (add_mset a M)"
  proof -
    have "data_of ?p ` set_mset M = data_of p ` set_mset M"
      using in_flight_kept(3) [OF _ kept] fl by (auto simp: flying_def intro!: image_cong)
    then show ?thesis
      using a dom_p io(2) r'(1) d by (auto simp: app_php_def no_leak_def)
  qed
  moreover have "php_up (Suc n) ?p"
  proof -
    from dom_p have "finite (dom (p_heap ?p))" using a by (simp add: app_php_def php_up_def)
    then show ?thesis
      using a h(1-4) io(1,2) by (simp add: app_php_def php_up_def) (simp add: give_back_def)
  qed
  ultimately show ?thesis
    using a ina(2) f(2,3) io(3,4) by (auto simp: app_php_def owed_by_def held_by_def)
qed

lemma app_php_del:
  assumes a: "app_php n R B p (add_mset a M)" "a \<notin># M" and d: "data_of p a = Some ca"
    and s: "ps_cb s' = (ps_cb (php p))(ca := None)"
      "\<And>v. ps_rc s' (RVal v) = ps_rc (php p) (RVal v) - cb_refs (obj_of p a) (RVal v)" "hgood (ps_h s')"
      "handles_kept (ps_h (php p)) (ps_h s')" "ps_calls s' = ps_calls (php p) @ user_calls (obj_of p a) p1 i"
      "\<And>y. no_dest (hs_reqs (ps_h s') y) = (if y = a then None else no_dest (p_heap p y))"
  shows "app_php n R B (give_back p ((lend p)\<lparr>ap_s := s'\<rparr>)) M"
proof -
  let ?p = "give_back p ((lend p)\<lparr>ap_s := s'\<rparr>)"
  have fl: "flying p (add_mset a M)" using a by (simp add: app_php_def)
  then have fl': "flying p M" by (auto simp: flying_def inj_on_def)
  have heap: "p_heap ?p = hs_reqs (ps_h s')" by (simp add: give_back_def)
  have other: "data_of p x \<noteq> Some ca" if "x \<in># M" for x
    using fl that a(2) d unfolding flying_def inj_on_def by (metis insert_iff set_mset_add_mset_insert)
  have kept: "kept_for M p ?p"
  proof (rule kept_no_dest)
    fix x assume "x \<in># M"
    then show "no_dest (p_heap ?p x) = no_dest (p_heap p x)" using s(6) [of x] a(2) heap by auto
  next
    fix x cx assume "x \<in># M" "data_of p x = Some cx"
    then show "ps_cb (php ?p) cx = ps_cb (php p) cx" using s(1) other by auto
  qed
  note f = flying_kept [OF fl' kept]
  have dom_p: "dom (p_heap ?p) = dom ((p_heap p)(a := None))"
    by (rule no_dest_dom) (use s(6) in \<open>simp add: heap no_dest_def\<close>)
  have "no_leak ?p M"
  proof -
    have "data_of ?p ` set_mset M = data_of p ` set_mset M"
      using in_flight_kept(3) [OF _ kept] fl' by (auto simp: flying_def intro!: image_cong)
    moreover have "data_of p ` set_mset M = Some ` (dom (ps_cb (php p)) - {ca})"
    proof -
      have "Some ` dom (ps_cb (php p)) = insert (Some ca) (data_of p ` set_mset M)"
        using a d by (simp add: app_php_def no_leak_def)
      moreover have "Some ca \<notin> data_of p ` set_mset M" using other by force
      ultimately have "data_of p ` set_mset M = Some ` dom (ps_cb (php p)) - {Some ca}" by blast
      then show ?thesis by auto
    qed
    ultimately show ?thesis
      using a dom_p s(1) by (auto simp: app_php_def no_leak_def)
  qed
  moreover have "php_up n ?p"
  proof -
    from dom_p show ?thesis
      using a s(1,3,4) by (simp add: app_php_def php_up_def handles_kept_def) (simp add: give_back_def)
  qed
  ultimately show ?thesis
    using a f s(2,5) owed_user_calls [of "obj_of p a" p1 i]
    by (auto simp: app_php_def owed_by_def held_by_def mset_map [symmetric] simp del: mset_map)
qed

section \<open>The pool under the extension\<close>

text \<open>Only the links and the priorities of the requests matter to the queues.\<close>

lemma chain_links:
  "\<forall>x \<in> set xs. map_option rq_next (h' x) = map_option rq_next (h x) \<Longrightarrow> chain h' p xs \<longleftrightarrow> chain h p xs"
proof (induction xs arbitrary: p)
  case (Cons y ys)
  then show ?case by (cases "h y"; cases "h' y") auto
qed simp

lemma owns_links:
  assumes o: "owns p rq rs hds"
    and l: "\<And>x. x \<in> set (concat rq @ concat rs @ hds) \<Longrightarrow>
      map_option (\<lambda>r. (rq_next r, rq_pri r)) (p_heap p' x) = map_option (\<lambda>r. (rq_next r, rq_pri r)) (p_heap p x)"
    and q: "req_queue p' = req_queue p" "res_queue p' = res_queue p"
  shows "owns p' rq rs hds"
proof -
  have l': "map_option rq_next (p_heap p' x) = map_option rq_next (p_heap p x) \<and>
      map_option rq_pri (p_heap p' x) = map_option rq_pri (p_heap p x)"
    if "x \<in> set (concat rq @ concat rs @ hds)" for x
    using l [OF that] by (cases "p_heap p x"; cases "p_heap p' x") simp_all
  have "reqq_abs (p_heap p') q ls \<longleftrightarrow> reqq_abs (p_heap p) q ls"
    if "set (concat ls) \<subseteq> set (concat rq @ concat rs @ hds)" for q ls
  proof -
    have "chain (p_heap p') ptr (ls ! k) \<longleftrightarrow> chain (p_heap p) ptr (ls ! k)" if "k < length ls" for k ptr
      using l' \<open>set (concat ls) \<subseteq> _\<close> that by (intro chain_links) (force simp: set_concat_nth)
    then show ?thesis by (auto simp: reqq_abs_def)
  qed
  moreover have "pri_ok (p_heap p') x" if "x \<in> set (concat rq @ concat rs @ hds)" for x
  proof -
    have "pri_ok (p_heap p) x" using o that by (simp add: owns_def)
    then show ?thesis using l' [OF that] by (auto simp: pri_ok_def)
  qed
  ultimately show ?thesis using o q unfolding owns_def by auto
qed

lemma owns_length:
  assumes "owns p rq rs hds"
  shows "length rq = 9" "length rs = 9"
  using assms reqq_absD(3) unfolding owns_def by blast+

definition limits :: "'io etp_pool \<Rightarrow> u32 \<times> u32" where
  "limits p = (max_poll_reqs p, max_poll_time p)"

lemma submit_ok:
  assumes o: "owns p rq rs []" and ring: "ring_ok p" and r: "p_heap p a = Some r" "rq_type r \<noteq> EIO_GROUP"
    and new: "a \<notin> set (concat rq @ concat rs)" and sp: "spawn_ok spawn"
  shows "\<exists>p' k. etp_submit want spawn p a = Some p' \<and> k < 9 \<and> owns p' (pq_push rq k a) rs [] \<and> ring_ok p' \<and>
    same_but_next ((p_heap p)(a \<mapsto> r\<lparr>rq_pri := submit_pri (rq_pri r)\<rparr>)) (p_heap p') \<and> p_io p' = p_io p \<and>
    limits p' = limits p"
proof -
  let ?r = "r\<lparr>rq_pri := submit_pri (rq_pri r)\<rparr>"
  define p1 where "p1 = p\<lparr>p_heap := (p_heap p)(a \<mapsto> ?r), nreqs := nreqs p + 1, nready := nready p + 1\<rparr>"
  have o1: "owns p1 rq rs [a]"
    using o new submit_pri_bounds [of "rq_pri r"] by (auto simp: owns_def p1_def pri_ok_def reqq_abs_frame)
  have k: "pri_of (p_heap p1) a < 9"
    using submit_pri_bounds [of "rq_pri r"] by (auto simp: pri_of_def p1_def)
  from push_request_owns [OF o1] obtain h q n where
    push: "reqq_push (p_heap p1) (req_queue p1) a = Some (n, h, q)"
      "owns (p1\<lparr>p_heap := h, req_queue := q\<rparr>) (pq_push rq (pri_of (p_heap p1) a) a) rs []"
      "same_but_next (p_heap p1) h" by blast
  let ?p2 = "p1\<lparr>p_heap := h, req_queue := q\<rparr>"
  have "ring_ok ?p2" using ring by (simp add: ring_ok_def p1_def)
  from maybe_start_ok [OF sp this] obtain w st where
    st: "etp_maybe_start_thread spawn ?p2 = Some (?p2\<lparr>p_wrk := w, started := st\<rparr>)"
      "ring_ok (?p2\<lparr>p_wrk := w, started := st\<rparr>)" by blast
  have "etp_submit want spawn p a = Some (?p2\<lparr>p_wrk := w, started := st\<rparr>)"
    using r push(1) st(1)
    by (simp add: etp_submit_def etp_submit_prep_def etp_submit_req_def upd_req_def p1_def)
  moreover have "owns (?p2\<lparr>p_wrk := w, started := st\<rparr>) (pq_push rq (pri_of (p_heap p1) a) a) rs []"
    using push(2) by (simp add: owns_def)
  ultimately show ?thesis
    using k st(2) push(3)
    by (intro exI [of _ "?p2\<lparr>p_wrk := w, started := st\<rparr>"] exI [of _ "pri_of (p_heap p1) a"])
       (simp add: p1_def limits_def)
qed

lemma round_ok:
  assumes o: "owns p rq rs []" and pop: "pq_pop rq = Some (a, rq')" and x: "p_heap p a = Some x"
    and run: "runnable xe x" "rq_type x \<noteq> EIO_CUSTOM" "rq_type x \<noteq> ETP_TYPE_QUIT"
  shows "\<exists>p' os' y k. worker_round want xe (p, os) = Some (p', os') \<and> eio_execute xe x os = Some (y, os') \<and> k < 9 \<and>
    owns p' rq' (pq_push rs k a) [] \<and> same_but_next ((p_heap p)(a \<mapsto> y)) (p_heap p') \<and>
    (p_io p' = p_io p \<or> p_io p' = want (p_io p)) \<and> p_wrk p' = p_wrk p \<and> limits p' = limits p"
proof -
  from shift_request_owns [OF o pop] obtain q where
    q: "reqq_shift (p_heap p) (req_queue p) = Some (Some a, q)" "owns (p\<lparr>req_queue := q\<rparr>) rq' rs [a]" by blast
  obtain y os' where y: "eio_execute xe x os = Some (y, os')"
    using eio_execute_total [OF run(1), of os] by (cases "eio_execute xe x os") auto
  note bk = bookkeepingD [OF keeps_execute [OF y run(2)]]
  let ?p = "p\<lparr>req_queue := q, nready := nready p - 1, p_heap := (p_heap p)(a \<mapsto> y)\<rparr>"
  have o1: "owns ?p rq' rs [a]"
    by (rule owns_links [OF q(2)]) (use x bk in auto)
  then have "pri_ok (p_heap ?p) a" by (simp add: owns_def)
  then have k: "pri_of (p_heap ?p) a < 9" by (auto elim: pri_okE)
  from push_result_owns [OF o1, of want] obtain h q2 where
    push: "push_result want ?p a = Some (?p\<lparr>p_heap := h, res_queue := q2, npending := npending ?p + 1,
        p_io := (if concat rs = [] then want (p_io ?p) else p_io ?p)\<rparr>)"
      "owns (?p\<lparr>p_heap := h, res_queue := q2\<rparr>) rq' (pq_push rs (pri_of (p_heap ?p) a) a) []"
      "same_but_next (p_heap ?p) h" by blast
  let ?p' = "?p\<lparr>p_heap := h, res_queue := q2, npending := npending ?p + 1,
        p_io := (if concat rs = [] then want (p_io ?p) else p_io ?p)\<rparr>"
  have "worker_round want xe (p, os) = Some (?p', os')"
    using q(1) x run(3) y push(1) by (simp add: worker_round_def Let_def)
  moreover have "owns ?p' rq' (pq_push rs (pri_of (p_heap ?p) a) a) []"
    using push(2) by (simp add: owns_def)
  ultimately show ?thesis
    using y k push(3)
    by (intro exI [of _ ?p'] exI [of _ os'] exI [of _ y] exI [of _ "pri_of (p_heap ?p) a"]) (simp add: limits_def)
qed

lemma pool_onlyI:
  assumes "same_but_next ((p_heap p)(a \<mapsto> y)) (p_heap p')" "p_heap p a = Some x" "rq_destroy y = rq_destroy x"
    "gist y = gist x" "ap_s (p_io p') = ap_s (p_io p)"
    and "0 < mo_pid (ap_mod (p_io p)) \<and> pp_len (mo_pipe (ap_mod (p_io p))) \<noteq> 0 \<Longrightarrow>
      0 < mo_pid (ap_mod (p_io p')) \<and> pp_len (mo_pipe (ap_mod (p_io p'))) \<noteq> 0"
  shows "pool_only p p'"
proof -
  let ?f = "\<lambda>r. (rq_destroy r, gist r)"
  have "map_option ?f (p_heap p' z) = map_option ?f (((p_heap p)(a \<mapsto> y)) z)" for z
  proof (cases "((p_heap p)(a \<mapsto> y)) z")
    case None
    then have "p_heap p' z = None" using assms(1) unfolding same_but_next_def by (metis map_option_is_None)
    with None show ?thesis by simp
  next
    case (Some r)
    from same_but_nextD [OF assms(1) Some] obtain n where "p_heap p' z = Some (r\<lparr>rq_next := n\<rparr>)" by blast
    with Some show ?thesis by (simp add: gist_def)
  qed
  then show ?thesis using assms(2-6) by (simp add: pool_only_def)
qed

section \<open>A call of a script\<close>

text \<open>
  Allocators answer with an address that is not in use, while finitely many are; and \<open>f\<close> is a call that
  hands over one plain request, after the callback object is made of \<open>zcb\<close> and \<open>data\<close>.
\<close>

definition alloc_ok :: "'w api_env \<Rightarrow> bool" where
  "alloc_ok env \<longleftrightarrow> ax_alloc env = all_ok \<and>
     (\<forall>s. finite (dom (hs_reqs (ps_h s))) \<longrightarrow> hs_reqs (ps_h s) (ax_req_addr env s) = None) \<and>
     (\<forall>s. finite (dom (hs_handles (ps_h s))) \<longrightarrow> hs_handles (ps_h s) (pe_handle_addr (ax_php env) s) = None) \<and>
     (\<forall>s. finite (dom (ps_cb s)) \<longrightarrow> ps_cb s (pe_cb_addr (ax_php env) s) = None)"

definition plain_wrap :: "(ptr \<Rightarrow> wrap_res) \<Rightarrow> bool" where
  "plain_wrap w \<longleftrightarrow>
     (\<forall>ca. \<exists>r. w (Some ca) = Sent r \<and> plain_req r \<and> rq_data r = Some ca \<and> rq_destroy r = Some D_eio_api_destroy)"

definition makes ::
    "'w api_env \<Rightarrow> zval option \<Rightarrow> zval option \<Rightarrow> 'w api \<Rightarrow> (ptr \<Rightarrow> wrap_res) \<Rightarrow> bool" where
  "makes env zcb data f w \<longleftrightarrow> plain_wrap w \<and>
     (\<forall>s. api_ready env s \<longrightarrow> f s = with_cb env zcb data s (\<lambda>cb s. request env (w cb) s))"

definition plain_call :: "'w api_env \<Rightarrow> zval option \<Rightarrow> zval option \<Rightarrow> 'w api \<Rightarrow> bool" where
  "plain_call env zcb data f \<longleftrightarrow> good_params (ax_php env) zcb data \<and> (\<exists>w. makes env zcb data f w)"

lemma alloc_okD:
  assumes "alloc_ok env"
  shows "finite (dom (hs_reqs (ps_h s))) \<Longrightarrow> hs_reqs (ps_h s) (ax_req_addr env s) = None"
    "finite (dom (hs_handles (ps_h s))) \<Longrightarrow> hs_handles (ps_h s) (pe_handle_addr (ax_php env) s) = None"
    "finite (dom (ps_cb s)) \<Longrightarrow> ps_cb s (pe_cb_addr (ax_php env) s) = None"
  using assms by (simp_all add: alloc_ok_def)

lemma php_up_ready:
  assumes "php_up n p" "alloc_ok env" "n < 2 ^ 32 - 2"
  shows "api_ready env (lend p)"
  unfolding api_ready_def
proof (intro conjI allI impI)
  fix q
  show "hs_reqs (ps_h q) (ax_req_addr env q) = None" if "ps_h q = ps_h (php p)"
  proof (rule alloc_okD(1) [OF assms(2)])
    show "finite (dom (hs_reqs (ps_h q)))" using assms(1) unfolding that by (simp add: php_up_def)
  qed
  show "hs_handles (ps_h q) (pe_handle_addr (ax_php env) q) = None" if "hs_handles (ps_h q) = hs_handles (ps_h (php p))"
    by (rule alloc_okD(2) [OF assms(2)]) (use assms(1) that in \<open>simp add: php_up_def\<close>)
qed (use assms in \<open>auto simp: php_up_def alloc_ok_def\<close>)

lemma call_handover:
  assumes up: "app_php n R B p M" and env: "alloc_ok env" "n < 2 ^ 32 - 2"
    and f: "good_params (ax_php env) zcb data" "makes env zcb data f w"
  shows "\<exists>i a io. f (lend p) = Some (R_RES i, io) \<and> ap_sent io = ap_sent (p_io p) @ [a] \<and> p_heap p a = None \<and>
    app_php (Suc n) R (B + mset (asked (ax_php env) zcb data)) (give_back p io) (add_mset a M) \<and>
    (\<forall>x. x \<noteq> a \<longrightarrow> no_dest (p_heap (give_back p io) x) = no_dest (p_heap p x)) \<and>
    (\<exists>ca r. w (Some ca) = Sent r \<and> no_dest (p_heap (give_back p io) a) = no_dest (Some r)) \<and>
    ps_calls (ap_s io) = ps_calls (php p)"
proof -
  have pu: "php_up n p" using up by (simp add: app_php_def)
  note ready = php_up_ready [OF pu env]
  from f have w: "\<And>s. api_ready env s \<Longrightarrow> f s = with_cb env zcb data s (\<lambda>cb s. request env (w cb) s)"
    and wr: "\<And>ca. \<exists>r. w (Some ca) = Sent r \<and> plain_req r \<and> rq_data r = Some ca \<and> rq_destroy r = Some D_eio_api_destroy"
    and gp: "good_params (ax_php env) zcb data" by (simp_all add: makes_def plain_wrap_def)
  let ?ca = "pe_cb_addr (ax_php env) (php p)"
  from new_eio_cb_ok [OF gp, of "php p"] obtain c where c:
    "php_eio_new_eio_cb (ax_php env) zcb data (php p) =
      (Some ?ca, (add_refs (cb_refs c) (php p))\<lparr>ps_cb := (ps_cb (php p))(?ca \<mapsto> c)\<rparr>)"
    "func_ok (cb_func c)" "no_res (cb_arg c)" "owed c = asked (ax_php env) zcb data" by blast
  define s1 where "s1 = (add_refs (cb_refs c) (php p))\<lparr>ps_cb := (ps_cb (php p))(?ca \<mapsto> c)\<rparr>"
  have h1: "ps_h s1 = ps_h (php p)" by (simp add: s1_def add_refs_def)
  define L where "L = (lend p)\<lparr>ap_s := s1\<rparr>"
  have ready': "api_ready env L" unfolding L_def by (rule api_ready_cong [OF ready h1])
  define a where "a = ax_req_addr env s1"
  have fresh: "p_heap p a = None" "ps_cb (php p) ?ca = None"
  proof -
    have "hs_reqs (ps_h s1) (ax_req_addr env s1) = None" using ready' by (simp add: api_ready_def L_def)
    then show "p_heap p a = None" by (simp add: h1 a_def)
    show "ps_cb (php p) ?ca = None"
      by (rule alloc_okD(3) [OF env(1)]) (use pu in \<open>simp add: php_up_def\<close>)
  qed
  from wr [of ?ca] obtain r where r: "w (Some ?ca) = Sent r" "plain_req r" "rq_data r = Some ?ca"
    "rq_destroy r = Some D_eio_api_destroy" by blast
  from sent_full [OF ready' r(1,4), of Le_eio_req] obtain i h where
    h: "request env (w (Some ?ca)) L = Some (R_RES i, L\<lparr>ap_s := s1\<lparr>ps_h := h, ps_rc := (ps_rc s1)(RRes i := 1)\<rparr>,
        ap_sent := ap_sent (p_io p) @ [a]\<rparr>)"
      "hgood h" "hs_ready h" "open_res h = Suc (open_res (ps_h s1))"
      "finite (dom (hs_handles (ps_h s1))) \<longrightarrow> finite (dom (hs_handles h))"
      "\<forall>x. no_dest (hs_reqs h x) = no_dest (((hs_reqs (ps_h s1))(a \<mapsto> r)) x)"
    by (auto simp: request_def a_def L_def)
  let ?io = "L\<lparr>ap_s := s1\<lparr>ps_h := h, ps_rc := (ps_rc s1)(RRes i := 1)\<rparr>, ap_sent := ap_sent (p_io p) @ [a]\<rparr>"
  have run: "f (lend p) = Some (R_RES i, ?io)"
  proof -
    have "php_eio_new_eio_cb (ax_php env) zcb data (ap_s (lend p)) = (Some ?ca, s1)"
      unfolding s1_def by (rule c(1))
    then show ?thesis using h(1) unfolding w [OF ready] with_cb_def by (simp only: prod.case L_def)
  qed
  have nd: "no_dest (hs_reqs h x) = no_dest (((p_heap p)(a \<mapsto> r)) x)" for x
    using h(6) by (simp add: h1)
  have "app_php (Suc n) R (B + mset (owed c)) (give_back p ?io) (add_mset a M)"
  proof (rule app_php_add [OF up fresh, where r = r])
    show "no_dest (hs_reqs (ps_h (ap_s ?io)) x) = no_dest (((p_heap p)(a \<mapsto> r)) x)" for x
      using nd by simp
  qed (use h(2-5) pu r c in \<open>simp_all add: L_def s1_def add_refs_def php_up_def\<close>)
  moreover have "\<forall>x. x \<noteq> a \<longrightarrow> no_dest (p_heap (give_back p ?io) x) = no_dest (p_heap p x)"
    using nd by (simp add: give_back_def)
  moreover have "no_dest (p_heap (give_back p ?io) a) = no_dest (Some r)"
    using nd [of a] by (simp add: give_back_def)
  moreover have "ap_sent ?io = ap_sent (p_io p) @ [a]" by simp
  moreover have "ps_calls (ap_s ?io) = ps_calls (php p)" by (simp add: s1_def add_refs_def)
  ultimately show ?thesis
    using run fresh(1) r(1) unfolding c(4) by blast
qed

lemma no_dest_links:
  assumes "no_dest o1 = no_dest o2"
  shows "map_option (\<lambda>r. (rq_next r, rq_pri r)) o1 = map_option (\<lambda>r. (rq_next r, rq_pri r)) o2"
  using arg_cong [OF assms, of "map_option (\<lambda>r. (rq_next r, rq_pri r))"]
  by (cases o1; cases o2) (simp_all add: no_dest_def)

lemma call_step:
  assumes o: "owns p rq rs []" and ring: "ring_ok p" and up: "app_php n R B p (mset (concat rq @ concat rs))"
    and env: "alloc_ok env" "n < 2 ^ 32 - 2" "spawn_ok spawn"
    and f: "good_params (ax_php env) zcb data" "makes env zcb data f w"
  shows "\<exists>i p' a k. script_call env spawn f p = Some (R_RES i, p') \<and> k < 9 \<and> owns p' (pq_push rq k a) rs [] \<and>
    ring_ok p' \<and> limits p' = limits p \<and>
    app_php (Suc n) R (B + mset (asked (ax_php env) zcb data)) p' (mset (concat (pq_push rq k a) @ concat rs)) \<and>
    (\<exists>ca r n q d. w (Some ca) = Sent r \<and> p_heap p' a = Some (tagged n q d r)) \<and> ps_calls (php p') = ps_calls (php p)"
proof -
  from call_handover [OF up env(1,2) f] obtain i a io ca r where
    c: "f (lend p) = Some (R_RES i, io)" "ap_sent io = ap_sent (p_io p) @ [a]" "p_heap p a = None"
      "app_php (Suc n) R (B + mset (asked (ax_php env) zcb data)) (give_back p io)
        (add_mset a (mset (concat rq @ concat rs)))"
      "\<forall>x. x \<noteq> a \<longrightarrow> no_dest (p_heap (give_back p io) x) = no_dest (p_heap p x)"
      "w (Some ca) = Sent r" "no_dest (p_heap (give_back p io) a) = no_dest (Some r)"
      "ps_calls (ap_s io) = ps_calls (php p)" by blast
  let ?p = "give_back p io"
  have new: "a \<notin> set (concat rq @ concat rs)" using owns_live [OF o, of a] c(3) by auto
  have o1: "owns ?p rq rs []"
  proof (rule owns_links [OF o])
    fix x assume "x \<in> set (concat rq @ concat rs @ [])"
    then have "x \<noteq> a" using new by auto
    then show "map_option (\<lambda>r. (rq_next r, rq_pri r)) (p_heap ?p x) = map_option (\<lambda>r. (rq_next r, rq_pri r)) (p_heap p x)"
      using c(5) by (intro no_dest_links) blast
  qed (simp_all add: give_back_def)
  have "in_flight ?p a" using c(4) by (simp add: app_php_def flying_def)
  then obtain x where x: "p_heap ?p a = Some x" "rq_type x \<noteq> EIO_GROUP"
    by (auto simp: in_flight_def plain_req_def plain_type_def)
  have "ring_ok ?p" using ring by (simp add: ring_ok_def give_back_def)
  from submit_ok [OF o1 this x new env(3), of "php_want env"] obtain p' k where
    p': "etp_submit (php_want env) spawn ?p a = Some p'" "k < 9" "owns p' (pq_push rq k a) rs []" "ring_ok p'"
      "same_but_next ((p_heap ?p)(a \<mapsto> x\<lparr>rq_pri := submit_pri (rq_pri x)\<rparr>)) (p_heap p')" "p_io p' = p_io ?p"
      "limits p' = limits ?p" by blast
  have "pool_only ?p p'"
    by (rule pool_onlyI [OF p'(5) x(1)]) (simp_all add: gist_def p'(6))
  from app_php_pool [OF c(4) this] have
    "app_php (Suc n) R (B + mset (asked (ax_php env) zcb data)) p' (mset (concat (pq_push rq k a) @ concat rs))"
    using mset_pq_push [of k rq a] owns_length(1) [OF o] p'(2) by simp
  moreover have "\<exists>ca r n q d. w (Some ca) = Sent r \<and> p_heap p' a = Some (tagged n q d r)"
  proof -
    have e: "x\<lparr>rq_destroy := None\<rparr> = r\<lparr>rq_destroy := None\<rparr>" using c(7) x(1) by (simp add: no_dest_def)
    have xr: "x = r\<lparr>rq_destroy := rq_destroy x\<rparr>"
      using arg_cong [OF e, of "rq_destroy_update (\<lambda>_. rq_destroy x)"] by simp
    obtain nx where nx: "p_heap p' a = Some (x\<lparr>rq_pri := submit_pri (rq_pri x), rq_next := nx\<rparr>)"
      using same_but_nextD [OF p'(5), of a] by auto
    have "x\<lparr>rq_pri := submit_pri (rq_pri x), rq_next := nx\<rparr> = tagged nx (submit_pri (rq_pri x)) (rq_destroy x) r"
      by (subst xr) (simp add: tagged_def)
    with nx have "p_heap p' a = Some (tagged nx (submit_pri (rq_pri x)) (rq_destroy x) r)" by simp
    with c(6) show ?thesis by blast
  qed
  moreover have "ps_calls (php p') = ps_calls (php p)" using c(8) p'(6) by (simp add: give_back_def)
  ultimately show ?thesis
    using c(1,2) p'(1-4,7)
    by (intro exI [of _ i] exI [of _ p'] exI [of _ a] exI [of _ k])
       (simp add: script_call_def limits_def give_back_def)
qed

section \<open>A round of a worker\<close>

lemma want_poll_up:
  assumes "0 < mo_pid m \<and> pp_len (mo_pipe m) \<noteq> 0"
  shows "0 < mo_pid (php_eio_want_poll_callback k m) \<and> pp_len (mo_pipe (php_eio_want_poll_callback k m)) \<noteq> 0"
    "0 < mo_pid (php_eio_done_poll_callback k m) \<and> pp_len (mo_pipe (php_eio_done_poll_callback k m)) \<noteq> 0"
  using assms by (auto simp: php_eio_want_poll_callback_def php_eio_done_poll_callback_def ev_call_eq Let_def)

lemma work_step:
  assumes o: "owns p rq rs []" and ring: "ring_ok p" and up: "app_php n R B p (mset (concat rq @ concat rs))"
    and some: "concat rq \<noteq> []"
  shows "\<exists>p' os' rq' rs'. worker_round (php_want env) xe (p, os) = Some (p', os') \<and> owns p' rq' rs' [] \<and>
    ring_ok p' \<and> limits p' = limits p \<and> length (concat rq) = Suc (length (concat rq')) \<and>
    app_php n R B p' (mset (concat rq' @ concat rs'))"
proof -
  obtain a rq' where pop: "pq_pop rq = Some (a, rq')" using some pq_pop_None [of rq] by (cases "pq_pop rq") auto
  have m: "mset (concat rq) = add_mset a (mset (concat rq'))" by (rule mset_pq_pop [OF pop])
  then have "in_flight p a" using up by (auto simp: app_php_def flying_def)
  then obtain x where x: "p_heap p a = Some x" "plain_req x" by (auto simp: in_flight_def)
  then have ty: "rq_type x \<noteq> EIO_CUSTOM" "rq_type x \<noteq> ETP_TYPE_QUIT" by (auto simp: plain_req_def plain_type_def)
  from round_ok [OF o pop x(1) plain_runnable [OF x(2), of xe] ty, where want = "php_want env" and os = os] obtain p' os' y k where
    r: "worker_round (php_want env) xe (p, os) = Some (p', os')" "eio_execute xe x os = Some (y, os')" "k < 9"
      "owns p' rq' (pq_push rs k a) []" "same_but_next ((p_heap p)(a \<mapsto> y)) (p_heap p')"
      "p_io p' = p_io p \<or> p_io p' = php_want env (p_io p)" "p_wrk p' = p_wrk p" "limits p' = limits p" by blast
  note bk = keeps_execute [OF r(2) ty(1)]
  have "pool_only p p'"
    by (rule pool_onlyI [OF r(5) x(1) bookkeepingD(7) [OF bk] gist_bookkeeping [OF bk]])
       (use r(6) want_poll_up(1) [of "ap_mod (p_io p)" "ax_kern env"] in \<open>auto simp: php_want_def\<close>)
  from app_php_pool [OF up this] have "app_php n R B p' (mset (concat rq' @ concat (pq_push rs k a)))"
    using mset_pq_push [of k rs a] owns_length(2) [OF o] r(3) m by simp
  then show ?thesis
    using r(1,4,7,8) ring length_concat_pq_pop [OF pop]
    by (intro exI [of _ p'] exI [of _ os'] exI [of _ rq'] exI [of _ "pq_push rs k a"]) (simp add: ring_ok_def)
qed

section \<open>A poll\<close>

text \<open>What finishing \<open>a\<close> calls: the function, its object, the data and the result.\<close>

definition receipt :: "nat \<times> zval \<times> zval list \<Rightarrow> nat \<times> zval \<times> zval \<times> zval" where
  "receipt e = (case e of (f, obj, params) \<Rightarrow> (f, obj, params ! 0, params ! 1))"

definition delivers :: "php_env \<Rightarrow> 'w phpapi etp_pool \<Rightarrow> addr \<Rightarrow> (nat \<times> zval \<times> zval \<times> zval) list" where
  "delivers env p a = map receipt (user_calls (obj_of p a) (result_value env (the (p_heap p a))) 0)"

lemma receipt_user_calls: "map receipt (user_calls c v i) = map receipt (user_calls c v 0)"
  by (simp add: receipt_def user_calls_def split: option.splits)

lemma cb_refs_RRes: "func_ok (cb_func c) \<Longrightarrow> no_res (cb_arg c) \<Longrightarrow> cb_refs c (RRes i) = 0"
  by (cases "cb_arg c"; cases "fi_obj (cb_func c)"; cases "fi_closure (cb_func c)")
     (auto simp: cb_refs_def func_refs_def weight_def func_ok_def no_res_def)

lemma result_value_no_dest:
  assumes "no_dest o1 = no_dest o2" "o2 \<noteq> None"
  shows "result_value env (the o1) = result_value env (the o2)"
proof -
  from assms obtain x y where o: "o1 = Some x" "o2 = Some y" by (cases o1; cases o2) (auto simp: no_dest_def)
  then have e: "x\<lparr>rq_destroy := None\<rparr> = y\<lparr>rq_destroy := None\<rparr>" using assms(1) by (simp add: no_dest_def)
  show ?thesis
    using arg_cong [OF e, of rq_result] arg_cong [OF e, of rq_type] arg_cong [OF e, of rq_ptr2] o
    by (simp add: result_value_def)
qed

lemma finish_step:
  assumes up: "app_php n R B p (add_mset a M)" "a \<notin># M" and env: "alloc_ok env" "n < 2 ^ 32 - 2" "quiet_env (ax_php env)"
  shows "\<exists>p'. eio_finish (php_cbs env) (Suc m) a p = Some (0, p') \<and> app_php n R B p' M \<and>
    (\<exists>io. p' = give_back p io \<and> ap_mod io = ap_mod (p_io p)) \<and>
    map receipt (ps_calls (php p')) = map receipt (ps_calls (php p)) @ delivers (ax_php env) p a \<and>
    (\<forall>x. x \<in># M \<longrightarrow> delivers (ax_php env) p' x = delivers (ax_php env) p x) \<and>
    (\<forall>x. x \<noteq> a \<longrightarrow> no_dest (p_heap p' x) = no_dest (p_heap p x))"
proof -
  have fl: "flying p (add_mset a M)" and pu: "php_up n p" using up(1) by (simp_all add: app_php_def)
  then obtain x ca c where x: "p_heap p a = Some x" "plain_req x" "rq_data x = Some ca" "ps_cb (php p) ca = Some c"
      "func_ok (cb_func c)" "no_res (cb_arg c)" by (auto simp: flying_def in_flight_def)
  have pl: "rq_finish x = Some F_php_eio_res_cb" "\<not> rq_cancelled x" "rq_grp x = None" "plain_type (rq_type x)"
    using x(2) by (simp_all add: plain_req_def)
  have obj: "obj_of p a = c" using x by (simp add: obj_of_def)
  have refs: "\<forall>k. cb_refs c k \<le> ps_rc (php p) k"
  proof
    fix k show "cb_refs c k \<le> ps_rc (php p) k"
      using up(1) obj cb_refs_RRes [OF x(5,6)] by (cases k) (auto simp: app_php_def held_by_def)
  qed
  have ready: "cb_ready (ax_php env) (ps_h (php p)) a"
    unfolding cb_ready_def
  proof (intro conjI allI impI)
    fix s show "hs_handles (ps_h (php p)) (pe_handle_addr (ax_php env) s) = None"
      if "hs_handles (ps_h s) = hs_handles (ps_h (php p))"
      using alloc_okD(2) [OF env(1), of s] pu that by (simp add: php_up_def)
  qed (use pu x(1) env(2) in \<open>auto simp: php_up_def\<close>)
  have "hs_reqs (ps_h (php p)) a = Some x" using x(1) by simp
  from result_arg_plain [OF this pl(4)] obtain s2 where
    res: "result_arg (ax_php env) a (php p) = Some (result_value (ax_php env) x, s2)" by blast
  from eio_finish_php [OF x(1) pl(1) x(3) pl(2,3) env(3) x(4-6) refs ready res, of m] obtain s' i where
    s': "eio_finish (php_cbs env) (Suc m) a p = Some (0, give_back p ((lend p)\<lparr>ap_s := s'\<rparr>))"
      "ps_cb s' = (ps_cb (php p))(ca := None)"
      "\<And>v. ps_rc s' (RVal v) = ps_rc (php p) (RVal v) - cb_refs c (RVal v)" "hgood (ps_h s')"
      "handles_kept (ps_h (php p)) (ps_h s')"
      "ps_calls s' = ps_calls (php p) @ user_calls c (result_value (ax_php env) x) i"
      "\<And>y. no_dest (hs_reqs (ps_h s') y) = (if y = a then None else no_dest (p_heap p y))" by blast
  let ?p = "give_back p ((lend p)\<lparr>ap_s := s'\<rparr>)"
  have d: "data_of p a = Some ca" using x by simp
  have "app_php n R B ?p M"
    by (rule app_php_del [OF up d s'(2) s'(3) [folded obj] s'(4,5) s'(6) [folded obj] s'(7)])
  moreover have "map receipt (ps_calls (php ?p)) = map receipt (ps_calls (php p)) @ delivers (ax_php env) p a"
    using s'(6) x(1) by (simp add: delivers_def obj receipt_user_calls [of c _ i])
  moreover have heap: "\<forall>z. z \<noteq> a \<longrightarrow> no_dest (p_heap ?p z) = no_dest (p_heap p z)"
    using s'(7) by (simp add: give_back_def)
  moreover have "\<forall>z. z \<in># M \<longrightarrow> delivers (ax_php env) ?p z = delivers (ax_php env) p z"
  proof (intro allI impI)
    fix z assume z: "z \<in># M"
    then have za: "z \<noteq> a" using up(2) by auto
    have in_z: "in_flight p z" using fl z by (simp add: flying_def)
    have "kept_for {#z#} p ?p"
    proof (rule kept_no_dest)
      fix y cy assume y: "y \<in># {#z#}" "data_of p y = Some cy"
      have "cy \<noteq> ca" using fl y z za d unfolding flying_def inj_on_def by (metis insert_iff set_mset_add_mset_insert set_mset_single singletonD)
      then show "ps_cb (php ?p) cy = ps_cb (php p) cy" using s'(2) by simp
    qed (use heap za in auto)
    then have "obj_of ?p z = obj_of p z" using in_flight_kept(2) [OF in_z] by simp
    moreover have "result_value (ax_php env) (the (p_heap ?p z)) = result_value (ax_php env) (the (p_heap p z))"
      using heap za in_z by (intro result_value_no_dest) (auto simp: in_flight_def)
    ultimately show "delivers (ax_php env) ?p z = delivers (ax_php env) p z" by (simp add: delivers_def)
  qed
  ultimately show ?thesis
    using s'(1) by (intro exI [of _ ?p]) (auto intro!: exI [of _ "(lend p)\<lparr>ap_s := s'\<rparr>"])
qed

lemma poll_handle_plain:
  "p_heap p a = Some x \<Longrightarrow> rq_type x \<noteq> EIO_GROUP \<Longrightarrow>
   poll_handle finish a p = map_option (\<lambda>(res, pool). (Some res, pool)) (finish a p)"
  by (simp add: poll_handle_def)

lemma deliver_one:
  assumes o: "owns p rq rs []" and ring: "ring_ok p" and up: "app_php n R B p (mset (concat rq @ concat rs))"
    and env: "alloc_ok env" "n < 2 ^ 32 - 2" "quiet_env (ax_php env)" and pop: "pq_pop rs = Some (a, rs1)"
  shows "\<exists>p2 p3. poll_shift (php_done env) p = Some (Some a, p2) \<and>
    poll_handle (eio_finish (php_cbs env) (Suc m)) a (poll_account p2) = Some (Some 0, p3) \<and>
    owns p3 rq rs1 [] \<and> ring_ok p3 \<and> limits p3 = limits p \<and> app_php n R B p3 (mset (concat rq @ concat rs1)) \<and>
    map receipt (ps_calls (php p3)) = map receipt (ps_calls (php p)) @ delivers (ax_php env) p a \<and>
    (\<forall>x \<in> set (concat rs1). delivers (ax_php env) p3 x = delivers (ax_php env) p x)"
proof -
  from poll_shift_owns [OF o pop, of "php_done env"] obtain q where
    q: "poll_shift (php_done env) p = Some (Some a, p\<lparr>res_queue := q, npending := npending p - 1,
          p_io := (if concat rs1 = [] then php_done env (p_io p) else p_io p)\<rparr>)"
      "owns (p\<lparr>res_queue := q\<rparr>) rq rs1 [a]" by blast
  define p2 where "p2 = p\<lparr>res_queue := q, npending := npending p - 1,
          p_io := (if concat rs1 = [] then php_done env (p_io p) else p_io p)\<rparr>"
  let ?p = "poll_account p2" and ?M = "mset (concat rq @ concat rs1)"
  have o2: "owns ?p rq rs1 [a]" using q(2) by (simp add: owns_def p2_def poll_account_def)
  have M: "mset (concat rq @ concat rs) = add_mset a ?M" using mset_pq_pop [OF pop] by simp
  have "a \<notin> set (concat rq @ concat rs1)" using o2 by (auto simp: owns_def simp del: distinct_concat_iff)
  then have aM: "a \<notin># ?M" by (metis set_mset_mset)
  have io: "ap_s (p_io ?p) = ap_s (p_io p)" by (simp add: p2_def poll_account_def php_done_def)
  have heap: "p_heap ?p = p_heap p" by (simp add: p2_def poll_account_def)
  have "pool_only p ?p"
    using want_poll_up(2) [of "ap_mod (p_io p)" "ax_kern env"] io heap
    by (auto simp: pool_only_def p2_def poll_account_def php_done_def)
  from app_php_pool [OF up this] have up2: "app_php n R B ?p (add_mset a ?M)" unfolding M .
  have same: "delivers (ax_php env) ?p x = delivers (ax_php env) p x" for x
    by (simp add: delivers_def obj_of_def heap io)
  have "in_flight ?p a" using up2 by (auto simp: app_php_def flying_def)
  then obtain x where x: "p_heap ?p a = Some x" "rq_type x \<noteq> EIO_GROUP"
    by (auto simp: in_flight_def plain_req_def plain_type_def)
  from finish_step [OF up2 aM env, of m] obtain p3 fio where
    p3: "eio_finish (php_cbs env) (Suc m) a ?p = Some (0, p3)" "app_php n R B p3 ?M"
      "p3 = give_back ?p fio"
      "map receipt (ps_calls (php p3)) = map receipt (ps_calls (php ?p)) @ delivers (ax_php env) ?p a"
      "\<forall>x. x \<in># ?M \<longrightarrow> delivers (ax_php env) p3 x = delivers (ax_php env) ?p x"
      "\<forall>x. x \<noteq> a \<longrightarrow> no_dest (p_heap p3 x) = no_dest (p_heap ?p x)" by blast
  have o2': "owns ?p rq rs1 []" using o2 by (auto simp: owns_def simp del: distinct_concat_iff)
  have "owns p3 rq rs1 []"
  proof (rule owns_links [OF o2'])
    fix y assume "y \<in> set (concat rq @ concat rs1 @ [])"
    then have "y \<noteq> a" using \<open>a \<notin> set (concat rq @ concat rs1)\<close> by auto
    then show "map_option (\<lambda>r. (rq_next r, rq_pri r)) (p_heap p3 y) = map_option (\<lambda>r. (rq_next r, rq_pri r)) (p_heap ?p y)"
      using p3(6) by (intro no_dest_links) blast
  qed (simp_all add: p3(3) give_back_def)
  moreover have "ring_ok p3" "limits p3 = limits p"
    using ring by (simp_all add: ring_ok_def limits_def p3(3) give_back_def p2_def poll_account_def)
  moreover have "poll_handle (eio_finish (php_cbs env) (Suc m)) a ?p = Some (Some 0, p3)"
    using poll_handle_plain [OF x] p3(1) by simp
  ultimately show ?thesis
    using q(1) [folded p2_def] p3(2,4,5) io
    by (intro exI conjI) (auto simp: same)
qed

lemma poll_delivers:
  assumes env: "alloc_ok env" "n < 2 ^ 32 - 2" "quiet_env (ax_php env)" "spawn_ok spawn"
  shows "owns p rq rs [] \<Longrightarrow> ring_ok p \<Longrightarrow> app_php n R B p (mset (concat rq @ concat rs)) \<Longrightarrow>
    length (concat rs) < fuel \<Longrightarrow>
    \<exists>res p' rs' ds. etp_poll_loop (php_done env) spawn (eio_finish (php_cbs env) (Suc m)) now fuel i maxreqs maxtime p =
        Some (res, p') \<and>
      owns p' rq rs' [] \<and> ring_ok p' \<and> limits p' = limits p \<and> app_php n R B p' (mset (concat rq @ concat rs')) \<and>
      concat (rev rs) = ds @ concat (rev rs') \<and>
      map receipt (ps_calls (php p')) =
        map receipt (ps_calls (php p)) @ concat (map (delivers (ax_php env) p) ds) \<and>
      (res = 0 \<and> concat rs' = [] \<or> res = -1 \<and> p_errno p' = EAGAIN \<and> (maxreqs \<noteq> 0 \<or> maxtime \<noteq> 0))"
proof (induction fuel arbitrary: p rs i maxreqs)
  case 0
  then show ?case by simp
next
  case (Suc fuel)
  from maybe_start_ok [OF env(4) Suc.prems(2)] obtain w st where
    st: "etp_maybe_start_thread spawn p = Some (p\<lparr>p_wrk := w, started := st\<rparr>)"
      "ring_ok (p\<lparr>p_wrk := w, started := st\<rparr>)" by blast
  define p1 where "p1 = p\<lparr>p_wrk := w, started := st\<rparr>"
  have o1: "owns p1 rq rs []" using Suc.prems(1) by (simp add: owns_def p1_def)
  have r1: "ring_ok p1" "limits p1 = limits p" "php p1 = php p" and sp1: "etp_maybe_start_thread spawn p = Some p1"
    using st by (simp_all add: p1_def limits_def lend_def)
  have "pool_only p p1" by (simp add: pool_only_def p1_def)
  from app_php_pool [OF Suc.prems(3) this] have up1: "app_php n R B p1 (mset (concat rq @ concat rs))" .
  have d1: "delivers (ax_php env) p1 x = delivers (ax_php env) p x" for x
    by (simp add: delivers_def obj_of_def p1_def)
  show ?case
  proof (cases "pq_pop rs")
    case None
    then have "concat rs = []" by (simp add: pq_pop_None)
    then show ?thesis
      using poll_shift_empty [OF o1 None] sp1 o1 r1 up1
      by (intro exI [of _ 0] exI [of _ p1] exI [of _ rs] exI [of _ "[]"]) simp
  next
    case (Some z)
    then obtain a rs1 where pop: "pq_pop rs = Some (a, rs1)" by (cases z) auto
    have len: "length (concat rs) = Suc (length (concat rs1))" using pop by (rule length_concat_pq_pop)
    from deliver_one [OF o1 r1(1) up1 env(1-3) pop, of m] obtain p2 p3 where
      p2: "poll_shift (php_done env) p1 = Some (Some a, p2)"
      and p3: "poll_handle (eio_finish (php_cbs env) (Suc m)) a (poll_account p2) = Some (Some 0, p3)"
        "owns p3 rq rs1 []" "ring_ok p3" "limits p3 = limits p1" "app_php n R B p3 (mset (concat rq @ concat rs1))"
        "map receipt (ps_calls (php p3)) = map receipt (ps_calls (php p1)) @ delivers (ax_php env) p1 a"
        "\<forall>x \<in> set (concat rs1). delivers (ax_php env) p3 x = delivers (ax_php env) p1 x" by blast
    note order = pq_pop_concat_rev [OF pop]
    have stop: ?thesis if "etp_poll_loop (php_done env) spawn (eio_finish (php_cbs env) (Suc m)) now (Suc fuel) i maxreqs
          maxtime p = Some (-1, p3\<lparr>p_errno := EAGAIN\<rparr>)" "maxreqs \<noteq> 0 \<or> maxtime \<noteq> 0"
    proof -
      have "pool_only p3 (p3\<lparr>p_errno := EAGAIN\<rparr>)" by (simp add: pool_only_def)
      note up3 = app_php_pool [OF p3(5) this]
      show ?thesis
        unfolding that(1) using p3 that(2) up3 r1 order d1
        by (intro exI [of _ "-1"] exI [of _ "p3\<lparr>p_errno := EAGAIN\<rparr>"] exI [of _ rs1] exI [of _ "[a]"])
           (simp add: owns_def ring_ok_def limits_def)
    qed
    have go: ?thesis if "etp_poll_loop (php_done env) spawn (eio_finish (php_cbs env) (Suc m)) now (Suc fuel) i maxreqs
          maxtime p = etp_poll_loop (php_done env) spawn (eio_finish (php_cbs env) (Suc m)) now fuel j mr maxtime p3"
        "mr \<noteq> 0 \<longrightarrow> maxreqs \<noteq> 0" for j mr
    proof -
      from Suc.IH [OF p3(2,3,5), of j mr] Suc.prems(4) len obtain res p' rs' ds where
        h: "etp_poll_loop (php_done env) spawn (eio_finish (php_cbs env) (Suc m)) now fuel j mr maxtime p3 = Some (res, p')"
          "owns p' rq rs' []" "ring_ok p'" "limits p' = limits p3" "app_php n R B p' (mset (concat rq @ concat rs'))"
          "concat (rev rs1) = ds @ concat (rev rs')"
          "map receipt (ps_calls (php p')) = map receipt (ps_calls (php p3)) @ concat (map (delivers (ax_php env) p3) ds)"
          "res = 0 \<and> concat rs' = [] \<or> res = -1 \<and> p_errno p' = EAGAIN \<and> (mr \<noteq> 0 \<or> maxtime \<noteq> 0)" by auto
      have "set ds \<subseteq> set (concat rs1)" using arg_cong [OF h(6), of set] by auto
      then have "map (delivers (ax_php env) p3) ds = map (delivers (ax_php env) p) ds" using p3(7) d1 by auto
      then have "concat (map (delivers (ax_php env) p3) ds) = concat (map (delivers (ax_php env) p) ds)" by (rule arg_cong)
      then show ?thesis
        unfolding that(1) using h p3(4,6) r1 order d1 that(2)
        by (intro exI [of _ res] exI [of _ p'] exI [of _ rs'] exI [of _ "a # ds"]) auto
    qed
    let ?late = "maxtime \<noteq> 0 \<and> maxtime \<le> word_of_int (etp_tvdiff (now 0) (now (Suc i)))"
    let ?mr = "if maxreqs \<noteq> 0 then maxreqs - 1 else maxreqs"
    have step: "etp_poll_loop (php_done env) spawn (eio_finish (php_cbs env) (Suc m)) now (Suc fuel) i maxreqs maxtime p =
        (if maxreqs \<noteq> 0 \<and> maxreqs - 1 = 0 \<or> ?late then Some (-1, p3\<lparr>p_errno := EAGAIN\<rparr>)
         else etp_poll_loop (php_done env) spawn (eio_finish (php_cbs env) (Suc m)) now fuel (Suc i) ?mr maxtime p3)"
      using sp1 p2 p3(1) by (simp add: Let_def)
    show ?thesis
    proof (cases "maxreqs \<noteq> 0 \<and> maxreqs - 1 = 0 \<or> ?late")
      case True
      then show ?thesis using step by (intro stop) auto
    next
      case False
      then show ?thesis using step by (intro go [of "Suc i" ?mr]) auto
    qed
  qed
qed

section \<open>Runs of a script\<close>

text \<open>
  A script calls a function with the callback parameters \<open>zcb\<close> and \<open>data\<close>; some worker does a round (it
  waits when there is nothing to do); the script polls, with \<open>now\<close> the time on the way.
\<close>

datatype 'w act = Call "zval option" "zval option" "'w api" | Work | Poll "nat \<Rightarrow> timeval"

fun run_act ::
    "'w api_env \<Rightarrow> ('w phpapi etp_pool \<Rightarrow> addr \<times> bool) \<Rightarrow> 'x exec_env \<Rightarrow> 'w act \<Rightarrow>
     'w phpapi etp_pool \<times> 'x os \<Rightarrow> ('w phpapi etp_pool \<times> 'x os) option" where
  "run_act env spawn xe (Call zcb data f) (p, os) = map_option (\<lambda>(_, p). (p, os)) (script_call env spawn f p)"
| "run_act env spawn xe Work (p, os) =
     (if q_size (req_queue p) = 0 then Some (p, os) else worker_round (php_want env) xe (p, os))"
| "run_act env spawn xe (Poll now) (p, os) =
     map_option (\<lambda>(_, p). (p, os))
       (eio_poll (php_done env) spawn (php_cbs env) now (Suc (nat (q_size (res_queue p)))) p)"

fun run_acts ::
    "'w api_env \<Rightarrow> ('w phpapi etp_pool \<Rightarrow> addr \<times> bool) \<Rightarrow> 'x exec_env \<Rightarrow> 'w act list \<Rightarrow>
     'w phpapi etp_pool \<times> 'x os \<Rightarrow> ('w phpapi etp_pool \<times> 'x os) option" where
  "run_acts env spawn xe [] s = Some s"
| "run_acts env spawn xe (a # as) s = do { s \<leftarrow> run_act env spawn xe a s; run_acts env spawn xe as s }"

fun good_act :: "'w api_env \<Rightarrow> 'w act \<Rightarrow> bool" where
  "good_act env (Call zcb data f) = plain_call env zcb data f"
| "good_act env _ = True"

fun asked_act :: "'w api_env \<Rightarrow> 'w act \<Rightarrow> (nat \<times> zval \<times> zval) list" where
  "asked_act env (Call zcb data f) = asked (ax_php env) zcb data"
| "asked_act env _ = []"

definition asked_by :: "'w api_env \<Rightarrow> 'w act list \<Rightarrow> (nat \<times> zval \<times> zval) multiset" where
  "asked_by env acts = mset (concat (map (asked_act env) acts))"

text \<open>The program just started: the module is up, and no request was made.\<close>

definition fresh_app :: "nat \<Rightarrow> 'w phpapi etp_pool \<Rightarrow> bool" where
  "fresh_app n p \<longleftrightarrow> php_up n p \<and> p_heap p = Map.empty \<and> ps_cb (php p) = Map.empty \<and> ps_calls (php p) = [] \<and>
     owns p (replicate 9 []) (replicate 9 []) [] \<and> ring_ok p"

definition app_inv where
  "app_inv n R B L p rq rs \<longleftrightarrow> owns p rq rs [] \<and> ring_ok p \<and> app_php n R B p (mset (concat rq @ concat rs)) \<and>
     limits p = L"

definition world_ok :: "'w api_env \<Rightarrow> ('w phpapi etp_pool \<Rightarrow> addr \<times> bool) \<Rightarrow> bool" where
  "world_ok env spawn \<longleftrightarrow> alloc_ok env \<and> quiet_env (ax_php env) \<and> spawn_ok spawn"

lemma app_inv_sizes:
  assumes "app_inv n R B L p rq rs"
  shows "q_size (req_queue p) = int (length (concat rq))" "q_size (res_queue p) = int (length (concat rs))"
  using assms reqq_absD(7) unfolding app_inv_def owns_def by blast+

lemma fresh_inv: "fresh_app n p \<Longrightarrow>
    app_inv n (\<lambda>v. ps_rc (php p) (RVal v)) {#} (limits p) p (replicate 9 []) (replicate 9 [])"
  by (simp add: app_inv_def fresh_app_def app_php_def flying_def no_leak_def held_by_def owed_by_def
      concat_replicate_trivial)

lemma poll_app_inv:
  assumes w: "world_ok env spawn" "n < 2 ^ 32 - 2" and i: "app_inv n R B L p rq rs"
  shows "\<exists>res p' rs' ds. eio_poll (php_done env) spawn (php_cbs env) now (Suc (nat (q_size (res_queue p)))) p = Some (res, p') \<and>
    app_inv n R B L p' rq rs' \<and> concat (rev rs) = ds @ concat (rev rs') \<and>
    map receipt (ps_calls (php p')) = map receipt (ps_calls (php p)) @ concat (map (delivers (ax_php env) p) ds) \<and>
    (res = 0 \<and> concat rs' = [] \<or> res = -1 \<and> p_errno p' = EAGAIN \<and> L \<noteq> (0, 0))"
proof -
  have len: "length (concat rs) < Suc (nat (q_size (res_queue p)))" using app_inv_sizes(2) [OF i] by simp
  have "alloc_ok env" "quiet_env (ax_php env)" "spawn_ok spawn" using w by (simp_all add: world_ok_def)
  note e = this(1) w(2) this(2,3)
  have "owns p rq rs []" "ring_ok p" "app_php n R B p (mset (concat rq @ concat rs))" "limits p = L"
    using i by (simp_all add: app_inv_def)
  note o = this
  from poll_delivers [OF e o(1-3) len, of "nat (q_size (res_queue p))" now 0 "max_poll_reqs p" "max_poll_time p"]
  obtain res p' rs' ds where r:
    "eio_poll (php_done env) spawn (php_cbs env) now (Suc (nat (q_size (res_queue p)))) p = Some (res, p')"
    "owns p' rq rs' []" "ring_ok p'" "limits p' = limits p" "app_php n R B p' (mset (concat rq @ concat rs'))"
    "concat (rev rs) = ds @ concat (rev rs')"
    "map receipt (ps_calls (php p')) = map receipt (ps_calls (php p)) @ concat (map (delivers (ax_php env) p) ds)"
    "res = 0 \<and> concat rs' = [] \<or> res = -1 \<and> p_errno p' = EAGAIN \<and> (max_poll_reqs p \<noteq> 0 \<or> max_poll_time p \<noteq> 0)"
    unfolding eio_poll_def etp_poll_def by blast
  have "app_inv n R B L p' rq rs'" using r(2-5) o(4) by (simp add: app_inv_def)
  moreover have "res = 0 \<and> concat rs' = [] \<or> res = -1 \<and> p_errno p' = EAGAIN \<and> L \<noteq> (0, 0)"
    using r(8) o(4) by (auto simp: limits_def)
  ultimately show ?thesis using r(1,6,7) by blast
qed

lemma act_inv:
  assumes w: "world_ok env spawn" "Suc n < 2 ^ 32 - 2" and i: "app_inv n R B L p rq rs" and g: "good_act env a"
  shows "\<exists>p' os' rq' rs' n'. run_act env spawn xe a (p, os) = Some (p', os') \<and> n' \<le> Suc n \<and>
    app_inv n' R (B + mset (asked_act env a)) L p' rq' rs' \<and> length (concat rq') \<le> Suc (length (concat rq))"
proof -
  have o: "owns p rq rs []" "ring_ok p" "app_php n R B p (mset (concat rq @ concat rs))" "limits p = L"
    using i by (simp_all add: app_inv_def)
  have e: "alloc_ok env" "n < 2 ^ 32 - 2" "spawn_ok spawn" using w by (simp_all add: world_ok_def)
  show ?thesis
  proof (cases a)
    case (Call zcb data f)
    with g obtain w where f: "good_params (ax_php env) zcb data" "makes env zcb data f w"
      by (auto simp: plain_call_def)
    from call_step [OF o(1-3) e f] obtain i p' a' k where
      c: "script_call env spawn f p = Some (R_RES i, p')" "k < 9" "owns p' (pq_push rq k a') rs []" "ring_ok p'"
        "limits p' = limits p" "app_php (Suc n) R (B + mset (asked (ax_php env) zcb data)) p'
          (mset (concat (pq_push rq k a') @ concat rs))" by blast
    have "length (concat (pq_push rq k a')) = Suc (length (concat rq))"
      using c(2) owns_length(1) [OF o(1)] by (intro length_concat_pq_push) simp
    then show ?thesis
      using c o(4) Call
      by (intro exI [of _ p'] exI [of _ os] exI [of _ "pq_push rq k a'"] exI [of _ rs] exI [of _ "Suc n"])
         (simp add: app_inv_def)
  next
    case Work
    show ?thesis
    proof (cases "concat rq = []")
      case True
      then have "run_act env spawn xe a (p, os) = Some (p, os)" using Work app_inv_sizes(1) [OF i] by simp
      then show ?thesis
        by (intro exI conjI, assumption) (use i Work in \<open>auto intro: le_SucI\<close>)
    next
      case False
      from work_step [OF o(1-3) False, of env xe os] obtain p' os' rq' rs' where
        r: "worker_round (php_want env) xe (p, os) = Some (p', os')" "owns p' rq' rs' []" "ring_ok p'"
          "limits p' = limits p" "length (concat rq) = Suc (length (concat rq'))"
          "app_php n R B p' (mset (concat rq' @ concat rs'))" by blast
      then have "run_act env spawn xe a (p, os) = Some (p', os')" using Work app_inv_sizes(1) [OF i] by simp
      then show ?thesis
        using r o(4) Work by (intro exI conjI) (assumption | rule le_SucI [OF order_refl] | simp add: app_inv_def)+
    qed
  next
    case (Poll now)
    from poll_app_inv [OF w(1) e(2) i, of now] obtain res p' rs' where
      "eio_poll (php_done env) spawn (php_cbs env) now (Suc (nat (q_size (res_queue p)))) p = Some (res, p')"
      "app_inv n R B L p' rq rs'" by blast
    then show ?thesis
      using Poll by (intro exI [of _ p'] exI [of _ os] exI [of _ rq] exI [of _ rs'] exI [of _ n]) simp
  qed
qed

lemma acts_inv:
  assumes w: "world_ok env spawn"
  shows "app_inv n R B L p rq rs \<Longrightarrow> \<forall>a \<in> set acts. good_act env a \<Longrightarrow> n + length acts < 2 ^ 32 - 2 \<Longrightarrow>
    \<exists>p' os' rq' rs' n'. run_acts env spawn xe acts (p, os) = Some (p', os') \<and> n' \<le> n + length acts \<and>
      app_inv n' R (B + asked_by env acts) L p' rq' rs' \<and> length (concat rq') \<le> length (concat rq) + length acts"
proof (induction acts arbitrary: n B p os rq rs)
  case Nil
  then show ?case by (auto simp: asked_by_def)
next
  case (Cons a acts)
  then have "Suc n < 2 ^ 32 - 2" "good_act env a" by simp_all
  from act_inv [OF w this(1) Cons.prems(1) this(2), of xe os] obtain p1 os1 rq1 rs1 n1 where
    a: "run_act env spawn xe a (p, os) = Some (p1, os1)" "n1 \<le> Suc n"
      "app_inv n1 R (B + mset (asked_act env a)) L p1 rq1 rs1" "length (concat rq1) \<le> Suc (length (concat rq))" by blast
  have "\<forall>a \<in> set acts. good_act env a" "n1 + length acts < 2 ^ 32 - 2" using Cons.prems(2,3) a(2) by simp_all
  from Cons.IH [OF a(3) this, of os1] obtain p' os' rq' rs' n' where
    r: "run_acts env spawn xe acts (p1, os1) = Some (p', os')" "n' \<le> n1 + length acts"
      "app_inv n' R (B + mset (asked_act env a) + asked_by env acts) L p' rq' rs'"
      "length (concat rq') \<le> length (concat rq1) + length acts" by blast
  have "app_inv n' R (B + asked_by env (a # acts)) L p' rq' rs'" using r(3) by (simp add: asked_by_def add.assoc)
  moreover have "run_acts env spawn xe (a # acts) (p, os) = Some (p', os')" using a(1) r(1) by simp
  moreover have "n' \<le> n + length (a # acts)" "length (concat rq') \<le> length (concat rq) + length (a # acts)"
    using a(2,4) r(2,4) by simp_all
  ultimately show ?case by blast
qed

lemma run_acts_append:
  "run_acts env spawn xe (as @ bs) s = do { s \<leftarrow> run_acts env spawn xe as s; run_acts env spawn xe bs s }"
  by (induction as arbitrary: s) (simp_all split: Option.bind_splits)

lemma works_inv:
  "app_inv n R B L p rq rs \<Longrightarrow> length (concat rq) \<le> k \<Longrightarrow>
   \<exists>p' os' rq' rs'. run_acts env spawn xe (replicate k Work) (p, os) = Some (p', os') \<and>
     app_inv n R B L p' rq' rs' \<and> concat rq' = []"
proof (induction k arbitrary: p os rq rs)
  case 0
  then show ?case by auto
next
  case (Suc k)
  have o: "owns p rq rs []" "ring_ok p" "app_php n R B p (mset (concat rq @ concat rs))" "limits p = L"
    using Suc.prems(1) by (simp_all add: app_inv_def)
  note size = app_inv_sizes(1) [OF Suc.prems(1)]
  show ?case
  proof (cases "concat rq = []")
    case True
    then have "run_act env spawn xe Work (p, os) = Some (p, os)" "length (concat rq) \<le> k"
      using size by (simp, simp only: list.size le0)
    then show ?thesis using Suc.IH [OF Suc.prems(1), of os] by simp
  next
    case False
    from work_step [OF o(1-3) False, of env xe os] obtain p' os' rq' rs' where
      r: "worker_round (php_want env) xe (p, os) = Some (p', os')" "owns p' rq' rs' []" "ring_ok p'"
        "limits p' = limits p" "length (concat rq) = Suc (length (concat rq'))"
        "app_php n R B p' (mset (concat rq' @ concat rs'))" by blast
    then have "app_inv n R B L p' rq' rs'" "length (concat rq') \<le> k" using o(4) Suc.prems(2) by (simp_all add: app_inv_def)
    moreover have "run_act env spawn xe Work (p, os) = Some (p', os')" using r(1) False size by auto
    ultimately show ?thesis using Suc.IH [of p' rq' rs' os'] by simp
  qed
qed

section \<open>A call and its result\<close>

text \<open>From a request on its own to the value its callback gets.\<close>

lemma receipt_owed: "map receipt (user_calls c v i) = map (\<lambda>(f, obj, d). (f, obj, d, v)) (owed c)"
  by (simp add: owed_def receipt_def stripped_def user_calls_def split: option.splits)

lemma mset_short: "mset xs = mset ys \<Longrightarrow> length ys \<le> 1 \<Longrightarrow> xs = ys"
  by (cases ys) (auto dest: mset_eq_length)

lemma asked_short: "length (asked env zcb data) \<le> 1"
  by (simp add: asked_def split: option.splits)

lemma single_row:
  assumes "distinct (concat xs)" "set (concat xs) = {a}"
  shows "concat xs = [a]" "concat (rev xs) = [a]"
proof -
  have len: "ys = [a]" if "distinct ys" "set ys = {a}" for ys :: "'a list"
    using that by (cases ys) (auto dest: subset_singletonD)
  show "concat xs = [a]" by (rule len [OF assms])
  have m: "mset (concat (rev xs)) = mset (concat xs)" by (simp add: mset_concat rev_map [symmetric])
  show "concat (rev xs) = [a]"
    using len [of "concat (rev xs)"] mset_eq_setD [OF m] mset_eq_imp_distinct_iff [OF m] assms by blast
qed

definition says_long :: "eio_type \<Rightarrow> bool" where
  "says_long t \<longleftrightarrow> t \<notin> {EIO_STAT, EIO_LSTAT, EIO_FSTAT, EIO_STATVFS, EIO_FSTATVFS}"

lemma worked:
  assumes i: "app_inv n R B L p rq rs" and rows: "concat rq = [a]" "concat rs = []"
    and x: "p_heap p a = Some (tagged nx q d r)" and perf: "performs xe os (Sent r) c" "plain_type (rq_type r)"
  shows "\<exists>p' os' rq' rs' nx' y. worker_round (php_want env) xe (p, os) = Some (p', os') \<and> app_inv n R B L p' rq' rs' \<and>
    concat rq' = [] \<and> concat rs' = [a] \<and> concat (rev rs') = [a] \<and> os' = snd (call1 (ex_kern xe) c os) \<and>
    p_heap p' a = Some (tagged nx' q d y) \<and> rq_type y = rq_type r \<and> rq_result y = fst (call1 (ex_kern xe) c os) \<and>
    ps_calls (php p') = ps_calls (php p)"
proof -
  have o: "owns p rq rs []" "ring_ok p" "app_php n R B p (mset (concat rq @ concat rs))" "limits p = L"
    using i by (simp_all add: app_inv_def)
  have leak: "dom (p_heap p) = {a}" using o(3) unfolding rows by (simp add: app_php_def no_leak_def)
  obtain rq1 where pop: "pq_pop rq = Some (a, rq1)" "concat rq1 = []"
  proof -
    obtain b rq1 where b: "pq_pop rq = Some (b, rq1)" using pq_pop_None [of rq] rows(1) by (cases "pq_pop rq") auto
    have "add_mset b (mset (concat rq1)) = {#a#}" using mset_pq_pop [OF b] rows(1) by simp
    then have "b = a" "concat rq1 = []" by auto
    with b that show ?thesis by blast
  qed
  let ?x = "tagged nx q d r"
  have pl: "plain_req ?x" using o(3) x unfolding rows by (auto simp: app_php_def flying_def in_flight_def)
  then have ty: "rq_type ?x \<noteq> EIO_CUSTOM" "rq_type ?x \<noteq> ETP_TYPE_QUIT" by (auto simp: plain_req_def plain_type_def)
  from round_ok [OF o(1) pop(1) x plain_runnable [OF pl, of xe] ty, where want = "php_want env" and os = os]
  obtain p' os' y k where
    r: "worker_round (php_want env) xe (p, os) = Some (p', os')" "eio_execute xe ?x os = Some (y, os')" "k < 9"
      "owns p' rq1 (pq_push rs k a) []" "same_but_next ((p_heap p)(a \<mapsto> y)) (p_heap p')"
      "p_io p' = p_io p \<or> p_io p' = php_want env (p_io p)" by blast
  from work_step [OF o(1-3), of env xe os] rows r(1) obtain rq' rs' where
    w: "owns p' rq' rs' []" "ring_ok p'" "limits p' = limits p" "length (concat rq) = Suc (length (concat rq'))"
      "app_php n R B p' (mset (concat rq' @ concat rs'))" by auto
  have rq': "concat rq' = []" using w(4) rows(1) by simp
  have "dom (p_heap p') = {a}" using same_but_next_dom [OF r(5)] leak by simp
  then have row: "set (concat rs') = {a}" using w(5) unfolding rq' by (simp add: app_php_def no_leak_def)
  have "distinct (concat rs')" using w(1) by (auto simp: owns_def simp del: distinct_concat_iff)
  note rows' = single_row [OF this row]
  let ?y = "r\<lparr>rq_result := fst (call1 (ex_kern xe) c os), rq_errorno := os_errno (snd (call1 (ex_kern xe) c os))\<rparr>"
  have "eio_execute xe r os = Some (?y, snd (call1 (ex_kern xe) c os))"
    using perf(1) by (simp add: performs_def split: prod.splits)
  then have y: "y = tagged nx q d ?y" "os' = snd (call1 (ex_kern xe) c os)"
    using r(2) tagged_execute [OF perf(2), of xe nx q d os] by auto
  from same_but_nextD [OF r(5), of a] obtain nx' where "p_heap p' a = Some (y\<lparr>rq_next := nx'\<rparr>)" by auto
  then have "p_heap p' a = Some (tagged nx' q d ?y)" unfolding y(1) by (simp add: tagged_def)
  moreover have "app_inv n R B L p' rq' rs'" using w o(4) by (simp add: app_inv_def)
  moreover have "ps_calls (php p') = ps_calls (php p)" using r(6) by (auto simp: php_want_def)
  ultimately show ?thesis using r(1) y(2) rq' rows' by fastforce
qed

definition round_trip ::
    "'w api_env \<Rightarrow> ('w phpapi etp_pool \<Rightarrow> addr \<times> bool) \<Rightarrow> 'x exec_env \<Rightarrow> zval option \<Rightarrow> zval option \<Rightarrow>
     'w phpapi etp_pool \<times> 'x os \<Rightarrow> 'w api \<Rightarrow> syscall \<Rightarrow> bool" where
  "round_trip env spawn xe zcb data ps f c \<longleftrightarrow>
     (case call1 (ex_kern xe) c (snd ps) of (res, os') \<Rightarrow>
       \<exists>p'. run_acts env spawn xe [Call zcb data f, Work, Poll (\<lambda>_. \<lparr>tv_sec = 0, tv_usec = 0\<rparr>)] ps = Some (p', os') \<and>
         map receipt (ps_calls (php p')) =
           map (\<lambda>(g, obj, d). (g, obj, d, Z_LONG res)) (asked (ax_php env) zcb data) \<and>
         p_heap p' = Map.empty \<and> ps_cb (php p') = Map.empty)"

lemma round_tripI:
  assumes w: "world_ok env spawn" and fr: "fresh_app n p0" "Suc n < 2 ^ 32 - 2" "limits p0 = (0, 0)"
    and f: "good_params (ax_php env) zcb data" "makes env zcb data f w"
    and c: "\<And>cb. performs xe os (w cb) c" "\<And>cb r. w cb = Sent r \<Longrightarrow> says_long (rq_type r)"
  shows "round_trip env spawn xe zcb data (p0, os) f c"
proof -
  let ?R = "\<lambda>v. ps_rc (php p0) (RVal v)" and ?B = "mset (asked (ax_php env) zcb data)" and ?L = "(0, 0)"
  let ?now = "\<lambda>_. \<lparr>tv_sec = 0, tv_usec = 0\<rparr> :: timeval" and ?r9 = "replicate 9 ([] :: addr list)"
  have nil: "concat ?r9 = []" by (simp add: concat_replicate_trivial)
  have "app_inv n ?R {#} ?L p0 ?r9 ?r9" using fresh_inv [OF fr(1)] fr(3) by simp
  then have o: "owns p0 ?r9 ?r9 []" "ring_ok p0" "app_php n ?R {#} p0 (mset (concat ?r9 @ concat ?r9))"
    by (simp_all add: app_inv_def)
  have e: "alloc_ok env" "n < 2 ^ 32 - 2" "spawn_ok spawn" using w fr(2) by (simp_all add: world_ok_def)
  from call_step [OF o e f] obtain i p1 a k ca r nx q d where
    1: "script_call env spawn f p0 = Some (R_RES i, p1)" "k < 9" "owns p1 (pq_push ?r9 k a) ?r9 []" "ring_ok p1"
      "limits p1 = limits p0" "app_php (Suc n) ?R ({#} + ?B) p1 (mset (concat (pq_push ?r9 k a) @ concat ?r9))"
      "w (Some ca) = Sent r" "p_heap p1 a = Some (tagged nx q d r)"
      "ps_calls (php p1) = ps_calls (php p0)" by blast
  have rows: "concat (pq_push ?r9 k a) = [a]" using mset_pq_push [of k ?r9 a] 1(2) nil by simp
  have i1: "app_inv (Suc n) ?R ?B ?L p1 (pq_push ?r9 k a) ?r9" using 1(3-6) fr(3) by (simp add: app_inv_def)
  have "in_flight p1 a" using 1(6) unfolding rows by (simp add: app_php_def flying_def)
  then have ty: "plain_type (rq_type r)" using 1(8) by (auto simp: in_flight_def plain_req_def)
  have calls: "ps_calls (php p1) = []" using 1(9) fr(1) by (simp add: fresh_app_def)
  have "mset (owed (obj_of p1 a)) = mset (asked (ax_php env) zcb data)"
    using 1(6) calls unfolding rows by (simp add: app_php_def owed_by_def nil)
  from mset_short [OF this asked_short] have own: "owed (obj_of p1 a) = asked (ax_php env) zcb data" .
  from worked [OF i1 rows nil 1(8) c(1) [of "Some ca", unfolded 1(7)] ty] obtain p2 os2 rq2 rs2 nx2 y where
    2: "worker_round (php_want env) xe (p1, os) = Some (p2, os2)" "app_inv (Suc n) ?R ?B ?L p2 rq2 rs2"
      "concat rq2 = []" "concat rs2 = [a]" "concat (rev rs2) = [a]" "os2 = snd (call1 (ex_kern xe) c os)"
      "p_heap p2 a = Some (tagged nx2 q d y)" "rq_type y = rq_type r" "rq_result y = fst (call1 (ex_kern xe) c os)"
      "ps_calls (php p2) = ps_calls (php p1)" by blast
  have "mset (owed (obj_of p2 a)) = mset (asked (ax_php env) zcb data)"
    using 2(2,10) calls unfolding app_inv_def by (simp add: 2(3,4) app_php_def owed_by_def)
  from mset_short [OF this asked_short] have own2: "owed (obj_of p2 a) = asked (ax_php env) zcb data" .
  have work: "run_act env spawn xe Work (p1, os) = Some (p2, os2)"
    using app_inv_sizes(1) [OF i1] rows 2(1) by simp
  from poll_app_inv [OF w fr(2) 2(2), of ?now] obtain p3 rs3 ds where
    3: "eio_poll (php_done env) spawn (php_cbs env) ?now (Suc (nat (q_size (res_queue p2)))) p2 = Some (0, p3)"
      "app_inv (Suc n) ?R ?B ?L p3 rq2 rs3" "concat (rev rs2) = ds @ concat (rev rs3)" "concat rs3 = []"
      "map receipt (ps_calls (php p3)) = map receipt (ps_calls (php p2)) @ concat (map (delivers (ax_php env) p2) ds)"
    by auto
  have "concat (rev rs3) = []" using 3(4) by auto
  then have ds: "ds = [a]" using 3(3) 2(5) by simp
  have "result_value (ax_php env) (tagged nx2 q d y) = Z_LONG (fst (call1 (ex_kern xe) c os))"
    using c(2) [OF 1(7)] 2(8,9) by (auto simp: result_value_def says_long_def)
  then have "map receipt (ps_calls (php p3)) =
      map (\<lambda>(g, obj, d). (g, obj, d, Z_LONG (fst (call1 (ex_kern xe) c os)))) (asked (ax_php env) zcb data)"
    using 3(5) 2(7,10) calls own2 by (simp add: ds delivers_def receipt_owed)
  moreover have "p_heap p3 = Map.empty \<and> ps_cb (php p3) = Map.empty"
    using 3(2) unfolding app_inv_def by (simp add: 2(3) 3(4) app_php_def no_leak_def)
  moreover have "run_acts env spawn xe [Call zcb data f, Work, Poll ?now] (p0, os) = Some (p3, os2)"
    using 1(1) work 3(1) by simp
  ultimately show ?thesis using 2(6) unfolding round_trip_def by (auto split: prod.splits)
qed

section \<open>The functions that make plain requests\<close>

lemma plain_wraps:
  fixes pri :: int
  defines "F \<equiv> Some F_php_eio_res_cb"
  shows "plain_wrap (eio_open all_ok path flags mode pri F)" "plain_wrap (eio_truncate all_ok path offset pri F)"
    "plain_wrap (eio_chown all_ok path uid gid pri F)" "plain_wrap (eio_chmod all_ok path mode pri F)"
    "plain_wrap (eio_mkdir all_ok path mode pri F)" "plain_wrap (eio_rmdir all_ok path pri F)"
    "plain_wrap (eio_unlink all_ok path pri F)" "plain_wrap (eio_utime all_ok path atime mtime pri F)"
    "plain_wrap (eio_mknod all_ok path mode dev pri F)" "plain_wrap (eio_link all_ok path path2 pri F)"
    "plain_wrap (eio_symlink all_ok path path2 pri F)" "plain_wrap (eio_rename all_ok path path2 pri F)"
    "plain_wrap (eio_stat all_ok path pri F)" "plain_wrap (eio_lstat all_ok path pri F)"
    "plain_wrap (eio_statvfs all_ok path pri F)"
    "plain_wrap (eio_close all_ok fd pri F)" "plain_wrap (eio_sync all_ok pri F)" "plain_wrap (eio_fsync all_ok fd pri F)"
    "plain_wrap (eio_fdatasync all_ok fd pri F)" "plain_wrap (eio_futime all_ok fd atime mtime pri F)"
    "plain_wrap (eio_ftruncate all_ok fd offset pri F)" "plain_wrap (eio_fchmod all_ok fd mode pri F)"
    "plain_wrap (eio_fchown all_ok fd uid gid pri F)" "plain_wrap (eio_dup2 all_ok fd fd2 pri F)"
    "plain_wrap (eio_fstat all_ok fd pri F)" "plain_wrap (eio_fstatvfs all_ok fd pri F)"
    "plain_wrap (eio_readahead all_ok fd offset len pri F)" "plain_wrap (eio_seek all_ok fd offset whence pri F)"
    "plain_wrap (eio_syncfs all_ok fd pri F)" "plain_wrap (eio_sync_file_range all_ok fd offset len flags pri F)"
    "plain_wrap (eio_fallocate all_ok fd mode offset len pri F)" "plain_wrap (eio_busy all_ok delay pri F)"
    "plain_wrap (eio_nop all_ok pri F)"
  unfolding eio_open_def eio_truncate_def eio_chown_def eio_chmod_def eio_mkdir_def eio_rmdir_def eio_unlink_def
    eio_utime_def eio_mknod_def eio_link_def eio_symlink_def eio_rename_def eio_stat_def eio_lstat_def eio_statvfs_def
    eio_close_def eio_sync_def eio_fsync_def eio_fdatasync_def eio_futime_def eio_ftruncate_def eio_fchmod_def
    eio_fchown_def eio_dup2_def eio_fstat_def eio_fstatvfs_def eio_readahead_def eio_seek_def eio_syncfs_def
    eio_sync_file_range_def eio_fallocate_def eio_busy_def eio_nop_def eio__1path_def eio__2path_def F_def
  by (simp_all add: plain_wrap_def plain_req_def plain_type_def wrapper_defs)

lemma makesI:
  assumes "plain_wrap w" "\<And>s. api_ready env s \<Longrightarrow> f s = with_cb env zcb data s (\<lambda>cb s. request env (w cb) s)"
  shows "makes env zcb data f w"
  using assms by (simp add: makes_def)

lemma plain_callI: "good_params (ax_php env) zcb data \<Longrightarrow> makes env zcb data f w \<Longrightarrow> plain_call env zcb data f"
  by (auto simp: plain_call_def)

lemma not_both: "0 \<le> (a::int) \<or> 0 \<le> (b::int) \<Longrightarrow> (a < 0 \<and> b < 0) = False"
  by auto

text \<open>The wrapper of \<open>libeio\<close> each function calls.\<close>

lemma makes_functions:
  fixes pri :: int
  assumes "NUL \<notin> set path" "NUL \<notin> set path2" "ax_access env path"
    and "\<And>s. zval_fd env zfd s = (fd, s)" "\<And>s. zval_fd env zfd2 s = (fd2, s)" "0 \<le> fd" "0 \<le> fd2" "0 \<le> uid \<or> 0 \<le> gid"
  defines "F \<equiv> Some F_php_eio_res_cb"
  shows
    "makes env zcb data (PHP_eio_open env path flags mode pri zcb data)
      (eio_open all_ok path (c_int flags) (c_uint (if mode = 0 then default_mode else mode)) (c_int pri) F)"
    "makes env zcb data (PHP_eio_truncate env path offset pri zcb data)
      (eio_truncate all_ok path (if offset < 0 then 0 else offset) (c_int pri) F)"
    "makes env zcb data (PHP_eio_chown env path uid gid pri zcb data)
      (eio_chown all_ok path (c_uint uid) (c_uint gid) (c_int pri) F)"
    "makes env zcb data (PHP_eio_chmod env path mode pri zcb data)
      (eio_chmod all_ok path (c_uint mode) (c_int pri) F)"
    "makes env zcb data (PHP_eio_mkdir env path mode pri zcb data)
      (eio_mkdir all_ok path (c_uint mode) (c_int pri) F)"
    "makes env zcb data (PHP_eio_rmdir env path pri zcb data)
      (eio_rmdir all_ok path (c_int pri) F)"
    "makes env zcb data (PHP_eio_unlink env path pri zcb data)
      (eio_unlink all_ok path (c_int pri) F)"
    "makes env zcb data (PHP_eio_utime env path atime mtime pri zcb data)
      (eio_utime all_ok path atime mtime (c_int pri) F)"
    "makes env zcb data (PHP_eio_mknod env path mode dev pri zcb data)
      (eio_mknod all_ok path (c_uint mode) dev (c_int pri) F)"
    "makes env zcb data (PHP_eio_link env path path2 pri zcb data)
      (eio_link all_ok path path2 (c_int pri) F)"
    "makes env zcb data (PHP_eio_symlink env path path2 pri zcb data)
      (eio_symlink all_ok path path2 (c_int pri) F)"
    "makes env zcb data (PHP_eio_rename env path path2 pri zcb data)
      (eio_rename all_ok path path2 (c_int pri) F)"
    "makes env zcb data (PHP_eio_stat env path pri zcb data)
      (eio_stat all_ok path (c_int pri) F)"
    "makes env zcb data (PHP_eio_lstat env path pri zcb data)
      (eio_lstat all_ok path (c_int pri) F)"
    "makes env zcb data (PHP_eio_statvfs env path pri zcb data)
      (eio_statvfs all_ok path (c_int pri) F)"
    "makes env zcb data (PHP_eio_close env zfd pri zcb data)
      (eio_close all_ok fd (c_int pri) F)"
    "makes env zcb data (PHP_eio_sync env pri zcb data)
      (eio_sync all_ok (c_int pri) F)"
    "makes env zcb data (PHP_eio_fsync env zfd pri zcb data)
      (eio_fsync all_ok fd (c_int pri) F)"
    "makes env zcb data (PHP_eio_fdatasync env zfd pri zcb data)
      (eio_fdatasync all_ok fd (c_int pri) F)"
    "makes env zcb data (PHP_eio_futime env zfd atime mtime pri zcb data)
      (eio_futime all_ok fd atime mtime (c_int pri) F)"
    "makes env zcb data (PHP_eio_ftruncate env zfd offset pri zcb data)
      (eio_ftruncate all_ok fd (if offset < 0 then 0 else offset) (c_int pri) F)"
    "makes env zcb data (PHP_eio_fchmod env zfd mode pri zcb data)
      (eio_fchmod all_ok fd (c_uint mode) (c_int pri) F)"
    "makes env zcb data (PHP_eio_fchown env zfd uid gid pri zcb data)
      (eio_fchown all_ok fd (c_uint uid) (c_uint gid) (c_int pri) F)"
    "makes env zcb data (PHP_eio_dup2 env zfd zfd2 pri zcb data)
      (eio_dup2 all_ok fd fd2 (c_int pri) F)"
    "makes env zcb data (PHP_eio_fstat env zfd pri zcb data)
      (eio_fstat all_ok fd (c_int pri) F)"
    "makes env zcb data (PHP_eio_fstatvfs env zfd pri zcb data)
      (eio_fstatvfs all_ok fd (c_int pri) F)"
    "makes env zcb data (PHP_eio_readahead env zfd offset len pri zcb data)
      (eio_readahead all_ok fd offset (c_size len) (c_int pri) F)"
    "makes env zcb data (PHP_eio_seek env zfd offset whence pri zcb data)
      (eio_seek all_ok fd offset (c_int whence) (c_int pri) F)"
    "makes env zcb data (PHP_eio_syncfs env zfd pri zcb data)
      (eio_syncfs all_ok fd (c_int pri) F)"
    "makes env zcb data (PHP_eio_sync_file_range env zfd offset len flags pri zcb data)
      (eio_sync_file_range all_ok fd offset (c_size len) (c_uint flags) (c_int pri) F)"
    "makes env zcb data (PHP_eio_fallocate env zfd mode offset len pri zcb data)
      (eio_fallocate all_ok fd (c_int mode) offset (c_size len) (c_int pri) F)"
    "makes env zcb data (PHP_eio_busy env delay pri zcb data)
      (eio_busy all_ok (of_int delay) (c_int pri) F)"
    "makes env zcb data (PHP_eio_nop env pri zcb data)
      (eio_nop all_ok (c_int pri) F)"
  unfolding F_def
  by (rule makesI, rule plain_wraps,
      simp add: PHP_eio_open_def PHP_eio_truncate_def PHP_eio_chown_def PHP_eio_chmod_def PHP_eio_mkdir_def
      PHP_eio_rmdir_def PHP_eio_unlink_def PHP_eio_utime_def PHP_eio_mknod_def PHP_eio_link_def
      PHP_eio_symlink_def PHP_eio_rename_def PHP_eio_stat_def PHP_eio_lstat_def PHP_eio_statvfs_def
      PHP_eio_close_def PHP_eio_sync_def PHP_eio_fsync_def PHP_eio_fdatasync_def PHP_eio_futime_def
      PHP_eio_ftruncate_def PHP_eio_fchmod_def PHP_eio_fchown_def PHP_eio_dup2_def PHP_eio_fstat_def
      PHP_eio_fstatvfs_def PHP_eio_readahead_def PHP_eio_seek_def PHP_eio_syncfs_def PHP_eio_sync_file_range_def
      PHP_eio_fallocate_def PHP_eio_busy_def PHP_eio_nop_def
      with_init_ready api_ready_alloc good_path [OF assms(1)] good_path [OF assms(2)] c_string_id [OF assms(1)]
      c_string_id [OF assms(2)] with_fd_def with_fd2_def assms(3-5) leD [OF assms(6)] leD [OF assms(7)] not_both [OF assms(8)])+

definition long_wrap :: "(ptr \<Rightarrow> wrap_res) \<Rightarrow> bool" where
  "long_wrap w \<longleftrightarrow> (\<forall>cb r. w cb = Sent r \<longrightarrow> says_long (rq_type r))"

lemma long_wraps:
  shows "long_wrap (eio_open al path flags m pri F)" "long_wrap (eio_chmod al path m pri F)"
    "long_wrap (eio_chown al path u g pri F)" "long_wrap (eio_mkdir al path m pri F)"
    "long_wrap (eio_mknod al path m dev pri F)" "long_wrap (eio_unlink al path pri F)"
    "long_wrap (eio_rmdir al path pri F)" "long_wrap (eio_link al path path2 pri F)"
    "long_wrap (eio_symlink al path path2 pri F)" "long_wrap (eio_rename al path path2 pri F)"
    "long_wrap (eio_close al fd pri F)" "long_wrap (eio_dup2 al fd fd2 pri F)"
    "long_wrap (eio_fsync al fd pri F)" "long_wrap (eio_fdatasync al fd pri F)"
    "long_wrap (eio_fallocate al fd m offset n pri F)" "long_wrap (eio_readahead al fd offset n pri F)"
    "long_wrap (eio_ftruncate al fd offset pri F)" "long_wrap (eio_fchmod al fd m pri F)"
    "long_wrap (eio_fchown al fd u g pri F)"
  unfolding long_wrap_def eio_open_def eio_chmod_def eio_chown_def eio_mkdir_def eio_mknod_def eio_unlink_def eio_rmdir_def
    eio_link_def eio_symlink_def eio_rename_def eio_close_def eio_dup2_def eio_fsync_def eio_fdatasync_def
    eio_fallocate_def eio_readahead_def eio_ftruncate_def eio_fchmod_def eio_fchown_def
    eio__1path_def eio__2path_def
  by (simp_all add: wrapper_defs says_long_def)

section \<open>Properties\<close>

text \<open>
  C2: whatever a script does, from a fresh start, with calls that make plain requests, rounds of
  workers and polls in any order: nothing faults, and at every moment each call of a user function that
  was asked for has been made, once, or is owed by a request that is queued or done and not polled.
  The requests and callback objects that are allocated are those of the queued requests, and the
  references to the values of the script are the ones of the start and of these callback objects.
\<close>

theorem callbacks_conserved:
  assumes "world_ok env spawn" "fresh_app n p0" "\<forall>a \<in> set acts. good_act env a" "n + length acts < 2 ^ 32 - 2"
  shows "\<exists>p os' rq rs. run_acts env spawn xe acts (p0, os) = Some (p, os') \<and> owns p rq rs [] \<and>
    image_mset stripped (mset (ps_calls (php p))) + owed_by p (mset (concat rq @ concat rs)) = asked_by env acts \<and>
    no_leak p (mset (concat rq @ concat rs)) \<and>
    (\<forall>v. ps_rc (php p) (RVal v) = ps_rc (php p0) (RVal v) + held_by p (mset (concat rq @ concat rs)) v)"
proof -
  from acts_inv [OF assms(1) fresh_inv [OF assms(2)] assms(3,4), of xe os] show ?thesis
    unfolding app_inv_def app_php_def by (simp only: add_0) blast
qed

text \<open>
  C1: after any such run, as many rounds of workers as there were steps and one poll without limits
  finish everything: each call of a user function that was asked for has been made exactly once, every
  request and every callback object is freed, and each value has as many references as at the start.
\<close>

theorem every_callback_once:
  assumes "world_ok env spawn" "fresh_app n p0" "\<forall>a \<in> set acts. good_act env a" "n + length acts < 2 ^ 32 - 2"
    and "limits p0 = (0, 0)"
  shows "\<exists>p os'. run_acts env spawn xe (acts @ replicate (length acts) Work @ [Poll now]) (p0, os) = Some (p, os') \<and>
    image_mset stripped (mset (ps_calls (php p))) = asked_by env acts \<and>
    p_heap p = Map.empty \<and> ps_cb (php p) = Map.empty \<and>
    (\<forall>v. ps_rc (php p) (RVal v) = ps_rc (php p0) (RVal v))"
proof -
  let ?R = "\<lambda>v. ps_rc (php p0) (RVal v)"
  from acts_inv [OF assms(1) fresh_inv [OF assms(2)] assms(3,4), of xe os] obtain p1 os1 rq rs n1 where
    a: "run_acts env spawn xe acts (p0, os) = Some (p1, os1)" "n1 \<le> n + length acts"
      "app_inv n1 ?R ({#} + asked_by env acts) (limits p0) p1 rq rs"
      "length (concat rq) \<le> length (concat (replicate 9 ([] :: addr list))) + length acts" by blast
  have "length (concat rq) \<le> length acts" using a(4) by (simp add: concat_replicate_trivial)
  from works_inv [OF a(3) this, of env spawn xe os1] obtain p2 os2 rq2 rs2 where
    b: "run_acts env spawn xe (replicate (length acts) Work) (p1, os1) = Some (p2, os2)"
      "app_inv n1 ?R ({#} + asked_by env acts) (limits p0) p2 rq2 rs2" "concat rq2 = []" by blast
  have "n1 < 2 ^ 32 - 2" using a(2) assms(4) by simp
  from poll_app_inv [OF assms(1) this b(2), of now] assms(5) obtain p3 rs3 where
    c: "eio_poll (php_done env) spawn (php_cbs env) now (Suc (nat (q_size (res_queue p2)))) p2 = Some (0, p3)"
      "app_inv n1 ?R ({#} + asked_by env acts) (limits p0) p3 rq2 rs3" "concat rs3 = []" by auto
  have M: "mset (concat rq2 @ concat rs3) = {#}" using b(3) c(3) by simp
  have "app_php n1 ?R ({#} + asked_by env acts) p3 {#}" using c(2) unfolding app_inv_def M by blast
  then show ?thesis
    using a(1) b(1) c(1)
    by (intro exI [of _ p3] exI [of _ os2]) (simp add: run_acts_append app_php_def no_leak_def held_by_def owed_by_def)
qed

text \<open>
  C5: a poll finishes a first part of the done requests in the order of the queue, highest priority
  first, and calls for each the user function with the data and the result of the request.  When it
  returns 0 that was all of them; when a limit stops it, the rest stays queued, in order.
\<close>

theorem poll_delivers_in_order:
  assumes "world_ok env spawn" "n < 2 ^ 32 - 2" "app_inv n R B L p rq rs"
  shows "\<exists>res p' rs' ds.
    eio_poll (php_done env) spawn (php_cbs env) now (Suc (nat (q_size (res_queue p)))) p = Some (res, p') \<and>
    owns p' rq rs' [] \<and> concat (rev rs) = ds @ concat (rev rs') \<and>
    map receipt (ps_calls (php p')) = map receipt (ps_calls (php p)) @ concat (map (delivers (ax_php env) p) ds) \<and>
    (res = 0 \<and> concat rs' = [] \<or> res = -1 \<and> p_errno p' = EAGAIN \<and> L \<noteq> (0, 0))"
  using poll_app_inv [OF assms] unfolding app_inv_def by blast

text \<open>
  The calls the properties are about: these functions of the extension, on paths without NUL bytes or
  on descriptors, hand over one plain request and make their callback object of the parameters.
\<close>

lemma plain_functions:
  assumes "good_params (ax_php env) zcb data" "NUL \<notin> set path" "NUL \<notin> set path2" "ax_access env path"
    and "\<And>s. zval_fd env zfd s = (fd, s)" "\<And>s. zval_fd env zfd2 s = (fd2, s)" "0 \<le> fd" "0 \<le> fd2" "0 \<le> uid \<or> 0 \<le> gid"
  shows "list_all (plain_call env zcb data)
    [PHP_eio_open env path flags mode pri zcb data, PHP_eio_truncate env path offset pri zcb data,
     PHP_eio_chown env path uid gid pri zcb data, PHP_eio_chmod env path mode pri zcb data,
     PHP_eio_mkdir env path mode pri zcb data, PHP_eio_rmdir env path pri zcb data,
     PHP_eio_unlink env path pri zcb data, PHP_eio_utime env path atime mtime pri zcb data,
     PHP_eio_mknod env path mode dev pri zcb data, PHP_eio_link env path path2 pri zcb data,
     PHP_eio_symlink env path path2 pri zcb data, PHP_eio_rename env path path2 pri zcb data,
     PHP_eio_stat env path pri zcb data, PHP_eio_lstat env path pri zcb data,
     PHP_eio_statvfs env path pri zcb data, PHP_eio_close env zfd pri zcb data, PHP_eio_sync env pri zcb data,
     PHP_eio_fsync env zfd pri zcb data, PHP_eio_fdatasync env zfd pri zcb data,
     PHP_eio_futime env zfd atime mtime pri zcb data, PHP_eio_ftruncate env zfd offset pri zcb data,
     PHP_eio_fchmod env zfd mode pri zcb data, PHP_eio_fchown env zfd uid gid pri zcb data,
     PHP_eio_dup2 env zfd zfd2 pri zcb data, PHP_eio_fstat env zfd pri zcb data,
     PHP_eio_fstatvfs env zfd pri zcb data, PHP_eio_readahead env zfd offset len pri zcb data,
     PHP_eio_seek env zfd offset whence pri zcb data, PHP_eio_syncfs env zfd pri zcb data,
     PHP_eio_sync_file_range env zfd offset len flags pri zcb data,
     PHP_eio_fallocate env zfd mode offset len pri zcb data, PHP_eio_busy env delay pri zcb data,
     PHP_eio_nop env pri zcb data]"
  unfolding list.pred_inject(2)
  by (intro conjI list.pred_inject(1); (rule plain_callI [OF assms(1)], rule makes_functions [OF assms(2-9)]))

text \<open>
  C3: the whole way of a call.  From a fresh start, a script calls one of these functions, a worker does a
  round, and the script polls: the system call of that name is made, once, with the arguments of the
  script; the user function that was given is called, once, with the data that was given and the result
  of the system call; and nothing stays allocated.
\<close>

theorem script_round_trips:
  assumes w: "world_ok env spawn" "fresh_app n p0" "Suc n < 2 ^ 32 - 2" "limits p0 = (0, 0)"
    and "good_params (ax_php env) zcb data" "NUL \<notin> set path" "NUL \<notin> set path2" "ax_access env path"
    and "\<And>s. zval_fd env zfd s = (fd, s)" "\<And>s. zval_fd env zfd2 s = (fd2, s)" "0 \<le> fd" "0 \<le> fd2" "0 \<le> uid \<or> 0 \<le> gid"
  shows "list_all (\<lambda>(f, c). round_trip env spawn xe zcb data (p0, os) f c)
    [(PHP_eio_open env path flags mode pri zcb data, S_openat AT_FDCWD (MBytes path) (c_int flags) (c_uint (if mode = 0 then default_mode else mode))),
     (PHP_eio_chmod env path mode pri zcb data, S_fchmodat AT_FDCWD (MBytes path) (c_uint mode) 0),
     (PHP_eio_chown env path uid gid pri zcb data, S_fchownat AT_FDCWD (MBytes path) (c_uint uid) (c_uint gid) 0),
     (PHP_eio_mkdir env path mode pri zcb data, S_mkdirat AT_FDCWD (MBytes path) (c_uint mode)),
     (PHP_eio_mknod env path mode dev pri zcb data, S_mknodat AT_FDCWD (MBytes path) (c_uint mode) dev),
     (PHP_eio_unlink env path pri zcb data, S_unlinkat AT_FDCWD (MBytes path) 0),
     (PHP_eio_rmdir env path pri zcb data, S_unlinkat AT_FDCWD (MBytes path) AT_REMOVEDIR),
     (PHP_eio_link env path path2 pri zcb data, S_linkat AT_FDCWD (MBytes path) AT_FDCWD (MBytes path2) 0),
     (PHP_eio_symlink env path path2 pri zcb data, S_symlinkat (MBytes path) AT_FDCWD (MBytes path2)),
     (PHP_eio_rename env path path2 pri zcb data, S_renameat2 AT_FDCWD (MBytes path) AT_FDCWD (MBytes path2) 0),
     (PHP_eio_close env zfd pri zcb data, S_close fd), (PHP_eio_dup2 env zfd zfd2 pri zcb data, S_dup2 fd fd2),
     (PHP_eio_fsync env zfd pri zcb data, S_fsync fd), (PHP_eio_fdatasync env zfd pri zcb data, S_fdatasync fd),
     (PHP_eio_fallocate env zfd mode offset len pri zcb data, S_fallocate fd (c_int mode) offset (c_size len)),
     (PHP_eio_readahead env zfd offset len pri zcb data, S_readahead fd offset (c_size len)),
     (PHP_eio_ftruncate env zfd offset pri zcb data, S_ftruncate fd (if offset < 0 then 0 else offset)),
     (PHP_eio_fchmod env zfd mode pri zcb data, S_fchmod fd (c_uint mode)),
     (PHP_eio_fchown env zfd uid gid pri zcb data, S_fchown fd (c_uint uid) (c_uint gid))]"
  unfolding list.pred_inject(2) prod.case
  by (intro conjI list.pred_inject(1); (rule round_tripI [OF w assms(5)], rule makes_functions [OF assms(6-13)],
      rule path_wrappers fd_wrappers, rule long_wraps [unfolded long_wrap_def, rule_format], assumption))

section \<open>Witnesses\<close>

text \<open>Allocators that answer with the address after the last one in use, and the program as it starts.\<close>

definition next_free :: "(nat \<Rightarrow> 'a option) \<Rightarrow> nat" where
  "next_free m = Suc (Max (insert 0 (dom m)))"

lemma next_free: "finite (dom m) \<Longrightarrow> m (next_free m) = None"
proof (rule ccontr)
  assume f: "finite (dom m)" and "m (next_free m) \<noteq> None"
  then have "next_free m \<le> Max (insert 0 (dom m))" by (intro Max_ge) auto
  then show False by (simp add: next_free_def)
qed

definition demo_world :: "nat api_env" where
  "demo_world = demo_api\<lparr>ax_php := demo_env\<lparr>pe_handle_addr := (\<lambda>s. next_free (hs_handles (ps_h s))),
     pe_cb_addr := (\<lambda>s. next_free (ps_cb s))\<rparr>, ax_req_addr := (\<lambda>s. next_free (hs_reqs (ps_h s)))\<rparr>"

definition demo_start :: "nat phpapi etp_pool" where
  "demo_start = etp_init (eio_pool_bss demo_api_state)"

lemma demo_world_ok: "world_ok demo_world next_wrk"
  by (simp add: world_ok_def alloc_ok_def quiet_env_def demo_world_def demo_api_def demo_env_def next_free spawn_ok_next_wrk)

lemma demo_fresh: "fresh_app 0 demo_start" "limits demo_start = (0, 0)"
  using demo_mod_up hgood_init ring_ring_init owns_init [of "eio_pool_bss demo_api_state"]
  by (auto simp: fresh_app_def php_up_def demo_start_def etp_init_def eio_pool_bss_def lend_def demo_api_state_def
      phpst0_def hs_init_def open_res_def ring_ok_def limits_def Let_def)

lemma demo_params: "good_params (ax_php demo_world) (Some (Z_OBJ 3)) (Some (Z_LONG 8))"
  by (simp add: good_params_def demo_world_def demo_api_def demo_env_def no_res_def)

lemma demo_asked: "asked (ax_php demo_world) (Some (Z_OBJ 3)) (Some (Z_LONG 8)) = [(7, Z_UNDEF, Z_LONG 8)]"
  by (simp add: asked_def demo_world_def demo_api_def demo_env_def method_object_def data_param_def)

lemma demo_fd: "zval_fd demo_world (Z_LONG 5) s = (5, s)"
  by (simp add: zval_fd_def demo_world_def demo_api_def php_eio_zval_to_fd_def Let_def c_int_id)

lemma demo_side:
  "NUL \<notin> set ''a''" "NUL \<notin> set ''b''" "ax_access demo_world ''a''" "(0::int) \<le> 5" "(0::int) \<le> 1 \<or> (0::int) \<le> 1"
  by (simp_all add: NUL_def demo_world_def demo_api_def)

definition demo_act :: "nat act" where
  "demo_act = Call (Some (Z_OBJ 3)) (Some (Z_LONG 8)) (PHP_eio_nop demo_world 0 (Some (Z_OBJ 3)) (Some (Z_LONG 8)))"

lemma demo_good: "\<forall>a \<in> set [demo_act, Work, demo_act]. good_act demo_world a"
  using plain_callI [OF demo_params makes_functions(33) [OF demo_side(1,2,3) demo_fd demo_fd demo_side(4,4,5)]]
  by (simp add: demo_act_def)

lemma demo_asked_by: "asked_by demo_world [demo_act, Work, demo_act] = {#(7, Z_UNDEF, Z_LONG 8), (7, Z_UNDEF, Z_LONG 8)#}"
  by (simp add: asked_by_def demo_act_def demo_asked)

theorem callbacks_conserved_witness:
  "\<exists>p os' rq rs. run_acts demo_world next_wrk witness_exec [demo_act, Work, demo_act] (demo_start, witness_os) = Some (p, os') \<and>
    image_mset stripped (mset (ps_calls (php p))) + owed_by p (mset (concat rq @ concat rs)) =
      {#(7, Z_UNDEF, Z_LONG 8), (7, Z_UNDEF, Z_LONG 8)#}"
  using callbacks_conserved [OF demo_world_ok demo_fresh(1) demo_good, of witness_exec witness_os]
  unfolding demo_asked_by by auto

abbreviation "demo_now \<equiv> \<lambda>_ :: nat. \<lparr>tv_sec = 0, tv_usec = 0\<rparr>"

theorem every_callback_once_witness:
  "\<exists>p os'. run_acts demo_world next_wrk witness_exec
        ([demo_act, Work, demo_act] @ replicate (length [demo_act, Work, demo_act]) Work @ [Poll demo_now])
        (demo_start, witness_os) = Some (p, os') \<and>
    image_mset stripped (mset (ps_calls (php p))) = {#(7, Z_UNDEF, Z_LONG 8), (7, Z_UNDEF, Z_LONG 8)#} \<and>
    ps_rc (php p) (RVal 3) = 1"
proof -
  have rc: "ps_rc (php demo_start) (RVal 3) = 1"
    by (simp add: demo_start_def etp_init_def eio_pool_bss_def demo_api_state_def phpst0_def)
  have len: "0 + length [demo_act, Work, demo_act] < 2 ^ 32 - 2" by simp
  from every_callback_once [OF demo_world_ok demo_fresh(1) demo_good len demo_fresh(2), of witness_exec demo_now witness_os]
  show ?thesis unfolding demo_asked_by rc [symmetric] by blast
qed

theorem poll_delivers_in_order_witness:
  "\<exists>p os p'. run_acts demo_world next_wrk witness_exec [demo_act, Work, demo_act] (demo_start, witness_os) = Some (p, os) \<and>
    eio_poll (php_done demo_world) next_wrk (php_cbs demo_world) demo_now (Suc (nat (q_size (res_queue p)))) p = Some (0, p')"
proof -
  have len: "0 + length [demo_act, Work, demo_act] < 2 ^ 32 - 2" by simp
  from acts_inv [OF demo_world_ok fresh_inv [OF demo_fresh(1)] demo_good len, of witness_exec witness_os]
  obtain p os rq rs n where
    a: "run_acts demo_world next_wrk witness_exec [demo_act, Work, demo_act] (demo_start, witness_os) = Some (p, os)"
      "n \<le> 0 + length [demo_act, Work, demo_act]"
      "app_inv n (\<lambda>v. ps_rc (php demo_start) (RVal v)) ({#} + asked_by demo_world [demo_act, Work, demo_act])
        (limits demo_start) p rq rs" by blast
  from a(2) have "n < 2 ^ 32 - 2" by simp
  from poll_delivers_in_order [OF demo_world_ok this a(3), of demo_now] a(1)
  show ?thesis unfolding demo_fresh(2) by blast
qed

lemma work_no_custom:
  assumes "app_inv n R B L p rq rs" "reqq_shift (p_heap p) (req_queue p) = Some (Some r, q)" "p_heap p r = Some x"
  shows "rq_type x \<noteq> EIO_CUSTOM"
proof -
  have o: "owns p rq rs []" and f: "flying p (mset (concat rq @ concat rs))"
    using assms(1) by (simp_all add: app_inv_def app_php_def)
  obtain a rq' where pop: "pq_pop rq = Some (a, rq')"
    using shift_request_empty [OF o] assms(2) by (cases "pq_pop rq") auto
  then have "r = a" using shift_request_owns [OF o pop] assms(2) by auto
  then have "r \<in># mset (concat rq @ concat rs)" using mset_pq_pop [OF pop] by simp
  then show ?thesis using f assms(3) by (auto simp: flying_def in_flight_def plain_req_def plain_type_def)
qed


lemma plain_functions_example:
  "plain_call demo_world (Some (Z_OBJ 3)) (Some (Z_LONG 8))
     (PHP_eio_rename demo_world ''a'' ''b'' 0 (Some (Z_OBJ 3)) (Some (Z_LONG 8)))"
  using plain_functions [OF demo_params demo_side(1,2,3) demo_fd demo_fd demo_side(4,4,5)] by simp

theorem script_round_trips_witness:
  "round_trip demo_world next_wrk witness_exec (Some (Z_OBJ 3)) (Some (Z_LONG 8)) (demo_start, witness_os)
     (PHP_eio_rename demo_world ''a'' ''b'' 0 (Some (Z_OBJ 3)) (Some (Z_LONG 8)))
     (S_renameat2 AT_FDCWD (MBytes ''a'') AT_FDCWD (MBytes ''b'') 0)"
  using script_round_trips [OF demo_world_ok demo_fresh(1) _ demo_fresh(2) demo_params demo_side(1,2,3) demo_fd demo_fd
      demo_side(4,4,5), where xe = witness_exec and os = witness_os and pri = 0] by simp

end
