(* ===== verification/Portable.thy ===== *)
theory Portable
  imports Grp Execution
begin

unbundle bit_operations_syntax

text \<open>
  The rest of \<open>libeio/eio.c\<close>: the functions of the library on its one static pool, and what the
  library does on systems that lack some calls: the loop that stands for \<open>readahead\<close>, the times of
  files in whole seconds, and the branch of \<open>eio_execute\<close> without the \<open>*at\<close> calls (\<open>HAVE_AT\<close> unset),
  where \<open>wd_expand\<close> puts the string of the working directory in front of a path.
\<close>

section \<open>The library on its static pool\<close>

record 'io eio_lib =
  eio_want_poll_cb :: "'io \<Rightarrow> 'io"
  eio_done_poll_cb :: "'io \<Rightarrow> 'io"
  eio_pool :: "'io etp_pool"

definition eio_nop_callback :: "'io \<Rightarrow> 'io" where "eio_nop_callback io = io"

definition eio_lib_bss :: "'io \<Rightarrow> 'io eio_lib" where
  "eio_lib_bss io = \<lparr>eio_want_poll_cb = eio_nop_callback, eio_done_poll_cb = eio_nop_callback, eio_pool = eio_pool_bss io\<rparr>"

text \<open>\<open>etp_init\<close> returns 0.\<close>

definition eio_init :: "('io \<Rightarrow> 'io) \<Rightarrow> ('io \<Rightarrow> 'io) \<Rightarrow> 'io eio_lib \<Rightarrow> int \<times> 'io eio_lib" where
  "eio_init want_poll done_poll lib =
     (0, lib\<lparr>eio_want_poll_cb := want_poll, eio_done_poll_cb := done_poll, eio_pool := etp_init (eio_pool lib)\<rparr>)"

definition on_pool :: "('io etp_pool \<Rightarrow> 'io etp_pool) \<Rightarrow> 'io eio_lib \<Rightarrow> 'io eio_lib" where
  "on_pool f lib = lib\<lparr>eio_pool := f (eio_pool lib)\<rparr>"

definition eio_submit :: "('io etp_pool \<Rightarrow> addr \<times> bool) \<Rightarrow> addr \<Rightarrow> 'io eio_lib \<Rightarrow> 'io eio_lib option" where
  "eio_submit spawn req lib =
     map_option (\<lambda>p. lib\<lparr>eio_pool := p\<rparr>) (etp_submit (eio_want_poll_cb lib) spawn (eio_pool lib) req)"

definition eio_nreqs :: "'io eio_lib \<Rightarrow> u32" where "eio_nreqs lib = etp_nreqs (eio_pool lib)"
definition eio_nready :: "'io eio_lib \<Rightarrow> u32" where "eio_nready lib = etp_nready (eio_pool lib)"
definition eio_npending :: "'io eio_lib \<Rightarrow> u32" where "eio_npending lib = etp_npending (eio_pool lib)"
definition eio_nthreads :: "'io eio_lib \<Rightarrow> u32" where "eio_nthreads lib = etp_nthreads (eio_pool lib)"

definition eio_set_max_poll_time :: "rat \<Rightarrow> 'io eio_lib \<Rightarrow> 'io eio_lib" where
  "eio_set_max_poll_time nseconds = on_pool (\<lambda>p. etp_set_max_poll_time p nseconds)"

definition eio_set_max_poll_reqs :: "u32 \<Rightarrow> 'io eio_lib \<Rightarrow> 'io eio_lib" where
  "eio_set_max_poll_reqs maxreqs = on_pool (\<lambda>p. etp_set_max_poll_reqs p maxreqs)"

definition eio_set_max_idle :: "u32 \<Rightarrow> 'io eio_lib \<Rightarrow> 'io eio_lib" where
  "eio_set_max_idle nthreads = on_pool (\<lambda>p. etp_set_max_idle p nthreads)"

definition eio_set_idle_timeout :: "u32 \<Rightarrow> 'io eio_lib \<Rightarrow> 'io eio_lib" where
  "eio_set_idle_timeout seconds = on_pool (\<lambda>p. etp_set_idle_timeout p seconds)"

definition eio_set_min_parallel :: "u32 \<Rightarrow> 'io eio_lib \<Rightarrow> 'io eio_lib" where
  "eio_set_min_parallel nthreads = on_pool (\<lambda>p. etp_set_min_parallel p nthreads)"

definition eio_set_max_parallel :: "(req_heap \<Rightarrow> addr) \<Rightarrow> u32 \<Rightarrow> 'io eio_lib \<Rightarrow> 'io eio_lib option" where
  "eio_set_max_parallel alloc nthreads lib =
     map_option (\<lambda>p. lib\<lparr>eio_pool := p\<rparr>) (etp_set_max_parallel alloc (eio_pool lib) nthreads)"

text \<open>After \<open>eio_init\<close> the pool is empty, and a request can be submitted.\<close>

lemma eio_init_submit:
  assumes "eio_init want_poll done_poll lib = (r, lib')" "p_heap (eio_pool lib) a = Some x" "rq_type x \<noteq> EIO_GROUP"
    and "spawn_ok spawn"
  shows "r = 0 \<and> (\<exists>lib''. eio_submit spawn a lib' = Some lib'' \<and> eio_nreqs lib'' = 1 \<and> eio_nready lib'' = 1 \<and>
    eio_npending lib'' = 0)"
proof -
  let ?p = "etp_init (eio_pool lib)" and ?x = "x\<lparr>rq_pri := submit_pri (rq_pri x)\<rparr>"
  let ?p1 = "?p\<lparr>p_heap := (p_heap (eio_pool lib))(a \<mapsto> ?x), nreqs := nreqs ?p + 1, nready := nready ?p + 1\<rparr>"
  have l: "r = 0" "eio_pool lib' = ?p" "eio_want_poll_cb lib' = want_poll" using assms(1) by (auto simp: eio_init_def)
  have h: "p_heap ?p a = Some x" using assms(2) by (simp add: etp_init_def)
  have "owns ?p1 (replicate 9 []) (replicate 9 []) [a]"
    using submit_pri_bounds [of "rq_pri x"]
    by (auto simp: owns_def etp_init_def reqq_abs_init concat_replicate_trivial pri_ok_def)
  from push_request_owns [OF this] obtain h' q' n where
    q: "reqq_push (p_heap ?p1) (req_queue ?p1) a = Some (n, h', q')" by blast
  have "ring_ok (?p1\<lparr>p_heap := h', req_queue := q'\<rparr>)"
    using ring_ring_init by (auto simp: ring_ok_def etp_init_def)
  from maybe_start_ok [OF assms(4) this] obtain w st where
    st: "etp_maybe_start_thread spawn (?p1\<lparr>p_heap := h', req_queue := q'\<rparr>) =
      Some (?p1\<lparr>p_heap := h', req_queue := q', p_wrk := w, started := st\<rparr>)" by auto
  have "etp_submit want_poll spawn ?p a = Some (?p1\<lparr>p_heap := h', req_queue := q', p_wrk := w, started := st\<rparr>)"
    using h assms(3) q st
    by (simp add: etp_submit_def etp_submit_prep_def etp_submit_req_def upd_req_def etp_init_def)
  then show ?thesis
    using l by (simp add: eio_submit_def eio_nreqs_def eio_nready_def eio_npending_def etp_nreqs_def etp_nready_def
        etp_npending_def etp_init_def)
qed

section \<open>Reading ahead\<close>

text \<open>The loop of \<open>eio__readahead\<close>; \<open>buf\<close> tells whether the buffer could be allocated (\<open>dBUF\<close>).\<close>

function readahead_loop :: "'w kern \<Rightarrow> int \<Rightarrow> int \<Rightarrow> u64 \<Rightarrow> 'w os \<Rightarrow> 'w os" where
  "readahead_loop k fd offset todo s =
     (if 0 < todo then
        (let len = (if todo < EIO_BUFSIZE then todo else EIO_BUFSIZE)
         in readahead_loop k fd (offset + uint len) (todo - len) (snd (call1 k (S_pread fd len offset) s)))
      else s)"
  by pat_completeness auto
termination
proof (relation "measure (\<lambda>(k, fd, offset, todo, s). unat todo)")
  fix k :: "'a kern" and fd offset :: int and todo len :: u64 and s :: "'a os"
  assume "0 < todo" "len = (if todo < EIO_BUFSIZE then todo else EIO_BUFSIZE)"
  then have "0 < len" "len \<le> todo" by (auto simp: EIO_BUFSIZE_def)
  then have "unat (todo - len) < unat todo" by (simp add: unat_sub word_less_nat_alt word_le_nat_alt)
  then show "((k, fd, offset + uint len, todo - len, snd (call1 k (S_pread fd len offset) s)), (k, fd, offset, todo, s))
      \<in> measure (\<lambda>(k, fd, offset, todo, s). unat todo)" by simp
qed simp

declare readahead_loop.simps [simp del]

definition eio__readahead :: "'w kern \<Rightarrow> bool \<Rightarrow> int \<Rightarrow> int \<Rightarrow> u64 \<Rightarrow> 'w os \<Rightarrow> int \<times> 'w os" where
  "eio__readahead k buf fd offset cnt s =
     (let s = s\<lparr>os_errno := ENOMEM\<rparr> in if \<not> buf then (-1, s) else (0, readahead_loop k fd offset cnt s))"

text \<open>What is read: pieces of at most the buffer size, one after the other.\<close>

fun pieces :: "int \<Rightarrow> (syscall \<times> int) list \<Rightarrow> int \<Rightarrow> int \<Rightarrow> bool" where
  "pieces fd [] lo hi = (lo = hi)"
| "pieces fd ((S_pread d n off, r) # lg) lo hi =
     (d = fd \<and> off = lo \<and> 0 < n \<and> n \<le> EIO_BUFSIZE \<and> pieces fd lg (lo + uint n) hi)"
| "pieces fd (_ # lg) lo hi = False"

lemma logged_call1: "\<exists>r. snd (os_w (snd (call1 (logged k) c s))) = snd (os_w s) @ [(c, r)]"
  by (cases "os_w s") (auto simp: call1_def call_def logged_def split: prod.splits)

lemma readahead_loop_pieces:
  "\<exists>lg. snd (os_w (readahead_loop (logged k) fd offset todo s)) = snd (os_w s) @ lg \<and>
    pieces fd lg offset (offset + uint todo)"
proof (induction "logged k" fd offset todo s rule: readahead_loop.induct)
  case (1 fd offset todo s)
  show ?case
  proof (cases "0 < todo")
    case False
    then have "todo = 0" by (simp add: word_gt_0)
    then show ?thesis by (intro exI [of _ "[]"]) (simp add: readahead_loop.simps)
  next
    case True
    define len where "len = (if todo < EIO_BUFSIZE then todo else EIO_BUFSIZE)"
    have len: "0 < len" "len \<le> EIO_BUFSIZE" "len \<le> todo" using True by (auto simp: len_def EIO_BUFSIZE_def)
    let ?s = "snd (call1 (logged k) (S_pread fd len offset) s)"
    from 1 [OF True len_def] obtain lg where
      lg: "snd (os_w (readahead_loop (logged k) fd (offset + uint len) (todo - len) ?s)) = snd (os_w ?s) @ lg"
        "pieces fd lg (offset + uint len) (offset + uint len + uint (todo - len))" by blast
    obtain r where r: "snd (os_w ?s) = snd (os_w s) @ [(S_pread fd len offset, r)]"
      using logged_call1 by blast
    have "readahead_loop (logged k) fd offset todo s =
        readahead_loop (logged k) fd (offset + uint len) (todo - len) ?s"
      using True by (subst readahead_loop.simps) (simp add: len_def Let_def)
    moreover have "uint len + uint (todo - len) = uint todo" using len(3) by (simp add: uint_sub_if' word_le_def)
    ultimately show ?thesis
      using lg r len by (intro exI [of _ "(S_pread fd len offset, r) # lg"]) (simp add: add.assoc)
  qed
qed

section \<open>Times of files\<close>

text \<open>\<open>utime\<close> takes whole seconds; there is nothing to stand for \<open>futimes\<close>.\<close>

definition eio__utimes ::
    "(string \<Rightarrow> (int \<times> int) option \<Rightarrow> 'w os \<Rightarrow> int \<times> 'w os) \<Rightarrow> string \<Rightarrow> ((int \<times> int) \<times> (int \<times> int)) option \<Rightarrow>
     'w os \<Rightarrow> int \<times> 'w os" where
  "eio__utimes utime filename tv s =
     (case tv of
        Some (t0, t1) \<Rightarrow> utime filename (Some (fst t0, fst t1)) s
      | None \<Rightarrow> utime filename None s)"

definition eio__futimes :: "int \<Rightarrow> ((int \<times> int) \<times> (int \<times> int)) option \<Rightarrow> 'w os \<Rightarrow> int \<times> 'w os" where
  "eio__futimes fd tv s = (-1, s\<lparr>os_errno := ENOSYS\<rparr>)"

section \<open>Paths without the \<open>*at\<close> calls\<close>

text \<open>The invalid handle is no pointer to a structure, so it must not come here.\<close>

definition wd_expand :: "eio_wd \<Rightarrow> string \<Rightarrow> string option" where
  "wd_expand wd path =
     (case wd of
        EIO_CWD \<Rightarrow> Some path
      | EIO_INVALID_WD \<Rightarrow> if c_at path 0 = slash then Some path else None
      | WD pwd \<Rightarrow>
          Some (if c_at path 0 = slash then path
                else if c_at path 0 = CHR ''.'' \<and> c_at path 1 = NUL then pwd_str pwd
                else pwd_str pwd @ slash # path))"

text \<open>The system calls this branch makes, with the path as a string.\<close>

datatype pcall =
    P_stat string
  | P_lstat string
  | P_chown string int int
  | P_chmod string int
  | P_truncate string int
  | P_open string int int
  | P_unlink string
  | P_rmdir string
  | P_mkdir string int
  | P_rename string eio_mem
  | P_link string eio_mem
  | P_symlink string eio_mem
  | P_mknod string int int
  | P_statvfs string
  | P_readlink string nat
  | P_utimes eio_mem "((int \<times> int) \<times> (int \<times> int)) option"
  | P_futimes int "((int \<times> int) \<times> (int \<times> int)) option"

type_synonym 'w pkern = "pcall \<Rightarrow> 'w \<Rightarrow> sysres \<times> 'w"

definition pcall :: "'w pkern \<Rightarrow> pcall \<Rightarrow> 'w os \<Rightarrow> int \<times> string \<times> 'w os" where
  "pcall k c s = (case k c (os_w s) of (r, w) \<Rightarrow> (sr_res r, sr_data r, s\<lparr>os_w := w, os_errno := sr_errno r\<rparr>))"

definition pcall1 :: "'w pkern \<Rightarrow> pcall \<Rightarrow> 'w os \<Rightarrow> int \<times> 'w os" where
  "pcall1 k c s = (case pcall k c s of (r, d, s) \<Rightarrow> (r, s))"

definition timeval_of :: "rat \<Rightarrow> int \<times> int" where
  "timeval_of nv = (c_trunc nv, c_trunc ((nv - of_int (c_trunc nv)) * 10 ^ 6))"

definition utime_vals :: "eio_req \<Rightarrow> ((int \<times> int) \<times> (int \<times> int)) option" where
  "utime_vals req =
     (if rq_nv1 req \<noteq> -1 \<or> rq_nv2 req \<noteq> -1 then Some (timeval_of (rq_nv1 req), timeval_of (rq_nv2 req)) else None)"

definition exec_path_portable ::
    "'w exec_env \<Rightarrow> 'w pkern \<Rightarrow> string \<Rightarrow> eio_req \<Rightarrow> 'w os \<Rightarrow> (eio_req \<times> 'w os) option" where
  "exec_path_portable env pk path req s =
     (let k = ex_kern env; p2 = rq_ptr2 req; n1 = rq_int1 req; n2 = rq_int2 req in
      case rq_type req of
        EIO_STAT \<Rightarrow> with_alloc env sizeof_stat req s (\<lambda>req s. set_result_buf req (pcall pk (P_stat path) s))
      | EIO_LSTAT \<Rightarrow> with_alloc env sizeof_stat req s (\<lambda>req s. set_result_buf req (pcall pk (P_lstat path) s))
      | EIO_CHOWN \<Rightarrow> set_result req (pcall1 pk (P_chown path n2 (rq_int3 req)) s)
      | EIO_CHMOD \<Rightarrow> set_result req (pcall1 pk (P_chmod path n2) s)
      | EIO_TRUNCATE \<Rightarrow> set_result req (pcall1 pk (P_truncate path (rq_offs req)) s)
      | EIO_OPEN \<Rightarrow> set_result req (pcall1 pk (P_open path n1 n2) s)
      | EIO_SLURP \<Rightarrow>
          (case pcall1 pk (P_open path (O_RDONLY OR O_CLOEXEC) 0) s of (fd, s) \<Rightarrow>
            Some (eio__slurp k (ex_malloc env) fd req s))
      | EIO_UNLINK \<Rightarrow> set_result req (pcall1 pk (P_unlink path) s)
      | EIO_RMDIR \<Rightarrow> set_result req (pcall1 pk (P_rmdir path) s)
      | EIO_MKDIR \<Rightarrow> set_result req (pcall1 pk (P_mkdir path n2) s)
      | EIO_RENAME \<Rightarrow> set_result req (if n2 \<noteq> 0 then EIO_ENOSYS s else pcall1 pk (P_rename path p2) s)
      | EIO_LINK \<Rightarrow> set_result req (pcall1 pk (P_link path p2) s)
      | EIO_SYMLINK \<Rightarrow> set_result req (pcall1 pk (P_symlink path p2) s)
      | EIO_MKNOD \<Rightarrow> set_result req (pcall1 pk (P_mknod path n2 (rq_offs req)) s)
      | EIO_STATVFS \<Rightarrow> with_alloc env sizeof_statvfs req s (\<lambda>req s. set_result_buf req (pcall pk (P_statvfs path) s))
      | EIO_READLINK \<Rightarrow> with_alloc env EIO_PATH_MAX req s
          (\<lambda>req s. case set_result_buf req (pcall pk (P_readlink path EIO_PATH_MAX) s) of
             None \<Rightarrow> None
           | Some (req, s) \<Rightarrow>
               if rq_result req = int EIO_PATH_MAX
               then Some (req\<lparr>rq_result := -1\<rparr>, s\<lparr>os_errno := ENAMETOOLONG\<rparr>) else Some (req, s))
      | EIO_UTIME \<Rightarrow> set_result req (pcall1 pk (P_utimes (rq_ptr1 req) (utime_vals req)) s)
      | EIO_FUTIME \<Rightarrow> set_result req (pcall1 pk (P_futimes n1 (utime_vals req)) s)
      | _ \<Rightarrow> set_result req (EIO_ENOSYS s))"

text \<open>The path and the switch together, for a request from \<open>EIO_OPEN\<close> on.\<close>

definition execute_portable ::
    "'w exec_env \<Rightarrow> 'w pkern \<Rightarrow> eio_req \<Rightarrow> 'w os \<Rightarrow> (eio_req \<times> 'w os) option" where
  "execute_portable env pk req s = do {
     p1 \<leftarrow> mem_path (rq_ptr1 req);
     path \<leftarrow> wd_expand (rq_wd req) p1;
     exec_path_portable env pk path req s }"

section \<open>Properties\<close>

text \<open>
  Without the system call, \<open>eio__readahead\<close> reads the range it is asked for, in pieces of at most the
  buffer size, each starting where the one before ended, whatever the reads return, and gives 0.
\<close>

theorem readahead_reads_range:
  assumes "eio__readahead (logged k) True fd offset cnt s = (r, s')"
  shows "r = 0 \<and> (\<exists>lg. snd (os_w s') = snd (os_w s) @ lg \<and> pieces fd lg offset (offset + uint cnt))"
  using assms readahead_loop_pieces [of k fd offset cnt "s\<lparr>os_errno := ENOMEM\<rparr>"]
  by (auto simp: eio__readahead_def)

theorem readahead_reads_range_witness:
  "\<exists>r s' lg. eio__readahead (logged (\<lambda>c w. (\<lparr>sr_res = -1, sr_errno = 5, sr_data = []\<rparr>, w))) True 3 100 70000 witness_os = (r, s') \<and>
    r = 0 \<and> snd (os_w s') = snd (os_w witness_os) @ lg \<and> pieces 3 lg 100 70100"
proof -
  let ?k = "\<lambda>c w. (\<lparr>sr_res = -1, sr_errno = 5, sr_data = []\<rparr>, w)"
  obtain r s' where e: "eio__readahead (logged ?k) True 3 100 70000 witness_os = (r, s')" by fastforce
  have "(100::int) + uint (70000 :: u64) = 70100" by simp
  with readahead_reads_range [OF e] e show ?thesis by metis
qed

text \<open>The call of the \<open>*at\<close> family in the current directory that does the same.\<close>

fun at_of :: "pcall \<Rightarrow> syscall" where
  "at_of (P_stat p) = S_fstatat AT_FDCWD (MBytes p) 0"
| "at_of (P_lstat p) = S_fstatat AT_FDCWD (MBytes p) AT_SYMLINK_NOFOLLOW"
| "at_of (P_chown p u g) = S_fchownat AT_FDCWD (MBytes p) u g 0"
| "at_of (P_chmod p m) = S_fchmodat AT_FDCWD (MBytes p) m 0"
| "at_of (P_open p fl m) = S_openat AT_FDCWD (MBytes p) fl m"
| "at_of (P_unlink p) = S_unlinkat AT_FDCWD (MBytes p) 0"
| "at_of (P_rmdir p) = S_unlinkat AT_FDCWD (MBytes p) AT_REMOVEDIR"
| "at_of (P_mkdir p m) = S_mkdirat AT_FDCWD (MBytes p) m"
| "at_of (P_rename p q) = S_renameat2 AT_FDCWD (MBytes p) AT_FDCWD q 0"
| "at_of (P_link p q) = S_linkat AT_FDCWD (MBytes p) AT_FDCWD q 0"
| "at_of (P_symlink p q) = S_symlinkat (MBytes p) AT_FDCWD q"
| "at_of (P_mknod p m d) = S_mknodat AT_FDCWD (MBytes p) m d"
| "at_of (P_readlink p n) = S_readlinkat AT_FDCWD (MBytes p) n"
| "at_of _ = S_sync"

lemma pcall_at:
  assumes "\<And>c. pk c = k (at_of c)"
  shows "pcall pk c s = call k (at_of c) s" "pcall1 pk c s = call1 k (at_of c) s"
  using assms by (simp_all add: pcall_def call_def pcall1_def call1_def)

definition same_in_both :: "eio_req \<Rightarrow> bool" where
  "same_in_both req \<longleftrightarrow> rq_wd req = EIO_CWD \<and> rq_wd3 req = EIO_CWD \<and>
     rq_type req \<in> {EIO_STAT, EIO_LSTAT, EIO_CHOWN, EIO_CHMOD, EIO_OPEN, EIO_SLURP, EIO_UNLINK, EIO_RMDIR, EIO_MKDIR,
       EIO_RENAME, EIO_LINK, EIO_SYMLINK, EIO_MKNOD, EIO_READLINK} \<and>
     (rq_type req = EIO_RENAME \<longrightarrow> rq_int2 req = 0)"



text \<open>
  Relative to a directory handle the expanded path names the components of the directory and then those
  of the path, as the descriptor of the handle would.
\<close>

lemma wd_expand_comps:
  assumes "path \<noteq> ''.''" "path \<noteq> []" "NUL \<notin> set path"
  shows "map_option comps (wd_expand (WD pwd) path) =
    Some (if c_at path 0 = slash then comps path else comps (pwd_str pwd) @ comps path)"
proof -
  have "\<not> (c_at path 0 = CHR ''.'' \<and> c_at path 1 = NUL)"
    using assms by (cases path; cases "tl path") (auto simp: c_at_def)
  then have "\<not> (CHR ''.'' = c_at path 0 \<and> c_at path 1 = NUL)" by metis
  then show ?thesis by (auto simp: wd_expand_def comps_append)
qed

text \<open>
  But a symbolic link relative to a handle is made wrong: the target is expanded, which \<open>symlinkat\<close>
  stores as it is, and the name of the link, which \<open>symlinkat\<close> takes relative to the handle, is not.
  And the times of a file relative to a handle are set on a path relative to the current directory.
\<close>

lemma portable_symlink_expands_target:
  assumes "rq_type req = EIO_SYMLINK" "rq_wd req = WD pwd" "rq_ptr1 req = MBytes ''t''" "rq_ptr2 req = MBytes link"
  shows "execute_portable env pk req s = set_result req (pcall1 pk (P_symlink (pwd_str pwd @ ''/t'') (MBytes link)) s)"
    "exec_path env (pwd_fd pwd) req s =
       set_result req (call1 (ex_kern env) (S_symlinkat (MBytes ''t'') (pwd_fd pwd) (MBytes link)) s)"
  using assms
  by (simp_all add: execute_portable_def wd_expand_def exec_path_portable_def exec_path_def c_at_def slash_def)

lemma portable_utime_ignores_wd:
  assumes "rq_type req = EIO_UTIME" "rq_wd req = WD pwd" "rq_ptr1 req = MBytes ''f''"
  shows "execute_portable env pk req s = set_result req (pcall1 pk (P_utimes (MBytes ''f'') (utime_vals req)) s)"
  using assms by (simp add: execute_portable_def wd_expand_def exec_path_portable_def)

end
