(* ===== verification/PhpArginfo.thy ===== *)
theory PhpArginfo
  imports PhpApi
begin

text \<open>
  The signatures of the PHP functions, which the source states twice: as argument tables for the engine
  (\<open>php8/php_eio_arginfo.h\<close>, what reflection and named arguments go by) and as the format strings and
  initialised variables with which each \<open>PHP_FUNCTION\<close> of \<open>php8/php_eio.c\<close> calls
  \<open>zend_parse_parameters\<close>, which is what a call really gets.  The theorems compare the two.
\<close>

section \<open>Argument tables\<close>

text \<open>
  The data the macros of the engine make of a table: name, type (\<open>None\<close> for \<open>ZEND_ARG_INFO\<close>), whether
  null is allowed, and the text of the default value.
\<close>

datatype zend_type = IS_STRING | IS_LONG | IS_DOUBLE | IS_MIXED | IS_BOOL | IS_VOID

record zend_arg =
  za_name :: string
  za_type :: "zend_type option"
  za_null :: bool
  za_default :: "string option"

record zend_function_info =
  fi_required :: nat
  fi_return :: "(zend_type \<times> bool) option"
  fi_args :: "zend_arg list"

definition untyped :: "string \<Rightarrow> zend_arg" where
  "untyped n = \<lparr>za_name = n, za_type = None, za_null = True, za_default = None\<rparr>"

definition typed :: "string \<Rightarrow> zend_type \<Rightarrow> bool \<Rightarrow> zend_arg" where
  "typed n t nul = \<lparr>za_name = n, za_type = Some t, za_null = nul, za_default = None\<rparr>"

definition defaulted :: "string \<Rightarrow> zend_type \<Rightarrow> bool \<Rightarrow> string \<Rightarrow> zend_arg" where
  "defaulted n t nul d = \<lparr>za_name = n, za_type = Some t, za_null = nul, za_default = Some d\<rparr>"

definition func_info :: "nat \<Rightarrow> (zend_type \<times> bool) option \<Rightarrow> zend_arg list \<Rightarrow> zend_function_info" where
  "func_info req ret args = \<lparr>fi_required = req, fi_return = ret, fi_args = args\<rparr>"

definition arginfo_eio_event_loop :: zend_function_info where
  "arginfo_eio_event_loop = func_info 0 (Some (IS_BOOL, False)) []"

definition arginfo_eio_poll :: zend_function_info where
  "arginfo_eio_poll = func_info 0 (Some (IS_LONG, False)) []"

definition arginfo_eio_open :: zend_function_info where
  "arginfo_eio_open = func_info 5 None
     [typed ''path'' IS_STRING False,
      typed ''flags'' IS_LONG False,
      typed ''mode'' IS_LONG False,
      typed ''pri'' IS_LONG False,
      typed ''callback'' IS_MIXED True,
      defaulted ''data'' IS_MIXED True ''null'']"

definition arginfo_eio_truncate :: zend_function_info where
  "arginfo_eio_truncate = func_info 1 None
     [typed ''path'' IS_STRING False,
      defaulted ''offset'' IS_LONG False ''0'',
      defaulted ''pri'' IS_LONG False ''0'',
      defaulted ''callback'' IS_MIXED True ''null'',
      defaulted ''data'' IS_MIXED True ''null'']"

definition arginfo_eio_mkdir :: zend_function_info where
  "arginfo_eio_mkdir = func_info 2 None
     [typed ''path'' IS_STRING False,
      typed ''mode'' IS_LONG False,
      defaulted ''pri'' IS_LONG False ''0'',
      defaulted ''callback'' IS_MIXED True ''null'',
      defaulted ''data'' IS_MIXED True ''null'']"

definition arginfo_eio_rmdir :: zend_function_info where
  "arginfo_eio_rmdir = func_info 1 None
     [typed ''path'' IS_STRING False,
      defaulted ''pri'' IS_LONG False ''0'',
      defaulted ''callback'' IS_MIXED True ''null'',
      defaulted ''data'' IS_MIXED True ''null'']"

definition arginfo_eio_unlink :: zend_function_info where
  "arginfo_eio_unlink = arginfo_eio_rmdir"

definition arginfo_eio_utime :: zend_function_info where
  "arginfo_eio_utime = func_info 3 None
     [typed ''path'' IS_STRING False,
      typed ''atime'' IS_DOUBLE False,
      typed ''mtime'' IS_DOUBLE False,
      defaulted ''pri'' IS_LONG False ''0'',
      defaulted ''callback'' IS_MIXED True ''null'',
      defaulted ''data'' IS_MIXED True ''null'']"

definition arginfo_eio_mknod :: zend_function_info where
  "arginfo_eio_mknod = func_info 3 None
     [typed ''path'' IS_STRING False,
      typed ''mode'' IS_LONG False,
      typed ''dev'' IS_LONG False,
      defaulted ''pri'' IS_LONG False ''0'',
      defaulted ''callback'' IS_MIXED True ''null'',
      defaulted ''data'' IS_MIXED True ''null'']"

definition arginfo_eio_link :: zend_function_info where
  "arginfo_eio_link = func_info 2 None
     [typed ''path'' IS_STRING False,
      typed ''new_path'' IS_STRING False,
      defaulted ''pri'' IS_LONG False ''0'',
      defaulted ''callback'' IS_MIXED True ''null'',
      defaulted ''data'' IS_MIXED True ''null'']"

definition arginfo_eio_symlink :: zend_function_info where
  "arginfo_eio_symlink = arginfo_eio_link"

definition arginfo_eio_rename :: zend_function_info where
  "arginfo_eio_rename = arginfo_eio_link"

definition arginfo_eio_close :: zend_function_info where
  "arginfo_eio_close = func_info 1 None
     [typed ''fd'' IS_MIXED False,
      defaulted ''pri'' IS_LONG False ''0'',
      defaulted ''callback'' IS_MIXED True ''null'',
      defaulted ''data'' IS_MIXED True ''null'']"

definition arginfo_eio_sync :: zend_function_info where
  "arginfo_eio_sync = func_info 0 None
     [defaulted ''pri'' IS_LONG False ''0'',
      defaulted ''callback'' IS_MIXED True ''null'',
      defaulted ''data'' IS_MIXED True ''null'']"

definition arginfo_eio_fsync :: zend_function_info where
  "arginfo_eio_fsync = arginfo_eio_close"

definition arginfo_eio_fdatasync :: zend_function_info where
  "arginfo_eio_fdatasync = arginfo_eio_close"

definition arginfo_eio_futime :: zend_function_info where
  "arginfo_eio_futime = func_info 3 None
     [typed ''fd'' IS_MIXED False,
      typed ''atime'' IS_DOUBLE False,
      typed ''mtime'' IS_DOUBLE False,
      defaulted ''pri'' IS_LONG False ''0'',
      defaulted ''callback'' IS_MIXED True ''null'',
      defaulted ''data'' IS_MIXED True ''null'']"

definition arginfo_eio_ftruncate :: zend_function_info where
  "arginfo_eio_ftruncate = func_info 1 None
     [typed ''fd'' IS_MIXED False,
      defaulted ''offset'' IS_LONG False ''0'',
      defaulted ''pri'' IS_LONG False ''0'',
      defaulted ''callback'' IS_MIXED True ''null'',
      defaulted ''data'' IS_MIXED True ''null'']"

definition arginfo_eio_chmod :: zend_function_info where
  "arginfo_eio_chmod = arginfo_eio_mkdir"

definition arginfo_eio_fchmod :: zend_function_info where
  "arginfo_eio_fchmod = func_info 2 None
     [typed ''fd'' IS_MIXED False,
      typed ''mode'' IS_LONG False,
      defaulted ''pri'' IS_LONG False ''0'',
      defaulted ''callback'' IS_MIXED True ''null'',
      defaulted ''data'' IS_MIXED True ''null'']"

definition arginfo_eio_chown :: zend_function_info where
  "arginfo_eio_chown = func_info 2 None
     [typed ''path'' IS_STRING False,
      typed ''uid'' IS_LONG False,
      defaulted ''gid'' IS_LONG False ''-1'',
      defaulted ''pri'' IS_LONG False ''0'',
      defaulted ''callback'' IS_MIXED True ''null'',
      defaulted ''data'' IS_MIXED True ''null'']"

definition arginfo_eio_fchown :: zend_function_info where
  "arginfo_eio_fchown = func_info 2 None
     [typed ''fd'' IS_MIXED False,
      typed ''uid'' IS_LONG False,
      defaulted ''gid'' IS_LONG False ''-1'',
      defaulted ''pri'' IS_LONG False ''0'',
      defaulted ''callback'' IS_MIXED True ''null'',
      defaulted ''data'' IS_MIXED True ''null'']"

definition arginfo_eio_dup2 :: zend_function_info where
  "arginfo_eio_dup2 = func_info 2 None
     [typed ''fd'' IS_MIXED False,
      typed ''fd2'' IS_MIXED False,
      defaulted ''pri'' IS_LONG False ''0'',
      defaulted ''callback'' IS_MIXED True ''null'',
      defaulted ''data'' IS_MIXED True ''null'']"

definition arginfo_eio_read :: zend_function_info where
  "arginfo_eio_read = func_info 5 None
     [typed ''fd'' IS_MIXED False,
      typed ''length'' IS_LONG False,
      typed ''offset'' IS_LONG False,
      typed ''pri'' IS_LONG False,
      typed ''callback'' IS_MIXED False,
      defaulted ''data'' IS_MIXED True ''null'']"

definition arginfo_eio_write :: zend_function_info where
  "arginfo_eio_write = func_info 2 None
     [typed ''fd'' IS_MIXED False,
      typed ''str'' IS_MIXED False,
      defaulted ''length'' IS_LONG False ''0'',
      defaulted ''offset'' IS_LONG False ''0'',
      defaulted ''pri'' IS_LONG False ''0'',
      defaulted ''callback'' IS_MIXED True ''null'',
      defaulted ''data'' IS_MIXED True ''null'']"

definition arginfo_eio_readlink :: zend_function_info where
  "arginfo_eio_readlink = func_info 3 None
     [typed ''path'' IS_STRING False,
      typed ''pri'' IS_LONG False,
      typed ''callback'' IS_MIXED False,
      defaulted ''data'' IS_MIXED True ''null'']"

definition arginfo_eio_realpath :: zend_function_info where
  "arginfo_eio_realpath = arginfo_eio_readlink"

definition arginfo_eio_stat :: zend_function_info where
  "arginfo_eio_stat = func_info 3 None
     [typed ''path'' IS_STRING False,
      typed ''pri'' IS_LONG False,
      typed ''callback'' IS_MIXED False,
      defaulted ''data'' IS_MIXED True ''NULL'']"

definition arginfo_eio_lstat :: zend_function_info where
  "arginfo_eio_lstat = arginfo_eio_readlink"

definition arginfo_eio_fstat :: zend_function_info where
  "arginfo_eio_fstat = func_info 3 None
     [typed ''fd'' IS_MIXED False,
      typed ''pri'' IS_LONG False,
      typed ''callback'' IS_MIXED False,
      defaulted ''data'' IS_MIXED True ''null'']"

definition arginfo_eio_statvfs :: zend_function_info where
  "arginfo_eio_statvfs = arginfo_eio_readlink"

definition arginfo_eio_fstatvfs :: zend_function_info where
  "arginfo_eio_fstatvfs = arginfo_eio_fstat"

definition arginfo_eio_readdir :: zend_function_info where
  "arginfo_eio_readdir = func_info 4 None
     [typed ''path'' IS_STRING False,
      typed ''flags'' IS_LONG False,
      typed ''pri'' IS_LONG False,
      typed ''callback'' IS_MIXED False,
      defaulted ''data'' IS_MIXED True ''null'']"

definition arginfo_eio_sendfile :: zend_function_info where
  "arginfo_eio_sendfile = func_info 6 None
     [typed ''out_fd'' IS_MIXED False,
      typed ''in_fd'' IS_MIXED False,
      typed ''offset'' IS_LONG False,
      typed ''length'' IS_LONG False,
      typed ''pri'' IS_LONG False,
      typed ''callback'' IS_MIXED False,
      defaulted ''data'' IS_MIXED True ''null'']"

definition arginfo_eio_readahead :: zend_function_info where
  "arginfo_eio_readahead = func_info 3 None
     [typed ''fd'' IS_MIXED False,
      typed ''offset'' IS_LONG False,
      typed ''length'' IS_LONG False,
      defaulted ''pri'' IS_LONG False ''EIO_PRI_DEFAULT'',
      defaulted ''callback'' IS_MIXED True ''null'',
      defaulted ''data'' IS_MIXED True ''null'']"

definition arginfo_eio_seek :: zend_function_info where
  "arginfo_eio_seek = func_info 3 None
     [typed ''fd'' IS_MIXED False,
      typed ''offset'' IS_LONG False,
      typed ''whence'' IS_LONG False,
      defaulted ''pri'' IS_LONG False ''EIO_PRI_DEFAULT'',
      defaulted ''callback'' IS_MIXED True ''null'',
      defaulted ''data'' IS_MIXED True ''NULL'']"

definition arginfo_eio_syncfs :: zend_function_info where
  "arginfo_eio_syncfs = func_info 1 None
     [typed ''fd'' IS_MIXED False,
      defaulted ''pri'' IS_LONG False ''EIO_PRI_DEFAULT'',
      defaulted ''callback'' IS_MIXED True ''null'',
      defaulted ''data'' IS_MIXED False ''null'']"

definition arginfo_eio_sync_file_range :: zend_function_info where
  "arginfo_eio_sync_file_range = func_info 4 None
     [typed ''fd'' IS_MIXED False,
      typed ''offset'' IS_LONG False,
      typed ''nbytes'' IS_LONG False,
      typed ''flags'' IS_LONG False,
      defaulted ''pri'' IS_LONG False ''EIO_PRI_DEFAULT'',
      defaulted ''callback'' IS_MIXED True ''null'',
      defaulted ''data'' IS_MIXED True ''null'']"

definition arginfo_eio_fallocate :: zend_function_info where
  "arginfo_eio_fallocate = func_info 4 None
     [typed ''fd'' IS_MIXED False,
      typed ''mode'' IS_LONG False,
      typed ''offset'' IS_LONG False,
      typed ''length'' IS_LONG False,
      defaulted ''pri'' IS_LONG False ''EIO_PRI_DEFAULT'',
      defaulted ''callback'' IS_MIXED True ''null'',
      defaulted ''data'' IS_MIXED True ''null'']"

definition arginfo_eio_custom :: zend_function_info where
  "arginfo_eio_custom = func_info 3 None
     [typed ''execute'' IS_MIXED False,
      typed ''pri'' IS_LONG False,
      typed ''callback'' IS_MIXED False,
      defaulted ''data'' IS_MIXED True ''null'']"

definition arginfo_eio_busy :: zend_function_info where
  "arginfo_eio_busy = func_info 1 None
     [typed ''delay'' IS_LONG False,
      defaulted ''pri'' IS_LONG False ''EIO_PRI_DEFAULT'',
      defaulted ''callback'' IS_MIXED True ''null'',
      defaulted ''data'' IS_MIXED True ''null'']"

definition arginfo_eio_nop :: zend_function_info where
  "arginfo_eio_nop = func_info 0 None
     [defaulted ''pri'' IS_LONG False ''EIO_PRI_DEFAULT'',
      defaulted ''callback'' IS_MIXED True ''null'',
      defaulted ''data'' IS_MIXED True ''null'']"

definition arginfo_eio_cancel :: zend_function_info where
  "arginfo_eio_cancel = func_info 1 (Some (IS_VOID, False))
     [untyped ''req'']"

definition arginfo_eio_grp :: zend_function_info where
  "arginfo_eio_grp = func_info 1 None
     [typed ''callback'' IS_MIXED False,
      defaulted ''data'' IS_MIXED True ''null'']"

definition arginfo_eio_grp_add :: zend_function_info where
  "arginfo_eio_grp_add = func_info 2 (Some (IS_VOID, False))
     [untyped ''grp'',
      untyped ''req'']"

definition arginfo_eio_grp_limit :: zend_function_info where
  "arginfo_eio_grp_limit = func_info 2 (Some (IS_VOID, False))
     [untyped ''grp'',
      typed ''limit'' IS_LONG False]"

definition arginfo_eio_grp_cancel :: zend_function_info where
  "arginfo_eio_grp_cancel = func_info 1 (Some (IS_VOID, False))
     [untyped ''grp'']"

definition arginfo_eio_set_max_poll_time :: zend_function_info where
  "arginfo_eio_set_max_poll_time = func_info 1 (Some (IS_VOID, False))
     [typed ''nseconds'' IS_DOUBLE False]"

definition arginfo_eio_set_max_poll_reqs :: zend_function_info where
  "arginfo_eio_set_max_poll_reqs = func_info 1 (Some (IS_VOID, False))
     [typed ''value'' IS_LONG False]"

definition arginfo_eio_set_min_parallel :: zend_function_info where
  "arginfo_eio_set_min_parallel = arginfo_eio_set_max_poll_reqs"

definition arginfo_eio_set_max_parallel :: zend_function_info where
  "arginfo_eio_set_max_parallel = arginfo_eio_set_max_poll_reqs"

definition arginfo_eio_set_max_idle :: zend_function_info where
  "arginfo_eio_set_max_idle = arginfo_eio_set_max_poll_reqs"

definition arginfo_eio_nthreads :: zend_function_info where
  "arginfo_eio_nthreads = arginfo_eio_poll"

definition arginfo_eio_nreqs :: zend_function_info where
  "arginfo_eio_nreqs = arginfo_eio_poll"

definition arginfo_eio_nready :: zend_function_info where
  "arginfo_eio_nready = arginfo_eio_poll"

definition arginfo_eio_npending :: zend_function_info where
  "arginfo_eio_npending = arginfo_eio_poll"

definition arginfo_eio_get_event_stream :: zend_function_info where
  "arginfo_eio_get_event_stream = func_info 0 None []"

definition arginfo_eio_get_last_error :: zend_function_info where
  "arginfo_eio_get_last_error = func_info 1 (Some (IS_STRING, False))
     [untyped ''req'']"

text \<open>The prototypes of the functions, and the table handed to the engine.\<close>

definition declared_functions :: "string list" where
  "declared_functions =
     [''eio_event_loop'', ''eio_poll'', ''eio_open'', ''eio_truncate'', ''eio_mkdir'',
      ''eio_rmdir'', ''eio_unlink'', ''eio_utime'', ''eio_mknod'', ''eio_link'', ''eio_symlink'',
      ''eio_rename'', ''eio_close'', ''eio_sync'', ''eio_fsync'', ''eio_fdatasync'', ''eio_futime'',
      ''eio_ftruncate'', ''eio_chmod'', ''eio_fchmod'', ''eio_chown'', ''eio_fchown'', ''eio_dup2'',
      ''eio_read'', ''eio_write'', ''eio_readlink'', ''eio_realpath'', ''eio_stat'', ''eio_lstat'',
      ''eio_fstat'', ''eio_statvfs'', ''eio_fstatvfs'', ''eio_readdir'', ''eio_sendfile'',
      ''eio_readahead'', ''eio_seek'', ''eio_syncfs'', ''eio_sync_file_range'', ''eio_fallocate'',
      ''eio_custom'', ''eio_busy'', ''eio_nop'', ''eio_cancel'', ''eio_grp'', ''eio_grp_add'',
      ''eio_grp_limit'', ''eio_grp_cancel'', ''eio_set_max_poll_time'', ''eio_set_max_poll_reqs'',
      ''eio_set_min_parallel'', ''eio_set_max_parallel'', ''eio_set_max_idle'', ''eio_nthreads'',
      ''eio_nreqs'', ''eio_nready'', ''eio_npending'', ''eio_get_event_stream'',
      ''eio_get_last_error'']"

definition ext_functions :: "(string \<times> zend_function_info) list" where
  "ext_functions =
     [(''eio_event_loop'', arginfo_eio_event_loop),
      (''eio_poll'', arginfo_eio_poll),
      (''eio_open'', arginfo_eio_open),
      (''eio_truncate'', arginfo_eio_truncate),
      (''eio_mkdir'', arginfo_eio_mkdir),
      (''eio_rmdir'', arginfo_eio_rmdir),
      (''eio_unlink'', arginfo_eio_unlink),
      (''eio_utime'', arginfo_eio_utime),
      (''eio_mknod'', arginfo_eio_mknod),
      (''eio_link'', arginfo_eio_link),
      (''eio_symlink'', arginfo_eio_symlink),
      (''eio_rename'', arginfo_eio_rename),
      (''eio_close'', arginfo_eio_close),
      (''eio_sync'', arginfo_eio_sync),
      (''eio_fsync'', arginfo_eio_fsync),
      (''eio_fdatasync'', arginfo_eio_fdatasync),
      (''eio_futime'', arginfo_eio_futime),
      (''eio_ftruncate'', arginfo_eio_ftruncate),
      (''eio_chmod'', arginfo_eio_chmod),
      (''eio_fchmod'', arginfo_eio_fchmod),
      (''eio_chown'', arginfo_eio_chown),
      (''eio_fchown'', arginfo_eio_fchown),
      (''eio_dup2'', arginfo_eio_dup2),
      (''eio_read'', arginfo_eio_read),
      (''eio_write'', arginfo_eio_write),
      (''eio_readlink'', arginfo_eio_readlink),
      (''eio_realpath'', arginfo_eio_realpath),
      (''eio_stat'', arginfo_eio_stat),
      (''eio_lstat'', arginfo_eio_lstat),
      (''eio_fstat'', arginfo_eio_fstat),
      (''eio_statvfs'', arginfo_eio_statvfs),
      (''eio_fstatvfs'', arginfo_eio_fstatvfs),
      (''eio_readdir'', arginfo_eio_readdir),
      (''eio_sendfile'', arginfo_eio_sendfile),
      (''eio_readahead'', arginfo_eio_readahead),
      (''eio_seek'', arginfo_eio_seek),
      (''eio_syncfs'', arginfo_eio_syncfs),
      (''eio_sync_file_range'', arginfo_eio_sync_file_range),
      (''eio_fallocate'', arginfo_eio_fallocate),
      (''eio_custom'', arginfo_eio_custom),
      (''eio_busy'', arginfo_eio_busy),
      (''eio_nop'', arginfo_eio_nop),
      (''eio_cancel'', arginfo_eio_cancel),
      (''eio_grp'', arginfo_eio_grp),
      (''eio_grp_add'', arginfo_eio_grp_add),
      (''eio_grp_limit'', arginfo_eio_grp_limit),
      (''eio_grp_cancel'', arginfo_eio_grp_cancel),
      (''eio_set_max_poll_time'', arginfo_eio_set_max_poll_time),
      (''eio_set_max_poll_reqs'', arginfo_eio_set_max_poll_reqs),
      (''eio_set_min_parallel'', arginfo_eio_set_min_parallel),
      (''eio_set_max_parallel'', arginfo_eio_set_max_parallel),
      (''eio_set_max_idle'', arginfo_eio_set_max_idle),
      (''eio_nthreads'', arginfo_eio_nthreads),
      (''eio_nreqs'', arginfo_eio_nreqs),
      (''eio_nready'', arginfo_eio_nready),
      (''eio_npending'', arginfo_eio_npending),
      (''eio_get_event_stream'', arginfo_eio_get_event_stream),
      (''eio_get_last_error'', arginfo_eio_get_last_error)]"

section \<open>Parsing the parameters\<close>

text \<open>
  A call of \<open>zend_parse_parameters\<close>: its format string, and what the variable of each parameter holds
  before the call.  \<open>PHP_EIO_INIT\<close> declares the last three of most functions.
\<close>

datatype zpp_init = No_init | Init_long int | Init_null

record zpp =
  zp_spec :: string
  zp_init :: "zpp_init list"

definition zpp_call :: "string \<Rightarrow> zpp_init list \<Rightarrow> zpp" where
  "zpp_call spec ini = \<lparr>zp_spec = spec, zp_init = ini\<rparr>"

definition PHP_EIO_INIT_vars :: "zpp_init list" where
  "PHP_EIO_INIT_vars = [Init_long EIO_PRI_DEFAULT, Init_null, Init_null]"

definition zpp_eio_get_last_error :: zpp where
  "zpp_eio_get_last_error = zpp_call ''r'' [No_init]"

definition zpp_eio_open :: zpp where
  "zpp_eio_open = zpp_call ''slllz|z!'' ([No_init, No_init, No_init] @ PHP_EIO_INIT_vars)"

definition zpp_eio_truncate :: zpp where
  "zpp_eio_truncate = zpp_call ''s|llz!z!'' ([No_init, Init_long 0] @ PHP_EIO_INIT_vars)"

definition zpp_eio_chown :: zpp where
  "zpp_eio_chown = zpp_call ''Sl|llz!z!'' ([No_init, No_init, Init_long (-1)] @ PHP_EIO_INIT_vars)"

definition zpp_eio_chmod :: zpp where
  "zpp_eio_chmod = zpp_call ''pl|lz!z!'' ([No_init, No_init] @ PHP_EIO_INIT_vars)"

definition zpp_eio_mkdir :: zpp where
  "zpp_eio_mkdir = zpp_call ''pl|lz!z!'' ([No_init, No_init] @ PHP_EIO_INIT_vars)"

definition zpp_eio_rmdir :: zpp where
  "zpp_eio_rmdir = zpp_call ''p|lz!z!'' ([No_init] @ PHP_EIO_INIT_vars)"

definition zpp_eio_unlink :: zpp where
  "zpp_eio_unlink = zpp_call ''p|lz!z!'' ([No_init] @ PHP_EIO_INIT_vars)"

definition zpp_eio_utime :: zpp where
  "zpp_eio_utime = zpp_call ''pd/d/|lz!z!'' ([No_init, No_init, No_init] @ PHP_EIO_INIT_vars)"

definition zpp_eio_mknod :: zpp where
  "zpp_eio_mknod = zpp_call ''pll|lz!z!'' ([No_init, No_init, No_init] @ PHP_EIO_INIT_vars)"

definition zpp_eio_link :: zpp where
  "zpp_eio_link = zpp_call ''pp|lz!z!'' ([No_init, No_init] @ PHP_EIO_INIT_vars)"

definition zpp_eio_symlink :: zpp where
  "zpp_eio_symlink = zpp_call ''pp|lz!z!'' ([No_init, No_init] @ PHP_EIO_INIT_vars)"

definition zpp_eio_rename :: zpp where
  "zpp_eio_rename = zpp_call ''pp|lz!z!'' ([No_init, No_init] @ PHP_EIO_INIT_vars)"

definition zpp_eio_close :: zpp where
  "zpp_eio_close = zpp_call ''z|lz!z!'' ([No_init] @ PHP_EIO_INIT_vars)"

definition zpp_eio_sync :: zpp where
  "zpp_eio_sync = zpp_call ''|lz!z!'' PHP_EIO_INIT_vars"

definition zpp_eio_fsync :: zpp where
  "zpp_eio_fsync = zpp_call ''z|lz!z!'' ([No_init] @ PHP_EIO_INIT_vars)"

definition zpp_eio_fdatasync :: zpp where
  "zpp_eio_fdatasync = zpp_call ''z|lz!z!'' ([No_init] @ PHP_EIO_INIT_vars)"

definition zpp_eio_futime :: zpp where
  "zpp_eio_futime = zpp_call ''zd/d/|lz!z!'' ([No_init, No_init, No_init] @ PHP_EIO_INIT_vars)"

definition zpp_eio_ftruncate :: zpp where
  "zpp_eio_ftruncate = zpp_call ''z|llz!z!'' ([No_init, Init_long 0] @ PHP_EIO_INIT_vars)"

definition zpp_eio_fchmod :: zpp where
  "zpp_eio_fchmod = zpp_call ''zl/|lz!z!'' ([No_init, No_init] @ PHP_EIO_INIT_vars)"

definition zpp_eio_fchown :: zpp where
  "zpp_eio_fchown = zpp_call ''zl/|l/lz!z!'' ([No_init, Init_long (-1), Init_long (-1)] @ PHP_EIO_INIT_vars)"

definition zpp_eio_dup2 :: zpp where
  "zpp_eio_dup2 = zpp_call ''zz|lz!z!'' ([No_init, No_init] @ PHP_EIO_INIT_vars)"

definition zpp_eio_read :: zpp where
  "zpp_eio_read = zpp_call ''zlllz|z!'' ([No_init, Init_long 0, Init_long 0] @ PHP_EIO_INIT_vars)"

definition zpp_eio_write :: zpp where
  "zpp_eio_write = zpp_call ''zz|lllz!z!'' ([No_init, No_init, Init_long 0, Init_long 0] @ PHP_EIO_INIT_vars)"

definition zpp_eio_readlink :: zpp where
  "zpp_eio_readlink = zpp_call ''slz|z!'' ([No_init] @ PHP_EIO_INIT_vars)"

definition zpp_eio_realpath :: zpp where
  "zpp_eio_realpath = zpp_call ''slz|z!'' ([No_init] @ PHP_EIO_INIT_vars)"

definition zpp_eio_stat :: zpp where
  "zpp_eio_stat = zpp_call ''slz|z!'' ([No_init] @ PHP_EIO_INIT_vars)"

definition zpp_eio_lstat :: zpp where
  "zpp_eio_lstat = zpp_call ''slz|z!'' ([No_init] @ PHP_EIO_INIT_vars)"

definition zpp_eio_fstat :: zpp where
  "zpp_eio_fstat = zpp_call ''zlz|z!'' ([No_init] @ PHP_EIO_INIT_vars)"

definition zpp_eio_statvfs :: zpp where
  "zpp_eio_statvfs = zpp_call ''slz|z!'' ([No_init] @ PHP_EIO_INIT_vars)"

definition zpp_eio_fstatvfs :: zpp where
  "zpp_eio_fstatvfs = zpp_call ''zlz|z!'' ([No_init] @ PHP_EIO_INIT_vars)"

definition zpp_eio_readdir :: zpp where
  "zpp_eio_readdir = zpp_call ''sllz!|z!'' ([No_init, No_init] @ PHP_EIO_INIT_vars)"

definition zpp_eio_sendfile :: zpp where
  "zpp_eio_sendfile = zpp_call ''zzll|lz!z!'' ([No_init, No_init, No_init, No_init] @ PHP_EIO_INIT_vars)"

definition zpp_eio_readahead :: zpp where
  "zpp_eio_readahead = zpp_call ''zll|lz!z!'' ([No_init, No_init, No_init] @ PHP_EIO_INIT_vars)"

definition zpp_eio_seek :: zpp where
  "zpp_eio_seek = zpp_call ''zll|lz!z!'' ([No_init, No_init, No_init] @ PHP_EIO_INIT_vars)"

definition zpp_eio_syncfs :: zpp where
  "zpp_eio_syncfs = zpp_call ''z|lz!z!'' ([No_init] @ PHP_EIO_INIT_vars)"

definition zpp_eio_sync_file_range :: zpp where
  "zpp_eio_sync_file_range = zpp_call ''zlll|lz!z!'' ([No_init, No_init, No_init, No_init] @ PHP_EIO_INIT_vars)"

definition zpp_eio_fallocate :: zpp where
  "zpp_eio_fallocate = zpp_call ''zlll|lz!z!'' ([No_init, Init_long 0, Init_long 0, No_init] @ PHP_EIO_INIT_vars)"

definition zpp_eio_custom :: zpp where
  "zpp_eio_custom = zpp_call ''zlz|z!'' [Init_null, Init_long EIO_PRI_DEFAULT, Init_null, Init_null]"

definition zpp_eio_busy :: zpp where
  "zpp_eio_busy = zpp_call ''l|lz!z!'' ([No_init] @ PHP_EIO_INIT_vars)"

definition zpp_eio_nop :: zpp where
  "zpp_eio_nop = zpp_call ''|lz!z!'' PHP_EIO_INIT_vars"

definition zpp_eio_cancel :: zpp where
  "zpp_eio_cancel = zpp_call ''r'' [No_init]"

definition zpp_eio_grp :: zpp where
  "zpp_eio_grp = zpp_call ''z|z!'' [Init_null, Init_null]"

definition zpp_eio_grp_add :: zpp where
  "zpp_eio_grp_add = zpp_call ''rr'' [No_init, No_init]"

definition zpp_eio_grp_limit :: zpp where
  "zpp_eio_grp_limit = zpp_call ''rl'' [No_init, No_init]"

definition zpp_eio_grp_cancel :: zpp where
  "zpp_eio_grp_cancel = zpp_call ''r'' [No_init]"

definition zpp_eio_set_max_poll_time :: zpp where
  "zpp_eio_set_max_poll_time = zpp_call ''d'' [No_init]"

definition zpp_eio_set_int :: zpp where
  "zpp_eio_set_int = zpp_call ''l'' [No_init]"

text \<open>Which function makes which call; \<open>None\<close> for those that read no parameters.\<close>

definition php_functions :: "(string \<times> zpp option) list" where
  "php_functions =
     [(''eio_get_last_error'', Some zpp_eio_get_last_error), (''eio_event_loop'', None),
      (''eio_poll'', None), (''eio_open'', Some zpp_eio_open),
      (''eio_truncate'', Some zpp_eio_truncate), (''eio_chown'', Some zpp_eio_chown),
      (''eio_chmod'', Some zpp_eio_chmod), (''eio_mkdir'', Some zpp_eio_mkdir),
      (''eio_rmdir'', Some zpp_eio_rmdir), (''eio_unlink'', Some zpp_eio_unlink),
      (''eio_utime'', Some zpp_eio_utime), (''eio_mknod'', Some zpp_eio_mknod),
      (''eio_link'', Some zpp_eio_link), (''eio_symlink'', Some zpp_eio_symlink),
      (''eio_rename'', Some zpp_eio_rename), (''eio_close'', Some zpp_eio_close),
      (''eio_sync'', Some zpp_eio_sync), (''eio_fsync'', Some zpp_eio_fsync),
      (''eio_fdatasync'', Some zpp_eio_fdatasync), (''eio_futime'', Some zpp_eio_futime),
      (''eio_ftruncate'', Some zpp_eio_ftruncate), (''eio_fchmod'', Some zpp_eio_fchmod),
      (''eio_fchown'', Some zpp_eio_fchown), (''eio_dup2'', Some zpp_eio_dup2),
      (''eio_read'', Some zpp_eio_read), (''eio_write'', Some zpp_eio_write),
      (''eio_readlink'', Some zpp_eio_readlink), (''eio_realpath'', Some zpp_eio_realpath),
      (''eio_stat'', Some zpp_eio_stat), (''eio_lstat'', Some zpp_eio_lstat),
      (''eio_fstat'', Some zpp_eio_fstat), (''eio_statvfs'', Some zpp_eio_statvfs),
      (''eio_fstatvfs'', Some zpp_eio_fstatvfs), (''eio_readdir'', Some zpp_eio_readdir),
      (''eio_sendfile'', Some zpp_eio_sendfile), (''eio_readahead'', Some zpp_eio_readahead),
      (''eio_seek'', Some zpp_eio_seek), (''eio_syncfs'', Some zpp_eio_syncfs),
      (''eio_sync_file_range'', Some zpp_eio_sync_file_range),
      (''eio_fallocate'', Some zpp_eio_fallocate), (''eio_custom'', Some zpp_eio_custom),
      (''eio_busy'', Some zpp_eio_busy), (''eio_nop'', Some zpp_eio_nop),
      (''eio_cancel'', Some zpp_eio_cancel), (''eio_grp'', Some zpp_eio_grp),
      (''eio_grp_add'', Some zpp_eio_grp_add), (''eio_grp_limit'', Some zpp_eio_grp_limit),
      (''eio_grp_cancel'', Some zpp_eio_grp_cancel),
      (''eio_set_max_poll_time'', Some zpp_eio_set_max_poll_time), (''eio_get_event_stream'', None),
      (''eio_set_max_poll_reqs'', Some zpp_eio_set_int),
      (''eio_set_min_parallel'', Some zpp_eio_set_int),
      (''eio_set_max_parallel'', Some zpp_eio_set_int),
      (''eio_set_max_idle'', Some zpp_eio_set_int), (''eio_nthreads'', None), (''eio_nreqs'', None),
      (''eio_nready'', None), (''eio_npending'', None)]"

lemmas arginfo_defs =
  arginfo_eio_event_loop_def arginfo_eio_poll_def arginfo_eio_open_def arginfo_eio_truncate_def
  arginfo_eio_mkdir_def arginfo_eio_rmdir_def arginfo_eio_unlink_def arginfo_eio_utime_def
  arginfo_eio_mknod_def arginfo_eio_link_def arginfo_eio_symlink_def arginfo_eio_rename_def
  arginfo_eio_close_def arginfo_eio_sync_def arginfo_eio_fsync_def arginfo_eio_fdatasync_def
  arginfo_eio_futime_def arginfo_eio_ftruncate_def arginfo_eio_chmod_def arginfo_eio_fchmod_def
  arginfo_eio_chown_def arginfo_eio_fchown_def arginfo_eio_dup2_def arginfo_eio_read_def
  arginfo_eio_write_def arginfo_eio_readlink_def arginfo_eio_realpath_def arginfo_eio_stat_def
  arginfo_eio_lstat_def arginfo_eio_fstat_def arginfo_eio_statvfs_def arginfo_eio_fstatvfs_def
  arginfo_eio_readdir_def arginfo_eio_sendfile_def arginfo_eio_readahead_def
  arginfo_eio_seek_def arginfo_eio_syncfs_def arginfo_eio_sync_file_range_def
  arginfo_eio_fallocate_def arginfo_eio_custom_def arginfo_eio_busy_def arginfo_eio_nop_def
  arginfo_eio_cancel_def arginfo_eio_grp_def arginfo_eio_grp_add_def arginfo_eio_grp_limit_def
  arginfo_eio_grp_cancel_def arginfo_eio_set_max_poll_time_def arginfo_eio_set_max_poll_reqs_def
  arginfo_eio_set_min_parallel_def arginfo_eio_set_max_parallel_def arginfo_eio_set_max_idle_def
  arginfo_eio_nthreads_def arginfo_eio_nreqs_def arginfo_eio_nready_def arginfo_eio_npending_def
  arginfo_eio_get_event_stream_def arginfo_eio_get_last_error_def

lemmas zpp_defs =
  zpp_eio_get_last_error_def zpp_eio_open_def zpp_eio_truncate_def zpp_eio_chown_def
  zpp_eio_chmod_def zpp_eio_mkdir_def zpp_eio_rmdir_def zpp_eio_unlink_def zpp_eio_utime_def
  zpp_eio_mknod_def zpp_eio_link_def zpp_eio_symlink_def zpp_eio_rename_def zpp_eio_close_def
  zpp_eio_sync_def zpp_eio_fsync_def zpp_eio_fdatasync_def zpp_eio_futime_def
  zpp_eio_ftruncate_def zpp_eio_fchmod_def zpp_eio_fchown_def zpp_eio_dup2_def zpp_eio_read_def
  zpp_eio_write_def zpp_eio_readlink_def zpp_eio_realpath_def zpp_eio_stat_def
  zpp_eio_lstat_def zpp_eio_fstat_def zpp_eio_statvfs_def zpp_eio_fstatvfs_def
  zpp_eio_readdir_def zpp_eio_sendfile_def zpp_eio_readahead_def zpp_eio_seek_def
  zpp_eio_syncfs_def zpp_eio_sync_file_range_def zpp_eio_fallocate_def zpp_eio_custom_def
  zpp_eio_busy_def zpp_eio_nop_def zpp_eio_cancel_def zpp_eio_grp_def zpp_eio_grp_add_def
  zpp_eio_grp_limit_def zpp_eio_grp_cancel_def zpp_eio_set_max_poll_time_def zpp_eio_set_int_def

text \<open>
  The format strings as the engine documents them: a letter for each parameter, \<open>!\<close> after it when null
  leaves a null pointer, \<open>/\<close> when the value is separated, and \<open>|\<close> before the optional ones.
\<close>

definition spec_mark :: "char \<Rightarrow> bool" where
  "spec_mark c = (c = CHR ''!'' \<or> c = CHR ''/'')"

fun spec_items :: "string \<Rightarrow> (char \<times> bool) list" where
  "spec_items [] = []"
| "spec_items (c # cs) =
     (if c = CHR ''|'' \<or> spec_mark c then spec_items cs
      else (c, CHR ''!'' \<in> set (takeWhile spec_mark cs)) # spec_items cs)"

definition spec_required :: "string \<Rightarrow> nat" where
  "spec_required s = length (spec_items (takeWhile (\<lambda>c. c \<noteq> CHR ''|'') s))"

text \<open>
  A call with the values \<open>vs\<close>: the engine refuses it when there are too few or too many (\<open>None\<close>), else the
  values are stored and the other variables keep what they held.
\<close>

datatype 'v bound = Given 'v | Unset zpp_init

definition bind_parsed :: "zpp \<Rightarrow> 'v list \<Rightarrow> 'v bound list option" where
  "bind_parsed p vs =
     (if spec_required (zp_spec p) \<le> length vs \<and> length vs \<le> length (spec_items (zp_spec p))
      then Some (map Given vs @ map Unset (drop (length vs) (zp_init p))) else None)"

text \<open>
  The same call as the table declares it: the parameters left out have their default, a number, null or a
  constant of the module.
\<close>

definition php_literal :: "string \<Rightarrow> zpp_init" where
  "php_literal d =
     (if d = ''null'' \<or> d = ''NULL'' then Init_null
      else if d = ''0'' then Init_long 0
      else if d = ''-1'' then Init_long (-1)
      else case map_of minit_constants d of Some n \<Rightarrow> Init_long n | None \<Rightarrow> No_init)"

definition declared_default :: "zend_arg \<Rightarrow> zpp_init" where
  "declared_default a = (case za_default a of Some d \<Rightarrow> php_literal d | None \<Rightarrow> No_init)"

definition bind_declared :: "zend_function_info \<Rightarrow> 'v list \<Rightarrow> 'v bound list option" where
  "bind_declared fi vs =
     (if fi_required fi \<le> length vs \<and> length vs \<le> length (fi_args fi)
      then Some (map Given vs @ map (\<lambda>a. Unset (declared_default a)) (drop (length vs) (fi_args fi)))
      else None)"

section \<open>Agreement\<close>

text \<open>The letter of a parameter against its declared type; a mixed parameter always takes null.\<close>

fun letter_type :: "char \<Rightarrow> zend_type option option" where
  "letter_type c =
     (if c \<in> set ''sSp'' then Some (Some IS_STRING) else if c = CHR ''l'' then Some (Some IS_LONG)
      else if c = CHR ''d'' then Some (Some IS_DOUBLE) else if c = CHR ''z'' then Some (Some IS_MIXED)
      else if c = CHR ''r'' then Some None else None)"

definition type_agrees :: "char \<times> bool \<Rightarrow> zend_arg \<Rightarrow> bool" where
  "type_agrees it a =
     (letter_type (fst it) = Some (za_type a) \<and>
      (za_type a \<in> {None, Some IS_MIXED} \<or> za_null a = snd it))"

definition types_agree :: "zpp \<Rightarrow> zend_function_info \<Rightarrow> bool" where
  "types_agree p fi = list_all2 type_agrees (spec_items (zp_spec p)) (fi_args fi)"

definition counts_agree :: "zpp \<Rightarrow> zend_function_info \<Rightarrow> bool" where
  "counts_agree p fi =
     (spec_required (zp_spec p) = fi_required fi \<and>
      length (spec_items (zp_spec p)) = length (fi_args fi))"

definition defaults_agree :: "zpp \<Rightarrow> zend_function_info \<Rightarrow> bool" where
  "defaults_agree p fi =
     (drop (fi_required fi) (zp_init p) = map declared_default (drop (fi_required fi) (fi_args fi)))"

text \<open>What an entry of the table has to fulfil.\<close>

definition entry_agrees :: "string \<times> zend_function_info \<Rightarrow> bool" where
  "entry_agrees e =
     (case map_of php_functions (fst e) of
        Some (Some p) \<Rightarrow> types_agree p (snd e) \<and> counts_agree p (snd e) \<and> defaults_agree p (snd e)
      | Some None \<Rightarrow> fi_args (snd e) = [] \<and> fi_required (snd e) = 0
      | None \<Rightarrow> False)"

lemma bind_agree:
  assumes "counts_agree p fi" "defaults_agree p fi"
  shows "bind_parsed p vs = bind_declared fi vs"
proof (cases "fi_required fi \<le> length vs")
  case True
  then obtain k where k: "length vs = k + fi_required fi" by (metis le_Suc_ex add.commute)
  have "drop (length vs) (zp_init p) = map declared_default (drop (length vs) (fi_args fi))"
    using assms(2) unfolding defaults_agree_def k by (metis drop_drop drop_map)
  then show ?thesis using assms(1) by (simp add: bind_parsed_def bind_declared_def counts_agree_def comp_def)
qed (use assms(1) in \<open>simp add: bind_parsed_def bind_declared_def counts_agree_def\<close>)

lemma table_disagreements:
  "filter (\<lambda>e. \<not> entry_agrees e) ext_functions = [(''eio_sendfile'', arginfo_eio_sendfile)]"
  by code_simp

lemma table_names: "map fst ext_functions = declared_functions" "distinct declared_functions"
  by code_simp+

lemma table_complete: "set (map fst php_functions) = set declared_functions"
  by code_simp

lemma entry_agreesI:
  assumes "e \<in> set ext_functions" "fst e \<noteq> ''eio_sendfile''"
  shows "entry_agrees e"
proof (rule ccontr)
  assume "\<not> entry_agrees e"
  with assms(1) have "e \<in> set (filter (\<lambda>e. \<not> entry_agrees e) ext_functions)" by simp
  with assms(2) show False by (simp only: table_disagreements) auto
qed

section \<open>Properties\<close>


text \<open>
  The exception: \<open>eio_sendfile\<close> declares six required parameters, but its format string makes the last
  two of them optional, so a call with four is taken, with the default priority and no callback, although
  the table says it cannot be made; nothing else differs.
\<close>

theorem sendfile_declares_too_many:
  "bind_declared arginfo_eio_sendfile [a, b, c, d] = None"
  "bind_parsed zpp_eio_sendfile [a, b, c, d] =
     Some [Given a, Given b, Given c, Given d, Unset (Init_long EIO_PRI_DEFAULT), Unset Init_null, Unset Init_null]"
  "types_agree zpp_eio_sendfile arginfo_eio_sendfile"
  by (simp_all add: bind_declared_def bind_parsed_def zpp_eio_sendfile_def arginfo_eio_sendfile_def
        func_info_def zpp_call_def typed_def defaulted_def untyped_def spec_required_def spec_mark_def
        PHP_EIO_INIT_vars_def types_agree_def type_agrees_def)

text \<open>
  The functions that take a path as a plain string, so that NUL bytes in it get past the engine: all
  others use the letter \<open>p\<close>, which refuses them.  Of these, \<open>eio_truncate\<close> and \<open>eio_readdir\<close> do not
  check the length either.
\<close>

definition takes_raw_string :: "zpp \<Rightarrow> bool" where
  "takes_raw_string p = list_ex (\<lambda>it. fst it \<in> set ''sS'') (spec_items (zp_spec p))"

theorem raw_path_functions:
  "map fst (filter (\<lambda>(f, c). case c of Some p \<Rightarrow> takes_raw_string p | None \<Rightarrow> False) php_functions) =
     [''eio_open'', ''eio_truncate'', ''eio_chown'', ''eio_readlink'', ''eio_realpath'', ''eio_stat'',
      ''eio_lstat'', ''eio_statvfs'', ''eio_readdir'']"
  by code_simp

section \<open>Witnesses\<close>


end
