(* ===== verification/EcbBits.thy ===== *)
theory EcbBits
  imports Prelude
begin

unbundle bit_operations_syntax

text \<open>
  The functions on bits of the vendored header \<open>libeio/ecb.h\<close>: counting and finding bits, reversing
  and rotating.  Where the header has several
  variants the one in C is modelled; the others are builtins of the compiler.  A shift by the width of
  its operand or more is undefined in C and \<open>None\<close> here.
\<close>

section \<open>Finding and counting bits\<close>

definition ecb_ctz32 :: "u32 \<Rightarrow> nat" where
  "ecb_ctz32 x =
     (let x = x AND (NOT x + 1) in
      (if x AND 0xaaaaaaaa \<noteq> 0 then 1 else 0) + (if x AND 0xcccccccc \<noteq> 0 then 2 else 0) +
      (if x AND 0xf0f0f0f0 \<noteq> 0 then 4 else 0) + (if x AND 0xff00ff00 \<noteq> 0 then 8 else 0) +
      (if x AND 0xffff0000 \<noteq> 0 then 16 else 0))"

definition ecb_ctz64 :: "u64 \<Rightarrow> nat" where
  "ecb_ctz64 x =
     (let shift = (if x AND 0xffffffff \<noteq> 0 then 0 else 32) in ecb_ctz32 (ucast (drop_bit shift x)) + shift)"

definition ecb_popcount32 :: "u32 \<Rightarrow> u32" where
  "ecb_popcount32 x =
     (let x = x - (drop_bit 1 x AND 0x55555555);
          x = (drop_bit 2 x AND 0x33333333) + (x AND 0x33333333);
          x = (drop_bit 4 x + x) AND 0x0f0f0f0f;
          x = x * 0x01010101
      in drop_bit 24 x)"

definition ecb_popcount64 :: "u64 \<Rightarrow> u32" where
  "ecb_popcount64 x = ecb_popcount32 (ucast x) + ecb_popcount32 (ucast (drop_bit 32 x))"

text \<open>One line of \<open>ecb_ld32\<close>: when there are bits from \<open>k\<close> on, they are moved down.\<close>

definition ld_step :: "nat \<Rightarrow> 'a::len word \<times> nat \<Rightarrow> 'a word \<times> nat" where
  "ld_step k = (\<lambda>(x, r). if drop_bit k x \<noteq> 0 then (drop_bit k x, r + k) else (x, r))"

definition ecb_ld32 :: "u32 \<Rightarrow> nat" where
  "ecb_ld32 x = (case ld_step 2 (ld_step 4 (ld_step 8 (ld_step 16 (x, 0)))) of
     (x, r) \<Rightarrow> if drop_bit 1 x \<noteq> 0 then r + 1 else r)"

definition ecb_ld64 :: "u64 \<Rightarrow> nat" where
  "ecb_ld64 x = (case ld_step 32 (x, 0) of (x, r) \<Rightarrow> r + ecb_ld32 (ucast x))"

definition ecb_is_pot32 :: "u32 \<Rightarrow> bool" where "ecb_is_pot32 x \<longleftrightarrow> x AND (x - 1) = 0"
definition ecb_is_pot64 :: "u64 \<Rightarrow> bool" where "ecb_is_pot64 x \<longleftrightarrow> x AND (x - 1) = 0"

section \<open>Reversing and rotating\<close>

definition ecb_bitrev8 :: "u8 \<Rightarrow> u8" where
  "ecb_bitrev8 x =
     (let x = (ucast x :: u32) in
      ucast (drop_bit 16 ((((x * 0x0802) AND 0x22110) OR ((x * 0x8020) AND 0x88440)) * 0x10101)))"

definition ecb_bitrev16 :: "u16 \<Rightarrow> u16" where
  "ecb_bitrev16 x =
     (let x = (drop_bit 1 x AND 0x5555) OR push_bit 1 (x AND 0x5555);
          x = (drop_bit 2 x AND 0x3333) OR push_bit 2 (x AND 0x3333);
          x = (drop_bit 4 x AND 0x0f0f) OR push_bit 4 (x AND 0x0f0f)
      in drop_bit 8 x OR push_bit 8 x)"

definition ecb_bitrev32 :: "u32 \<Rightarrow> u32" where
  "ecb_bitrev32 x =
     (let x = (drop_bit 1 x AND 0x55555555) OR push_bit 1 (x AND 0x55555555);
          x = (drop_bit 2 x AND 0x33333333) OR push_bit 2 (x AND 0x33333333);
          x = (drop_bit 4 x AND 0x0f0f0f0f) OR push_bit 4 (x AND 0x0f0f0f0f);
          x = (drop_bit 8 x AND 0x00ff00ff) OR push_bit 8 (x AND 0x00ff00ff)
      in drop_bit 16 x OR push_bit 16 x)"

text \<open>The shifts of C.  Operands below 32 bits are promoted to \<open>int\<close>, where a left shift must not overflow.\<close>

definition c_shr :: "'a::len word \<Rightarrow> u32 \<Rightarrow> 'a word option" where
  "c_shr x n = (if unat n < LENGTH('a) then Some (drop_bit (unat n) x) else None)"

definition c_shl :: "'a::len word \<Rightarrow> u32 \<Rightarrow> 'a word option" where
  "c_shl x n = (if unat n < LENGTH('a) then Some (push_bit (unat n) x) else None)"

definition int_shl :: "u32 \<Rightarrow> u32 \<Rightarrow> u32 option" where
  "int_shl x n = (if unat n < 32 \<and> unat x * 2 ^ unat n < 2 ^ 31 then Some (push_bit (unat n) x) else None)"

definition ecb_rotl8 :: "u8 \<Rightarrow> u32 \<Rightarrow> u8 option" where
  "ecb_rotl8 x cnt = do { a \<leftarrow> c_shr (ucast x :: u32) (8 - cnt); b \<leftarrow> int_shl (ucast x) cnt; Some (ucast (a OR b)) }"
definition ecb_rotr8 :: "u8 \<Rightarrow> u32 \<Rightarrow> u8 option" where
  "ecb_rotr8 x cnt = do { a \<leftarrow> int_shl (ucast x) (8 - cnt); b \<leftarrow> c_shr (ucast x :: u32) cnt; Some (ucast (a OR b)) }"
definition ecb_rotl16 :: "u16 \<Rightarrow> u32 \<Rightarrow> u16 option" where
  "ecb_rotl16 x cnt = do { a \<leftarrow> c_shr (ucast x :: u32) (16 - cnt); b \<leftarrow> int_shl (ucast x) cnt; Some (ucast (a OR b)) }"
definition ecb_rotr16 :: "u16 \<Rightarrow> u32 \<Rightarrow> u16 option" where
  "ecb_rotr16 x cnt = do { a \<leftarrow> int_shl (ucast x) (16 - cnt); b \<leftarrow> c_shr (ucast x :: u32) cnt; Some (ucast (a OR b)) }"
definition ecb_rotl32 :: "u32 \<Rightarrow> u32 \<Rightarrow> u32 option" where
  "ecb_rotl32 x cnt = do { a \<leftarrow> c_shr x (32 - cnt); b \<leftarrow> c_shl x cnt; Some (a OR b) }"
definition ecb_rotr32 :: "u32 \<Rightarrow> u32 \<Rightarrow> u32 option" where
  "ecb_rotr32 x cnt = do { a \<leftarrow> c_shl x (32 - cnt); b \<leftarrow> c_shr x cnt; Some (a OR b) }"
definition ecb_rotl64 :: "u64 \<Rightarrow> u32 \<Rightarrow> u64 option" where
  "ecb_rotl64 x cnt = do { a \<leftarrow> c_shr x (64 - cnt); b \<leftarrow> c_shl x cnt; Some (a OR b) }"
definition ecb_rotr64 :: "u64 \<Rightarrow> u32 \<Rightarrow> u64 option" where
  "ecb_rotr64 x cnt = do { a \<leftarrow> c_shl x (64 - cnt); b \<leftarrow> c_shr x cnt; Some (a OR b) }"

section \<open>Finding bits: what is found\<close>

lemma unat_shr: "unat (drop_bit k (x :: 'a::len word)) = unat x div 2 ^ k"
  by (simp add: unat_drop_bit_eq drop_bit_eq_div [where 'a = nat])

lemma shr_zero: "drop_bit k (x :: 'a::len word) = 0 \<longleftrightarrow> unat x < 2 ^ k"
  by (metis unat_shr unat_eq_zero div_eq_0_iff power_not_zero zero_neq_numeral)

text \<open>\<open>log2_is x r\<close>: the highest bit of \<open>x\<close> has the number \<open>r\<close>.\<close>

definition log2_is :: "'a::len word \<Rightarrow> nat \<Rightarrow> bool" where
  "log2_is x r \<longleftrightarrow> 2 ^ r \<le> unat x \<and> unat x < 2 ^ Suc r"

lemma log2_is_shr: "log2_is (drop_bit k x) r \<Longrightarrow> log2_is x (r + k)"
  by (simp add: log2_is_def unat_shr less_eq_div_iff_mult_less_eq div_less_iff_less_mult power_add mult.assoc
      mult.left_commute)

text \<open>What a step keeps: with \<open>m\<close> bits below the highest one of the first word to go.\<close>

definition ld_inv :: "'a::len word \<Rightarrow> nat \<Rightarrow> 'b::len word \<times> nat \<Rightarrow> bool" where
  "ld_inv x m = (\<lambda>(y, r). y \<noteq> 0 \<and> unat y < 2 ^ m \<and> (\<forall>t. log2_is y t \<longrightarrow> log2_is x (t + r)))"

lemma ld_inv_step:
  assumes "ld_inv x (2 * k) p"
  shows "ld_inv x k (ld_step k p)"
proof -
  obtain y r where p: "p = (y, r)" by (cases p)
  have y: "y \<noteq> 0" "unat y < 2 ^ k * 2 ^ k" "\<And>t. log2_is y t \<Longrightarrow> log2_is x (t + r)"
    using assms by (auto simp: ld_inv_def p mult_2 power_add)
  show ?thesis
  proof (cases "unat y < 2 ^ k")
    case True
    then have "drop_bit k y = 0" by (simp only: shr_zero)
    with True y show ?thesis by (simp add: ld_inv_def ld_step_def p)
  next
    case False
    then have "drop_bit k y \<noteq> 0" by (simp only: shr_zero not_False_eq_True)
    moreover have "unat (drop_bit k y) < 2 ^ k" using y(2) by (simp add: unat_shr div_less_iff_less_mult)
    moreover have "log2_is x (t + (r + k))" if "log2_is (drop_bit k y) t" for t
      using y(3) [OF log2_is_shr [OF that]] by (simp add: ac_simps)
    ultimately show ?thesis by (simp add: ld_inv_def ld_step_def p)
  qed
qed

lemma log2_is_low: "y \<noteq> 0 \<Longrightarrow> unat y < 4 \<Longrightarrow> log2_is y (if drop_bit 1 y \<noteq> 0 then 1 else 0)"
  using shr_zero [of 1 y] unat_gt_0 [of y] by (auto simp: log2_is_def)

lemma ecb_ld32_log2:
  assumes "x \<noteq> 0"
  shows "log2_is x (ecb_ld32 x)"
proof -
  have "ld_inv x (2 * 16) (x, 0)"
    using assms unsigned_less [of x] by (simp add: ld_inv_def)
  from ld_inv_step [OF this] have "ld_inv x (2 * 8) (ld_step 16 (x, 0))" by simp
  from ld_inv_step [OF this] have "ld_inv x (2 * 4) (ld_step 8 (ld_step 16 (x, 0)))" by simp
  from ld_inv_step [OF this] have "ld_inv x (2 * 2) (ld_step 4 (ld_step 8 (ld_step 16 (x, 0))))" by simp
  from ld_inv_step [OF this] have *: "ld_inv x 2 (ld_step 2 (ld_step 4 (ld_step 8 (ld_step 16 (x, 0)))))" .
  obtain y r where y: "ld_step 2 (ld_step 4 (ld_step 8 (ld_step 16 (x, 0)))) = (y, r)" by fastforce
  with * log2_is_low [of y] show ?thesis by (auto simp: ecb_ld32_def ld_inv_def split: if_splits)
qed

lemma ecb_ld64_log2:
  assumes "x \<noteq> 0"
  shows "log2_is x (ecb_ld64 x)"
proof -
  have "ld_inv x (2 * 32) (x, 0)"
    using assms unsigned_less [of x] by (simp add: ld_inv_def)
  from ld_inv_step [OF this] obtain y r where
    y: "ld_step 32 (x, 0) = (y, r)" "y \<noteq> 0" "unat y < 2 ^ 32" "\<And>t. log2_is y t \<Longrightarrow> log2_is x (t + r)"
    by (auto simp: ld_inv_def split: prod.splits)
  have u: "unat (ucast y :: u32) = unat y" using y(3) by (simp add: unsigned_ucast_eq take_bit_nat_eq_self)
  then have "(ucast y :: u32) \<noteq> 0" using y(2) by (metis unat_eq_zero)
  from ecb_ld32_log2 [OF this] have "log2_is y (ecb_ld32 (ucast y))" by (simp add: log2_is_def u)
  from y(4) [OF this] show ?thesis by (simp add: ecb_ld64_def y(1) add.commute)
qed

text \<open>The lowest bit of a word: the word shifted down is odd.\<close>

definition ctz_is :: "'a::len word \<Rightarrow> nat \<Rightarrow> bool" where
  "ctz_is x r \<longleftrightarrow> bit x r \<and> (\<forall>k<r. \<not> bit x k)"

lemma ctz_ex: "x \<noteq> 0 \<Longrightarrow> \<exists>r<LENGTH('a). ctz_is (x :: 'a::len word) r"
proof -
  assume "x \<noteq> 0"
  then obtain k where "bit x k" by (auto simp: bit_eq_iff)
  then have "ctz_is x (LEAST k. bit x k)" by (auto simp: ctz_is_def intro: LeastI dest: not_less_Least)
  then show ?thesis unfolding ctz_is_def using bit_imp_le_length by blast
qed

lemma lowest_bit:
  assumes "ctz_is x r"
  shows "x AND (NOT x + 1) = push_bit r 1"
proof -
  define z where "z = drop_bit r x"
  have x: "x = push_bit r z"
  proof (rule bit_eqI)
    fix n
    show "bit x n = bit (push_bit r z) n"
      using assms bit_imp_le_length [of x n]
      by (cases "r \<le> n") (auto simp: z_def bit_push_bit_iff bit_drop_bit_eq ctz_is_def)
  qed
  have "odd z" using assms by (simp add: z_def ctz_is_def bit_iff_odd_drop_bit)
  then have "NOT z AND 1 = 0" by (simp add: and_one_eq mod2_eq_if even_not_iff)
  then have "NOT z + 1 = NOT z OR 1" by (rule disjunctive_add_eq_or)
  then have "z AND - z = z AND (NOT z OR 1)" by (simp add: minus_eq_not_plus_1)
  also have "\<dots> = 1" using \<open>odd z\<close> by (simp add: bit.conj_disj_distrib and_one_eq mod2_eq_if)
  finally have "push_bit r (z AND - z) = push_bit r 1" by simp
  then have "x AND - x = push_bit r 1" by (simp add: x push_bit_and flip: push_bit_minus)
  then show ?thesis by (simp add: minus_eq_not_plus_1)
qed

text \<open>A statement on the numbers of the bits, one by one.\<close>

lemma all_upt: "(\<forall>n<m. P n) \<longleftrightarrow> list_all P [0..<m]"
  by (auto simp: list_all_iff)

lemma word_bits_eqI: "list_all (\<lambda>n. bit x n = bit y n) [0..<LENGTH('a)] \<Longrightarrow> x = (y :: 'a::len word)"
  by (rule bit_word_eqI) (simp add: list_all_iff)

lemma ctz32_of_bit:
  assumes "ctz_is x r"
  shows "ecb_ctz32 x = r"
proof -
  have "\<forall>r<32. ctz_is x r \<longrightarrow> ecb_ctz32 x = r"
    unfolding all_upt by (simp add: upt_conv_Cons list_all_iff ecb_ctz32_def lowest_bit)
  with assms bit_imp_le_length [of x r] show ?thesis by (simp add: ctz_is_def)
qed

lemma ctz64_of_bit:
  assumes "ctz_is x r"
  shows "ecb_ctz64 x = r"
proof (cases "r < 32")
  case True
  have low: "x AND 0xffffffff \<noteq> 0"
  proof
    assume "x AND 0xffffffff = 0"
    then have "take_bit 32 x = 0" by (simp add: take_bit_eq_mask mask_numeral)
    then have "\<not> bit (take_bit 32 x) r" by simp
    with True have "\<not> bit x r" by (simp add: bit_take_bit_iff)
    with assms show False by (simp add: ctz_is_def)
  qed
  have "ctz_is (ucast x :: u32) r" using assms True by (simp add: ctz_is_def bit_simps)
  with low show ?thesis by (simp add: ecb_ctz64_def ctz32_of_bit)
next
  case False
  have "take_bit 32 x = 0" using assms False by (intro bit_eqI) (auto simp: bit_take_bit_iff ctz_is_def)
  then have low: "x AND 0xffffffff = 0" by (simp add: take_bit_eq_mask mask_numeral)
  have "r < 64" using assms bit_imp_le_length [of x r] by (simp add: ctz_is_def)
  then have "ctz_is (ucast (drop_bit 32 x) :: u32) (r - 32)"
    using assms False by (auto simp: ctz_is_def bit_simps)
  with low False show ?thesis by (simp add: ecb_ctz64_def ctz32_of_bit)
qed

lemma clear_lowest_bit:
  assumes "ctz_is x r"
  shows "x AND (x - 1) = x AND NOT (push_bit r 1)"
proof -
  have "x - 1 = NOT (- x)" by (simp add: minus_eq_not_minus_1)
  also have "- x = NOT x + 1" by (simp add: minus_eq_not_plus_1)
  finally have "x AND (x - 1) = x AND NOT (x AND (NOT x + 1))" by (simp add: bit.conj_disj_distrib)
  then show ?thesis by (simp add: lowest_bit [OF assms])
qed

lemma and_pred_zero: "x AND (x - 1) = 0 \<longleftrightarrow> x = 0 \<or> (\<exists>r<LENGTH('a). x = push_bit r (1 :: 'a::len word))"
proof (cases "x = 0")
  case False
  then obtain r where r: "ctz_is x r" "r < LENGTH('a)" using ctz_ex by blast
  have "x = push_bit r 1" if z: "x AND NOT (push_bit r 1) = 0"
  proof (rule bit_word_eqI)
    fix n assume "n < LENGTH('a)"
    have "\<not> bit (x AND NOT (push_bit r 1)) n" by (simp only: z bit_0_eq bot_apply not_False_eq_True bot_bool_def)
    then show "bit x n = bit (push_bit r (1 :: 'a word)) n"
      using r \<open>n < LENGTH('a)\<close> by (auto simp: bit_simps ctz_is_def)
  qed
  moreover have "push_bit k (1 :: 'a word) AND (push_bit k 1 - 1) = 0" if "k < LENGTH('a)" for k
  proof -
    have "ctz_is (push_bit k (1 :: 'a word)) k" using that by (simp add: ctz_is_def bit_simps)
    from clear_lowest_bit [OF this] show ?thesis by simp
  qed
  ultimately show ?thesis using False clear_lowest_bit [OF r(1)] r(2) by metis
qed simp

lemma ecb_is_pot_powers:
  "ecb_is_pot32 x \<longleftrightarrow> x = 0 \<or> (\<exists>r<32. x = push_bit r 1)"
  "ecb_is_pot64 y \<longleftrightarrow> y = 0 \<or> (\<exists>r<64. y = push_bit r 1)"
  by (simp_all add: ecb_is_pot32_def ecb_is_pot64_def and_pred_zero)

section \<open>Reversing and rotating: every bit is moved\<close>

lemma upt_16: "[0..<16] = [0::nat, 1, 2, 3, 4, 5, 6, 7, 8, 9, 10, 11, 12, 13, 14, 15]"
  by (simp add: upt_conv_Cons)

lemma upt_32:
  "[0..<32] = [0::nat, 1, 2, 3, 4, 5, 6, 7, 8, 9, 10, 11, 12, 13, 14, 15, 16, 17, 18, 19, 20, 21, 22, 23, 24, 25, 26,
     27, 28, 29, 30, 31]"
  by (simp add: upt_conv_Cons)

lemma ecb_bitrev8_reverse: "ecb_bitrev8 x = word_reverse x"
proof -
  have "list_all (\<lambda>k. list_all (\<lambda>n. bit (ecb_bitrev8 (of_nat k)) n = bit (of_nat k :: u8) (7 - n)) [0..<8]) [0..<256]"
    by code_simp
  then have "\<forall>k\<in>{0..<256}. \<forall>n\<in>{0..<8}. bit (ecb_bitrev8 (of_nat k)) n = bit (of_nat k :: u8) (7 - n)"
    by (simp only: list_all_iff set_upt)
  moreover have "unat x \<in> {0..<256}" using unsigned_less [of x] by simp
  ultimately have "\<forall>n\<in>{0..<8}. bit (ecb_bitrev8 (of_nat (unat x))) n = bit (of_nat (unat x) :: u8) (7 - n)" by (rule bspec)
  then have "\<forall>n<8. bit (ecb_bitrev8 x) n = bit x (7 - n)" by simp
  then show ?thesis by (intro bit_word_eqI) (simp add: bit_word_reverse_iff)
qed

lemma ecb_bitrev16_reverse: "ecb_bitrev16 x = word_reverse x"
proof -
  have "\<forall>n<16. bit (ecb_bitrev16 x) n = bit x (15 - n)"
    unfolding all_upt upt_16
    by (simp add: ecb_bitrev16_def Let_def bit_simps del: push_bit_Suc) (simp add: eval_nat_numeral)
  then show ?thesis by (intro bit_word_eqI) (simp add: bit_word_reverse_iff)
qed

lemma ecb_bitrev32_reverse: "ecb_bitrev32 x = word_reverse x"
proof -
  have "\<forall>n<32. bit (ecb_bitrev32 x) n = bit x (31 - n)"
    unfolding all_upt upt_32
    by (simp add: ecb_bitrev32_def Let_def bit_simps del: push_bit_Suc) (simp add: eval_nat_numeral)
  then show ?thesis by (intro bit_word_eqI) (simp add: bit_word_reverse_iff)
qed

lemma bit_rotl:
  assumes "0 < c" "c < LENGTH('a)"
  shows "drop_bit (LENGTH('a) - c) x OR push_bit c x = word_rotl c (x :: 'a::len word)"
  using assms
  by (intro bit_word_eqI) (auto simp: bit_simps mod_if ac_simps dest: bit_imp_le_length)

lemma bit_rotr:
  assumes "0 < c" "c < LENGTH('a)"
  shows "push_bit (LENGTH('a) - c) x OR drop_bit c x = word_rotr c (x :: 'a::len word)"
  using assms
  by (intro bit_word_eqI) (auto simp: bit_simps mod_if ac_simps dest: bit_imp_le_length)

text \<open>With operands promoted to 32 bits.\<close>

lemma bit_rotl_promoted:
  assumes "c \<le> LENGTH('a)" "LENGTH('a) \<le> 16"
  shows "ucast (drop_bit (LENGTH('a) - c) (ucast x :: u32) OR push_bit c (ucast x)) = word_rotl c (x :: 'a::len word)"
  using assms
  by (intro bit_word_eqI) (auto simp: bit_simps mod_if ac_simps dest: bit_imp_le_length)

lemma bit_rotr_promoted:
  assumes "c \<le> LENGTH('a)" "LENGTH('a) \<le> 16"
  shows "ucast (push_bit (LENGTH('a) - c) (ucast x :: u32) OR drop_bit c (ucast x)) = word_rotr c (x :: 'a::len word)"
  using assms
  by (intro bit_word_eqI) (auto simp: bit_simps mod_if ac_simps dest: bit_imp_le_length)

lemma unat_minus_num: "unat c \<le> n \<Longrightarrow> n < 2 ^ 32 \<Longrightarrow> unat (of_nat n - (c :: u32)) = n - unat c"
  by (simp add: unat_sub word_le_nat_alt unsigned_of_nat take_bit_nat_eq_self)

text \<open>Rotation by 0 shifts by the whole width, which is undefined for the types that are not promoted.\<close>

lemma ecb_rot32:
  "0 < c \<Longrightarrow> c < 32 \<Longrightarrow> ecb_rotl32 x c = Some (word_rotl (unat c) x)"
  "0 < c \<Longrightarrow> c < 32 \<Longrightarrow> ecb_rotr32 x c = Some (word_rotr (unat c) x)"
  "ecb_rotl32 x 0 = None" "ecb_rotr32 x 0 = None"
  using unat_minus_num [of c 32] bit_rotl [of "unat c" x] bit_rotr [of "unat c" x]
  by (simp_all add: ecb_rotl32_def ecb_rotr32_def c_shr_def c_shl_def word_less_nat_alt)

lemma ecb_rot64:
  "0 < c \<Longrightarrow> c < 64 \<Longrightarrow> ecb_rotl64 x c = Some (word_rotl (unat c) x)"
  "0 < c \<Longrightarrow> c < 64 \<Longrightarrow> ecb_rotr64 x c = Some (word_rotr (unat c) x)"
  "ecb_rotl64 x 0 = None" "ecb_rotr64 x 0 = None"
  using unat_minus_num [of c 64] bit_rotl [of "unat c" x] bit_rotr [of "unat c" x]
  by (simp_all add: ecb_rotl64_def ecb_rotr64_def c_shr_def c_shl_def word_less_nat_alt)

lemma int_shl_fits:
  assumes "unat x < 2 ^ k" "unat n + k \<le> 31"
  shows "int_shl x n = Some (push_bit (unat n) x)"
proof -
  have "unat x * 2 ^ unat n < 2 ^ k * 2 ^ unat n" using assms(1) by simp
  also have "\<dots> = 2 ^ (k + unat n)" by (simp add: power_add)
  also have "\<dots> \<le> (2 :: nat) ^ 31" using assms(2) by (intro power_increasing) auto
  finally show ?thesis using assms(2) by (simp add: int_shl_def)
qed

lemma unat_promoted: "unat (ucast (x :: 'a::len word) :: u32) < 2 ^ LENGTH('a)" if "LENGTH('a) \<le> 32"
  using that unsigned_less [of x]
  by (simp add: unsigned_ucast_eq take_bit_nat_def le_less_trans [OF mod_less_eq_dividend])

lemma ecb_rot8:
  "c \<le> 8 \<Longrightarrow> ecb_rotl8 x c = Some (word_rotl (unat c) x)"
  "c \<le> 8 \<Longrightarrow> ecb_rotr8 x c = Some (word_rotr (unat c) x)"
  using unat_minus_num [of c 8] bit_rotl_promoted [of "unat c" x] bit_rotr_promoted [of "unat c" x]
    int_shl_fits [of "ucast x" 8 c] int_shl_fits [of "ucast x" 8 "8 - c"] unat_promoted [of x]
  by (simp_all add: ecb_rotl8_def ecb_rotr8_def c_shr_def word_le_nat_alt)

lemma ecb_rot16:
  "c < 16 \<Longrightarrow> ecb_rotl16 x c = Some (word_rotl (unat c) x)"
  "0 < c \<Longrightarrow> c \<le> 16 \<Longrightarrow> ecb_rotr16 x c = Some (word_rotr (unat c) x)"
  using unat_minus_num [of c 16] bit_rotl_promoted [of "unat c" x] bit_rotr_promoted [of "unat c" x]
    int_shl_fits [of "ucast x" 16 c] int_shl_fits [of "ucast x" 16 "16 - c"] unat_promoted [of x]
  by (simp_all add: ecb_rotl16_def ecb_rotr16_def c_shr_def word_le_nat_alt word_less_nat_alt)

section \<open>Counting bits\<close>

text \<open>Numbers by their digits of \<open>k\<close> bits, the lowest first.\<close>

definition dig :: "nat \<Rightarrow> nat list \<Rightarrow> nat" where "dig k ds = horner_sum id (2 ^ k) ds"

lemma dig_simps: "dig k [] = 0" "dig k (d # ds) = d + 2 ^ k * dig k ds"
  by (simp_all add: dig_def)

lemma dig_shr:
  assumes "unat (x :: 'a::len word) = dig k (d # ds)" "d < 2 ^ k"
  shows "unat (drop_bit k x) = dig k ds"
  using assms by (simp add: unat_shr dig_simps)

lemma bit_low_high: "(x :: nat) < 2 ^ k \<Longrightarrow> bit (x + 2 ^ k * y) n = (if n < k then bit x n else bit y (n - k))"
proof -
  assume x: "x < 2 ^ k"
  show ?thesis
  proof (cases "n < k")
    case True
    have "take_bit k (x + 2 ^ k * y) = x" using x by (simp add: take_bit_eq_mod)
    then show ?thesis using True by (metis bit_take_bit_iff)
  next
    case False
    have "drop_bit k (x + 2 ^ k * y) = y" using x by (simp add: drop_bit_eq_div)
    then show ?thesis using False by (metis bit_drop_bit_eq comp_apply le_add_diff_inverse not_less)
  qed
qed

lemma dig_and:
  assumes "length ds = length ms" "\<forall>d\<in>set ds. d < 2 ^ k" "\<forall>m\<in>set ms. m < 2 ^ k"
  shows "dig k ds AND dig k ms = dig k (map2 (\<lambda>d m. d AND m) ds ms)"
  using assms
proof (induction ds ms rule: list_induct2)
  case (Cons d ds m ms)
  have "d AND m = take_bit k (d AND m)"
    using Cons.prems by (simp add: take_bit_and take_bit_nat_eq_self)
  then have s: "d AND m < 2 ^ k" by (metis take_bit_nat_less_exp)
  have "(d + 2 ^ k * dig k ds) AND (m + 2 ^ k * dig k ms) = (d AND m) + 2 ^ k * (dig k ds AND dig k ms)"
    using Cons.prems s by (intro bit_eqI) (simp add: bit_low_high bit_and_iff)
  then show ?case using Cons by (simp add: dig_simps)
qed (simp add: dig_def)

lemma bits_digits:
  fixes x :: "'a::len word"
  shows "unat x = dig 1 (map (\<lambda>n. of_bool (bit x n)) [0..<LENGTH('a)])"
proof -
  have "unat x = horner_sum of_bool 2 (map (bit (unat x)) [0..<LENGTH('a)])"
    by (simp add: horner_sum_bit_eq_take_bit take_bit_nat_eq_self)
  also have "\<dots> = dig 1 (map (\<lambda>n. of_bool (bit x n)) [0..<LENGTH('a)])"
    by (simp add: dig_def horner_sum_foldr foldr_map comp_def bit_unsigned_iff)
  finally show ?thesis .
qed

text \<open>The four steps: sums of two bits, of four, of eight, and of all.\<close>

lemma swar_pairs:
  assumes "unat (x :: u32) = dig 1 bs" "\<forall>b\<in>set bs. b < 2"
    and bs: "bs = [b0, b1, b2, b3, b4, b5, b6, b7, b8, b9, b10, b11, b12, b13, b14, b15, b16, b17, b18, b19, b20, b21, b22, b23,
     b24, b25, b26, b27, b28, b29, b30, b31]"
  shows "unat (x - (drop_bit 1 x AND 0x55555555)) =
    dig 2 [b0 + b1, b2 + b3, b4 + b5, b6 + b7, b8 + b9, b10 + b11, b12 + b13, b14 + b15, b16 + b17, b18 + b19, b20 + b21,
     b22 + b23, b24 + b25, b26 + b27, b28 + b29, b30 + b31]"
proof -
  have m: "0x55555555 = dig 1 [1, 0, 1, 0, 1, 0, 1, 0, 1, 0, 1, 0, 1, 0, 1, 0, 1, 0, 1, 0, 1, 0, 1, 0, 1, 0, 1, 0, 1, 0, 1]"
    by (simp add: dig_simps)
  have "unat (drop_bit 1 x AND 0x55555555) = dig 1 (tl bs) AND 0x55555555"
    using dig_shr [OF assms(1) [unfolded bs]] assms(2) by (simp add: unsigned_and_eq bs)
  also have "\<dots> = dig 1 [b1, 0, b3, 0, b5, 0, b7, 0, b9, 0, b11, 0, b13, 0, b15, 0, b17, 0, b19, 0, b21, 0, b23, 0, b25, 0, b27, 0, b29,
     0, b31]"
    unfolding m by (subst dig_and) (use assms(2) in \<open>simp_all add: bs and_one_eq\<close>)
  finally have y: "unat (drop_bit 1 x AND 0x55555555) = \<dots>" .
  then have "unat (drop_bit 1 x AND 0x55555555) \<le> unat x" using assms(1) by (simp add: dig_simps bs)
  then have "unat (x - (drop_bit 1 x AND 0x55555555)) = unat x - unat (drop_bit 1 x AND 0x55555555)"
    by (simp add: unat_sub word_le_nat_alt)
  then show ?thesis unfolding y assms(1) bs by (simp add: dig_simps)
qed

lemma and_3_15: "(c :: nat) < 4 \<Longrightarrow> c AND 3 = c" "(d :: nat) < 16 \<Longrightarrow> d AND 15 = d"
  using take_bit_eq_mask [of 2 c] take_bit_eq_mask [of 4 d] take_bit_nat_eq_self [of c 2] take_bit_nat_eq_self [of d 4]
  by (simp_all add: mask_numeral flip: numeral_3_eq_3)

lemma swar_nibbles:
  assumes "unat (x :: u32) = dig 2 cs" "\<forall>c\<in>set cs. c \<le> 2"
    and cs: "cs = [c0, c1, c2, c3, c4, c5, c6, c7, c8, c9, c10, c11, c12, c13, c14, c15]"
  shows "unat ((drop_bit 2 x AND 0x33333333) + (x AND 0x33333333)) =
    dig 4 [c1 + c0, c3 + c2, c5 + c4, c7 + c6, c9 + c8, c11 + c10, c13 + c12, c15 + c14]"
proof -
  have m: "0x33333333 = dig 2 [3, 0, 3, 0, 3, 0, 3, 0, 3, 0, 3, 0, 3, 0, 3]"
     "0x33333333 = dig 2 [3, 0, 3, 0, 3, 0, 3, 0, 3, 0, 3, 0, 3, 0, 3, 0]"
    by (simp_all add: dig_simps)
  have "unat (drop_bit 2 x AND 0x33333333) = dig 2 (tl cs) AND 0x33333333"
    using dig_shr [OF assms(1) [unfolded cs]] assms(2) by (simp add: unsigned_and_eq cs)
  also have "\<dots> = dig 2 [c1, 0, c3, 0, c5, 0, c7, 0, c9, 0, c11, 0, c13, 0, c15]"
    unfolding m(1) by (subst dig_and) (use assms(2) in \<open>simp_all add: cs and_3_15\<close>)
  finally have y: "unat (drop_bit 2 x AND 0x33333333) = \<dots>" .
  have "unat (x AND 0x33333333) = dig 2 cs AND 0x33333333"
    using assms by (simp add: unsigned_and_eq)
  also have "\<dots> = dig 2 [c0, 0, c2, 0, c4, 0, c6, 0, c8, 0, c10, 0, c12, 0, c14, 0]"
    unfolding m(2) by (subst dig_and) (use assms(2) in \<open>simp_all add: cs and_3_15\<close>)
  finally have z: "unat (x AND 0x33333333) = \<dots>" .
  have "unat (drop_bit 2 x AND 0x33333333) + unat (x AND 0x33333333) < 2 ^ 32"
    unfolding y z using assms(2) by (simp add: dig_simps cs)
  then show ?thesis by (simp add: unat_plus_if' y z) (simp add: dig_simps)
qed

lemma swar_bytes:
  assumes "unat (x :: u32) = dig 4 ds" "\<forall>d\<in>set ds. d \<le> 4"
    and ds: "ds = [d0, d1, d2, d3, d4, d5, d6, d7]"
  shows "unat ((drop_bit 4 x + x) AND 0x0f0f0f0f) = dig 8 [d1 + d0, d3 + d2, d5 + d4, d7 + d6]"
proof -
  have m: "0x0f0f0f0f = dig 4 [15, 0, 15, 0, 15, 0, 15, 0]" by (simp add: dig_simps)
  have "unat (drop_bit 4 x) + unat x = dig 4 [d1 + d0, d2 + d1, d3 + d2, d4 + d3, d5 + d4, d6 + d5, d7 + d6, d7]"
    using dig_shr [OF assms(1) [unfolded ds]] assms by (simp add: dig_simps)
  moreover have "\<dots> < 2 ^ 32" using assms(2) by (simp add: dig_simps ds)
  ultimately have y: "unat (drop_bit 4 x + x) = dig 4 [d1 + d0, d2 + d1, d3 + d2, d4 + d3, d5 + d4, d6 + d5, d7 + d6, d7]"
    by (simp add: unat_plus_if')
  have "unat ((drop_bit 4 x + x) AND 0x0f0f0f0f) = dig 4 [d1 + d0, d2 + d1, d3 + d2, d4 + d3, d5 + d4, d6 + d5, d7 + d6, d7] AND 0x0f0f0f0f"
    by (simp add: unsigned_and_eq y)
  also have "\<dots> = dig 4 [d1 + d0, 0, d3 + d2, 0, d5 + d4, 0, d7 + d6, 0]"
    unfolding m by (subst dig_and) (use assms(2) in \<open>simp_all add: ds and_3_15\<close>)
  finally show ?thesis by (simp add: dig_simps)
qed

lemma swar_sum:
  assumes "unat (x :: u32) = dig 8 [e0, e1, e2, e3]" "e0 \<le> 8" "e1 \<le> 8" "e2 \<le> 8" "e3 \<le> 8"
  shows "unat (drop_bit 24 (x * 0x01010101)) = e0 + e1 + e2 + e3"
proof -
  have "unat (x * 0x01010101) = (dig 8 [e0, e1, e2, e3] * 0x01010101) mod 2 ^ 32"
    by (simp add: unat_word_ariths assms(1))
  also have "dig 8 [e0, e1, e2, e3] * 0x01010101 =
      dig 8 [e0, e0 + e1, e0 + e1 + e2, e0 + e1 + e2 + e3] + 2 ^ 32 * dig 8 [e1 + e2 + e3, e2 + e3, e3]"
    by (simp add: dig_simps)
  also have "\<dots> mod 2 ^ 32 = dig 8 [e0, e0 + e1, e0 + e1 + e2, e0 + e1 + e2 + e3]"
  proof -
    have "dig 8 [e0, e0 + e1, e0 + e1 + e2, e0 + e1 + e2 + e3] < 2 ^ 32" using assms(2-5) by (simp add: dig_simps)
    then show ?thesis by (simp only: mod_mult_self2 mod_less)
  qed
  finally have "unat (x * 0x01010101) = dig 8 [e0, e0 + e1, e0 + e1 + e2, e0 + e1 + e2 + e3]" .
  then show ?thesis using assms(2-5) by (simp add: unat_shr dig_simps)
qed

text \<open>The number of bits that are set.\<close>

lemma popcount_digits:
  assumes "unat x = dig 1 bs" "\<forall>b\<in>set bs. b < 2" and bs: "bs = [b0, b1, b2, b3, b4, b5, b6, b7, b8, b9, b10, b11, b12, b13, b14, b15, b16, b17, b18, b19, b20, b21, b22, b23, b24, b25, b26, b27, b28, b29, b30, b31]"
  shows "unat (ecb_popcount32 x) = sum_list bs"
proof -
  define x1 where "x1 = x - (drop_bit 1 x AND 0x55555555)"
  define x2 where "x2 = (drop_bit 2 x1 AND 0x33333333) + (x1 AND 0x33333333)"
  define x3 where "x3 = (drop_bit 4 x2 + x2) AND 0x0f0f0f0f"
  have b: "\<forall>b\<in>set bs. b \<le> 1" using assms(2) by auto
  note x1 = swar_pairs [OF assms, folded x1_def]
  have x2: "unat x2 = dig 4 [b2 + b3 + (b0 + b1), b6 + b7 + (b4 + b5), b10 + b11 + (b8 + b9), b14 + b15 + (b12 + b13), b18 + b19 + (b16 +
      b17), b22 + b23 + (b20 + b21), b26 + b27 + (b24 + b25), b30 + b31 + (b28 + b29)]"
    unfolding x2_def by (rule swar_nibbles [OF x1 _ refl]) (use b in \<open>simp add: bs\<close>)
  have x3: "unat x3 = dig 8 [b6 + b7 + (b4 + b5) + (b2 + b3 + (b0 + b1)), b14 + b15 + (b12 + b13) + (b10 + b11 + (b8 + b9)), b22 + b23 +
      (b20 + b21) + (b18 + b19 + (b16 + b17)), b30 + b31 + (b28 + b29) + (b26 + b27 + (b24 + b25))]"
    unfolding x3_def by (rule swar_bytes [OF x2 _ refl]) (use b in \<open>simp add: bs\<close>)
  have "unat (ecb_popcount32 x) = unat (drop_bit 24 (x3 * 0x01010101))"
    by (simp only: ecb_popcount32_def Let_def x1_def x2_def x3_def)
  also have "\<dots> = sum_list bs"
    by (subst swar_sum [OF x3]) (use b in \<open>simp_all add: bs\<close>)
  finally show ?thesis .
qed

lemma ecb_popcount32_counts: "unat (ecb_popcount32 x) = (\<Sum>n<32. of_bool (bit x n))"
proof -
  let ?b = "\<lambda>n. of_bool (bit x n) :: nat"
  have "unat x = dig 1 (map ?b [0..<32])" using bits_digits [of x] by simp
  from popcount_digits [OF this] have "unat (ecb_popcount32 x) = sum_list (map ?b [0..<32])"
    by (simp add: upt_32)
  then show ?thesis by (simp only: interv_sum_list_conv_sum_set_nat atLeast0LessThan set_upt)
qed

lemma ecb_popcount64_counts: "unat (ecb_popcount64 x) = (\<Sum>n<64. of_bool (bit x n))"
proof -
  let ?b = "\<lambda>n. of_bool (bit x n) :: nat"
  have le: "(\<Sum>n<32. of_bool (P n) :: nat) \<le> 32" for P :: "nat \<Rightarrow> bool"
    using sum_mono [of "{..<32}" "\<lambda>n. of_bool (P n) :: nat" "\<lambda>n. 1"] by simp
  have "(\<Sum>n<64. ?b n) = (\<Sum>n<32. ?b n) + (\<Sum>n<32. ?b (n + 32))"
    using sum.atLeastLessThan_concat [of 0 32 64 ?b] sum.shift_bounds_nat_ivl [of ?b 0 32 32]
    by (simp add: atLeast0LessThan)
  also have "\<dots> = unat (ecb_popcount32 (ucast x)) + unat (ecb_popcount32 (ucast (drop_bit 32 x)))"
    by (simp add: ecb_popcount32_counts bit_simps add.commute)
  also have "\<dots> = unat (ecb_popcount64 x)"
    using le [of "bit (ucast x :: u32)"] le [of "bit (ucast (drop_bit 32 x) :: u32)"]
    by (simp add: ecb_popcount64_def unat_plus_if' ecb_popcount32_counts)
  finally show ?thesis by simp
qed

end
