(* ===== verification/EcbHalf.thy ===== *)
theory EcbHalf
  imports EcbBits
begin

unbundle bit_operations_syntax

text \<open>
  The conversions of \<open>libeio/ecb.h\<close> between half and single precision floating point numbers (binary16
  and binary32 of IEEE 754), given by their bits: the fields, the value of a finite number, the round trip
  through single precision, and what rounding does.
\<close>

section \<open>The conversions\<close>

definition ecb_binary16_to_binary32 :: "u32 \<Rightarrow> u32" where
  "ecb_binary16_to_binary32 x =
     (let s = push_bit (31 - 15) (x AND 0x8000);
          e = uint (drop_bit 10 x AND 0x001f);
          m = x AND 0x03ff;
          (e, m) =
            (if e = 31 then (255 - (127 - 15), m)
             else if e = 0 then
               (if m = 0 then (0 - (127 - 15), m)
                else (let sh = 10 - ecb_ld32 m in (e - (int sh - 1), push_bit sh m AND 0x3ff)))
             else (e, m));
          e = e + (127 - 15)
      in s OR push_bit 23 (word_of_int e) OR push_bit (23 - 10) m)"

definition ecb_binary32_to_binary16 :: "u32 \<Rightarrow> u16" where
  "ecb_binary32_to_binary16 x =
     (let s = drop_bit 16 x AND 0x00008000;
          e = uint (drop_bit 23 x AND 0x000000ff) - (127 - 15);
          m = x AND 0x007fffff;
          x = x AND 0x7fffffff
      in if 0x38800000 \<le> x \<and> x \<le> 0x477fefff then
           (let m = m + (0x00000fff + (drop_bit (23 - 10) m AND 1));
                (m, e) = (if m \<ge> 0x00800000 then (drop_bit 1 m, e + 1) else (m, e))
            in ucast (s OR push_bit 10 (word_of_int e) OR drop_bit (23 - 10) m))
         else if 0x477fefff < x \<and> x \<le> 0x7f800000 then ucast (s OR 0x7c00)
         else if x < 0x38800000 then
           (if x = 0 then ucast s
            else if e < 14 - 24 then ucast s
            else
              (let m = m OR 0x00800000;
                   bits = nat (14 - e);
                   half = push_bit (bits - 1) 1 - 1;
                   even = drop_bit bits m AND 1
               in ucast (s OR drop_bit bits (m + half + even))))
         else
           (let m = drop_bit 13 m in ucast (s OR 0x7c00 OR m OR (if m = 0 then 1 else 0))))"

section \<open>Fields\<close>

definition f16 :: "nat \<Rightarrow> nat \<Rightarrow> nat \<Rightarrow> nat" where "f16 s e m = s * 2 ^ 15 + e * 2 ^ 10 + m"
definition f32 :: "nat \<Rightarrow> nat \<Rightarrow> nat \<Rightarrow> nat" where "f32 s e m = s * 2 ^ 31 + e * 2 ^ 23 + m"

lemma f16_fields:
  assumes "n < 2 ^ 16"
  obtains s e m where "s < 2" "e < 32" "m < 2 ^ 10" "n = f16 s e m"
proof (rule that)
  show "n div 2 ^ 15 < 2" "n mod 2 ^ 15 div 2 ^ 10 < 32" "n mod 2 ^ 15 mod 2 ^ 10 < 2 ^ 10"
    using assms by (simp_all add: div_less_iff_less_mult)
  show "n = f16 (n div 2 ^ 15) (n mod 2 ^ 15 div 2 ^ 10) (n mod 2 ^ 15 mod 2 ^ 10)"
    by (simp only: f16_def div_mult_mod_eq add.assoc)
qed

lemma f32_fields:
  assumes "n < 2 ^ 32"
  obtains s e m where "s < 2" "e < 256" "m < 2 ^ 23" "n = f32 s e m"
proof (rule that)
  show "n div 2 ^ 31 < 2" "n mod 2 ^ 31 div 2 ^ 23 < 256" "n mod 2 ^ 31 mod 2 ^ 23 < 2 ^ 23"
    using assms by (simp_all add: div_less_iff_less_mult)
  show "n = f32 (n div 2 ^ 31) (n mod 2 ^ 31 div 2 ^ 23) (n mod 2 ^ 31 mod 2 ^ 23)"
    by (simp only: f32_def div_mult_mod_eq add.assoc)
qed

lemma unat_and_mask: "unat (x AND mask n :: 'a::len word) = unat x mod 2 ^ n"
  by (metis take_bit_eq_mask unsigned_take_bit_eq take_bit_eq_mod)

lemma masks:
  "(0x1f :: u32) = mask 5" "(0x3ff :: u32) = mask 10" "(0xff :: u32) = mask 8" "(0x7fffff :: u32) = mask 23"
  "(0x7fffffff :: u32) = mask 31"
  by (simp_all add: mask_numeral)

lemma unat_and_bit:
  assumes "k < LENGTH('a)"
  shows "unat (x AND push_bit k 1 :: 'a::len word) = unat x div 2 ^ k mod 2 * 2 ^ k"
proof -
  have "x AND push_bit k 1 = (if bit x k then push_bit k 1 else 0)"
    using assms by (intro bit_word_eqI) (auto simp: bit_simps)
  moreover have "bit x k \<longleftrightarrow> odd (unat x div 2 ^ k)"
    using assms by (simp add: bit_unsigned_iff flip: bit_iff_odd)
  moreover have "unat (push_bit k 1 :: 'a word) = 2 ^ k"
    using assms by (simp add: unsigned_push_bit_eq push_bit_eq_mult [where 'a = nat] take_bit_nat_eq_self del: push_bit_of_1)
  ultimately show ?thesis by (simp add: mod_2_eq_odd)
qed

lemma unat_or_disjoint:
  assumes "unat x = 2 ^ k * c" "unat y < 2 ^ k"
  shows "unat (x OR y :: 'a::len word) = unat x + unat y"
proof -
  have "(2 ^ k * c OR b) = b + 2 ^ k * c" if "b < 2 ^ k" for b :: nat
  proof (rule bit_eqI)
    fix n
    have "b = take_bit k b" using that by (simp add: take_bit_nat_eq_self)
    then have "bit b n \<Longrightarrow> n < k" by (metis bit_take_bit_iff)
    moreover have "bit (2 ^ k * c) n \<longleftrightarrow> k \<le> n \<and> bit c (n - k)"
      by (metis bit_push_bit_iff_nat push_bit_eq_mult mult.commute)
    ultimately show "bit (2 ^ k * c OR b) n = bit (b + 2 ^ k * c) n"
      by (auto simp: bit_low_high [OF that] bit_or_iff)
  qed
  from this [OF assms(2)] show ?thesis by (simp add: unsigned_or_eq assms(1))
qed

lemma shl_field: "unat x * 2 ^ k < 2 ^ LENGTH('a) \<Longrightarrow> unat (push_bit k x :: 'a::len word) = unat x * 2 ^ k"
  by (simp add: unsigned_push_bit_eq push_bit_eq_mult [where 'a = nat] take_bit_nat_eq_self)

lemma f16_parts:
  assumes "s < 2" "e < 32" "m < 2 ^ 10" "unat (x :: u32) = f16 s e m"
  shows "unat (push_bit 16 (x AND 0x8000)) = s * 2 ^ 31" "unat (drop_bit 10 x AND 0x1f) = e" "unat (x AND 0x3ff) = m"
proof -
  have "f16 s e m div 2 ^ 15 = s" "f16 s e m div 2 ^ 10 = e + 2 ^ 5 * s" "f16 s e m = m + 2 ^ 10 * (e + 2 ^ 5 * s)"
    using assms(1-3) by (simp_all add: f16_def)
  note d = this
  have "unat (x AND 0x8000) = s * 2 ^ 15"
    using unat_and_bit [of 15 x] assms(1,4) d by simp
  note h = this
  have "unat (push_bit 16 (x AND 0x8000)) = unat (x AND 0x8000) * 2 ^ 16"
    using assms(1) by (intro shl_field) (simp only: h, simp)
  then show "unat (push_bit 16 (x AND 0x8000)) = s * 2 ^ 31" by (simp only: h) simp
  show "unat (drop_bit 10 x AND 0x1f) = e" "unat (x AND 0x3ff) = m"
    using assms(2-4) d by (simp_all only: masks unat_and_mask unat_shr mod_mult_self2 mod_less)
       (simp_all)
qed

lemma or_join:
  assumes "m < 2 ^ k" "e < 2 ^ j" "unat (a :: 'a::len word) = 2 ^ (k + j) * s" "unat b = e * 2 ^ k" "unat c = m"
  shows "unat (a OR b OR c) = s * 2 ^ (k + j) + e * 2 ^ k + m"
proof -
  have bc: "unat (b OR c) = e * 2 ^ k + m"
    using assms(1,4,5) unat_or_disjoint [of b k e c] by (simp add: mult.commute)
  have "(e + 1) * 2 ^ k \<le> 2 ^ j * 2 ^ k" using assms(2) by (intro mult_right_mono) auto
  then have "e * 2 ^ k + m < 2 ^ (k + j)" using assms(1) by (simp add: power_add algebra_simps)
  then show ?thesis
    using unat_or_disjoint [of a "k + j" s "b OR c"] assms(3) bc by (simp add: mult.commute)
qed

lemma f32_join:
  assumes "s < 2" "e < 256" "m < 2 ^ 23" "unat (a :: u32) = s * 2 ^ 31" "unat b = e * 2 ^ 23" "unat c = m"
  shows "unat (a OR b OR c) = f32 s e m"
  using or_join [of m 23 e 8 a s b c] assms by (simp add: f32_def)

lemma word_of_int_field: "n < 256 \<Longrightarrow> unat (push_bit 23 (word_of_int (int n)) :: u32) = n * 2 ^ 23"
  by (simp add: unsigned_push_bit_eq push_bit_eq_mult [where 'a = nat] take_bit_nat_eq_self unsigned_of_nat)

lemma uint_of_unat: "unat x = n \<Longrightarrow> uint x = int n"
  by (erule subst) simp

lemma ld_normalises:
  assumes "mm \<noteq> 0" "unat mm < 2 ^ 10"
  shows "ecb_ld32 mm \<le> 9" "2 ^ 10 \<le> unat mm * 2 ^ (10 - ecb_ld32 mm)" "unat mm * 2 ^ (10 - ecb_ld32 mm) < 2 ^ 11"
proof -
  define r where "r = ecb_ld32 mm"
  have r: "2 ^ r \<le> unat mm" "unat mm < 2 ^ Suc r"
    using ecb_ld32_log2 [OF assms(1)] by (simp_all add: log2_is_def r_def)
  have r9: "r \<le> 9"
  proof (rule ccontr)
    assume "\<not> r \<le> 9"
    then have "(2::nat) ^ 10 \<le> 2 ^ r" by (intro power_increasing) auto
    with r(1) assms(2) show False by simp
  qed
  have "2 ^ r * 2 ^ (10 - r) \<le> unat mm * 2 ^ (10 - r)" "unat mm * 2 ^ (10 - r) < 2 ^ Suc r * 2 ^ (10 - r)"
    using r by simp_all
  then have "2 ^ 10 \<le> unat mm * 2 ^ (10 - r)" "unat mm * 2 ^ (10 - r) < 2 ^ 11"
    using r9 by (simp_all add: flip: power_add power_Suc)
  with r9 show "ecb_ld32 mm \<le> 9" "2 ^ 10 \<le> unat mm * 2 ^ (10 - ecb_ld32 mm)" "unat mm * 2 ^ (10 - ecb_ld32 mm) < 2 ^ 11"
    by (simp_all add: r_def)
qed

lemma shift_normalised: "r \<le> 9 \<Longrightarrow> (m :: nat) * 2 ^ (10 - r) * 2 ^ 13 = m * 2 ^ (23 - r)"
proof -
  assume "r \<le> 9"
  then have "(23 - r) = (10 - r) + 13" by simp
  then show ?thesis by (simp only: power_add mult.assoc)
qed

lemma binary16_to_binary32_fields:
  assumes "s < 2" "e < 32" "m < 2 ^ 10" "unat x = f16 s e m"
  shows "unat (ecb_binary16_to_binary32 x) =
    (if e = 31 then f32 s 255 (m * 2 ^ 13)
     else if e = 0 then
       (if m = 0 then f32 s 0 0
        else f32 s (103 + ecb_ld32 (x AND 0x3ff)) ((m * 2 ^ (10 - ecb_ld32 (x AND 0x3ff)) - 2 ^ 10) * 2 ^ 13))
     else f32 s (e + 112) (m * 2 ^ 13))"
proof -
  note p = f16_parts [OF assms]
  have e: "uint (drop_bit 10 x AND 0x1f) = int e" using p(2) by (rule uint_of_unat)
  have m: "unat (push_bit 13 (x AND 0x3ff)) = m * 2 ^ 13" using p(3) assms(3) by (subst shl_field) simp_all
  have j: "unat (push_bit 16 (x AND 0x8000) OR push_bit 23 (word_of_int (int n)) OR push_bit 13 (x AND 0x3ff)) =
      f32 s n (m * 2 ^ 13)" if "n < 256" for n
    by (rule f32_join [OF assms(1) that _ p(1) word_of_int_field [OF that] m]) (use assms(3) in simp)
  note d = ecb_binary16_to_binary32_def Let_def e
  consider "e = 31" | "0 < e" "e < 31" | "e = 0" "m = 0" | "e = 0" "0 < m" using assms(2) by linarith
  then show ?thesis
  proof cases
    case 1
    then show ?thesis using j [of 255] by (simp add: d)
  next
    case 2
    then show ?thesis using j [of "e + 112"] by (simp add: d add.commute)
  next
    case 3
    then have "x AND 0x3ff = 0" using p(3) by (metis unat_eq_zero)
    then show ?thesis using 3 j [of 0] by (simp add: d)
  next
    case 4
    define mm where "mm = x AND 0x3ff"
    define r where "r = ecb_ld32 mm"
    have mm: "unat mm = m" "mm \<noteq> 0" using 4 p(3) by (auto simp: mm_def)
    have "unat mm < 2 ^ 10" using mm(1) assms(3) by simp
    note b = ld_normalises [OF mm(2) this, folded r_def, unfolded mm(1)]
    note r9 = b(1)
    have sh: "unat (push_bit (10 - r) mm) = m * 2 ^ (10 - r)" using b(2,3) mm(1) by (subst shl_field) simp_all
    have "unat (push_bit (10 - r) mm AND 0x3ff) = (m * 2 ^ (10 - r)) mod 2 ^ 10"
      by (simp only: masks unat_and_mask sh)
    also have "\<dots> = m * 2 ^ (10 - r) - 2 ^ 10"
      using b by (simp add: mod_if)
    finally have n: "unat (push_bit 13 (push_bit (10 - r) mm AND 0x3ff)) = (m * 2 ^ (10 - r) - 2 ^ 10) * 2 ^ 13"
      using b by (subst shl_field) simp_all
    have "unat (push_bit 16 (x AND 0x8000) OR push_bit 23 (word_of_int (int (103 + r))) OR
        push_bit 13 (push_bit (10 - r) mm AND 0x3ff)) = f32 s (103 + r) ((m * 2 ^ (10 - r) - 2 ^ 10) * 2 ^ 13)"
      by (rule f32_join [OF assms(1) _ _ p(1) word_of_int_field n]) (use b r9 in auto)
    moreover have i: "0 - (int (10 - r) - 1) + (127 - 15) = int (103 + r)" using r9 by simp
    have "ecb_binary16_to_binary32 x = push_bit 16 (x AND 0x8000) OR push_bit 23 (word_of_int (int (103 + r))) OR
        push_bit 13 (push_bit (10 - r) mm AND 0x3ff)"
      unfolding d mm_def [symmetric] r_def [symmetric] i [symmetric] using 4 mm(2) by simp
    ultimately show ?thesis using 4 by (simp add: mm_def r_def)
  qed
qed

lemma f32_parts:
  assumes "s < 2" "e < 256" "m < 2 ^ 23" "unat (x :: u32) = f32 s e m"
  shows "unat (drop_bit 16 x AND 0x8000) = s * 2 ^ 15" "unat (drop_bit 23 x AND 0xff) = e" "unat (x AND 0x7fffff) = m"
    "unat (x AND 0x7fffffff) = e * 2 ^ 23 + m"
proof -
  have "f32 s e m div 2 ^ 16 div 2 ^ 15 = s" "f32 s e m div 2 ^ 23 = e + 2 ^ 8 * s"
    "f32 s e m = m + 2 ^ 23 * (e + 2 ^ 8 * s)" "f32 s e m = (e * 2 ^ 23 + m) + 2 ^ 31 * s"
    using assms(1-3) by (simp_all add: f32_def flip: div_mult2_eq)
  note d = this
  show "unat (drop_bit 16 x AND 0x8000) = s * 2 ^ 15"
    using unat_and_bit [of 15 "drop_bit 16 x"] assms(1,4) d(1) by (simp add: unat_shr)
  show "unat (drop_bit 23 x AND 0xff) = e" "unat (x AND 0x7fffff) = m"
    using assms(2-4) d(2,3) by (simp_all only: masks unat_and_mask unat_shr mod_mult_self2 mod_less)
       (simp_all)
  have "e * 2 ^ 23 + m < 2 ^ 31" using assms(2,3) by simp
  then show "unat (x AND 0x7fffffff) = e * 2 ^ 23 + m"
    using d(4) assms(4) by (simp only: masks unat_and_mask mod_mult_self2 mod_less)
qed

lemma f16_join:
  assumes "s < 2" "e < 32" "m < 2 ^ 10" "unat (a :: u32) = s * 2 ^ 15" "unat b = e * 2 ^ 10" "unat c = m"
  shows "unat (ucast (a OR b OR c) :: u16) = f16 s e m"
proof -
  have "unat (a OR b OR c) = f16 s e m"
    using or_join [of m 10 e 5 a s b c] assms by (simp add: f16_def)
  moreover have "f16 s e m < 2 ^ 16" using assms(1-3) by (simp add: f16_def)
  ultimately show ?thesis by (simp add: unsigned_ucast_eq take_bit_nat_eq_self)
qed

text \<open>Rounding to even by adding just less than a half, and one more when the last digit kept is odd.\<close>

definition rne :: "nat \<Rightarrow> nat \<Rightarrow> nat" where
  "rne k n = (n + (2 ^ (k - 1) - 1) + n div 2 ^ k mod 2) div 2 ^ k"

lemma rne_split:
  assumes "0 < k" "r < 2 ^ k"
  shows "rne k (q * 2 ^ k + r) = q + (if 2 ^ (k - 1) < r + q mod 2 then 1 else 0)"
proof -
  obtain j where k: "k = Suc j" using assms(1) by (cases k) auto
  define h where "h = (2::nat) ^ j"
  have h: "0 < h" "2 ^ k = 2 * h" "2 ^ (k - 1) = h" by (simp_all add: h_def k)
  have d: "(q * 2 ^ k + r) div 2 ^ k = q" using assms(2) by simp
  have "rne k (q * 2 ^ k + r) = ((r + (h - 1) + q mod 2) + q * (2 * h)) div (2 * h)"
    by (simp only: rne_def d) (simp only: h add.assoc add.commute add.left_commute)
  also have "\<dots> = q + (r + (h - 1) + q mod 2) div (2 * h)" using h(1) by (intro div_mult_self1) simp
  also have "(r + (h - 1) + q mod 2) div (2 * h) = (if h < r + q mod 2 then 1 else 0)"
  proof (cases "h < r + q mod 2")
    case True
    have "q mod 2 < 2" by simp
    then have "r + (h - 1) + q mod 2 - 2 * h < 2 * h" "2 * h \<le> r + (h - 1) + q mod 2"
      using True assms(2) h by linarith+
    then have "(r + (h - 1) + q mod 2) div (2 * h) = Suc 0"
      using h(1) by (subst le_div_geq) auto
    then show ?thesis using True by simp
  next
    case False
    then have "r + (h - 1) + q mod 2 < 2 * h" using h(1) by linarith
    then show ?thesis using False by simp
  qed
  finally show ?thesis by (simp only: h(3))
qed

lemma rne_exact: "0 < k \<Longrightarrow> rne k (q * 2 ^ k) = q"
  using rne_split [of k 0 q] by (simp add: le_simps(2) mod_2_eq_odd)

lemma rne_nearest:
  assumes "0 < k"
  shows "2 * rne k n * 2 ^ k \<le> 2 * n + 2 ^ k \<and> 2 * n \<le> 2 * rne k n * 2 ^ k + 2 ^ k \<and>
    (2 * n + 2 ^ k = 2 * rne k n * 2 ^ k \<or> 2 * n = 2 * rne k n * 2 ^ k + 2 ^ k \<longrightarrow> even (rne k n))"
proof -
  obtain j where k: "k = Suc j" using assms by (cases k) auto
  define h where "h = (2::nat) ^ j"
  define q r where "q = n div 2 ^ k" and "r = n mod 2 ^ k"
  have h: "0 < h" "2 ^ k = 2 * h" "2 ^ (k - 1) = h" by (simp_all add: h_def k)
  have n: "n = q * 2 ^ k + r" "r < 2 ^ k" by (simp_all only: q_def r_def div_mult_mod_eq) simp
  have R: "rne k n = q + (if h < r + q mod 2 then 1 else 0)"
    using rne_split [OF assms n(2), of q] n(1) h(3) by simp
  have n': "n = 2 * (q * h) + r" using n(1) h(2) by simp
  have o: "q mod 2 = (if even q then 0 else 1)" by (simp add: mod_2_eq_odd)
  show ?thesis
  proof (cases "h < r + q mod 2")
    case True
    then have "h \<le> r" "r = h \<longrightarrow> odd q" by (auto simp: o split: if_splits)
    moreover have "r < 2 * h" using n(2) h(2) by simp
    ultimately have g: "2 * (q + 1) * (2 * h) \<le> 2 * n + 2 * h \<and> 2 * n \<le> 2 * (q + 1) * (2 * h) + 2 * h \<and>
      (2 * n + 2 * h = 2 * (q + 1) * (2 * h) \<or> 2 * n = 2 * (q + 1) * (2 * h) + 2 * h \<longrightarrow> even (q + 1))"
      by (auto simp: n' algebra_simps)
    have "rne k n = q + 1" using True R by simp
    then show ?thesis unfolding h(2) by (rule ssubst) (rule g)
  next
    case False
    then have "r \<le> h" "r = h \<longrightarrow> even q" by (auto simp: o split: if_splits)
    then have g: "2 * q * (2 * h) \<le> 2 * n + 2 * h \<and> 2 * n \<le> 2 * q * (2 * h) + 2 * h \<and>
      (2 * n + 2 * h = 2 * q * (2 * h) \<or> 2 * n = 2 * q * (2 * h) + 2 * h \<longrightarrow> even q)"
      using h(1) by (auto simp: n' algebra_simps)
    have "rne k n = q" using False R by simp
    then show ?thesis unfolding h(2) by (rule ssubst) (rule g)
  qed
qed

lemma binary32_normal_fields:
  assumes "s < 2" "e < 256" "m < 2 ^ 23" "unat x = f32 s e m" "113 \<le> e" "e * 2 ^ 23 + m \<le> 0x477fefff"
  shows "unat (ecb_binary32_to_binary16 x) =
    (let m' = m + 0xfff + m div 2 ^ 13 mod 2
     in if m' < 2 ^ 23 then f16 s (e - 112) (m' div 2 ^ 13) else f16 s (e - 111) (m' div 2 div 2 ^ 13))"
proof -
  note p = f32_parts [OF assms(1-4)]
  have e: "uint (drop_bit 23 x AND 0xff) = int e" using p(2) by (rule uint_of_unat)
  define mm where "mm = (x AND 0x7fffff) + (0xfff + (drop_bit 13 (x AND 0x7fffff) AND 1))"
  have "drop_bit 13 (x AND 0x7fffff) AND 1 = drop_bit 13 (x AND 0x7fffff) AND mask 1" by simp
  then have "unat (drop_bit 13 (x AND 0x7fffff) AND 1) = m div 2 ^ 13 mod 2"
    by (simp only: unat_and_mask unat_shr p(3) power_one_right)
  moreover have "m div 2 ^ 13 mod 2 < 2" by simp
  ultimately have mm: "unat mm = m + 0xfff + m div 2 ^ 13 mod 2"
    using p(3) assms(3) by (simp add: mm_def unat_plus_if' del: mod_less_divisor)
  have e142: "e \<le> 142" using assms(6) by simp
  have range: "0x38800000 \<le> x AND 0x7fffffff" "x AND 0x7fffffff \<le> 0x477fefff"
    using p(4) assms(5,6) by (simp_all add: word_le_nat_alt)
  define b where "b = (0x00800000 \<le> mm)"
  have b: "b \<longleftrightarrow> \<not> m + 0xfff + m div 2 ^ 13 mod 2 < 2 ^ 23" by (simp add: b_def word_le_nat_alt mm not_less)
  have val: "ecb_binary32_to_binary16 x = ucast ((drop_bit 16 x AND 0x8000) OR
      push_bit 10 (word_of_int (if b then int e - 112 + 1 else int e - 112)) OR drop_bit 13 (if b then drop_bit 1 mm else mm))"
    using range by (simp add: ecb_binary32_to_binary16_def e mm_def b_def Let_def split: if_splits)
  have f: "unat (push_bit 10 (word_of_int (int n)) :: u32) = n * 2 ^ 10" if "n < 32" for n
    using that by (simp add: unsigned_push_bit_eq push_bit_eq_mult [where 'a = nat] take_bit_nat_eq_self unsigned_of_nat)
  show ?thesis
  proof (cases b)
    case True
    have i: "int e - 112 + 1 = int (e - 111)" using assms(5) by simp
    have "unat (ecb_binary32_to_binary16 x) = f16 s (e - 111) (unat mm div 2 div 2 ^ 13)"
      unfolding val i using True e142 p(1) assms(1,3)
      by (simp only: if_True, intro f16_join f) (simp_all add: unat_shr mm)
    then show ?thesis using True b by (simp add: mm Let_def)
  next
    case False
    have i: "int e - 112 = int (e - 112)" using assms(5) by simp
    have "unat (ecb_binary32_to_binary16 x) = f16 s (e - 112) (unat mm div 2 ^ 13)"
      unfolding val i using False e142 p(1) assms(1,3) b
      by (simp only: if_False, intro f16_join f) (simp_all add: unat_shr mm)
    then show ?thesis using False b by (simp add: mm Let_def)
  qed
qed

lemma f16_sign: "s < 2 \<Longrightarrow> unat (a :: u32) = s * 2 ^ 15 \<Longrightarrow> r < 2 ^ 15 \<Longrightarrow> unat b = r \<Longrightarrow>
    unat (ucast (a OR b) :: u16) = s * 2 ^ 15 + r"
  using unat_or_disjoint [of a 15 s b] by (simp add: unsigned_ucast_eq take_bit_nat_eq_self)

lemma binary32_special_fields:
  assumes "s < 2" "e < 256" "m < 2 ^ 23" "unat x = f32 s e m" "0x477fefff < e * 2 ^ 23 + m"
  shows "unat (ecb_binary32_to_binary16 x) =
    (if e = 255 \<and> m \<noteq> 0 then f16 s 31 (if m < 2 ^ 13 then 1 else m div 2 ^ 13) else f16 s 31 0)"
proof -
  note p = f32_parts [OF assms(1-4)]
  have hi: "\<not> x AND 0x7fffffff \<le> 0x477fefff" "0x477fefff < x AND 0x7fffffff" "\<not> x AND 0x7fffffff < 0x38800000"
    using p(4) assms(5) by (simp_all add: word_le_nat_alt word_less_nat_alt)
  have inf: "x AND 0x7fffffff \<le> 0x7f800000 \<longleftrightarrow> \<not> (e = 255 \<and> m \<noteq> 0)"
    using p(4) assms(2,3) by (auto simp add: word_le_nat_alt)
  show ?thesis
  proof (cases "e = 255 \<and> m \<noteq> 0")
    case False
    then have "ecb_binary32_to_binary16 x = ucast ((drop_bit 16 x AND 0x8000) OR 0x7c00)"
      using hi inf by (simp add: ecb_binary32_to_binary16_def Let_def)
    then show ?thesis using False f16_sign [OF assms(1) p(1), of "0x7c00" "0x7c00"] by (simp add: f16_def)
  next
    case True
    define mm where "mm = drop_bit 13 (x AND 0x7fffff)"
    have mm: "unat mm = m div 2 ^ 13" by (simp only: mm_def unat_shr p(3))
    then have mm1024: "unat mm < 2 ^ 10" using assms(3) by simp
    define t where "t = 0x7c00 OR mm OR (if mm = 0 then 1 else 0)"
    have val: "ecb_binary32_to_binary16 x = ucast ((drop_bit 16 x AND 0x8000) OR t)"
      using hi inf True by (simp add: ecb_binary32_to_binary16_def Let_def mm_def t_def)
    have "mm = 0 \<longleftrightarrow> m < 2 ^ 13" using mm by (metis div_eq_0_iff unat_eq_zero power_not_zero zero_neq_numeral)
    then have "unat (mm OR (if mm = 0 then 1 else 0)) = (if m < 2 ^ 13 then 1 else m div 2 ^ 13)"
      using mm by (cases "mm = 0") auto
    then have t: "unat t = 31 * 2 ^ 10 + (if m < 2 ^ 13 then 1 else m div 2 ^ 13)"
      unfolding t_def using mm1024 mm by (subst unat_or_disjoint [where k = 10 and c = 31]) auto
    have "31 * 2 ^ 10 + (if m < 2 ^ 13 then 1 else m div 2 ^ 13) < 2 ^ 15"
      using assms(3) by (simp add: div_less_iff_less_mult)
    from f16_sign [OF assms(1) p(1) this t] show ?thesis
      unfolding val f16_def using True by simp
  qed
qed

lemma binary32_small_fields:
  assumes "s < 2" "e \<le> 112" "m < 2 ^ 23" "unat x = f32 s e m"
  shows "unat (ecb_binary32_to_binary16 x) = s * 2 ^ 15 + (if e < 102 then 0 else rne (126 - e) (2 ^ 23 + m))"
proof -
  have "e < 256" using assms(2) by simp
  note p = f32_parts [OF assms(1) this assms(3,4)]
  have e: "uint (drop_bit 23 x AND 0xff) = int e" using p(2) by (rule uint_of_unat)
  have lo: "\<not> 0x38800000 \<le> x AND 0x7fffffff" "\<not> 0x477fefff < x AND 0x7fffffff" "x AND 0x7fffffff < 0x38800000"
    using p(4) assms(2,3) by (simp_all add: word_le_nat_alt word_less_nat_alt)
  have z: "x AND 0x7fffffff = 0 \<longleftrightarrow> e = 0 \<and> m = 0" using p(4) unat_eq_zero [of "x AND 0x7fffffff"] by simp
  note d = ecb_binary32_to_binary16_def Let_def
  show ?thesis
  proof (cases "e < 102")
    case True
    then have "ecb_binary32_to_binary16 x = ucast (drop_bit 16 x AND 0x8000)"
      using lo by (simp add: d e)
    then show ?thesis using True f16_sign [OF assms(1) p(1), of 0 0] by simp
  next
    case False
    define bits where "bits = 126 - e"
    have bits: "14 \<le> bits" "bits \<le> 24" using False assms(2) by (simp_all add: bits_def)
    have n: "nat (14 - (int e - (127 - 15))) = bits" using assms(2) by (simp add: bits_def)
    define mm where "mm = (x AND 0x7fffff) OR 0x00800000"
    have "mm = 0x00800000 OR (x AND 0x7fffff)" by (simp add: mm_def or.commute)
    then have mm: "unat mm = 2 ^ 23 + m"
      using unat_or_disjoint [of "0x00800000 :: u32" 23 1 "x AND 0x7fffff"] p(3) assms(3) by simp
    define r where "r = drop_bit bits (mm + (push_bit (bits - 1) 1 - 1) + (drop_bit bits mm AND 1))"
    have pb: "unat (push_bit (bits - 1) 1 :: u32) = 2 ^ (bits - 1)"
      using bits power_strict_increasing [of "bits - 1" 32 "2::nat"] by (subst shl_field) simp_all
    then have "1 \<le> (push_bit (bits - 1) 1 :: u32)" by (simp add: word_le_nat_alt)
    then have "unat (push_bit (bits - 1) 1 - 1 :: u32) = 2 ^ (bits - 1) - 1" using pb by (simp add: unat_sub)
    moreover have "unat (drop_bit bits mm AND 1) = (2 ^ 23 + m) div 2 ^ bits mod 2"
      using unat_and_mask [of "drop_bit bits mm" 1] by (simp add: unat_shr mm)
    moreover have bnd: "(2 :: nat) ^ (bits - 1) \<le> 2 ^ 23" "(2 ^ 23 + m) div 2 ^ bits mod 2 \<le> 1"
      using bits by (auto simp: less_Suc_eq_le [symmetric] intro!: power_increasing [of "bits - 1" 23 "2::nat", simplified])
    ultimately have "unat r = rne bits (2 ^ 23 + m)"
      using assms(3) by (simp add: r_def unat_shr unat_plus_if' mm rne_def)
    moreover have "rne bits (2 ^ 23 + m) < 2 ^ 15"
    proof -
      have "rne bits (2 ^ 23 + m) \<le> (2 ^ 23 + m + 2 ^ (bits - 1) - 1 + (2 ^ 23 + m) div 2 ^ bits mod 2) div 2 ^ 14"
        unfolding rne_def using power_increasing [OF bits(1), of "2::nat"]
        by (intro order.trans [OF div_le_mono2 div_le_mono]) auto
      also have "\<dots> < 2 ^ 15"
        using assms(3) bnd by (simp add: div_less_iff_less_mult)
      finally show ?thesis .
    qed
    moreover have "ecb_binary32_to_binary16 x = ucast ((drop_bit 16 x AND 0x8000) OR r)"
      using lo z False by (simp add: d e n r_def mm_def flip: n)
    ultimately show ?thesis using False f16_sign [OF assms(1) p(1)] by (simp add: bits_def)
  qed
qed

section \<open>Round trip, values and rounding\<close>

text \<open>
  C38: a half precision number that is widened to single precision and narrowed again comes back bit by
  bit: numbers, subnormal numbers, zeros, infinities and the payloads of NaNs.
\<close>

theorem half_round_trip: "ecb_binary32_to_binary16 (ecb_binary16_to_binary32 (ucast x)) = x"
proof -
  have "unat x < 2 ^ 16" using unsigned_less [of x] by simp
  then obtain s e m where f: "s < 2" "e < 32" "m < 2 ^ 10" "unat x = f16 s e m" by (rule f16_fields)
  have "unat x < 2 ^ 32" using \<open>unat x < 2 ^ 16\<close> by simp
  then have u: "unat (ucast x :: u32) = f16 s e m" using f(4) take_bit_nat_eq_self [of "unat x" 32] by (simp add: unsigned_ucast_eq)
  note w = binary16_to_binary32_fields [OF f(1-3) u]
  have m13: "m * 2 ^ 13 < 2 ^ 23" using f(3) by simp
  let ?y = "ecb_binary16_to_binary32 (ucast x)"
  have "unat (ecb_binary32_to_binary16 ?y) = f16 s e m"
  proof -
    consider "e = 31" | "0 < e" "e < 31" | "e = 0" "m = 0" | "e = 0" "0 < m" using f(2) by linarith
    then show ?thesis
    proof cases
      case 1
      with w have y: "unat ?y = f32 s 255 (m * 2 ^ 13)" by simp
      show ?thesis using 1 binary32_special_fields [OF f(1) _ m13 y] by simp
    next
      case 2
      with w have y: "unat ?y = f32 s (e + 112) (m * 2 ^ 13)" by simp
      have "rne 13 (m * 2 ^ 13) = m" by (rule rne_exact) simp
      then have "(m * 2 ^ 13 + 0xfff + m mod 2) div 2 ^ 13 = m" by (simp add: rne_def)
      moreover have "m * 2 ^ 13 + 0xfff + m mod 2 < 2 ^ 23" using f(3) mod_less_divisor [of 2 m] by simp
      moreover have "(e + 112) * 2 ^ 23 + m * 2 ^ 13 \<le> 0x477fefff" using 2 f(3) by simp
      ultimately show ?thesis
        using 2 binary32_normal_fields [OF f(1) _ m13 y] by (simp add: Let_def)
    next
      case 3
      with w have y: "unat ?y = f32 s 0 0" by simp
      show ?thesis using 3 binary32_small_fields [OF f(1) _ _ y] by (simp add: f16_def)
    next
      case 4
      define mm where "mm = (ucast x :: u32) AND 0x3ff"
      define r where "r = ecb_ld32 mm"
      have mm: "unat mm = m" using f16_parts(3) [OF f(1-3) u] by (simp add: mm_def)
      then have "mm \<noteq> 0" using 4 by auto
      have "unat mm < 2 ^ 10" using mm f(3) by simp
      note b = ld_normalises [OF \<open>mm \<noteq> 0\<close> this, folded r_def, unfolded mm]
      from w 4 have y: "unat ?y = f32 s (103 + r) ((m * 2 ^ (10 - r) - 2 ^ 10) * 2 ^ 13)" by (simp add: mm_def r_def)
      have "2 ^ 23 + (m * 2 ^ (10 - r) - 2 ^ 10) * 2 ^ 13 = m * 2 ^ (10 - r) * 2 ^ 13" using b(2) by simp
      also have "\<dots> = m * 2 ^ (23 - r)" using b(1) by (rule shift_normalised)
      finally have "rne (126 - (103 + r)) (2 ^ 23 + (m * 2 ^ (10 - r) - 2 ^ 10) * 2 ^ 13) = m"
        using b(1) rne_exact [of "23 - r" m] by simp
      moreover have "(m * 2 ^ (10 - r) - 2 ^ 10) * 2 ^ 13 < 2 ^ 23" using b(3) by simp
      ultimately show ?thesis
        using 4 b(1) binary32_small_fields [OF f(1) _ _ y] by (simp add: f16_def)
    qed
  qed
  then have "unat (ecb_binary32_to_binary16 ?y) = unat x" using f(4) by simp
  then show ?thesis by (simp add: unsigned_word_eqI)
qed

text \<open>The number a finite bit pattern stands for.\<close>

definition sign_of :: "nat \<Rightarrow> rat" where "sign_of s = (if s = 0 then 1 else -1)"

definition value16 :: "nat \<Rightarrow> nat \<Rightarrow> nat \<Rightarrow> rat" where
  "value16 s e m = sign_of s * (if e = 0 then of_nat m / 2 ^ 24 else of_nat (2 ^ 10 + m) * 2 ^ e / 2 ^ 25)"

definition value32 :: "nat \<Rightarrow> nat \<Rightarrow> nat \<Rightarrow> rat" where
  "value32 s e m = sign_of s * (if e = 0 then of_nat m / 2 ^ 149 else of_nat (2 ^ 23 + m) * 2 ^ e / 2 ^ 150)"

text \<open>Widening keeps the value: a subnormal half becomes a normal single.\<close>

lemma widening_keeps_value:
  assumes "s < 2" "e < 31" "m < 2 ^ 10" "unat x = f16 s e m"
  shows "\<exists>e' m'. e' < 255 \<and> m' < 2 ^ 23 \<and> unat (ecb_binary16_to_binary32 x) = f32 s e' m' \<and>
    value32 s e' m' = value16 s e m"
proof -
  have e32: "e < 32" using assms(2) by simp
  note w = binary16_to_binary32_fields [OF assms(1) e32 assms(3,4)]
  have m13: "m * 2 ^ 13 < 2 ^ 23" using assms(3) by simp
  consider "0 < e" | "e = 0" "m = 0" | "e = 0" "0 < m" by linarith
  then show ?thesis
  proof cases
    case 1
    with w assms(2) have "unat (ecb_binary16_to_binary32 x) = f32 s (e + 112) (m * 2 ^ 13)" by simp
    moreover have "value32 s (e + 112) (m * 2 ^ 13) = value16 s e m"
    proof -
      have "(of_nat (2 ^ 23 + m * 2 ^ 13) :: rat) * 2 ^ (e + 112) / 2 ^ 150 = of_nat (2 ^ 10 + m) * 2 ^ e / 2 ^ 25"
        by (simp add: power_add field_simps)
      then show ?thesis using 1 by (simp only: value32_def value16_def) simp
    qed
    ultimately show ?thesis using assms(2) m13 by (intro exI [of _ "e + 112"] exI [of _ "m * 2 ^ 13"]) auto
  next
    case 2
    with w have "unat (ecb_binary16_to_binary32 x) = f32 s 0 0" by simp
    then show ?thesis using 2 by (intro exI [of _ 0]) (simp add: value32_def value16_def)
  next
    case 3
    define mm where "mm = x AND 0x3ff"
    define r where "r = ecb_ld32 mm"
    have mm: "unat mm = m" using f16_parts(3) [OF assms(1) e32 assms(3,4)] by (simp add: mm_def)
    have "mm \<noteq> 0" "unat mm < 2 ^ 10" using mm 3 assms(3) by auto
    note b = ld_normalises [OF this, folded r_def, unfolded mm]
    let ?m = "(m * 2 ^ (10 - r) - 2 ^ 10) * 2 ^ 13"
    from w 3 have y: "unat (ecb_binary16_to_binary32 x) = f32 s (103 + r) ?m" by (simp add: mm_def r_def)
    have "2 ^ 23 + ?m = m * 2 ^ (10 - r) * 2 ^ 13" using b(2) by simp
    also have "\<dots> = m * 2 ^ (23 - r)" using b(1) by (rule shift_normalised)
    finally have "(of_nat (2 ^ 23 + ?m) :: rat) * 2 ^ (103 + r) = of_nat m * (2 ^ (23 - r) * 2 ^ (103 + r))"
      by simp
    also have "\<dots> = of_nat m * 2 ^ 126" using b(1) by (simp flip: power_add)
    finally have "value32 s (103 + r) ?m = value16 s e m"
      using 3 by (simp add: value32_def value16_def field_simps)
    moreover have "?m < 2 ^ 23" using b(3) by simp
    ultimately show ?thesis using y b(1) by (intro exI [of _ "103 + r"] exI [of _ ?m]) auto
  qed
qed

text \<open>
  Narrowing a number in the range of the normal halves rounds to the nearest half, and to the even
  one in the middle, when the significand does not overflow.
\<close>

theorem narrowing_rounds_nearest:
  assumes "s < 2" "113 \<le> e" "m < 0x7ff000" "e * 2 ^ 23 + m \<le> 0x477fefff" "unat x = f32 s e m"
  shows "\<exists>q < 2 ^ 10. unat (ecb_binary32_to_binary16 x) = f16 s (e - 112) q \<and>
    q * 2 ^ 13 \<le> m + 2 ^ 12 \<and> m \<le> q * 2 ^ 13 + 2 ^ 12 \<and>
    (q * 2 ^ 13 = m + 2 ^ 12 \<or> m = q * 2 ^ 13 + 2 ^ 12 \<longrightarrow> even q)"
proof -
  have e: "e < 256" using assms(4) by simp
  have m: "m < 2 ^ 23" using assms(3) by simp
  have c: "m + 0xfff + m div 2 ^ 13 mod 2 < 2 ^ 23" using assms(3) mod_less_divisor [of 2 "m div 2 ^ 13"] by simp
  have "unat (ecb_binary32_to_binary16 x) = f16 s (e - 112) (rne 13 m)"
    using binary32_normal_fields [OF assms(1) e m assms(5,2,4)] c by (simp add: rne_def)
  moreover have "rne 13 m < 2 ^ 10" using c by (simp add: rne_def div_less_iff_less_mult)
  moreover note rne_nearest [of 13 m]
  ultimately show ?thesis by (intro exI [of _ "rne 13 m"]) auto
qed

text \<open>1 + 2/2^11 + 1/2^13 rounds up by half a unit: the significand 0x3001 becomes 2.\<close>

theorem narrowing_rounds_nearest_witness:
  "\<exists>q < 2 ^ 10. unat (ecb_binary32_to_binary16 0x3f803001) = f16 0 15 q \<and>
    q * 2 ^ 13 \<le> 0x3001 + 2 ^ 12 \<and> 0x3001 \<le> q * 2 ^ 13 + 2 ^ 12 \<and>
    (q * 2 ^ 13 = 0x3001 + 2 ^ 12 \<or> 0x3001 = q * 2 ^ 13 + 2 ^ 12 \<longrightarrow> even (q :: nat))"
  using narrowing_rounds_nearest [of 0 127 "0x3001" "0x3f803001"] by (simp add: f32_def)

text \<open>
  When rounding carries into the exponent, the shifted significand keeps the bit of the carry: the
  result is one and a half times the nearest half, for every number with a significand from 0x7ff000 on.
\<close>

theorem narrowing_carry_wrong:
  assumes "s < 2" "113 \<le> e" "e \<le> 141" "0x7ff000 \<le> m" "m < 2 ^ 23" "unat x = f32 s e m"
  shows "unat (ecb_binary32_to_binary16 x) = f16 s (e - 111) 0x200 \<and>
    \<bar>value16 s (e - 111) 0 - value32 s e m\<bar> \<le> \<bar>value16 s (e - 111) 0\<bar> / 2 ^ 12 \<and>
    value16 s (e - 111) 0x200 = 3 / 2 * value16 s (e - 111) 0"
proof (intro conjI)
  have e: "e < 256" "e * 2 ^ 23 + m \<le> 0x477fefff" using assms(3,5) by simp_all
  have "8384512 div 2 ^ 13 \<le> m div 2 ^ 13" using assms(4) by (intro div_le_mono) simp
  moreover have "m div 2 ^ 13 < 2 ^ 10" using assms(5) by (simp add: div_less_iff_less_mult)
  ultimately have "m div 2 ^ 13 = 0x3ff" by simp
  then have o: "m + 0xfff + m div 2 ^ 13 mod 2 = m + 2 ^ 12" by simp
  have "(m + 2 ^ 12) div 2 ^ 14 = 0x200"
    using assms(4,5) by (intro div_nat_eqI) simp_all
  then have "(2 ^ 12 + m) div 2 ^ 14 = 0x200" by (simp only: add.commute)
  then show "unat (ecb_binary32_to_binary16 x) = f16 s (e - 111) 0x200"
    using binary32_normal_fields [OF assms(1) e(1) assms(5,6,2) e(2)] assms(4) o
    by (simp add: Let_def add.commute [of m] flip: div_mult2_eq)
  define d where "d = e - 111"
  have d: "e = 111 + d" "0 < d" using assms(2) by (simp_all add: d_def)
  show "value16 s (e - 111) 0x200 = 3 / 2 * value16 s (e - 111) 0"
    using d by (simp add: value16_def)
  define p :: rat where "p = 2 ^ d"
  have diff: "value16 s d 0 - value32 s e m = sign_of s * (p * (2 ^ 23 - of_nat m) / 2 ^ 39)"
    using d by (simp add: value16_def value32_def p_def power_add field_simps)
  have v: "value16 s d 0 = sign_of s * (p / 2 ^ 15)"
    using d by (simp add: value16_def p_def)
  have sg: "\<bar>sign_of s\<bar> = 1" by (simp add: sign_of_def)
  have b: "p * (2 ^ 23 - of_nat m) \<le> p * 2 ^ 12" "0 \<le> p * (2 ^ 23 - of_nat m)" "0 < p"
  proof -
    have "of_nat m \<le> (of_nat (2 ^ 23) :: rat)" "of_nat 0x7ff000 \<le> (of_nat m :: rat)"
      using assms(4,5) by (simp_all only: of_nat_le_iff)
    then show "p * (2 ^ 23 - of_nat m) \<le> p * 2 ^ 12" "0 \<le> p * (2 ^ 23 - of_nat m)" "0 < p"
      by (auto simp: p_def)
  qed
  have "\<bar>value16 s d 0 - value32 s e m\<bar> = p * (2 ^ 23 - of_nat m) / 2 ^ 39"
    unfolding diff abs_mult sg using b(2) by simp
  also have "\<dots> \<le> p * 2 ^ 12 / 2 ^ 39" using b(1) by (intro divide_right_mono) simp_all
  also have "\<dots> = \<bar>value16 s d 0\<bar> / 2 ^ 12" unfolding v abs_mult sg using b(3) by simp
  finally show "\<bar>value16 s (e - 111) 0 - value32 s e m\<bar> \<le> \<bar>value16 s (e - 111) 0\<bar> / 2 ^ 12"
    by (simp only: d_def)
qed

theorem narrowing_carry_wrong_witness:
  "unat (ecb_binary32_to_binary16 0x3fffffff) = f16 0 16 0x200 \<and>
    \<bar>value16 0 16 0 - value32 0 127 0x7fffff\<bar> \<le> \<bar>value16 0 16 0\<bar> / 2 ^ 12 \<and>
    value16 0 16 0x200 = 3 / 2 * value16 0 16 0"
  using narrowing_carry_wrong [of 0 127 "0x7fffff" "0x3fffffff"] by (simp add: f32_def)

end
