(* ===== verification/EcbBytes.thy ===== *)
theory EcbBytes
  imports EcbBits "HOL-Library.Signed_Division"
begin

unbundle bit_operations_syntax

text \<open>
  The order of bytes and the division macros of \<open>libeio/ecb.h\<close>: swapping bytes, reading and writing
  integers of a given byte order in memory on a host of any byte order, and division rounded down or up.
\<close>

section \<open>The order of bytes\<close>

definition ecb_bswap16 :: "u16 \<Rightarrow> u16 option" where "ecb_bswap16 x = ecb_rotl16 x 8"

definition ecb_bswap32 :: "u32 \<Rightarrow> u32 option" where
  "ecb_bswap32 x = do {
     a \<leftarrow> ecb_bswap16 (ucast x);
     b \<leftarrow> ecb_bswap16 (ucast (drop_bit 16 x));
     Some (push_bit 16 (ucast a) OR ucast b) }"

definition ecb_bswap64 :: "u64 \<Rightarrow> u64 option" where
  "ecb_bswap64 x = do {
     a \<leftarrow> ecb_bswap32 (ucast x);
     b \<leftarrow> ecb_bswap32 (ucast (drop_bit 32 x));
     Some (push_bit 32 (ucast a) OR ucast b) }"

text \<open>
  The bytes of a word in the memory of a host; \<open>little\<close> is its byte order.  The fast integer types have
  64 bits.
\<close>

definition bytes_le :: "nat \<Rightarrow> 'a::len word \<Rightarrow> u8 list" where
  "bytes_le n v = map (\<lambda>i. ucast (drop_bit (8 * i) v)) [0..<n]"

definition host_bytes :: "bool \<Rightarrow> nat \<Rightarrow> 'a::len word \<Rightarrow> u8 list" where
  "host_bytes little n v = (if little then bytes_le n v else rev (bytes_le n v))"

definition host_word :: "bool \<Rightarrow> u8 list \<Rightarrow> 'a::len word" where
  "host_word little bs = (\<Sum>i<length bs. push_bit (8 * i) (ucast ((if little then bs else rev bs) ! i)))"

type_synonym bytes = "nat \<Rightarrow> u8"

definition memcpy_in :: "bytes \<Rightarrow> nat \<Rightarrow> nat \<Rightarrow> u8 list" where "memcpy_in m p n = map (\<lambda>i. m (p + i)) [0..<n]"
definition memcpy_out :: "nat \<Rightarrow> u8 list \<Rightarrow> bytes \<Rightarrow> bytes" where
  "memcpy_out p bs m = (\<lambda>a. if p \<le> a \<and> a < p + length bs then bs ! (a - p) else m a)"

definition ecb_byteorder_helper :: "bool \<Rightarrow> u32" where
  "ecb_byteorder_helper little = host_word little [0x11, 0x22, 0x33, 0x44]"
definition ecb_big_endian :: "bool \<Rightarrow> bool" where "ecb_big_endian little \<longleftrightarrow> ecb_byteorder_helper little = 0x11223344"
definition ecb_little_endian :: "bool \<Rightarrow> bool" where "ecb_little_endian little \<longleftrightarrow> ecb_byteorder_helper little = 0x44332211"

definition swap16_if :: "bool \<Rightarrow> u64 \<Rightarrow> u64 option" where
  "swap16_if c v = (if c then map_option ucast (ecb_bswap16 (ucast v)) else Some v)"
definition swap32_if :: "bool \<Rightarrow> u64 \<Rightarrow> u64 option" where
  "swap32_if c v = (if c then map_option ucast (ecb_bswap32 (ucast v)) else Some v)"
definition swap64_if :: "bool \<Rightarrow> u64 \<Rightarrow> u64 option" where
  "swap64_if c v = (if c then ecb_bswap64 v else Some v)"

definition ecb_be_u16_to_host :: "bool \<Rightarrow> u64 \<Rightarrow> u64 option" where "ecb_be_u16_to_host l v = swap16_if (ecb_little_endian l) v"
definition ecb_be_u32_to_host :: "bool \<Rightarrow> u64 \<Rightarrow> u64 option" where "ecb_be_u32_to_host l v = swap32_if (ecb_little_endian l) v"
definition ecb_be_u64_to_host :: "bool \<Rightarrow> u64 \<Rightarrow> u64 option" where "ecb_be_u64_to_host l v = swap64_if (ecb_little_endian l) v"
definition ecb_le_u16_to_host :: "bool \<Rightarrow> u64 \<Rightarrow> u64 option" where "ecb_le_u16_to_host l v = swap16_if (ecb_big_endian l) v"
definition ecb_le_u32_to_host :: "bool \<Rightarrow> u64 \<Rightarrow> u64 option" where "ecb_le_u32_to_host l v = swap32_if (ecb_big_endian l) v"
definition ecb_le_u64_to_host :: "bool \<Rightarrow> u64 \<Rightarrow> u64 option" where "ecb_le_u64_to_host l v = swap64_if (ecb_big_endian l) v"

definition ecb_peek_u16_u :: "bool \<Rightarrow> bytes \<Rightarrow> nat \<Rightarrow> u64" where
  "ecb_peek_u16_u l m p = ucast (host_word l (memcpy_in m p 2) :: u16)"
definition ecb_peek_u32_u :: "bool \<Rightarrow> bytes \<Rightarrow> nat \<Rightarrow> u64" where
  "ecb_peek_u32_u l m p = ucast (host_word l (memcpy_in m p 4) :: u32)"
definition ecb_peek_u64_u :: "bool \<Rightarrow> bytes \<Rightarrow> nat \<Rightarrow> u64" where
  "ecb_peek_u64_u l m p = host_word l (memcpy_in m p 8)"

definition ecb_peek_be_u16_u :: "bool \<Rightarrow> bytes \<Rightarrow> nat \<Rightarrow> u64 option" where
  "ecb_peek_be_u16_u l m p = ecb_be_u16_to_host l (ecb_peek_u16_u l m p)"
definition ecb_peek_be_u32_u :: "bool \<Rightarrow> bytes \<Rightarrow> nat \<Rightarrow> u64 option" where
  "ecb_peek_be_u32_u l m p = ecb_be_u32_to_host l (ecb_peek_u32_u l m p)"
definition ecb_peek_be_u64_u :: "bool \<Rightarrow> bytes \<Rightarrow> nat \<Rightarrow> u64 option" where
  "ecb_peek_be_u64_u l m p = ecb_be_u64_to_host l (ecb_peek_u64_u l m p)"
definition ecb_peek_le_u16_u :: "bool \<Rightarrow> bytes \<Rightarrow> nat \<Rightarrow> u64 option" where
  "ecb_peek_le_u16_u l m p = ecb_le_u16_to_host l (ecb_peek_u16_u l m p)"
definition ecb_peek_le_u32_u :: "bool \<Rightarrow> bytes \<Rightarrow> nat \<Rightarrow> u64 option" where
  "ecb_peek_le_u32_u l m p = ecb_le_u32_to_host l (ecb_peek_u32_u l m p)"
definition ecb_peek_le_u64_u :: "bool \<Rightarrow> bytes \<Rightarrow> nat \<Rightarrow> u64 option" where
  "ecb_peek_le_u64_u l m p = ecb_le_u64_to_host l (ecb_peek_u64_u l m p)"

definition ecb_host_to_be_u16 :: "bool \<Rightarrow> u64 \<Rightarrow> u64 option" where "ecb_host_to_be_u16 l v = swap16_if (ecb_little_endian l) v"
definition ecb_host_to_be_u32 :: "bool \<Rightarrow> u64 \<Rightarrow> u64 option" where "ecb_host_to_be_u32 l v = swap32_if (ecb_little_endian l) v"
definition ecb_host_to_be_u64 :: "bool \<Rightarrow> u64 \<Rightarrow> u64 option" where "ecb_host_to_be_u64 l v = swap64_if (ecb_little_endian l) v"
definition ecb_host_to_le_u16 :: "bool \<Rightarrow> u64 \<Rightarrow> u64 option" where "ecb_host_to_le_u16 l v = swap16_if (ecb_big_endian l) v"
definition ecb_host_to_le_u32 :: "bool \<Rightarrow> u64 \<Rightarrow> u64 option" where "ecb_host_to_le_u32 l v = swap32_if (ecb_big_endian l) v"
definition ecb_host_to_le_u64 :: "bool \<Rightarrow> u64 \<Rightarrow> u64 option" where "ecb_host_to_le_u64 l v = swap64_if (ecb_big_endian l) v"

definition ecb_poke_u16_u :: "bool \<Rightarrow> nat \<Rightarrow> u64 \<Rightarrow> bytes \<Rightarrow> bytes" where
  "ecb_poke_u16_u l p v = memcpy_out p (host_bytes l 2 (ucast v :: u16))"
definition ecb_poke_u32_u :: "bool \<Rightarrow> nat \<Rightarrow> u64 \<Rightarrow> bytes \<Rightarrow> bytes" where
  "ecb_poke_u32_u l p v = memcpy_out p (host_bytes l 4 (ucast v :: u32))"
definition ecb_poke_u64_u :: "bool \<Rightarrow> nat \<Rightarrow> u64 \<Rightarrow> bytes \<Rightarrow> bytes" where
  "ecb_poke_u64_u l p v = memcpy_out p (host_bytes l 8 v)"

definition ecb_poke_be_u16_u :: "bool \<Rightarrow> nat \<Rightarrow> u64 \<Rightarrow> bytes \<Rightarrow> bytes option" where
  "ecb_poke_be_u16_u l p v m = map_option (\<lambda>v. ecb_poke_u16_u l p v m) (ecb_host_to_be_u16 l v)"
definition ecb_poke_be_u32_u :: "bool \<Rightarrow> nat \<Rightarrow> u64 \<Rightarrow> bytes \<Rightarrow> bytes option" where
  "ecb_poke_be_u32_u l p v m = map_option (\<lambda>v. ecb_poke_u32_u l p v m) (ecb_host_to_be_u32 l v)"
definition ecb_poke_be_u64_u :: "bool \<Rightarrow> nat \<Rightarrow> u64 \<Rightarrow> bytes \<Rightarrow> bytes option" where
  "ecb_poke_be_u64_u l p v m = map_option (\<lambda>v. ecb_poke_u64_u l p v m) (ecb_host_to_be_u64 l v)"
definition ecb_poke_le_u16_u :: "bool \<Rightarrow> nat \<Rightarrow> u64 \<Rightarrow> bytes \<Rightarrow> bytes option" where
  "ecb_poke_le_u16_u l p v m = map_option (\<lambda>v. ecb_poke_u16_u l p v m) (ecb_host_to_le_u16 l v)"
definition ecb_poke_le_u32_u :: "bool \<Rightarrow> nat \<Rightarrow> u64 \<Rightarrow> bytes \<Rightarrow> bytes option" where
  "ecb_poke_le_u32_u l p v m = map_option (\<lambda>v. ecb_poke_u32_u l p v m) (ecb_host_to_le_u32 l v)"
definition ecb_poke_le_u64_u :: "bool \<Rightarrow> nat \<Rightarrow> u64 \<Rightarrow> bytes \<Rightarrow> bytes option" where
  "ecb_poke_le_u64_u l p v m = map_option (\<lambda>v. ecb_poke_u64_u l p v m) (ecb_host_to_le_u64 l v)"

section \<open>Rounding division\<close>

text \<open>The macros on values that do not overflow their type.\<close>

definition ecb_mod_c99 :: "int \<Rightarrow> int \<Rightarrow> int" where
  "ecb_mod_c99 m n = m smod n + (if m smod n < 0 then n else 0)"
definition ecb_mod_old :: "int \<Rightarrow> int \<Rightarrow> int" where
  "ecb_mod_old m n = (if m < 0 then n - 1 - ((-1 - m) smod n) else m smod n)"
definition ecb_div_rd :: "int \<Rightarrow> int \<Rightarrow> int" where
  "ecb_div_rd val dv = (if val < 0 then - ((- val + dv - 1) sdiv dv) else val sdiv dv)"
definition ecb_div_ru :: "int \<Rightarrow> int \<Rightarrow> int" where
  "ecb_div_ru val dv = (if val < 0 then - ((- val) sdiv dv) else (val + dv - 1) sdiv dv)"

section \<open>Byte order: what is stored\<close>

lemma nth_bytes_le: "i < n \<Longrightarrow> bytes_le n v ! i = ucast (drop_bit (8 * i) v)"
  by (simp add: bytes_le_def)

lemma length_bytes_le [simp]: "length (bytes_le n v) = n"
  by (simp add: bytes_le_def)

lemma host_word_bytes:
  fixes v :: "'a::len word"
  assumes "8 * n = LENGTH('a)"
  shows "host_word True (bytes_le n v) = v"
proof -
  have "(\<Sum>i<k. push_bit (8 * i) (ucast (ucast (drop_bit (8 * i) v) :: u8))) = take_bit (8 * k) v" for k
  proof (induction k)
    case (Suc k)
    have d: "take_bit (8 * k) v AND push_bit (8 * k) (ucast (ucast (drop_bit (8 * k) v) :: u8)) = 0"
      by (rule bit_eqI) (auto simp: bit_simps)
    have "take_bit (8 * Suc k) v = take_bit (8 * k) v OR push_bit (8 * k) (ucast (ucast (drop_bit (8 * k) v) :: u8))"
      by (rule bit_eqI) (auto simp: bit_simps)
    then show ?case using Suc disjunctive_add_eq_or [OF d] by simp
  qed simp
  from this [of n] show ?thesis using assms by (simp add: host_word_def nth_bytes_le)
qed

lemma host_word_host_bytes: "8 * n = LENGTH('a) \<Longrightarrow> host_word l (host_bytes l n (v :: 'a::len word)) = v"
  using host_word_bytes [of n v] by (auto simp: host_bytes_def host_word_def)

lemma byteorder_values: "ecb_byteorder_helper True = 0x44332211" "ecb_byteorder_helper False = 0x11223344"
  by code_simp+

lemma ecb_endian [simp]: "ecb_little_endian l = l" "ecb_big_endian l = (\<not> l)"
  by (cases l; simp add: ecb_little_endian_def ecb_big_endian_def byteorder_values)+

text \<open>
  The contract of swapping bytes, and what writing and reading in a given byte order rely on: it
  reverses the bytes.
\<close>

locale byte_swap =
  fixes swap :: "'a::len word \<Rightarrow> 'a word option" and n :: nat
  assumes width: "8 * n = LENGTH('a)"
    and swap_rev: "\<exists>y. swap x = Some y \<and> bytes_le n y = rev (bytes_le n x)"
begin

lemma to_order: "\<exists>w. (if c then swap v else Some v) = Some w \<and> host_bytes l n w = (if c = l then rev (bytes_le n v) else bytes_le n v)"
  using swap_rev [of v] by (auto simp: host_bytes_def)

lemma from_order:
  "(if c then swap (host_word l (if c = l then rev (bytes_le n v) else bytes_le n v))
    else Some (host_word l (if c = l then rev (bytes_le n v) else bytes_le n v))) = Some v"
proof (cases c)
  case True
  obtain y where y: "swap v = Some y" "bytes_le n y = rev (bytes_le n v)" using swap_rev by blast
  obtain z where z: "swap y = Some z" "bytes_le n z = rev (bytes_le n y)" using swap_rev by blast
  have "z = v" using host_word_bytes [OF width] y(2) z(2) by (metis rev_rev_ident)
  moreover have "host_word l (if c = l then rev (bytes_le n v) else bytes_le n v) = host_word l (host_bytes l n y)"
    using True y(2) by (simp add: host_bytes_def)
  ultimately show ?thesis using True z(1) host_word_host_bytes [OF width] by metis
next
  case False
  then have "(if c = l then rev (bytes_le n v) else bytes_le n v) = host_bytes l n v" by (simp add: host_bytes_def)
  then show ?thesis using False host_word_host_bytes [OF width, of l v] by simp
qed

end

lemma bytes_join:
  fixes a b :: "'a::len word"
  assumes "8 * n = LENGTH('a)" "LENGTH('b) = 2 * LENGTH('a)"
  shows "bytes_le (n + n) (push_bit (8 * n) (ucast a) OR ucast b :: 'b::len word) = bytes_le n b @ bytes_le n a"
proof (rule nth_equalityI)
  fix i assume i: "i < length (bytes_le (n + n) (push_bit (8 * n) (ucast a) OR ucast b :: 'b word))"
  show "bytes_le (n + n) (push_bit (8 * n) (ucast a) OR ucast b :: 'b word) ! i = (bytes_le n b @ bytes_le n a) ! i"
    using i assms
    by (intro bit_word_eqI) (auto simp: nth_append nth_bytes_le bit_simps algebra_simps dest: bit_imp_le_length)
qed simp

lemma bytes_split:
  fixes x :: "'b::len word"
  assumes "8 * n = LENGTH('a)" "LENGTH('b) = 2 * LENGTH('a)"
  shows "bytes_le (n + n) x = bytes_le n (ucast x :: 'a::len word) @ bytes_le n (ucast (drop_bit (8 * n) x) :: 'a word)"
proof (rule nth_equalityI)
  fix i assume i: "i < length (bytes_le (n + n) x)"
  show "bytes_le (n + n) x ! i = (bytes_le n (ucast x :: 'a word) @ bytes_le n (ucast (drop_bit (8 * n) x) :: 'a word)) ! i"
    using i assms
    by (intro bit_word_eqI) (auto simp: nth_append nth_bytes_le bit_simps algebra_simps dest: bit_imp_le_length)
qed simp

lemma upt_2: "[0..<2] = [0::nat, 1]" by (simp add: numeral_2_eq_2)

interpretation swap16: byte_swap ecb_bswap16 2
proof unfold_locales
  fix x :: u16
  have "bytes_le 2 (word_rotl 8 x) = rev (bytes_le 2 x)"
    unfolding bytes_le_def upt_2 by (auto simp: bit_simps mod_if add.commute eval_nat_numeral intro!: bit_word_eqI)
  then show "\<exists>y. ecb_bswap16 x = Some y \<and> bytes_le 2 y = rev (bytes_le 2 x)"
    by (simp add: ecb_bswap16_def ecb_rot16)
qed simp

interpretation swap32: byte_swap ecb_bswap32 4
proof unfold_locales
  fix x :: u32
  obtain a where a: "ecb_bswap16 (ucast x) = Some a" "bytes_le 2 a = rev (bytes_le 2 (ucast x :: u16))"
    using swap16.swap_rev by blast
  obtain b where b: "ecb_bswap16 (ucast (drop_bit 16 x)) = Some b" "bytes_le 2 b = rev (bytes_le 2 (ucast (drop_bit 16 x) :: u16))"
    using swap16.swap_rev by blast
  from a b show "\<exists>y. ecb_bswap32 x = Some y \<and> bytes_le 4 y = rev (bytes_le 4 x)"
    using bytes_join [of 2 a b, where 'b = 32] bytes_split [of 2 x, where 'a = 16] by (simp add: ecb_bswap32_def)
qed simp

interpretation swap64: byte_swap ecb_bswap64 8
proof unfold_locales
  fix x :: u64
  obtain a where a: "ecb_bswap32 (ucast x) = Some a" "bytes_le 4 a = rev (bytes_le 4 (ucast x :: u32))"
    using swap32.swap_rev by blast
  obtain b where b: "ecb_bswap32 (ucast (drop_bit 32 x)) = Some b" "bytes_le 4 b = rev (bytes_le 4 (ucast (drop_bit 32 x) :: u32))"
    using swap32.swap_rev by blast
  from a b show "\<exists>y. ecb_bswap64 x = Some y \<and> bytes_le 8 y = rev (bytes_le 8 x)"
    using bytes_join [of 4 a b, where 'b = 64] bytes_split [of 4 x, where 'a = 32] by (simp add: ecb_bswap64_def)
qed simp

lemmas ecb_order_defs =
  ecb_be_u16_to_host_def ecb_be_u32_to_host_def ecb_be_u64_to_host_def ecb_le_u16_to_host_def ecb_le_u32_to_host_def
  ecb_le_u64_to_host_def ecb_host_to_be_u16_def ecb_host_to_be_u32_def ecb_host_to_be_u64_def ecb_host_to_le_u16_def
  ecb_host_to_le_u32_def ecb_host_to_le_u64_def swap16_if_def swap32_if_def swap64_if_def
  ecb_peek_be_u16_u_def ecb_peek_be_u32_u_def ecb_peek_be_u64_u_def ecb_peek_le_u16_u_def ecb_peek_le_u32_u_def
  ecb_peek_le_u64_u_def ecb_poke_be_u16_u_def ecb_poke_be_u32_u_def ecb_poke_be_u64_u_def ecb_poke_le_u16_u_def
  ecb_poke_le_u32_u_def ecb_poke_le_u64_u_def ecb_peek_u16_u_def ecb_peek_u32_u_def ecb_peek_u64_u_def
  ecb_poke_u16_u_def ecb_poke_u32_u_def ecb_poke_u64_u_def

lemma memcpy_in_out: "length bs = n \<Longrightarrow> memcpy_in (memcpy_out p bs m) p n = bs"
  by (intro nth_equalityI) (auto simp: memcpy_in_def memcpy_out_def)

text \<open>What is written has the bytes of the value in the order asked for, whatever the order of the host.\<close>

lemma ucast_up_down: "LENGTH('a) \<le> LENGTH('b) \<Longrightarrow> ucast (ucast (w :: 'a::len word) :: 'b::len word) = w"
  by (rule bit_word_eqI) (auto simp: bit_simps)

lemma bytes_le_ucast:
  "8 * n \<le> LENGTH('a) \<Longrightarrow> 8 * n \<le> LENGTH('b) \<Longrightarrow> bytes_le n (ucast (v :: 'b::len word) :: 'a::len word) = bytes_le n v"
  by (auto simp: bytes_le_def bit_simps intro!: bit_word_eqI)

lemma ucast_down_up: "LENGTH('b) \<le> LENGTH('a) \<Longrightarrow> ucast (ucast (v :: 'a::len word) :: 'b::len word) = take_bit LENGTH('b) v"
  by (rule bit_word_eqI) (auto simp: bit_simps)

lemma ecb_poke_bytes:
  "ecb_poke_be_u16_u l p v m = Some (memcpy_out p (rev (bytes_le 2 v)) m)"
  "ecb_poke_le_u16_u l p v m = Some (memcpy_out p (bytes_le 2 v) m)"
  "ecb_poke_be_u32_u l p v m = Some (memcpy_out p (rev (bytes_le 4 v)) m)"
  "ecb_poke_le_u32_u l p v m = Some (memcpy_out p (bytes_le 4 v) m)"
  "ecb_poke_be_u64_u l p v m = Some (memcpy_out p (rev (bytes_le 8 v)) m)"
  "ecb_poke_le_u64_u l p v m = Some (memcpy_out p (bytes_le 8 v) m)"
  using swap16.to_order [of l "ucast v" l] swap16.to_order [of "\<not> l" "ucast v" l]
    swap32.to_order [of l "ucast v" l] swap32.to_order [of "\<not> l" "ucast v" l]
    swap64.to_order [of l v l] swap64.to_order [of "\<not> l" v l]
  by (auto simp: ecb_order_defs bytes_le_ucast ucast_up_down split: if_splits)

lemma ecb_peek_bytes:
  "ecb_peek_be_u16_u l (memcpy_out p (rev (bytes_le 2 v)) m) p = Some (take_bit 16 v)"
  "ecb_peek_le_u16_u l (memcpy_out p (bytes_le 2 v) m) p = Some (take_bit 16 v)"
  "ecb_peek_be_u32_u l (memcpy_out p (rev (bytes_le 4 v)) m) p = Some (take_bit 32 v)"
  "ecb_peek_le_u32_u l (memcpy_out p (bytes_le 4 v) m) p = Some (take_bit 32 v)"
  "ecb_peek_be_u64_u l (memcpy_out p (rev (bytes_le 8 v)) m) p = Some v"
  "ecb_peek_le_u64_u l (memcpy_out p (bytes_le 8 v) m) p = Some v"
  using swap16.from_order [of l l "ucast v"] swap16.from_order [of "\<not> l" l "ucast v"]
    swap32.from_order [of l l "ucast v"] swap32.from_order [of "\<not> l" l "ucast v"]
    swap64.from_order [of l l v] swap64.from_order [of "\<not> l" l v]
  by (auto simp: ecb_order_defs bytes_le_ucast memcpy_in_out ucast_down_up ucast_up_down split: if_splits)

text \<open>
  C39: integers written in big or little endian byte order have their bytes in that order in memory and
  are read back unchanged, in all sizes and on hosts of both byte orders.
\<close>

theorem byte_order_round_trip:
  "map_option (\<lambda>m. (memcpy_in m p 2, ecb_peek_be_u16_u l m p)) (ecb_poke_be_u16_u l p v m) =
     Some (rev (bytes_le 2 v), Some (take_bit 16 v)) \<and>
   map_option (\<lambda>m. (memcpy_in m p 2, ecb_peek_le_u16_u l m p)) (ecb_poke_le_u16_u l p v m) =
     Some (bytes_le 2 v, Some (take_bit 16 v)) \<and>
   map_option (\<lambda>m. (memcpy_in m p 4, ecb_peek_be_u32_u l m p)) (ecb_poke_be_u32_u l p v m) =
     Some (rev (bytes_le 4 v), Some (take_bit 32 v)) \<and>
   map_option (\<lambda>m. (memcpy_in m p 4, ecb_peek_le_u32_u l m p)) (ecb_poke_le_u32_u l p v m) =
     Some (bytes_le 4 v, Some (take_bit 32 v)) \<and>
   map_option (\<lambda>m. (memcpy_in m p 8, ecb_peek_be_u64_u l m p)) (ecb_poke_be_u64_u l p v m) =
     Some (rev (bytes_le 8 v), Some v) \<and>
   map_option (\<lambda>m. (memcpy_in m p 8, ecb_peek_le_u64_u l m p)) (ecb_poke_le_u64_u l p v m) =
     Some (bytes_le 8 v, Some v)"
  by (simp add: ecb_poke_bytes ecb_peek_bytes memcpy_in_out)

section \<open>Rounding division: what is computed\<close>

lemma smod_nonneg: "0 \<le> m \<Longrightarrow> 0 < n \<Longrightarrow> m smod n = m mod (n :: int)" "0 \<le> m \<Longrightarrow> 0 < n \<Longrightarrow> m sdiv n = m div (n :: int)"
  by (cases "m = 0"; simp add: smod_int_alt_def signed_divide_int_def)+

lemma smod_neg: "m < 0 \<Longrightarrow> 0 < n \<Longrightarrow> m smod n = - ((- m) mod (n :: int))"
  by (simp add: smod_int_alt_def)

lemma ecb_mod_is_mod:
  assumes "0 < n"
  shows "ecb_mod_c99 m n = m mod n" "ecb_mod_old m n = m mod n"
proof -
  show "ecb_mod_c99 m n = m mod n"
    using assms by (cases "m < 0") (auto simp: ecb_mod_c99_def smod_nonneg smod_neg zmod_zminus1_eq_if not_less pos_mod_sign [THEN leD])
  show "ecb_mod_old m n = m mod n"
  proof (cases "m < 0")
    case True
    have "(-1 - m) mod n = n - 1 - m mod n"
    proof (rule mod_pos_pos_trivial [of "n - 1 - m mod n" n, THEN trans [rotated]])
      show "0 \<le> n - 1 - m mod n" "n - 1 - m mod n < n"
        using assms pos_mod_bound [of n m] pos_mod_sign [of n m] by linarith+
      have e: "n - 1 - m mod n = (-1 - m) + n * (m div n + 1)"
        using mult_div_mod_eq [of n m] by (simp add: algebra_simps)
      show "(-1 - m) mod n = (n - 1 - m mod n) mod n" by (simp only: e mod_mult_self2)
    qed
    then show ?thesis using True assms by (simp add: ecb_mod_old_def smod_nonneg)
  qed (simp add: ecb_mod_old_def smod_nonneg assms)
qed

lemma ecb_div_rounds:
  assumes "0 < d"
  shows "ecb_div_rd x d = x div d" "ecb_div_ru x d = - ((- x) div d)"
proof -
  have up: "(y + d - 1) div d = - ((- y) div d)" if "0 < d" for y d :: int
  proof -
    have e: "y + d - 1 = (d - 1 - (- y) mod d) + d * (- ((- y) div d))"
      using mult_div_mod_eq [of d "- y"] by (simp add: algebra_simps)
    have "(d - 1 - (- y) mod d) div d = 0"
      using that pos_mod_bound [of d "- y"] pos_mod_sign [of d "- y"] by (intro div_pos_pos_trivial) linarith+
    then show ?thesis using that by (simp only: e div_mult_self2)
  qed
  show "ecb_div_rd x d = x div d"
    using assms up [OF assms, of "- x"] by (simp add: ecb_div_rd_def smod_nonneg)
  show "ecb_div_ru x d = - ((- x) div d)"
    using assms up [OF assms, of x] smod_nonneg(2) [of "- x" d] by (auto simp: ecb_div_ru_def smod_nonneg)
qed

end
