(* ===== verification/EcbDecimal.thy ===== *)
theory EcbDecimal
  imports EcbBytes
begin

unbundle bit_operations_syntax

text \<open>
  The conversion of integers to decimal text in \<open>libeio/ecb.h\<close> (\<open>ecb_i2a_*\<close>).  A number is multiplied by a
  scaling factor, which gives a fixed-point number with the first digit before the point; each digit is
  written and cut off, and the rest multiplied by 10.  The text is written to memory as its bytes.
\<close>

section \<open>The macros\<close>

definition ecb_i2a_mask :: "nat \<Rightarrow> 'a::len word" where "ecb_i2a_mask bits = push_bit bits 1 - 1"

definition ecb_i2a_digit ::
    "nat \<Rightarrow> nat \<Rightarrow> nat \<Rightarrow> nat \<Rightarrow> nat \<times> bool \<times> 'a::len word \<times> bytes \<Rightarrow> nat \<times> bool \<times> 'a word \<times> bytes" where
  "ecb_i2a_digit bits digitmask maskvalue digitidx = (\<lambda>(ptr, nz, x, mem).
     if digitmask \<ge> maskvalue then
       (let digit = (ucast (drop_bit (bits - digitidx) x) :: u8);
            mem = mem(ptr := digit + 48);
            nz = (digitmask = maskvalue \<or> nz \<or> digit \<noteq> 0);
            ptr = ptr + (if nz then 1 else 0)
        in (ptr, nz, (x AND ecb_i2a_mask (bits - digitidx)) * 5, mem))
     else (ptr, nz, x, mem))"

definition ecb_i2a_def ::
    "'a::len itself \<Rightarrow> nat \<Rightarrow> nat \<Rightarrow> bool \<Rightarrow> nat \<Rightarrow> u32 \<Rightarrow> bytes \<Rightarrow> nat \<times> bytes" where
  "ecb_i2a_def T bits digitmask lz ptr u mem =
     (let x = (ucast u :: 'a word) * ((ecb_i2a_mask bits + of_nat digitmask) div of_nat digitmask)
      in case fold (\<lambda>i. ecb_i2a_digit bits digitmask (10 ^ i) i) [0..<10] (ptr, lz, x, mem) of
           (ptr, nz, x, mem) \<Rightarrow> (ptr, mem))"

definition ECB_I2A_MAX_X5 :: nat where "ECB_I2A_MAX_X5 = 59074"
definition ECB_I2A_MAX_X10 :: nat where "ECB_I2A_MAX_X10 = 2932500665"

definition ecb_i2a_x5 :: "nat \<Rightarrow> u32 \<Rightarrow> bytes \<Rightarrow> nat \<times> bytes" where
  "ecb_i2a_x5 = ecb_i2a_def TYPE(32) 26 10000 False"
definition ecb_i2a_x10 :: "nat \<Rightarrow> u32 \<Rightarrow> bytes \<Rightarrow> nat \<times> bytes" where
  "ecb_i2a_x10 = ecb_i2a_def TYPE(64) 60 1000000000 False"

definition ecb_i2a_2 :: "nat \<Rightarrow> u32 \<Rightarrow> bytes \<Rightarrow> nat \<times> bytes" where
  "ecb_i2a_2 = ecb_i2a_def TYPE(32) 10 10 False"
definition ecb_i2a_3 :: "nat \<Rightarrow> u32 \<Rightarrow> bytes \<Rightarrow> nat \<times> bytes" where
  "ecb_i2a_3 = ecb_i2a_def TYPE(32) 12 100 False"
definition ecb_i2a_4 :: "nat \<Rightarrow> u32 \<Rightarrow> bytes \<Rightarrow> nat \<times> bytes" where
  "ecb_i2a_4 = ecb_i2a_def TYPE(32) 26 1000 False"
definition ecb_i2a_5 :: "nat \<Rightarrow> u32 \<Rightarrow> bytes \<Rightarrow> nat \<times> bytes" where
  "ecb_i2a_5 = ecb_i2a_def TYPE(64) 30 10000 False"
definition ecb_i2a_6 :: "nat \<Rightarrow> u32 \<Rightarrow> bytes \<Rightarrow> nat \<times> bytes" where
  "ecb_i2a_6 = ecb_i2a_def TYPE(64) 36 100000 False"
definition ecb_i2a_7 :: "nat \<Rightarrow> u32 \<Rightarrow> bytes \<Rightarrow> nat \<times> bytes" where
  "ecb_i2a_7 = ecb_i2a_def TYPE(64) 44 1000000 False"
definition ecb_i2a_8 :: "nat \<Rightarrow> u32 \<Rightarrow> bytes \<Rightarrow> nat \<times> bytes" where
  "ecb_i2a_8 = ecb_i2a_def TYPE(64) 50 10000000 False"
definition ecb_i2a_9 :: "nat \<Rightarrow> u32 \<Rightarrow> bytes \<Rightarrow> nat \<times> bytes" where
  "ecb_i2a_9 = ecb_i2a_def TYPE(64) 56 100000000 False"

definition ecb_i2a_02 :: "nat \<Rightarrow> u32 \<Rightarrow> bytes \<Rightarrow> nat \<times> bytes" where
  "ecb_i2a_02 = ecb_i2a_def TYPE(32) 10 10 True"
definition ecb_i2a_03 :: "nat \<Rightarrow> u32 \<Rightarrow> bytes \<Rightarrow> nat \<times> bytes" where
  "ecb_i2a_03 = ecb_i2a_def TYPE(32) 12 100 True"
definition ecb_i2a_04 :: "nat \<Rightarrow> u32 \<Rightarrow> bytes \<Rightarrow> nat \<times> bytes" where
  "ecb_i2a_04 = ecb_i2a_def TYPE(32) 26 1000 True"
definition ecb_i2a_05 :: "nat \<Rightarrow> u32 \<Rightarrow> bytes \<Rightarrow> nat \<times> bytes" where
  "ecb_i2a_05 = ecb_i2a_def TYPE(64) 30 10000 True"
definition ecb_i2a_06 :: "nat \<Rightarrow> u32 \<Rightarrow> bytes \<Rightarrow> nat \<times> bytes" where
  "ecb_i2a_06 = ecb_i2a_def TYPE(64) 36 100000 True"
definition ecb_i2a_07 :: "nat \<Rightarrow> u32 \<Rightarrow> bytes \<Rightarrow> nat \<times> bytes" where
  "ecb_i2a_07 = ecb_i2a_def TYPE(64) 44 1000000 True"
definition ecb_i2a_08 :: "nat \<Rightarrow> u32 \<Rightarrow> bytes \<Rightarrow> nat \<times> bytes" where
  "ecb_i2a_08 = ecb_i2a_def TYPE(64) 50 10000000 True"
definition ecb_i2a_09 :: "nat \<Rightarrow> u32 \<Rightarrow> bytes \<Rightarrow> nat \<times> bytes" where
  "ecb_i2a_09 = ecb_i2a_def TYPE(64) 56 100000000 True"

section \<open>Whole integers\<close>

text \<open>
  \<open>native\<close> tells whether the machine has 64 bits.  On a machine of 32 bits the first branch of
  \<open>ecb_i2a_u32\<close> drops the pointer that \<open>ecb_i2a_x5\<close> returns.
\<close>

definition ecb_i2a_u32 :: "bool \<Rightarrow> nat \<Rightarrow> u32 \<Rightarrow> bytes \<Rightarrow> nat \<times> bytes" where
  "ecb_i2a_u32 native ptr u mem =
     (if native then
        if u \<le> of_nat ECB_I2A_MAX_X10 then ecb_i2a_x10 ptr u mem
        else
          (let u1 = u mod 1000000000; u2 = u div 1000000000; mem = mem(ptr := ucast u2 + 48)
           in ecb_i2a_09 (ptr + 1) u1 mem)
      else
        if u \<le> of_nat ECB_I2A_MAX_X5 then (case ecb_i2a_x5 ptr u mem of (_, mem) \<Rightarrow> (ptr, mem))
        else if u \<le> of_nat (ECB_I2A_MAX_X5 * 10000) then
          (let u1 = u mod 10000; u2 = u div 10000; (ptr, mem) = ecb_i2a_x5 ptr u2 mem in ecb_i2a_04 ptr u1 mem)
        else
          (let u1 = u mod 10000; ua = u div 10000; u2 = ua mod 10000; u3 = ua div 10000;
               (ptr, mem) = ecb_i2a_2 ptr u3 mem; (ptr, mem) = ecb_i2a_04 ptr u2 mem
           in ecb_i2a_04 ptr u1 mem))"

text \<open>The sign, as all signed variants write it.\<close>

definition i2a_sign :: "bool \<Rightarrow> nat \<Rightarrow> bytes \<Rightarrow> nat \<times> bytes" where
  "i2a_sign neg ptr mem = (ptr + (if neg then 1 else 0), mem(ptr := 45))"

definition ecb_i2a_i32 :: "bool \<Rightarrow> nat \<Rightarrow> u32 \<Rightarrow> bytes \<Rightarrow> nat \<times> bytes" where
  "ecb_i2a_i32 native ptr v mem =
     (let (ptr, mem) = i2a_sign (sint v < 0) ptr mem;
          u = (if sint v < 0 then - v else v)
      in if native then ecb_i2a_x10 ptr u mem else ecb_i2a_u32 native ptr u mem)"

function i2a_u64_else :: "nat \<Rightarrow> u64 \<Rightarrow> bytes \<Rightarrow> nat \<times> bytes" where
  "i2a_u64_else ptr u mem =
     (if u \<le> of_nat ECB_I2A_MAX_X5 then ecb_i2a_x5 ptr (ucast u) mem
      else
        (let u1 = u mod 10000; u2 = u div 10000; (ptr, mem) = i2a_u64_else ptr u2 mem
         in ecb_i2a_04 ptr (ucast u1) mem))"
  by pat_completeness auto
termination
  by (relation "measure (\<lambda>(ptr, u, mem). unat u)")
     (auto simp: ECB_I2A_MAX_X5_def unat_div word_le_nat_alt not_le intro!: div_less_dividend)

declare i2a_u64_else.simps [simp del]

definition ecb_i2a_u64 :: "bool \<Rightarrow> nat \<Rightarrow> u64 \<Rightarrow> bytes \<Rightarrow> nat \<times> bytes" where
  "ecb_i2a_u64 native ptr u mem =
     (if native then
        if u \<le> of_nat ECB_I2A_MAX_X10 then ecb_i2a_x10 ptr (ucast u) mem
        else if u \<le> of_nat (ECB_I2A_MAX_X10 * 1000000000) then
          (let u1 = u mod 1000000000; u2 = u div 1000000000; (ptr, mem) = ecb_i2a_x10 ptr (ucast u2) mem
           in ecb_i2a_09 ptr (ucast u1) mem)
        else
          (let u1 = u mod 1000000000; ua = u div 1000000000; u2 = ua mod 1000000000; u3 = ua div 1000000000;
               (ptr, mem) = ecb_i2a_2 ptr (ucast u3) mem; (ptr, mem) = ecb_i2a_09 ptr (ucast u2) mem
           in ecb_i2a_09 ptr (ucast u1) mem)
      else i2a_u64_else ptr u mem)"

text \<open>The digits of a signed number on 64 bits: here the top is exactly one digit.\<close>

definition i2a_i64_digits :: "nat \<Rightarrow> u64 \<Rightarrow> bytes \<Rightarrow> nat \<times> bytes" where
  "i2a_i64_digits ptr u mem =
     (if u \<le> of_nat ECB_I2A_MAX_X10 then ecb_i2a_x10 ptr (ucast u) mem
      else if u \<le> of_nat (ECB_I2A_MAX_X10 * 1000000000) then
        (let u1 = u mod 1000000000; u2 = u div 1000000000; (ptr, mem) = ecb_i2a_x10 ptr (ucast u2) mem
         in ecb_i2a_09 ptr (ucast u1) mem)
      else
        (let u1 = u mod 1000000000; ua = u div 1000000000; u2 = ua mod 1000000000; u3 = ua div 1000000000;
             mem = mem(ptr := ucast u3 + 48); (ptr, mem) = ecb_i2a_09 (ptr + 1) (ucast u2) mem
         in ecb_i2a_09 ptr (ucast u1) mem))"

definition ecb_i2a_i64 :: "bool \<Rightarrow> nat \<Rightarrow> u64 \<Rightarrow> bytes \<Rightarrow> nat \<times> bytes" where
  "ecb_i2a_i64 native ptr v mem =
     (let (ptr, mem) = i2a_sign (sint v < 0) ptr mem;
          u = (if sint v < 0 then - v else v)
      in if native then i2a_i64_digits ptr u mem else ecb_i2a_u64 native ptr u mem)"

section \<open>Decimal text\<close>

text \<open>The digits of a number, without leading zeros and with a given number of digits.\<close>

fun decimal :: "nat \<Rightarrow> nat list" where
  "decimal n = (if n < 10 then [n] else decimal (n div 10) @ [n mod 10])"

declare decimal.simps [simp del]

fun digits :: "nat \<Rightarrow> nat \<Rightarrow> nat list" where
  "digits 0 n = []"
| "digits (Suc k) n = digits k (n div 10) @ [n mod 10]"

definition ascii :: "nat list \<Rightarrow> u8 list" where "ascii ds = map (\<lambda>d. of_nat d + 48) ds"

definition number :: "u8 list \<Rightarrow> nat" where "number s = foldl (\<lambda>n c. 10 * n + unat (c - 48)) 0 s"

lemma decimal_digits_less: "d \<in> set (decimal n) \<Longrightarrow> d < 10"
  by (induction n rule: decimal.induct) (metis (no_types, lifting) Un_iff decimal.simps empty_iff empty_set
      insert_iff list.simps(15) mod_less_divisor set_append zero_less_numeral)

lemma number_ascii_snoc: "d < 10 \<Longrightarrow> number (ascii (ds @ [d])) = 10 * number (ascii ds) + d"
  by (simp add: number_def ascii_def unsigned_of_nat take_bit_nat_eq_self)

text \<open>Reading the decimal text of a number gives the number.\<close>

lemma number_decimal: "number (ascii (decimal n)) = n"
proof (induction n rule: decimal.induct)
  case (1 n)
  show ?case
  proof (cases "n < 10")
    case True
    then show ?thesis using number_ascii_snoc [of n "[]"] by (simp add: decimal.simps number_def ascii_def)
  next
    case False
    then show ?thesis using 1 number_ascii_snoc [of "n mod 10" "decimal (n div 10)"]
      by (simp add: decimal.simps [of n])
  qed
qed

lemma last_digit:
  "(a * 10 ^ Suc k + b) div 10 = a * 10 ^ k + b div (10 :: nat)" "(a * 10 ^ Suc k + b) mod 10 = b mod (10 :: nat)"
proof -
  have e: "a * 10 ^ Suc k + b = b + 10 * (a * 10 ^ k)" by simp
  show "(a * 10 ^ Suc k + b) div 10 = a * 10 ^ k + b div 10" unfolding e by simp
  show "(a * 10 ^ Suc k + b) mod 10 = b mod 10" unfolding e by (rule mod_mult_self2)
qed

lemma decimal_split: "0 < a \<Longrightarrow> b < 10 ^ k \<Longrightarrow> decimal (a * 10 ^ k + b) = decimal a @ digits k b"
proof (induction k arbitrary: b)
  case (Suc k)
  note last_digit [of a k b]
  moreover have "\<not> a * 10 ^ Suc k + b < 10" using Suc.prems(1) by (simp add: not_less trans_le_add1)
  moreover have "b div 10 < 10 ^ k" using Suc.prems(2) by (simp add: div_less_iff_less_mult mult.commute)
  ultimately show ?case using Suc.IH [of "b div 10"] Suc.prems(1) by (subst decimal.simps) simp
qed simp

lemma digits_split: "b < 10 ^ k \<Longrightarrow> digits (j + k) (a * 10 ^ k + b) = digits j a @ digits k b"
proof (induction k arbitrary: b)
  case (Suc k)
  note last_digit [of a k b]
  moreover have "b div 10 < 10 ^ k" using Suc.prems by (simp add: div_less_iff_less_mult mult.commute)
  ultimately show ?case using Suc.IH [of "b div 10"] by simp
qed simp

section \<open>The digits of the fixed-point number\<close>

text \<open>
  Multiplied by the scaling factor and the power of 10, the whole part of the number has the leading
  digits of \<open>u\<close>, when the excess of the factor over the exact one is small enough.
\<close>

lemma scaled_leading:
  assumes "F * 10 ^ K = 2 ^ b + eps" "u * eps < (2::nat) ^ b" "i \<le> K"
  shows "(u * F * 10 ^ i) div 2 ^ b = u div 10 ^ (K - i)"
proof -
  define T where "T = (10::nat) ^ (K - i)"
  define q where "q = u div T"
  have T: "0 < T" "10 ^ i * T = 10 ^ K" using assms(3) by (simp_all add: T_def flip: power_add)
  have "u * F * 10 ^ i * T = u * (F * 10 ^ K)" by (simp only: T(2) mult.assoc)
  then have uF: "u * F * 10 ^ i * T = u * 2 ^ b + u * eps" by (simp only: assms(1) distrib_left)
  have lo: "q * T \<le> u" by (simp add: q_def)
  have hi: "u + 1 \<le> (q + 1) * T" using T(1) by (simp add: q_def Suc_leI dividend_less_div_times)
  have "q * 2 ^ b * T \<le> u * F * 10 ^ i * T"
  proof -
    have "q * T * 2 ^ b \<le> u * 2 ^ b" by (rule mult_right_mono [OF lo]) simp
    then have "q * T * 2 ^ b \<le> u * 2 ^ b + u * eps" by (rule trans_le_add1)
    then show ?thesis unfolding uF by (simp only: ac_simps)
  qed
  then have 1: "q * 2 ^ b \<le> u * F * 10 ^ i" using T(1) by simp
  have "u * F * 10 ^ i * T < (u + 1) * 2 ^ b" unfolding uF using assms(2) by simp
  also have "\<dots> \<le> (q + 1) * T * 2 ^ b" using hi by (intro mult_right_mono) simp_all
  finally have "u * F * 10 ^ i * T < (q + 1) * 2 ^ b * T" by (simp only: ac_simps)
  then have 2: "u * F * 10 ^ i < (q + 1) * 2 ^ b" by simp
  show ?thesis using 1 2 unfolding q_def [unfolded T_def, symmetric] by (intro div_nat_eqI) (simp_all add: ac_simps)
qed

text \<open>The invariant of the digits: what was shown and what is left, before the digit \<open>i\<close>.\<close>

definition lead :: "nat \<Rightarrow> nat \<Rightarrow> nat \<Rightarrow> nat" where
  "lead K i u = (if i = 0 then 0 else u div 10 ^ (K - (i - 1)))"

definition shown :: "bool \<Rightarrow> nat \<Rightarrow> nat \<Rightarrow> nat list" where
  "shown lz i q = (if lz then digits i q else if q = 0 then [] else decimal q)"

definition i2a_inv ::
    "nat \<Rightarrow> nat \<Rightarrow> nat \<Rightarrow> bool \<Rightarrow> nat \<Rightarrow> nat \<Rightarrow> bytes \<Rightarrow> nat \<Rightarrow> nat \<times> bool \<times> 'a::len word \<times> bytes \<Rightarrow> bool" where
  "i2a_inv b K F lz u p m i = (\<lambda>(ptr, nz, x, mem).
     unat x * 2 ^ i + 2 ^ b * 10 * lead K i u = u * F * 10 ^ i \<and>
     nz = (lz \<or> lead K i u \<noteq> 0) \<and>
     ptr = p + length (shown lz i (lead K i u)) \<and>
     (\<forall>t. t \<noteq> [] \<longrightarrow> memcpy_out ptr t mem = memcpy_out p (ascii (shown lz i (lead K i u)) @ t) m))"

lemma lead_Suc: "i \<le> K \<Longrightarrow> lead K (Suc i) u = u div 10 ^ (K - i)"
  by (simp add: lead_def)

lemma lead_div: "u < 10 ^ Suc K \<Longrightarrow> i \<le> K \<Longrightarrow> lead K (Suc i) u div 10 = lead K i u"
proof (cases i)
  case 0
  moreover assume "u < 10 ^ Suc K"
  ultimately show ?thesis by (simp add: lead_def div_less_iff_less_mult flip: div_mult2_eq)
next
  case (Suc j)
  moreover assume "i \<le> K"
  ultimately show ?thesis by (simp add: lead_def Suc_diff_Suc flip: div_mult2_eq power_Suc2)
qed

lemma digit_of_x:
  assumes "unat (x :: 'a::len word) * 2 ^ i + 2 ^ b * 10 * q = u * F * 10 ^ i" "i \<le> b" "(u * F * 10 ^ i) div 2 ^ b = q'"
  shows "q' = unat (drop_bit (b - i) x) + 10 * q"
    "unat (x AND ecb_i2a_mask (b - i)) * 5 * 2 ^ Suc i + 2 ^ b * 10 * q' = u * F * 10 ^ Suc i"
    "unat (x AND ecb_i2a_mask (b - i)) < 2 ^ b"
proof -
  define P where "P = (2::nat) ^ (b - i)"
  define X where "X = unat x"
  have P: "P * 2 ^ i = 2 ^ b" using assms(2) by (simp add: P_def flip: power_add)
  have "q' = (X * 2 ^ i + 2 ^ b * 10 * q) div 2 ^ b" using assms(1,3) by (simp add: X_def)
  also have "\<dots> = X * 2 ^ i div 2 ^ b + 10 * q" by (simp add: mult.assoc)
  also have "X * 2 ^ i div 2 ^ b = X div P" by (simp add: P [symmetric])
  finally have q': "q' = X div P + 10 * q" .
  then show "q' = unat (drop_bit (b - i) x) + 10 * q" by (simp add: unat_shr X_def P_def)
  have "(ecb_i2a_mask (b - i) :: 'a word) = mask (b - i)"
    by (simp add: ecb_i2a_mask_def mask_eq_exp_minus_1 push_bit_eq_mult)
  then have R: "unat (x AND ecb_i2a_mask (b - i)) = X mod P"
    by (simp only: X_def P_def) (metis take_bit_eq_mask unsigned_take_bit_eq take_bit_eq_mod)
  have "X = P * (X div P) + X mod P" by simp
  then have "X * 2 ^ i = 2 ^ b * (X div P) + X mod P * 2 ^ i"
    by (metis P distrib_right mult.commute mult.assoc)
  moreover have "X mod P * 5 * 2 ^ Suc i = 10 * (X mod P * 2 ^ i)" by simp
  ultimately have "X mod P * 5 * 2 ^ Suc i + 2 ^ b * 10 * (X div P) = 10 * (X * 2 ^ i)" by simp
  then have "X mod P * 5 * 2 ^ Suc i + 2 ^ b * 10 * q' = 10 * (X * 2 ^ i + 2 ^ b * 10 * q)"
    by (simp add: q' distrib_left)
  also have "\<dots> = u * F * 10 ^ Suc i" using assms(1) by (simp add: X_def)
  finally show "unat (x AND ecb_i2a_mask (b - i)) * 5 * 2 ^ Suc i + 2 ^ b * 10 * q' = u * F * 10 ^ Suc i"
    by (simp only: R)
  have "X mod P < P" "P \<le> 2 ^ b" by (simp_all add: P_def)
  then show "unat (x AND ecb_i2a_mask (b - i)) < 2 ^ b" by (simp only: R)
qed

lemma memcpy_out_upd: "t \<noteq> [] \<Longrightarrow> memcpy_out p t (m(p := c)) = memcpy_out p t m"
  by (auto simp: memcpy_out_def)

lemma memcpy_out_one: "memcpy_out p [c] m = m(p := c)"
  by (auto simp: memcpy_out_def)

lemma memcpy_out_append: "memcpy_out (p + length s) t (memcpy_out p s m) = memcpy_out p (s @ t) m"
  by (rule ext) (auto simp: memcpy_out_def nth_append diff_diff_left split: if_splits)

lemma shown_Suc:
  assumes "q' = 10 * q + d" "d < 10"
  shows "shown lz (Suc i) q' = (if lz \<or> q \<noteq> 0 \<or> d \<noteq> 0 then shown lz i q @ [d] else [])"
  using assms by (cases "q = 0") (auto simp: shown_def decimal.simps [of "10 * q + d"] decimal.simps [of d])

lemma shown_last:
  assumes "n = 10 * q + d" "d < 10"
  shows "shown lz K q @ [d] = (if lz then digits (Suc K) n else decimal n)"
  using assms by (cases "q = 0") (auto simp: shown_def decimal.simps [of "10 * q + d"] decimal.simps [of d])

lemma word_of_unat_ucast: "ucast (w :: 'a::len word) = (of_nat (unat w) :: 'b::len word)"
  by simp

lemma i2a_step:
  fixes st :: "nat \<times> bool \<times> 'a::len word \<times> bytes"
  assumes F: "F * 10 ^ K = 2 ^ b + eps" "u * eps < 2 ^ b" "u < 10 ^ Suc K" "K \<le> b" "5 * 2 ^ b \<le> (2::nat) ^ LENGTH('a)"
    and i: "i \<le> K" and inv: "i2a_inv b K F lz u p m i st"
  obtains ptr nz x mem d where "st = (ptr, nz, x, mem)" "d < 10" "lead K (Suc i) u = 10 * lead K i u + d"
    "nz = (lz \<or> lead K i u \<noteq> 0)" "ptr = p + length (shown lz i (lead K i u))"
    "\<forall>t. t \<noteq> [] \<longrightarrow> memcpy_out ptr t mem = memcpy_out p (ascii (shown lz i (lead K i u)) @ t) m"
    "ecb_i2a_digit b (10 ^ K) (10 ^ i) i st =
      (ptr + (if i = K \<or> nz \<or> d \<noteq> 0 then 1 else 0), i = K \<or> nz \<or> d \<noteq> 0, (x AND ecb_i2a_mask (b - i)) * 5,
       mem(ptr := of_nat d + 48))"
    "unat ((x AND ecb_i2a_mask (b - i)) * 5) * 2 ^ Suc i + 2 ^ b * 10 * lead K (Suc i) u = u * F * 10 ^ Suc i"
proof -
  obtain ptr nz x mem where st: "st = (ptr, nz, x, mem)" by (cases st)
  let ?q = "lead K i u" and ?q' = "lead K (Suc i) u"
  have v: "unat x * 2 ^ i + 2 ^ b * 10 * ?q = u * F * 10 ^ i" "nz = (lz \<or> ?q \<noteq> 0)"
      "ptr = p + length (shown lz i ?q)"
      "\<forall>t. t \<noteq> [] \<longrightarrow> memcpy_out ptr t mem = memcpy_out p (ascii (shown lz i ?q) @ t) m"
    using inv by (auto simp: i2a_inv_def st)
  have "(u * F * 10 ^ i) div 2 ^ b = ?q'" using scaled_leading [OF F(1,2) i] lead_Suc [OF i] by simp
  note x = digit_of_x [OF v(1) order.trans [OF i F(4)] this]
  define d where "d = unat (drop_bit (b - i) x)"
  have q': "?q' = 10 * ?q + d" using x(1) by (simp add: d_def)
  moreover have "?q' div 10 = ?q" by (rule lead_div [OF F(3) i])
  ultimately have d: "d < 10" by simp
  have ud: "(ucast (drop_bit (b - i) x) :: u8) = of_nat d" unfolding d_def by (rule word_of_unat_ucast)
  have "unat (of_nat d :: u8) = d" using d by (simp add: unsigned_of_nat take_bit_nat_eq_self)
  then have "of_nat d \<noteq> (0 :: u8) \<longleftrightarrow> d \<noteq> 0" by (metis unat_eq_zero)
  then have e: "ecb_i2a_digit b (10 ^ K) (10 ^ i) i st =
      (ptr + (if i = K \<or> nz \<or> d \<noteq> 0 then 1 else 0), i = K \<or> nz \<or> d \<noteq> 0, (x AND ecb_i2a_mask (b - i)) * 5,
       mem(ptr := of_nat d + 48))"
    using i by (auto simp: ecb_i2a_digit_def st ud Let_def)
  have "unat (x AND ecb_i2a_mask (b - i)) * 5 < 2 ^ LENGTH('a)" using x(3) F(5) by linarith
  moreover have "unat (5 :: 'a word) = 5 mod 2 ^ LENGTH('a)" by (simp only: unsigned_numeral take_bit_eq_mod of_nat_id)
  ultimately have "unat ((x AND ecb_i2a_mask (b - i)) * 5) = unat (x AND ecb_i2a_mask (b - i)) * 5"
    by (simp only: unat_word_ariths mod_mult_right_eq mod_less)
  with x(2) show ?thesis using that [OF st d q' v(2-4) e] by simp
qed

lemma i2a_fold_inv:
  fixes x :: "'a::len word"
  assumes F: "F * 10 ^ K = 2 ^ b + eps" "u * eps < 2 ^ b" "u < 10 ^ Suc K" "K \<le> b" "5 * 2 ^ b \<le> (2::nat) ^ LENGTH('a)"
    and x: "unat x = u * F" and i: "i \<le> K"
  shows "i2a_inv b K F lz u p m i (fold (\<lambda>i. ecb_i2a_digit b (10 ^ K) (10 ^ i) i) [0..<i] (p, lz, x, m))"
  using i
proof (induction i)
  case 0
  then show ?case by (simp add: i2a_inv_def x lead_def shown_def ascii_def)
next
  case (Suc i)
  let ?st = "fold (\<lambda>i. ecb_i2a_digit b (10 ^ K) (10 ^ i) i) [0..<i] (p, lz, x, m)"
  have "i \<le> K" "i2a_inv b K F lz u p m i ?st" using Suc by simp_all
  then obtain ptr nz x mem d where
    s: "?st = (ptr, nz, x, mem)" "d < 10" "lead K (Suc i) u = 10 * lead K i u + d" "nz = (lz \<or> lead K i u \<noteq> 0)"
      "ptr = p + length (shown lz i (lead K i u))"
      "\<forall>t. t \<noteq> [] \<longrightarrow> memcpy_out ptr t mem = memcpy_out p (ascii (shown lz i (lead K i u)) @ t) m"
      "ecb_i2a_digit b (10 ^ K) (10 ^ i) i ?st =
        (ptr + (if i = K \<or> nz \<or> d \<noteq> 0 then 1 else 0), i = K \<or> nz \<or> d \<noteq> 0, (x AND ecb_i2a_mask (b - i)) * 5,
         mem(ptr := of_nat d + 48))"
      "unat ((x AND ecb_i2a_mask (b - i)) * 5) * 2 ^ Suc i + 2 ^ b * 10 * lead K (Suc i) u = u * F * 10 ^ Suc i"
    by (rule i2a_step [OF F])
  have sh: "shown lz (Suc i) (lead K (Suc i) u) =
      (if lz \<or> lead K i u \<noteq> 0 \<or> d \<noteq> 0 then shown lz i (lead K i u) @ [d] else [])"
    by (rule shown_Suc [OF s(3,2)])
  have mem: "memcpy_out (ptr + 1) t (mem(ptr := of_nat d + 48)) = memcpy_out p (ascii (shown lz i (lead K i u) @ [d]) @ t) m"
    for t
    using memcpy_out_append [of ptr "[of_nat d + 48]" t mem] s(6) [rule_format, of "(of_nat d + 48) # t"]
    by (simp add: memcpy_out_one ascii_def)
  have mem0: "t \<noteq> [] \<Longrightarrow> memcpy_out ptr t (mem(ptr := of_nat d + 48)) = memcpy_out p (ascii (shown lz i (lead K i u)) @ t) m"
    for t
    using s(6) by (simp add: memcpy_out_upd)
  have "i < K" using Suc.prems by simp
  then have "i2a_inv b K F lz u p m (Suc i) (ecb_i2a_digit b (10 ^ K) (10 ^ i) i ?st)"
    unfolding s(7) using s(3,4,5,8) mem mem0 sh by (auto simp: i2a_inv_def shown_def ascii_def)
  then show ?case by simp
qed

definition out :: "nat \<Rightarrow> nat list \<Rightarrow> bytes \<Rightarrow> nat \<times> bytes" where
  "out p ds m = (p + length ds, memcpy_out p (ascii ds) m)"

lemma length_ascii [simp]: "length (ascii ds) = length ds"
  by (simp add: ascii_def)

lemma out_append: "out (p + length ds) es (memcpy_out p (ascii ds) m) = out p (ds @ es) m"
  using memcpy_out_append [of p "ascii ds" "ascii es" m] by (simp add: out_def) (simp add: ascii_def)

text \<open>The macro writes the decimal text, for all its instances and all numbers that satisfy its limits.\<close>

lemma ecb_i2a_def_correct:
  fixes w :: u32
  assumes F: "unat ((ecb_i2a_mask b + of_nat (10 ^ K)) div of_nat (10 ^ K) :: 'a::len word) = F"
      "F * 10 ^ K = 2 ^ b + eps" "5 * 2 ^ b \<le> (2::nat) ^ LENGTH('a)" "K \<le> b" "K < 10" "32 \<le> LENGTH('a)"
    and u: "unat w * eps < 2 ^ b" "unat w < 10 ^ Suc K" "unat w * F < 2 ^ LENGTH('a)"
  shows "ecb_i2a_def TYPE('a) b (10 ^ K) lz p w m = out p (if lz then digits (Suc K) (unat w) else decimal (unat w)) m"
proof -
  define x where "x = (ucast w :: 'a word) * ((ecb_i2a_mask b + of_nat (10 ^ K)) div of_nat (10 ^ K))"
  have "unat (ucast w :: 'a word) = unat w"
  proof -
    have "unat w < 2 ^ 32" using unsigned_less [of w] by simp
    also have "(2::nat) ^ 32 \<le> 2 ^ LENGTH('a)" using F(6) by (rule power_increasing) simp
    finally show ?thesis by (simp add: unsigned_ucast_eq take_bit_nat_eq_self)
  qed
  then have x: "unat x = unat w * F"
    unfolding x_def unat_word_ariths(2) F(1) using u(3) by simp
  let ?f = "\<lambda>i. ecb_i2a_digit b (10 ^ K) (10 ^ i) i :: _ \<Rightarrow> nat \<times> bool \<times> 'a word \<times> bytes"
  let ?st = "fold ?f [0..<K] (p, lz, x, m)"
  have "i2a_inv b K F lz (unat w) p m K ?st"
    by (rule i2a_fold_inv [OF F(2) u(1,2) F(4,3) x order.refl])
  then obtain ptr nz y mem d where
    s: "?st = (ptr, nz, y, mem)" "d < 10" "lead K (Suc K) (unat w) = 10 * lead K K (unat w) + d"
      "nz = (lz \<or> lead K K (unat w) \<noteq> 0)" "ptr = p + length (shown lz K (lead K K (unat w)))"
      "\<forall>t. t \<noteq> [] \<longrightarrow> memcpy_out ptr t mem = memcpy_out p (ascii (shown lz K (lead K K (unat w))) @ t) m"
      "?f K ?st = (ptr + (if K = K \<or> nz \<or> d \<noteq> 0 then 1 else 0), K = K \<or> nz \<or> d \<noteq> 0, (y AND ecb_i2a_mask (b - K)) * 5,
         mem(ptr := of_nat d + 48))"
      "unat ((y AND ecb_i2a_mask (b - K)) * 5) * 2 ^ Suc K + 2 ^ b * 10 * lead K (Suc K) (unat w) = unat w * F * 10 ^ Suc K"
    by (rule i2a_step [OF F(2) u(1,2) F(4,3) order.refl])
  have w: "unat w = 10 * lead K K (unat w) + d" using s(3) by (simp add: lead_def)
  define l where "l = shown lz K (lead K K (unat w))"
  define e where "e = (if lz then digits (Suc K) (unat w) else decimal (unat w))"
  have e: "l @ [d] = e" unfolding l_def e_def by (rule shown_last [OF w s(2)])
  have mem: "mem(ptr := of_nat d + 48) = memcpy_out p (ascii e) m"
    unfolding e [symmetric] using s(6) [rule_format, of "[of_nat d + 48]"]
    by (simp add: memcpy_out_one ascii_def l_def)
  have ptr: "ptr + 1 = p + length e" unfolding e [symmetric] s(5) l_def by simp
  have K: "?f K ?st = (p + length e, True, (y AND ecb_i2a_mask (b - K)) * 5, memcpy_out p (ascii e) m)"
    unfolding s(7) mem ptr [symmetric] by simp
  have rest: "fold ?f [Suc K..<10] st = st" for st
  proof -
    have "?f i st = st" if "K < i" for i st
    proof -
      have "\<not> (10::nat) ^ i \<le> 10 ^ K" using that by (simp only: not_le power_strict_increasing one_less_numeral_iff semiring_norm)
      then show ?thesis by (cases st) (simp only: ecb_i2a_digit_def prod.case if_False)
    qed
    then show ?thesis by (intro fold_invariant [of _ "\<lambda>i. K < i" "\<lambda>st'. st' = st"]) auto
  qed
  have "[0..<10] = [0..<K] @ K # [Suc K..<10]"
    using F(5) by (metis less_imp_le_nat upt_add_eq_append upt_conv_Cons le_add_diff_inverse zero_le)
  then have "fold ?f [0..<10] (p, lz, x, m) = ?f K ?st" using rest by simp
  then show ?thesis unfolding ecb_i2a_def_def x_def [symmetric] Let_def e_def [symmetric] K by (simp add: out_def K)
qed

section \<open>The instances\<close>

lemma ecb_i2a_x5_correct: "unat u \<le> ECB_I2A_MAX_X5 \<Longrightarrow> ecb_i2a_x5 p u m = out p (decimal (unat u)) m"
  using ecb_i2a_def_correct [of 26 4 6711 1136 u False p m, where 'a = 32]
  by (simp add: ecb_i2a_x5_def ECB_I2A_MAX_X5_def ecb_i2a_mask_def)

lemma ecb_i2a_x10_correct: "unat u \<le> ECB_I2A_MAX_X10 \<Longrightarrow> ecb_i2a_x10 p u m = out p (decimal (unat u)) m"
  using ecb_i2a_def_correct [of 60 9 1152921505 393153024 u False p m, where 'a = 64]
  by (simp add: ecb_i2a_x10_def ECB_I2A_MAX_X10_def ecb_i2a_mask_def)

lemma ecb_i2a_short_correct:
  "unat u < 10 ^ 2 \<Longrightarrow> ecb_i2a_2 p u m = out p (decimal (unat u)) m"
  "unat u < 10 ^ 3 \<Longrightarrow> ecb_i2a_3 p u m = out p (decimal (unat u)) m"
  "unat u < 10 ^ 4 \<Longrightarrow> ecb_i2a_4 p u m = out p (decimal (unat u)) m"
  "unat u < 10 ^ 5 \<Longrightarrow> ecb_i2a_5 p u m = out p (decimal (unat u)) m"
  "unat u < 10 ^ 6 \<Longrightarrow> ecb_i2a_6 p u m = out p (decimal (unat u)) m"
  "unat u < 10 ^ 7 \<Longrightarrow> ecb_i2a_7 p u m = out p (decimal (unat u)) m"
  "unat u < 10 ^ 8 \<Longrightarrow> ecb_i2a_8 p u m = out p (decimal (unat u)) m"
  "unat u < 10 ^ 9 \<Longrightarrow> ecb_i2a_9 p u m = out p (decimal (unat u)) m"
  using ecb_i2a_def_correct [of 10 1 103 6 u False p m, where 'a = 32]
    ecb_i2a_def_correct [of 12 2 41 4 u False p m, where 'a = 32]
    ecb_i2a_def_correct [of 26 3 67109 136 u False p m, where 'a = 32]
    ecb_i2a_def_correct [of 30 4 107375 8176 u False p m, where 'a = 64]
    ecb_i2a_def_correct [of 36 5 687195 23264 u False p m, where 'a = 64]
    ecb_i2a_def_correct [of 44 6 17592187 955584 u False p m, where 'a = 64]
    ecb_i2a_def_correct [of 50 7 112589991 3157376 u False p m, where 'a = 64]
    ecb_i2a_def_correct [of 56 8 720575941 62072064 u False p m, where 'a = 64]
  by (simp_all add: ecb_i2a_mask_def ecb_i2a_2_def ecb_i2a_3_def ecb_i2a_4_def ecb_i2a_5_def ecb_i2a_6_def ecb_i2a_7_def ecb_i2a_8_def ecb_i2a_9_def)

lemma ecb_i2a_zeros_correct:
  "unat u < 10 ^ 2 \<Longrightarrow> ecb_i2a_02 p u m = out p (digits 2 (unat u)) m"
  "unat u < 10 ^ 3 \<Longrightarrow> ecb_i2a_03 p u m = out p (digits 3 (unat u)) m"
  "unat u < 10 ^ 4 \<Longrightarrow> ecb_i2a_04 p u m = out p (digits 4 (unat u)) m"
  "unat u < 10 ^ 5 \<Longrightarrow> ecb_i2a_05 p u m = out p (digits 5 (unat u)) m"
  "unat u < 10 ^ 6 \<Longrightarrow> ecb_i2a_06 p u m = out p (digits 6 (unat u)) m"
  "unat u < 10 ^ 7 \<Longrightarrow> ecb_i2a_07 p u m = out p (digits 7 (unat u)) m"
  "unat u < 10 ^ 8 \<Longrightarrow> ecb_i2a_08 p u m = out p (digits 8 (unat u)) m"
  "unat u < 10 ^ 9 \<Longrightarrow> ecb_i2a_09 p u m = out p (digits 9 (unat u)) m"
  using ecb_i2a_def_correct [of 10 1 103 6 u True p m, where 'a = 32]
    ecb_i2a_def_correct [of 12 2 41 4 u True p m, where 'a = 32]
    ecb_i2a_def_correct [of 26 3 67109 136 u True p m, where 'a = 32]
    ecb_i2a_def_correct [of 30 4 107375 8176 u True p m, where 'a = 64]
    ecb_i2a_def_correct [of 36 5 687195 23264 u True p m, where 'a = 64]
    ecb_i2a_def_correct [of 44 6 17592187 955584 u True p m, where 'a = 64]
    ecb_i2a_def_correct [of 50 7 112589991 3157376 u True p m, where 'a = 64]
    ecb_i2a_def_correct [of 56 8 720575941 62072064 u True p m, where 'a = 64]
  by (simp_all add: ecb_i2a_mask_def ecb_i2a_02_def ecb_i2a_03_def ecb_i2a_04_def ecb_i2a_05_def ecb_i2a_06_def ecb_i2a_07_def ecb_i2a_08_def ecb_i2a_09_def del: digits.simps flip: numeral_2_eq_2)

section \<open>Whole integers: what is written\<close>

lemma unat_div_mod: "unat (x div y) = unat x div unat (y :: 'a::len word)" "unat (x mod y) = unat x mod unat y"
  by (simp_all add: unat_div unat_mod)

lemma unat_to32: "unat (x :: u64) < 2 ^ 32 \<Longrightarrow> unat (ucast x :: u32) = unat x"
  by (simp add: unsigned_ucast_eq take_bit_nat_eq_self)

text \<open>Two pieces: the leading part and the digits that follow.\<close>

lemma two_pieces:
  assumes "f p m = out p (decimal a) m" "\<And>p m. g p m = out p (digits k b) m" "0 < a" "b < 10 ^ k"
  shows "(case f p m of (p, m) \<Rightarrow> g p m) = out p (decimal (a * 10 ^ k + b)) m"
  using assms by (simp add: decimal_split flip: out_append) (simp add: out_def)

lemma i2a_u64_else_correct: "i2a_u64_else p u m = out p (decimal (unat u)) m"
proof (induction p u m rule: i2a_u64_else.induct)
  case (1 p u m)
  show ?case
  proof (cases "u \<le> of_nat ECB_I2A_MAX_X5")
    case True
    then have "unat u \<le> ECB_I2A_MAX_X5" by (simp add: word_le_nat_alt ECB_I2A_MAX_X5_def)
    moreover from this have "unat (ucast u :: u32) = unat u" by (intro unat_to32) (simp add: ECB_I2A_MAX_X5_def)
    ultimately show ?thesis using True ecb_i2a_x5_correct [of "ucast u"] by (simp add: i2a_u64_else.simps)
  next
    case False
    have u: "unat (u div 10000) = unat u div 10000" "unat (u mod 10000) = unat u mod 10000"
      by (simp_all add: unat_div_mod)
    have "unat (ucast (u mod 10000) :: u32) = unat u mod 10000"
      using u(2) by (subst unat_to32) (simp_all add: less_trans [OF mod_less_divisor])
    then have g: "ecb_i2a_04 p (ucast (u mod 10000)) m = out p (digits 4 (unat u mod 10000)) m" for p m
      using ecb_i2a_zeros_correct(3) [of "ucast (u mod 10000)"] by simp
    have "0 < unat u div 10000" using False by (simp add: word_le_nat_alt ECB_I2A_MAX_X5_def div_greater_zero_iff)
    then have "(case i2a_u64_else p (u div 10000) m of (p, m) \<Rightarrow> ecb_i2a_04 p (ucast (u mod 10000)) m) =
        out p (decimal (unat u div 10000 * 10 ^ 4 + unat u mod 10000)) m"
      using 1 [OF False refl refl] by (intro two_pieces g) (simp_all add: u)
    then show ?thesis using False by (subst i2a_u64_else.simps) (simp add: Let_def)
  qed
qed

text \<open>Pieces of nine digits, and the three ways the functions for 64 bits put them together.\<close>

lemma nine_digits: "ecb_i2a_09 p (ucast (u mod 1000000000 :: u64)) m = out p (digits 9 (unat u mod 10 ^ 9)) m"
proof -
  have "unat (ucast (u mod 1000000000) :: u32) = unat u mod 10 ^ 9"
    by (subst unat_to32) (simp_all add: unat_div_mod less_trans [OF mod_less_divisor])
  then show ?thesis using ecb_i2a_zeros_correct(8) [of "ucast (u mod 1000000000)"] by simp
qed

lemma x10_64: "unat u \<le> ECB_I2A_MAX_X10 \<Longrightarrow> ecb_i2a_x10 p (ucast (u :: u64)) m = out p (decimal (unat u)) m"
  using unat_to32 [of u] ecb_i2a_x10_correct [of "ucast u"] by (simp add: ECB_I2A_MAX_X10_def)

lemma two_nines:
  assumes "u \<le> of_nat (ECB_I2A_MAX_X10 * 1000000000)" "\<not> u \<le> of_nat ECB_I2A_MAX_X10"
  shows "(case ecb_i2a_x10 p (ucast (u div 1000000000)) m of (p, m) \<Rightarrow> ecb_i2a_09 p (ucast (u mod 1000000000)) m) =
    out p (decimal (unat (u :: u64))) m"
proof -
  have u: "unat u \<le> 2932500665000000000" "2932500665 < unat u"
    using assms by (simp_all add: word_le_nat_alt ECB_I2A_MAX_X10_def)
  have "unat (u div 1000000000) = unat u div 10 ^ 9" by (simp add: unat_div_mod)
  moreover from this u(1) have "unat (u div 1000000000) \<le> ECB_I2A_MAX_X10"
    using div_le_mono [of "unat u" 2932500665000000000 "10 ^ 9"] by (simp add: ECB_I2A_MAX_X10_def)
  moreover have "0 < unat u div 10 ^ 9" using u(2) by (simp add: div_greater_zero_iff)
  ultimately have "(case ecb_i2a_x10 p (ucast (u div 1000000000)) m of (p, m) \<Rightarrow> ecb_i2a_09 p (ucast (u mod 1000000000)) m) =
      out p (decimal (unat u div 10 ^ 9 * 10 ^ 9 + unat u mod 10 ^ 9)) m"
    using x10_64 [of "u div 1000000000"] by (intro two_pieces nine_digits) simp_all
  then show ?thesis by (simp only: div_mult_mod_eq)
qed

lemma three_pieces:
  assumes "f p m = out p (decimal (unat u div 10 ^ 18)) m" "10 ^ 18 \<le> unat u"
  shows "(case f p m of (p, m) \<Rightarrow> case ecb_i2a_09 p (ucast (u div 1000000000 mod 1000000000)) m of (p, m) \<Rightarrow>
      ecb_i2a_09 p (ucast (u mod 1000000000)) m) = out p (decimal (unat (u :: u64))) m"
proof -
  have d: "unat (u div 1000000000) = unat u div 10 ^ 9" by (simp add: unat_div_mod)
  have "0 < unat u div 10 ^ 18" using assms(2) by (simp add: div_greater_zero_iff)
  then have "(case f p m of (p, m) \<Rightarrow> ecb_i2a_09 p (ucast (u div 1000000000 mod 1000000000)) m) =
      out p (decimal (unat u div 10 ^ 18 * 10 ^ 9 + unat u div 10 ^ 9 mod 10 ^ 9)) m"
    using nine_digits [of _ "u div 1000000000"] by (intro two_pieces assms(1)) (simp_all add: d)
  also have "unat u div 10 ^ 18 * 10 ^ 9 + unat u div 10 ^ 9 mod 10 ^ 9 = unat u div 10 ^ 9"
    using div_mult_mod_eq [of "unat u div 10 ^ 9" "10 ^ 9"] by (simp flip: div_mult2_eq)
  finally have 2: "(case f p m of (p, m) \<Rightarrow> ecb_i2a_09 p (ucast (u div 1000000000 mod 1000000000)) m) =
      out p (decimal (unat u div 10 ^ 9)) m" .
  have "0 < unat u div 10 ^ 9" using assms(2) by (simp add: div_greater_zero_iff)
  then have "(case (case f p m of (p, m) \<Rightarrow> ecb_i2a_09 p (ucast (u div 1000000000 mod 1000000000)) m) of (p, m) \<Rightarrow>
      ecb_i2a_09 p (ucast (u mod 1000000000)) m) = out p (decimal (unat u div 10 ^ 9 * 10 ^ 9 + unat u mod 10 ^ 9)) m"
    using two_pieces [of "\<lambda>p m. case f p m of (p, m) \<Rightarrow> ecb_i2a_09 p (ucast (u div 1000000000 mod 1000000000)) m"
      p m "unat u div 10 ^ 9" "\<lambda>p m. ecb_i2a_09 p (ucast (u mod 1000000000)) m" 9 "unat u mod 10 ^ 9"] 2 nine_digits [of _ u]
    by simp
  then show ?thesis by (simp only: div_mult_mod_eq case_prod_beta)
qed

lemma ecb_i2a_u64_out: "ecb_i2a_u64 native p u m = out p (decimal (unat u)) m"
proof -
  consider "\<not> native" | "native" "u \<le> of_nat ECB_I2A_MAX_X10"
    | "native" "\<not> u \<le> of_nat ECB_I2A_MAX_X10" "u \<le> of_nat (ECB_I2A_MAX_X10 * 1000000000)"
    | "native" "\<not> u \<le> of_nat ECB_I2A_MAX_X10" "\<not> u \<le> of_nat (ECB_I2A_MAX_X10 * 1000000000)" by blast
  then show ?thesis
  proof cases
    case 1
    then show ?thesis by (simp add: ecb_i2a_u64_def i2a_u64_else_correct)
  next
    case 2
    then have "unat u \<le> ECB_I2A_MAX_X10" by (simp add: word_le_nat_alt ECB_I2A_MAX_X10_def)
    then show ?thesis using 2 x10_64 by (simp add: ecb_i2a_u64_def)
  next
    case 3
    then show ?thesis using two_nines [of u p m] by (simp add: ecb_i2a_u64_def Let_def)
  next
    case 4
    have big: "10 ^ 18 \<le> unat u" using 4(3) by (simp add: word_le_nat_alt ECB_I2A_MAX_X10_def)
    have "unat (u div 1000000000 div 1000000000) = unat u div 10 ^ 18"
      by (simp add: unat_div_mod flip: div_mult2_eq)
    moreover have "unat u < 2 ^ 64" using unsigned_less [of u] by simp
    then have "unat u div 10 ^ 18 < 10 ^ 2" by (simp add: div_less_iff_less_mult)
    ultimately have "ecb_i2a_2 p (ucast (u div 1000000000 div 1000000000)) m = out p (decimal (unat u div 10 ^ 18)) m"
      using unat_to32 [of "u div 1000000000 div 1000000000"]
        ecb_i2a_short_correct(1) [of "ucast (u div 1000000000 div 1000000000)"] by simp
    from three_pieces [of "\<lambda>p m. ecb_i2a_2 p (ucast (u div 1000000000 div 1000000000)) m", OF this big]
    show ?thesis using 4 by (simp add: ecb_i2a_u64_def Let_def)
  qed
qed

section \<open>Signed numbers\<close>

definition put :: "nat \<Rightarrow> u8 list \<Rightarrow> bytes \<Rightarrow> nat \<times> bytes" where
  "put p s m = (p + length s, memcpy_out p s m)"

definition decimal_text :: "int \<Rightarrow> u8 list" where
  "decimal_text v = (if v < 0 then [45] else []) @ ascii (decimal (nat \<bar>v\<bar>))"

definition read_int :: "u8 list \<Rightarrow> int" where
  "read_int s = (if hd s = 45 then - int (number (tl s)) else int (number s))"

lemma decimal_not_Nil: "decimal n \<noteq> []"
  by (subst decimal.simps) simp

lemma digit_no_sign: "d < 10 \<Longrightarrow> of_nat d + 48 \<noteq> (45 :: u8)"
proof
  assume "d < 10" "of_nat d + 48 = (45 :: u8)"
  then have "unat (of_nat d + 48 :: u8) = unat (45 :: u8)" by (simp only:)
  then have "unat (of_nat d + 48 :: u8) = 45" by simp
  moreover have "unat (of_nat d :: u8) = d" using \<open>d < 10\<close> by (simp add: unsigned_of_nat take_bit_nat_eq_self)
  ultimately show False using \<open>d < 10\<close> by (simp add: unat_plus_if')
qed

lemma read_decimal_text: "read_int (decimal_text v) = v"
proof -
  have "hd (ascii (decimal (nat v))) \<noteq> 45"
    using decimal_not_Nil [of "nat v"] decimal_digits_less [of "hd (decimal (nat v))" "nat v"]
    by (simp add: ascii_def hd_map digit_no_sign)
  then show ?thesis by (simp add: read_int_def decimal_text_def number_decimal)
qed

lemma out_put: "out p ds m = put p (ascii ds) m"
  by (simp add: out_def put_def)

lemma sint_range: "sint v < 2 ^ LENGTH('a)" "- sint v < 2 ^ LENGTH('a)" for v :: "'a::len word"
proof -
  have "(2::int) ^ (LENGTH('a) - 1) < 2 ^ LENGTH('a)" by (rule power_strict_increasing) simp_all
  then show "sint v < 2 ^ LENGTH('a)" "- sint v < 2 ^ LENGTH('a)" using sint_lt [of v] sint_ge [of v] by linarith+
qed

lemma abs_of_signed: "unat (if sint v < 0 then - v else v :: 'a::len word) = nat \<bar>sint v\<bar>"
proof (cases "sint v < 0")
  case True
  have w: "- v = word_of_int (- sint v)" by simp
  note sint_range [of v]
  then have "uint (- v) = - sint v"
    using True unfolding w by (simp only: uint_word_of_int_eq take_bit_int_eq_self neg_0_le_iff_le less_imp_le)
  then show ?thesis using True by (metis abs_of_neg nat_uint_eq if_True)
next
  case False
  have "uint v = sint v" using False sint_range(1) [of v] by (simp add: uint_sint take_bit_int_eq_self)
  then show ?thesis using False by (metis abs_of_nonneg nat_uint_eq if_False not_less)
qed

lemma signed_text:
  assumes "\<And>p m. f p m = out p (decimal (nat \<bar>v\<bar>)) m"
  shows "(case i2a_sign (v < 0) p m of (p, m) \<Rightarrow> f p m) = put p (decimal_text v) m"
proof (cases "v < 0")
  case True
  then show ?thesis
    using memcpy_out_append [of p "[45]" "ascii (decimal (nat \<bar>v\<bar>))" m]
    by (simp add: assms i2a_sign_def put_def out_def decimal_text_def memcpy_out_one)
next
  case False
  have "ascii (decimal (nat \<bar>v\<bar>)) \<noteq> []" using decimal_not_Nil by (simp add: ascii_def)
  then show ?thesis
    using False memcpy_out_upd [of "ascii (decimal (nat \<bar>v\<bar>))" p m 45]
    by (simp add: assms i2a_sign_def put_def out_def decimal_text_def)
qed

lemma i2a_i64_digits_out:
  assumes "unat u < 10 ^ 19"
  shows "i2a_i64_digits p u m = out p (decimal (unat u)) m"
proof -
  consider "u \<le> of_nat ECB_I2A_MAX_X10"
    | "\<not> u \<le> of_nat ECB_I2A_MAX_X10" "u \<le> of_nat (ECB_I2A_MAX_X10 * 1000000000)"
    | "\<not> u \<le> of_nat ECB_I2A_MAX_X10" "\<not> u \<le> of_nat (ECB_I2A_MAX_X10 * 1000000000)" by blast
  then show ?thesis
  proof cases
    case 1
    then have "unat u \<le> ECB_I2A_MAX_X10" by (simp add: word_le_nat_alt ECB_I2A_MAX_X10_def)
    then show ?thesis using 1 x10_64 by (simp add: i2a_i64_digits_def)
  next
    case 2
    then show ?thesis using two_nines [of u p m] by (simp add: i2a_i64_digits_def Let_def)
  next
    case 3
    have big: "10 ^ 18 \<le> unat u" using 3(2) by (simp add: word_le_nat_alt ECB_I2A_MAX_X10_def)
    have "unat (u div 1000000000 div 1000000000) = unat u div 10 ^ 18"
      by (simp add: unat_div_mod flip: div_mult2_eq)
    moreover have "unat u div 10 ^ 18 < 10" using assms by (simp add: div_less_iff_less_mult)
    ultimately have "(p + 1, m(p := ucast (u div 1000000000 div 1000000000) + 48)) = out p (decimal (unat u div 10 ^ 18)) m"
      by (simp add: out_def ascii_def decimal.simps word_of_unat_ucast memcpy_out_one del: of_nat_unat)
    from three_pieces [of "\<lambda>p m. (p + 1, m(p := ucast (u div 1000000000 div 1000000000) + 48))", OF this big]
    show ?thesis using 3 by (simp add: i2a_i64_digits_def Let_def)
  qed
qed

lemma ecb_i2a_i64_text: "ecb_i2a_i64 native p v m = put p (decimal_text (sint v)) m"
proof -
  let ?u = "if sint v < 0 then - v else v"
  have n: "nat \<bar>sint v\<bar> = unat ?u" by (rule abs_of_signed [symmetric])
  have lt: "nat \<bar>sint v\<bar> < 10 ^ 19" using sint_lt [of v] sint_ge [of v] by simp
  show ?thesis
  proof (cases native)
    case True
    have "i2a_i64_digits p ?u m = out p (decimal (nat \<bar>sint v\<bar>)) m" for p m
      unfolding n by (rule i2a_i64_digits_out) (use lt n in simp)
    from signed_text [of "\<lambda>p m. i2a_i64_digits p ?u m", OF this] True show ?thesis
      by (simp add: ecb_i2a_i64_def Let_def)
  next
    case False
    have "ecb_i2a_u64 False p ?u m = out p (decimal (nat \<bar>sint v\<bar>)) m" for p m
      by (simp only: ecb_i2a_u64_out n)
    from signed_text [of "\<lambda>p m. ecb_i2a_u64 False p ?u m", OF this] False show ?thesis
      by (simp add: ecb_i2a_i64_def Let_def)
  qed
qed

lemma ecb_i2a_i32_text: "ecb_i2a_i32 True p v m = put p (decimal_text (sint v)) m"
proof -
  let ?u = "if sint v < 0 then - v else v"
  have n: "nat \<bar>sint v\<bar> = unat ?u" by (rule abs_of_signed [symmetric])
  have "nat \<bar>sint v\<bar> \<le> ECB_I2A_MAX_X10"
    using sint_lt [of v] sint_ge [of v] by (simp add: ECB_I2A_MAX_X10_def)
  then have "ecb_i2a_x10 p ?u m = out p (decimal (nat \<bar>sint v\<bar>)) m" for p m
    using ecb_i2a_x10_correct [of ?u p m] by (simp only: n)
  from signed_text [of "\<lambda>p m. ecb_i2a_x10 p ?u m", OF this] show ?thesis
    by (simp add: ecb_i2a_i32_def Let_def)
qed

lemma ecb_i2a_u32_text: "ecb_i2a_u32 True p u m = out p (decimal (unat u)) m"
proof (cases "u \<le> of_nat ECB_I2A_MAX_X10")
  case True
  then have "unat u \<le> ECB_I2A_MAX_X10" by (simp add: word_le_nat_alt ECB_I2A_MAX_X10_def)
  then show ?thesis using True ecb_i2a_x10_correct by (simp add: ecb_i2a_u32_def)
next
  case False
  have u: "unat (u div 1000000000) = unat u div 10 ^ 9" "unat (u mod 1000000000) = unat u mod 10 ^ 9"
    by (simp_all add: unat_div_mod)
  have "unat u < 2 ^ 32" using unsigned_less [of u] by simp
  then have "unat u div 10 ^ 9 < 10" by (simp add: div_less_iff_less_mult)
  then have f: "(p + 1, m(p := ucast (u div 1000000000) + 48)) = out p (decimal (unat u div 10 ^ 9)) m"
    using u(1) by (simp add: out_def ascii_def decimal.simps word_of_unat_ucast memcpy_out_one del: of_nat_unat)
  have g: "ecb_i2a_09 p (u mod 1000000000) m = out p (digits 9 (unat u mod 10 ^ 9)) m" for p m
    using ecb_i2a_zeros_correct(8) [of "u mod 1000000000" p m] by (simp add: u(2))
  have "0 < unat u div 10 ^ 9"
    using False by (simp add: word_le_nat_alt ECB_I2A_MAX_X10_def div_greater_zero_iff)
  from two_pieces [of "\<lambda>p m. (p + 1, m(p := ucast (u div 1000000000) + 48))" p m _ "\<lambda>p m. ecb_i2a_09 p (u mod 1000000000) m",
      OF f g this mod_less_divisor]
  show ?thesis using False by (simp add: ecb_i2a_u32_def Let_def)
qed

lemma ecb_i2a_u32_text32:
  assumes "ECB_I2A_MAX_X5 < unat u"
  shows "ecb_i2a_u32 False p u m = out p (decimal (unat u)) m"
proof -
  have u5: "\<not> u \<le> of_nat ECB_I2A_MAX_X5" using assms by (simp add: word_le_nat_alt ECB_I2A_MAX_X5_def)
  have d: "unat (u div 10000) = unat u div 10 ^ 4" "unat (u mod 10000) = unat u mod 10 ^ 4"
      "unat (u div 10000 mod 10000) = unat u div 10 ^ 4 mod 10 ^ 4" "unat (u div 10000 div 10000) = unat u div 10 ^ 8"
    by (simp_all add: unat_div_mod flip: div_mult2_eq)
  have g: "ecb_i2a_04 p (u mod 10000) m = out p (digits 4 (unat u mod 10 ^ 4)) m"
      "ecb_i2a_04 p (u div 10000 mod 10000) m = out p (digits 4 (unat u div 10 ^ 4 mod 10 ^ 4)) m" for p m
    using ecb_i2a_zeros_correct(3) [of "u mod 10000" p m] ecb_i2a_zeros_correct(3) [of "u div 10000 mod 10000" p m]
    by (simp_all add: d)
  have pos: "0 < unat u div 10 ^ 4" using assms by (simp add: ECB_I2A_MAX_X5_def div_greater_zero_iff)
  show ?thesis
  proof (cases "u \<le> of_nat (ECB_I2A_MAX_X5 * 10000)")
    case True
    then have "unat u \<le> 590740000" by (simp add: word_le_nat_alt ECB_I2A_MAX_X5_def)
    then have "unat (u div 10000) \<le> ECB_I2A_MAX_X5"
      using div_le_mono [of "unat u" 590740000 "10 ^ 4"] by (simp add: d ECB_I2A_MAX_X5_def)
    then have "ecb_i2a_x5 p (u div 10000) m = out p (decimal (unat u div 10 ^ 4)) m" using ecb_i2a_x5_correct d(1) by metis
    from two_pieces [of "\<lambda>p m. ecb_i2a_x5 p (u div 10000) m" p m _ "\<lambda>p m. ecb_i2a_04 p (u mod 10000) m",
        OF this g(1) pos mod_less_divisor]
    show ?thesis using True u5 by (simp add: ecb_i2a_u32_def Let_def)
  next
    case False
    then have big: "590740000 < unat u" by (simp add: word_le_nat_alt ECB_I2A_MAX_X5_def)
    have "unat u < 2 ^ 32" using unsigned_less [of u] by simp
    then have "unat u div 10 ^ 8 < 10 ^ 2" by (simp add: div_less_iff_less_mult)
    then have f: "ecb_i2a_2 p (u div 10000 div 10000) m = out p (decimal (unat u div 10 ^ 8)) m"
      using ecb_i2a_short_correct(1) [of "u div 10000 div 10000" p m] by (simp add: d)
    have pos8: "0 < unat u div 10 ^ 8" using big by (simp add: div_greater_zero_iff)
    have "unat u div 10 ^ 8 * 10 ^ 4 + unat u div 10 ^ 4 mod 10 ^ 4 = unat u div 10 ^ 4"
      using div_mult_mod_eq [of "unat u div 10 ^ 4" "10 ^ 4"] by (simp flip: div_mult2_eq)
    with two_pieces [of "\<lambda>p m. ecb_i2a_2 p (u div 10000 div 10000) m" p m _ "\<lambda>p m. ecb_i2a_04 p (u div 10000 mod 10000) m",
        OF f g(2) pos8 mod_less_divisor]
    have 2: "(case ecb_i2a_2 p (u div 10000 div 10000) m of (p, m) \<Rightarrow> ecb_i2a_04 p (u div 10000 mod 10000) m) =
        out p (decimal (unat u div 10 ^ 4)) m" by simp
    from two_pieces [of "\<lambda>p m. case ecb_i2a_2 p (u div 10000 div 10000) m of (p, m) \<Rightarrow> ecb_i2a_04 p (u div 10000 mod 10000) m"
        p m _ "\<lambda>p m. ecb_i2a_04 p (u mod 10000) m", OF 2 g(1) pos mod_less_divisor]
    show ?thesis using False u5 by (simp add: ecb_i2a_u32_def Let_def case_prod_beta)
  qed
qed

text \<open>
  C37: the functions for 64 bits, and those for 32 bits on a machine of 64 bits, write the decimal text
  of every number, with its sign, and nothing else; reading the text gives the number again.
\<close>

theorem decimal_text_written:
  "ecb_i2a_u64 native p u m = put p (decimal_text (uint u)) m \<and>
   ecb_i2a_i64 native p v m = put p (decimal_text (sint v)) m \<and>
   ecb_i2a_u32 True p w m = put p (decimal_text (uint w)) m \<and>
   ecb_i2a_i32 True p z m = put p (decimal_text (sint z)) m \<and>
   read_int (decimal_text (uint u)) = uint u \<and> read_int (decimal_text (sint v)) = sint v"
  by (intro conjI read_decimal_text ecb_i2a_i64_text ecb_i2a_i32_text)
     (simp_all add: ecb_i2a_u64_out ecb_i2a_u32_text out_put decimal_text_def not_less)

text \<open>
  On a machine of 32 bits the function for unsigned numbers of 32 bits writes the text of a number up
  to 59074 but returns the pointer it was given, as if it had written nothing; above the limit it is right.
\<close>

theorem u32_text_on_32_bits:
  "ecb_i2a_u32 False p u m =
     (if unat u \<le> ECB_I2A_MAX_X5 then (p, snd (put p (decimal_text (uint u)) m)) else put p (decimal_text (uint u)) m)"
proof (cases "unat u \<le> ECB_I2A_MAX_X5")
  case True
  then have "u \<le> of_nat ECB_I2A_MAX_X5" by (simp add: word_le_nat_alt ECB_I2A_MAX_X5_def)
  then show ?thesis
    using True ecb_i2a_x5_correct [OF True, of p m]
    by (simp add: ecb_i2a_u32_def out_def put_def decimal_text_def not_less)
next
  case False
  then show ?thesis using ecb_i2a_u32_text32 [of u p m] by (simp add: out_put decimal_text_def not_less)
qed

text \<open>
  The texts are no longer than the limits the header gives for 32 and 64 bits, signed and unsigned.
\<close>

lemma length_decimal: "0 < k \<Longrightarrow> n < 10 ^ k \<Longrightarrow> length (decimal n) \<le> k"
proof (induction k arbitrary: n)
  case (Suc k)
  show ?case
  proof (cases "n < 10")
    case False
    then have "0 < k" using Suc.prems(2) by (cases k) auto
    moreover have "n div 10 < 10 ^ k" using Suc.prems(2) by (simp add: div_less_iff_less_mult mult.commute)
    ultimately show ?thesis using Suc.IH [of "n div 10"] False by (simp add: decimal.simps [of n])
  qed (simp add: decimal.simps)
qed simp

definition ECB_I2A_I32_DIGITS :: nat where "ECB_I2A_I32_DIGITS = 11"
definition ECB_I2A_U32_DIGITS :: nat where "ECB_I2A_U32_DIGITS = 10"
definition ECB_I2A_I64_DIGITS :: nat where "ECB_I2A_I64_DIGITS = 20"
definition ECB_I2A_U64_DIGITS :: nat where "ECB_I2A_U64_DIGITS = 21"

lemma decimal_text_lengths:
  "length (decimal_text (sint (v :: u32))) \<le> ECB_I2A_I32_DIGITS \<and> length (decimal_text (uint v)) \<le> ECB_I2A_U32_DIGITS \<and>
   length (decimal_text (sint (w :: u64))) \<le> ECB_I2A_I64_DIGITS \<and> length (decimal_text (uint w)) \<le> ECB_I2A_U64_DIGITS"
proof -
  have "unat v < 2 ^ 32" "unat w < 2 ^ 64" using unsigned_less [of v] unsigned_less [of w] by simp_all
  moreover have "nat \<bar>sint v\<bar> < 10 ^ 10" "nat \<bar>sint w\<bar> < 10 ^ 19"
    using sint_lt [of v] sint_ge [of v] sint_lt [of w] sint_ge [of w] by simp_all
  ultimately show ?thesis
    using length_decimal [of 10 "nat \<bar>sint v\<bar>"] length_decimal [of 10 "unat v"] length_decimal [of 19 "nat \<bar>sint w\<bar>"]
      length_decimal [of 20 "unat w"]
    by (auto simp: decimal_text_def ECB_I2A_I32_DIGITS_def ECB_I2A_U32_DIGITS_def ECB_I2A_I64_DIGITS_def
        ECB_I2A_U64_DIGITS_def not_less)
qed

end
